(* ===== verification/Prelude.thy ===== *)
theory Prelude
  imports Main "HOL-Library.Char_ord" "HOL-Library.List_Lexorder" "HOL-Library.AList"
begin

text \<open>
  The vocabulary every component shares: Go strings as byte lists with the functions of
  the \<open>strings\<close> package the code calls, results that are an error or a value, loops that
  stop at the first error, association lists for the maps whose keys the code
  enumerates in sorted order, and two's complement 64-bit integers.

  Strings are byte strings, as Go's are. Case mapping and white space are those of the
  ASCII range; bytes outside it are left alone.
\<close>

named_theorems go_defs \<open>definitions of the small operations, unfolded by the component proofs\<close>
named_theorems preserves \<open>one invariant-preservation fact per operation\<close>

section \<open>Results and loops with early return\<close>

type_synonym ('e, 'a) result = "'e + 'a"

definition res_bind :: "('e, 'a) result \<Rightarrow> ('a \<Rightarrow> ('e, 'b) result) \<Rightarrow> ('e, 'b) result" where
  "res_bind r f = (case r of Inl e \<Rightarrow> Inl e | Inr a \<Rightarrow> f a)"

lemma res_bind_simps [simp]:
  "res_bind (Inl e) f = Inl e"
  "res_bind (Inr a) f = f a"
  by (simp_all add: res_bind_def)

lemma res_bind_Inr_conv:
  "res_bind r f = Inr b \<longleftrightarrow> (\<exists>a. r = Inr a \<and> f a = Inr b)"
  by (cases r) auto

lemma res_bind_cong [fundef_cong]:
  "r = r' \<Longrightarrow> (\<And>a. r' = Inr a \<Longrightarrow> f a = g a) \<Longrightarrow> res_bind r f = res_bind r' g"
  by (cases r') auto

lemma not_isl_Inr: "\<not> isl x \<Longrightarrow> \<exists>y. x = Inr y"
  by (cases x) auto

fun res_fold :: "('a \<Rightarrow> 's \<Rightarrow> ('e, 's) result) \<Rightarrow> 'a list \<Rightarrow> 's \<Rightarrow> ('e, 's) result" where
  "res_fold f [] s = Inr s"
| "res_fold f (x # xs) s = res_bind (f x s) (res_fold f xs)"

lemma res_fold_append:
  "res_fold f (xs @ ys) s = res_bind (res_fold f xs s) (res_fold f ys)"
proof (induction xs arbitrary: s)
  case (Cons x xs)
  then show ?case by (cases "f x s") simp_all
qed simp

lemma res_fold_invariant:
  assumes "res_fold f xs s = Inr t" and "P s"
    and "\<And>x s s'. x \<in> set xs \<Longrightarrow> P s \<Longrightarrow> f x s = Inr s' \<Longrightarrow> P s'"
  shows "P t"
  using assms
proof (induction xs arbitrary: s)
  case (Cons x xs)
  from Cons.prems(1) obtain s' where s': "f x s = Inr s'" "res_fold f xs s' = Inr t"
    by (auto simp: res_bind_Inr_conv)
  have "P s'" using Cons.prems(2,3) s'(1) by auto
  then show ?case using Cons.IH [OF s'(2)] Cons.prems(3) by auto
qed simp

lemma res_fold_relate:
  assumes "res_fold f xs s = Inr t" and "R s s"
    and "\<And>x a b. x \<in> set xs \<Longrightarrow> R s a \<Longrightarrow> f x a = Inr b \<Longrightarrow> R s b"
  shows "R s t"
  using res_fold_invariant [of f xs s t "R s"] assms by blast

lemma res_fold_total:
  assumes "\<And>x s. x \<in> set xs \<Longrightarrow> P s \<Longrightarrow> \<exists>s'. f x s = Inr s' \<and> P s'" and "P s"
  shows "\<exists>t. res_fold f xs s = Inr t \<and> P t"
  using assms
proof (induction xs arbitrary: s)
  case (Cons x xs)
  from Cons.prems obtain s' where s': "f x s = Inr s'" "P s'"
    by (meson list.set_intros(1))
  have "\<exists>t. res_fold f xs s' = Inr t \<and> P t"
    using Cons.prems(1) s'(2) by (intro Cons.IH) auto
  with s' show ?case by simp
qed simp

section \<open>Strings\<close>

type_synonym bytes = string

definition NUL :: string where
  "NUL = [CHR 0x00]"

definition has_prefix :: "string \<Rightarrow> string \<Rightarrow> bool" where
  "has_prefix p s \<longleftrightarrow> take (length p) s = p"

lemma has_prefix_append [simp]: "has_prefix p (p @ s)"
  by (simp add: has_prefix_def)

lemma has_prefix_iff: "has_prefix p s \<longleftrightarrow> (\<exists>r. s = p @ r)"
  by (auto simp: has_prefix_def) (metis append_take_drop_id)

definition to_lower_char :: "char \<Rightarrow> char" where
  "to_lower_char c =
     (if CHR ''A'' \<le> c \<and> c \<le> CHR ''Z'' then char_of (of_char c + (32::nat)) else c)"

definition to_upper_char :: "char \<Rightarrow> char" where
  "to_upper_char c =
     (if CHR ''a'' \<le> c \<and> c \<le> CHR ''z'' then char_of (of_char c - (32::nat)) else c)"

definition to_lower :: "string \<Rightarrow> string" where
  "to_lower s = map to_lower_char s"

definition to_upper :: "string \<Rightarrow> string" where
  "to_upper s = map to_upper_char s"

definition is_space :: "char \<Rightarrow> bool" where
  "is_space c \<longleftrightarrow> c \<in> set [CHR '' '', CHR 0x09, CHR 0x0A, CHR 0x0B, CHR 0x0C, CHR 0x0D]"

definition trim_by :: "(char \<Rightarrow> bool) \<Rightarrow> string \<Rightarrow> string" where
  "trim_by P s = rev (dropWhile P (rev (dropWhile P s)))"

definition trim_space :: "string \<Rightarrow> string" where
  "trim_space s = trim_by is_space s"

fun join :: "string \<Rightarrow> string list \<Rightarrow> string" where
  "join sep [] = []"
| "join sep [x] = x"
| "join sep (x # y # ys) = x @ sep @ join sep (y # ys)"

lemma trim_by_ends:
  assumes "trim_by P s \<noteq> []"
  shows "\<not> P (hd (trim_by P s))" and "\<not> P (last (trim_by P s))"
proof -
  let ?t = "dropWhile P (rev (dropWhile P s))"
  have ne: "?t \<noteq> []" using assms by (simp add: trim_by_def)
  show "\<not> P (last (trim_by P s))"
    using hd_dropWhile [OF ne] by (simp add: trim_by_def last_rev)
  obtain pre where pre: "rev (dropWhile P s) = pre @ ?t"
    by (metis takeWhile_dropWhile_id)
  have eq: "dropWhile P s = rev ?t @ rev pre"
    using arg_cong [OF pre, of rev] by simp
  have "dropWhile P s \<noteq> []" using ne by (metis dropWhile.simps(1) rev.simps(1))
  moreover have "hd (dropWhile P s) = hd (rev ?t)"
    by (subst eq, rule hd_append2) (use ne in simp)
  ultimately show "\<not> P (hd (trim_by P s))"
    using hd_dropWhile [of P s] by (simp add: trim_by_def)
qed

lemma set_trim_by: "set (trim_by P s) \<subseteq> set s"
  by (auto simp: trim_by_def dest!: set_dropWhileD)

lemma length_trim_by: "length (trim_by P s) \<le> length s"
  by (simp add: trim_by_def) (metis length_dropWhile_le le_trans length_rev)

section \<open>Maps whose keys are enumerated\<close>

text \<open>A Go map the code ranges over is an association list with distinct keys; every
  place that lets its order out sorts the keys first, and so does the model.\<close>

type_synonym ('k, 'v) amap = "('k \<times> 'v) list"

definition amap_keys :: "('k :: linorder, 'v) amap \<Rightarrow> 'k list" where
  "amap_keys m = sort (remdups (map fst m))"

lemma set_amap_keys [simp]: "set (amap_keys m) = fst ` set m"
  by (simp add: amap_keys_def)

lemma distinct_amap_keys [simp]: "distinct (amap_keys m)"
  by (simp add: amap_keys_def)

lemma sorted_amap_keys [simp]: "sorted (amap_keys m)"
  by (simp add: amap_keys_def)

definition amap_merge :: "('k, 'v) amap \<Rightarrow> ('k, 'v) amap \<Rightarrow> ('k, 'v) amap" where
  "amap_merge old new = AList.updates (map fst (rev new)) (map snd (rev new)) old"

lemma map_of_updates_zip:
  "map_of (AList.updates (map fst kvs) (map snd kvs) m) = map_of m ++ map_of (rev kvs)"
proof (induction kvs arbitrary: m)
  case (Cons kv kvs)
  obtain k v where "kv = (k, v)" by fastforce
  with Cons show ?case
    by (simp add: update_conv' map_add_def fun_eq_iff split: option.split)
qed simp

lemma map_of_amap_merge [simp]: "map_of (amap_merge old new) = map_of old ++ map_of new"
  using map_of_updates_zip [of "rev new" old] by (simp add: amap_merge_def)

lemma distinct_amap_merge:
  "distinct (map fst old) \<Longrightarrow> distinct (map fst (amap_merge old new))"
  by (simp add: amap_merge_def distinct_updates)

lemma map_of_fst_mem: "map_of m k = Some v \<Longrightarrow> k \<in> fst ` set m"
  by (metis map_of_SomeD fst_conv image_eqI)

lemma map_of_None_iff: "map_of m k = None \<longleftrightarrow> k \<notin> fst ` set m"
  by (rule map_of_eq_None_iff)

section \<open>64-bit integers\<close>

definition wrap64 :: "int \<Rightarrow> int" where
  "wrap64 x = (x + 2 ^ 63) mod 2 ^ 64 - 2 ^ 63"

definition in_int64 :: "int \<Rightarrow> bool" where
  "in_int64 x \<longleftrightarrow> - (2 ^ 63) \<le> x \<and> x < 2 ^ 63"

lemma wrap64_id: "in_int64 x \<Longrightarrow> wrap64 x = x"
  by (simp add: wrap64_def in_int64_def mod_pos_pos_trivial)

lemma wrap64_range: "in_int64 (wrap64 x)"
proof -
  have "0 \<le> (x + 2 ^ 63) mod 2 ^ 64" and "(x + 2 ^ 63) mod 2 ^ 64 < 2 ^ 64"
    by (rule pos_mod_sign, simp) (rule pos_mod_bound, simp)
  then show ?thesis by (simp add: wrap64_def in_int64_def)
qed

end
