(* ===== verification/Strconv.thy ===== *)
theory Strconv
  imports Prelude
begin

text \<open>
  Go's \<open>strconv.FormatInt(n, 10)\<close> and \<open>strconv.ParseInt(s, 10, 64)\<close>, which carry event
  log offsets across the string-typed \<open>Msg.ID\<close>, with the round trip the commit protocol
  rests on.
\<close>

definition digit_char :: "nat \<Rightarrow> char" where
  "digit_char d = char_of (48 + d)"

definition digit_val :: "char \<Rightarrow> nat option" where
  "digit_val c =
     (let n = (of_char c :: nat) in if 48 \<le> n \<and> n \<le> 57 then Some (n - 48) else None)"

lemma digit_val_char [simp]: "d < 10 \<Longrightarrow> digit_val (digit_char d) = Some d"
  by (simp add: digit_val_def digit_char_def Let_def)

fun format_nat :: "nat \<Rightarrow> string" where
  "format_nat n =
     (if n < 10 then [digit_char n] else format_nat (n div 10) @ [digit_char (n mod 10)])"

declare format_nat.simps [simp del]

definition format_int :: "int \<Rightarrow> string" where
  "format_int n = (if n < 0 then CHR ''-'' # format_nat (nat (- n)) else format_nat (nat n))"

fun parse_digits :: "nat \<Rightarrow> string \<Rightarrow> nat option" where
  "parse_digits acc [] = Some acc"
| "parse_digits acc (c # cs) =
     (case digit_val c of None \<Rightarrow> None | Some d \<Rightarrow> parse_digits (10 * acc + d) cs)"

definition parse_nat :: "string \<Rightarrow> nat option" where
  "parse_nat s = (if s = [] then None else parse_digits 0 s)"

definition parse_signed :: "string \<Rightarrow> int option" where
  "parse_signed s =
     (case s of
        [] \<Rightarrow> None
      | c # cs \<Rightarrow>
          if c = CHR ''-'' then map_option (\<lambda>n. - int n) (parse_nat cs)
          else if c = CHR ''+'' then map_option int (parse_nat cs)
          else map_option int (parse_nat s))"

definition parse_int64 :: "string \<Rightarrow> int option" where
  "parse_int64 s =
     (case parse_signed s of
        None \<Rightarrow> None
      | Some n \<Rightarrow> if in_int64 n then Some n else None)"

lemma parse_digits_append:
  "parse_digits a (s @ t) = Option.bind (parse_digits a s) (\<lambda>b. parse_digits b t)"
  by (induction a s rule: parse_digits.induct) (auto split: option.split)

lemma format_nat_nonempty [simp]: "format_nat n \<noteq> []"
  by (subst format_nat.simps) simp

lemma parse_format_nat: "parse_digits 0 (format_nat n) = Some n"
proof (induction n rule: format_nat.induct)
  case (1 n)
  show ?case
  proof (cases "n < 10")
    case True
    then show ?thesis by (simp add: format_nat.simps [of n])
  next
    case False
    with 1 show ?thesis
      by (simp add: format_nat.simps [of n] parse_digits_append)
  qed
qed

lemma hd_format_nat_digit: "\<exists>d < 10. hd (format_nat n) = digit_char d"
proof (induction n rule: format_nat.induct)
  case (1 n)
  then show ?case by (cases "n < 10") (auto simp: format_nat.simps [of n])
qed

lemma digit_char_not_sign:
  assumes "d < 10"
  shows "digit_char d \<noteq> CHR ''-''" and "digit_char d \<noteq> CHR ''+''"
proof -
  have "digit_val (CHR ''-'') = None" and "digit_val (CHR ''+'') = None"
    by (simp_all add: digit_val_def)
  with digit_val_char [OF assms]
  show "digit_char d \<noteq> CHR ''-''" and "digit_char d \<noteq> CHR ''+''" by auto
qed

lemma parse_signed_format_int [simp]: "parse_signed (format_int n) = Some n"
proof (cases "n < 0")
  case True
  then show ?thesis
    by (simp add: format_int_def parse_signed_def parse_nat_def parse_format_nat)
next
  case False
  obtain c cs where s: "format_nat (nat n) = c # cs"
    by (cases "format_nat (nat n)") simp_all
  then have "c \<noteq> CHR ''-''" "c \<noteq> CHR ''+''"
    using hd_format_nat_digit [of "nat n"] digit_char_not_sign by auto
  moreover have "parse_nat (c # cs) = Some (nat n)"
    using parse_format_nat [of "nat n"] s by (simp add: parse_nat_def del: parse_digits.simps)
  ultimately show ?thesis
    using False s by (simp add: format_int_def parse_signed_def)
qed

lemma parse_format_int64 [simp]: "in_int64 n \<Longrightarrow> parse_int64 (format_int n) = Some n"
  by (simp add: parse_int64_def)

lemma format_int_inj: "format_int m = format_int n \<Longrightarrow> m = n"
  by (metis option.inject parse_signed_format_int)

section \<open>Quote\<close>

definition hex_digit :: "nat \<Rightarrow> char" where
  "hex_digit n = (if n < 10 then digit_char n else char_of (87 + n))"

text \<open>\<open>strconv.Quote\<close>, the \<open>%q\<close> of error texts, with bytes outside ASCII taken as printable.\<close>

definition quote_char :: "char \<Rightarrow> string" where
  "quote_char c =
     (let n = (of_char c :: nat)
      in if c \<in> {CHR 0x22, CHR 0x5C} then [CHR 0x5C, c]
         else if n = 7 then CHR 0x5C # ''a'' else if n = 8 then CHR 0x5C # ''b''
         else if n = 12 then CHR 0x5C # ''f'' else if n = 10 then CHR 0x5C # ''n''
         else if n = 13 then CHR 0x5C # ''r'' else if n = 9 then CHR 0x5C # ''t''
         else if n = 11 then CHR 0x5C # ''v''
         else if n < 32 \<or> n = 127 then CHR 0x5C # ''x'' @ [hex_digit (n div 16), hex_digit (n mod 16)]
         else [c])"

definition go_quote :: "string \<Rightarrow> string" where
  "go_quote s = CHR 0x22 # concat (map quote_char s) @ [CHR 0x22]"

end
