(* ===== verification/Json.thy ===== *)
theory Json
  imports Strconv
begin

text \<open>
  What the code reads off JSON payloads. A payload is a byte string; the byte-level grammar
  is the job of \<open>encoding/json\<close>'s scanner, which enters as an argument
  \<open>J :: bytes \<Rightarrow> json option\<close> (\<open>None\<close> for bytes that are not JSON), so every fact holds
  for whatever tree the scanner yields. What \<open>Unmarshal\<close> then does with the tree, field
  by field, is written out: object members in order, struct fields matched without regard
  to case, a mismatched or null value leaving the field as it was. The decodes of
  \<open>internal/app/data/models/canonical.go\<close> are built from it.
\<close>

datatype json =
    JNull
  | JBool bool
  | JNum string
  | JStr string
  | JArr "json list"
  | JObj "(string \<times> json) list"

type_synonym json_scanner = "bytes \<Rightarrow> json option"

section \<open>Decoding into struct fields\<close>

fun set_str :: "json \<Rightarrow> string \<Rightarrow> string" where
  "set_str (JStr s) old = s"
| "set_str _ old = old"

fun set_int64 :: "json \<Rightarrow> int \<Rightarrow> int" where
  "set_int64 (JNum lit) old = (case parse_int64 lit of Some n \<Rightarrow> n | None \<Rightarrow> old)"
| "set_int64 _ old = old"

fun set_strs :: "json \<Rightarrow> string list \<Rightarrow> string list" where
  "set_strs (JArr vs) old = map (\<lambda>v. set_str v []) vs"
| "set_strs JNull old = []"
| "set_strs _ old = old"

definition struct_field ::
  "string \<Rightarrow> (json \<Rightarrow> 'v \<Rightarrow> 'v) \<Rightarrow> (string \<times> json) list \<Rightarrow> 'v \<Rightarrow> 'v" where
  "struct_field name upd members zero =
     foldl (\<lambda>acc (k, v). if to_lower k = to_lower name then upd v acc else acc) zero members"

definition obj_members :: "json option \<Rightarrow> (string \<times> json) list" where
  "obj_members j = (case j of Some (JObj ms) \<Rightarrow> ms | _ \<Rightarrow> [])"

definition str_field :: "json option \<Rightarrow> string \<Rightarrow> string" where
  "str_field j name = struct_field name set_str (obj_members j) []"

definition int_field :: "json option \<Rightarrow> string \<Rightarrow> int" where
  "int_field j name = struct_field name set_int64 (obj_members j) 0"

definition strs_field :: "json option \<Rightarrow> string \<Rightarrow> string list" where
  "strs_field j name = struct_field name set_strs (obj_members j) []"

text \<open>A decode into \<open>map[string]json.RawMessage\<close> matches keys exactly, and the last member
  of a repeated key wins.\<close>

definition raw_field :: "(string \<times> json) list \<Rightarrow> string \<Rightarrow> json option" where
  "raw_field ms name = map_of (rev ms) name"

section \<open>The canonical item contract\<close>

text \<open>\<open>CanonicalFields\<close>: the id may be a string or a number, kind and state must be
  strings; whatever is missing or of another type is the empty string.\<close>

definition canonical_str :: "json option \<Rightarrow> string" where
  "canonical_str v = (case v of Some (JStr s) \<Rightarrow> trim_space s | _ \<Rightarrow> [])"

definition canonical_fields :: "json_scanner \<Rightarrow> bytes \<Rightarrow> string \<times> string \<times> string" where
  "canonical_fields J payload =
     (let fields = obj_members (J payload);
          id = (case raw_field fields ''id'' of
                  Some (JStr s) \<Rightarrow> trim_space s
                | Some (JNum lit) \<Rightarrow> lit
                | _ \<Rightarrow> [])
      in (id, canonical_str (raw_field fields ''kind''), canonical_str (raw_field fields ''state'')))"

text \<open>\<open>FeedFields\<close>: the presentation a feed row renders.\<close>

definition feed_fields :: "json_scanner \<Rightarrow> bytes \<Rightarrow> string \<times> string \<times> int" where
  "feed_fields J payload =
     (let j = J payload in (str_field j ''title'', str_field j ''url'', int_field j ''updatedAt''))"

lemma struct_field_Nil [simp]: "struct_field name upd [] zero = zero"
  by (simp add: struct_field_def)

lemma feed_fields_not_object:
  "obj_members (J payload) = [] \<Longrightarrow> feed_fields J payload = ([], [], 0)"
  by (simp add: feed_fields_def str_field_def int_field_def Let_def)

lemma canonical_fields_not_object:
  "obj_members (J payload) = [] \<Longrightarrow> canonical_fields J payload = ([], [], [])"
  by (simp add: canonical_fields_def raw_field_def canonical_str_def Let_def)

end
