(* ===== verification/Flow.thy ===== *)
theory Flow
  imports Json
begin

text \<open>
  The flow schema of \<open>internal/app/flow\<close>: flows, nodes, wires, the per-type node
  configurations with their port counts and validation, and slugs. The checks of
  \<open>validateFlow\<close> that concern the whole graph are in \<open>Validate\<close>.

  What is decided outside the package comes in through \<open>refs\<close>: the actions catalogue
  (\<open>flow.Refs\<close>, which may be nil, and its optional headless interface), the doublestar
  pattern check and the connectors' own \<open>Validate\<close>. A connector's parsed configuration is
  kept as an opaque string.
\<close>

section \<open>Slugs\<close>

definition max_slug_len :: nat where
  "max_slug_len = 64"

definition slug_alnum :: "char \<Rightarrow> bool" where
  "slug_alnum c \<longleftrightarrow>
     (CHR ''a'' \<le> c \<and> c \<le> CHR ''z'') \<or> (CHR ''0'' \<le> c \<and> c \<le> CHR ''9'')"

definition slug_pattern :: "string \<Rightarrow> bool" where
  "slug_pattern s \<longleftrightarrow>
     (case s of [] \<Rightarrow> False
      | c # cs \<Rightarrow> slug_alnum c \<and> list_all (\<lambda>d. slug_alnum d \<or> d = CHR ''-'') cs)"

definition valid_slug :: "string \<Rightarrow> bool" where
  "valid_slug s \<longleftrightarrow> s \<noteq> [] \<and> length s \<le> max_slug_len \<and> slug_pattern s"

function replace_non_slug_runs :: "string \<Rightarrow> string" where
  "replace_non_slug_runs [] = []"
| "replace_non_slug_runs (c # cs) =
     (if slug_alnum c then c # replace_non_slug_runs cs
      else CHR ''-'' # replace_non_slug_runs (dropWhile (\<lambda>d. \<not> slug_alnum d) cs))"
  by pat_completeness auto
termination
  by (relation "measure length") (auto simp: le_imp_less_Suc length_dropWhile_le)

definition trim_hyphens :: "string \<Rightarrow> string" where
  "trim_hyphens s = trim_by (\<lambda>c. c = CHR ''-'') s"

definition slugify :: "string \<Rightarrow> string" where
  "slugify name =
     (let s = to_lower (trim_space name);
          s = replace_non_slug_runs s;
          s = trim_hyphens s;
          s = (if max_slug_len < length s then trim_hyphens (take max_slug_len s) else s)
      in if s = [] then ''flow'' else s)"

section \<open>Node configurations\<close>

record github_filter_config =
  gf_repos :: "string list"
  gf_exclude_repos :: "string list"
  gf_authors :: "string list"
  gf_exclude_authors :: "string list"
  gf_labels :: "string list"
  gf_exclude_labels :: "string list"
  gf_types :: "string list"
  gf_reasons :: "string list"
  gf_ci :: "string list"
  gf_review :: "string list"

record function_config =
  fn_on_message :: string
  fn_outputs_n :: int
  fn_timeout :: int \<comment> \<open>nanoseconds, 0 when omitted\<close>

record feed_config =
  fd_icon :: string
  fd_description :: string

record notify_config =
  nt_title :: string
  nt_body :: string
  nt_severity :: string
  nt_sound :: "bool option"
  nt_cooldown_seconds :: "int option"

datatype node_config =
    GithubFilterConfig github_filter_config
  | FunctionConfig function_config
  | FeedConfig feed_config
  | ActionConfig string
  | NotifyConfig notify_config
  | SourceConfig string "string option" \<comment> \<open>connector type, its configuration or nil\<close>

record node =
  n_id :: string
  n_type :: string
  n_name :: string
  n_disabled :: bool
  n_config :: "node_config option"

record wire =
  w_from :: string
  w_out :: int
  w_to :: string

datatype resurface_policy =
    PolicyUnset | PolicyAll | PolicyStateChanges | PolicyNever | PolicyOther string

record flow =
  f_id :: string
  f_name :: string
  f_enabled :: bool
  f_resurface :: resurface_policy
  f_image :: string
  f_nodes :: "node list"
  f_wires :: "wire list"

definition feed_id :: "flow \<Rightarrow> string \<Rightarrow> string" where
  "feed_id f nid = f_id f @ ''/'' @ nid"

definition feed_nodes :: "flow \<Rightarrow> node list" where
  "feed_nodes f = filter (\<lambda>n. n_type n = ''feed'') (f_nodes f)"

section \<open>Ports\<close>

definition default_outputs :: int where
  "default_outputs = 1"

definition function_outputs :: "function_config \<Rightarrow> int" where
  "function_outputs c = (if fn_outputs_n c \<le> 0 then default_outputs else fn_outputs_n c)"

fun config_inputs :: "node_config \<Rightarrow> int" where
  "config_inputs (GithubFilterConfig _) = 1"
| "config_inputs (FunctionConfig _) = 1"
| "config_inputs (FeedConfig _) = 1"
| "config_inputs (ActionConfig _) = 1"
| "config_inputs (NotifyConfig _) = 1"
| "config_inputs (SourceConfig _ _) = 0"

fun config_outputs :: "node_config \<Rightarrow> int" where
  "config_outputs (GithubFilterConfig _) = 2"
| "config_outputs (FunctionConfig c) = function_outputs c"
| "config_outputs (FeedConfig _) = 0"
| "config_outputs (ActionConfig _) = 0"
| "config_outputs (NotifyConfig _) = 0"
| "config_outputs (SourceConfig _ _) = 1"

section \<open>Validation of one node's configuration\<close>

record refs =
  resolve_action :: "(string \<Rightarrow> bool) option"
  action_headless :: "(string \<Rightarrow> bool) option"
  valid_glob :: "string \<Rightarrow> bool"
  connector_validate :: "string \<Rightarrow> string \<Rightarrow> string option"

definition refs_resolve_action :: "refs \<Rightarrow> string \<Rightarrow> bool" where
  "refs_resolve_action R i = (case resolve_action R of None \<Rightarrow> False | Some r \<Rightarrow> r i)"

definition refs_action_headless_capable :: "refs \<Rightarrow> string \<Rightarrow> bool" where
  "refs_action_headless_capable R i = (case action_headless R of None \<Rightarrow> True | Some h \<Rightarrow> h i)"

datatype config_error =
    FilterEmpty
  | FilterBadGlob string string
  | FilterBadType string
  | FilterBadReason string
  | FilterBadCI string
  | FilterBadReview string
  | FunctionNoScript
  | FunctionOutputsRange int
  | FunctionTimeoutRange int
  | FeedIconUnsupported string
  | FeedDescriptionTooLong
  | ActionRequired
  | ActionIdInvalid string
  | ActionUnresolved string
  | ActionNotHeadless string
  | NotifyTitleRequired
  | NotifyTitleTooLong
  | NotifyBodyTooLong
  | NotifySeverityUnsupported string
  | NotifyCooldownNegative
  | SourceNoConfig string
  | SourceConfigInvalid string

definition filter_valid_types :: "string list" where
  "filter_valid_types = [''pr'', ''issue'']"

definition filter_valid_ci :: "string list" where
  "filter_valid_ci = [''none'', ''passing'', ''pending'', ''failing'']"

definition filter_valid_review :: "string list" where
  "filter_valid_review =
     [''open'', ''draft'', ''approved'', ''changes_requested'', ''review_required'']"

definition filter_valid_reasons :: "string list" where
  "filter_valid_reasons =
     [''approval_requested'', ''assign'', ''author'', ''ci_activity'', ''comment'',
      ''invitation'', ''manual'', ''member_feature_requested'', ''mention'',
      ''review_requested'', ''security_advisory_credit'', ''security_alert'',
      ''state_change'', ''subscribed'', ''team_mention'']"

definition github_filter_empty :: "github_filter_config \<Rightarrow> bool" where
  "github_filter_empty c \<longleftrightarrow>
     gf_repos c = [] \<and> gf_exclude_repos c = [] \<and>
     gf_authors c = [] \<and> gf_exclude_authors c = [] \<and>
     gf_labels c = [] \<and> gf_exclude_labels c = [] \<and>
     gf_types c = [] \<and> gf_reasons c = [] \<and> gf_ci c = [] \<and> gf_review c = []"

text \<open>The validation loops: the first offending value is the error.\<close>

definition first_bad :: "('a \<Rightarrow> bool) \<Rightarrow> ('a \<Rightarrow> 'e) \<Rightarrow> 'a list \<Rightarrow> ('e, unit) result" where
  "first_bad ok err xs = (case find (\<lambda>x. \<not> ok x) xs of None \<Rightarrow> Inr () | Some x \<Rightarrow> Inl (err x))"

definition github_filter_validate :: "refs \<Rightarrow> github_filter_config \<Rightarrow> (config_error, unit) result" where
  "github_filter_validate R c =
     (if github_filter_empty c then Inl FilterEmpty
      else res_bind (first_bad (\<lambda>(_, p). valid_glob R p) (\<lambda>(g, p). FilterBadGlob g p)
             (concat (map (\<lambda>(g, ps). map (Pair g) ps)
                [(''repos'', gf_repos c), (''exclude_repos'', gf_exclude_repos c),
                 (''authors'', gf_authors c), (''exclude_authors'', gf_exclude_authors c),
                 (''labels'', gf_labels c), (''exclude_labels'', gf_exclude_labels c)]))) (\<lambda>_.
           res_bind (first_bad (\<lambda>t. to_lower t \<in> set filter_valid_types) FilterBadType (gf_types c)) (\<lambda>_.
           res_bind (first_bad (\<lambda>r. r \<in> set filter_valid_reasons) FilterBadReason (gf_reasons c)) (\<lambda>_.
           res_bind (first_bad (\<lambda>s. to_lower s \<in> set filter_valid_ci) FilterBadCI (gf_ci c)) (\<lambda>_.
           first_bad (\<lambda>s. to_lower s \<in> set filter_valid_review) FilterBadReview (gf_review c))))))"

definition min_outputs :: int where "min_outputs = 1"
definition max_outputs :: int where "max_outputs = 16"
definition min_function_timeout :: int where "min_function_timeout = 100 * 1000000"
definition max_function_timeout :: int where "max_function_timeout = 60 * 1000000000"
definition default_function_timeout :: int where "default_function_timeout = 5 * 1000000000"

definition function_validate :: "function_config \<Rightarrow> (config_error, unit) result" where
  "function_validate c =
     (if trim_space (fn_on_message c) = [] then Inl FunctionNoScript
      else if fn_outputs_n c \<noteq> 0 \<and> (fn_outputs_n c < min_outputs \<or> max_outputs < fn_outputs_n c)
        then Inl (FunctionOutputsRange (fn_outputs_n c))
      else if fn_timeout c \<noteq> 0 \<and>
              (fn_timeout c < min_function_timeout \<or> max_function_timeout < fn_timeout c)
        then Inl (FunctionTimeoutRange (fn_timeout c))
      else Inr ())"

definition effective_timeout :: "function_config \<Rightarrow> int" where
  "effective_timeout c = (if fn_timeout c \<noteq> 0 then fn_timeout c else default_function_timeout)"

definition feed_icons :: "string list" where
  "feed_icons =
     [''git-branch'', ''git-pull-request'', ''circle-dot'', ''message-square'', ''at-sign'',
      ''rss'', ''webhook'', ''bell'', ''eye'', ''star'', ''bug'', ''shield'', ''zap'',
      ''sparkles'', ''flag'', ''inbox'', ''users'', ''tag'', ''package'', ''rocket'',
      ''clock'', ''terminal'']"

definition valid_feed_icon :: "string \<Rightarrow> bool" where
  "valid_feed_icon name \<longleftrightarrow> name = [] \<or> name \<in> set feed_icons"

text \<open>\<open>utf8.RuneCountInString\<close> on the valid UTF-8 the decoders produce: every byte that
  does not continue a character starts one.\<close>

definition rune_count :: "string \<Rightarrow> nat" where
  "rune_count s = length (filter (\<lambda>c. \<not> (128 \<le> (of_char c :: nat) \<and> (of_char c :: nat) < 192)) s)"

definition feed_description_max_len :: nat where "feed_description_max_len = 500"

definition feed_validate :: "feed_config \<Rightarrow> (config_error, unit) result" where
  "feed_validate c =
     (if \<not> valid_feed_icon (fd_icon c) then Inl (FeedIconUnsupported (fd_icon c))
      else if feed_description_max_len < rune_count (fd_description c) then Inl FeedDescriptionTooLong
      else Inr ())"

definition action_validate :: "refs \<Rightarrow> string \<Rightarrow> (config_error, unit) result" where
  "action_validate R a =
     (if a = [] then Inl ActionRequired
      else if \<not> valid_slug a then Inl (ActionIdInvalid a)
      else if \<not> refs_resolve_action R a then Inl (ActionUnresolved a)
      else if \<not> refs_action_headless_capable R a then Inl (ActionNotHeadless a)
      else Inr ())"

definition notify_severities :: "string list" where
  "notify_severities = [''info'', ''success'', ''warning'', ''error'']"

definition notify_title_max_len :: nat where "notify_title_max_len = 200"
definition notify_body_max_len :: nat where "notify_body_max_len = 1000"

definition notify_validate :: "notify_config \<Rightarrow> (config_error, unit) result" where
  "notify_validate c =
     (if trim_space (nt_title c) = [] then Inl NotifyTitleRequired
      else if notify_title_max_len < rune_count (nt_title c) then Inl NotifyTitleTooLong
      else if notify_body_max_len < rune_count (nt_body c) then Inl NotifyBodyTooLong
      else if nt_severity c \<noteq> [] \<and> nt_severity c \<notin> set notify_severities
        then Inl (NotifySeverityUnsupported (nt_severity c))
      else if (case nt_cooldown_seconds c of Some n \<Rightarrow> n < 0 | None \<Rightarrow> False)
        then Inl NotifyCooldownNegative
      else Inr ())"

definition severity_or_default :: "notify_config \<Rightarrow> string" where
  "severity_or_default c = (if nt_severity c = [] then ''info'' else nt_severity c)"

definition sound_or_default :: "notify_config \<Rightarrow> bool" where
  "sound_or_default c = (case nt_sound c of None \<Rightarrow> True | Some b \<Rightarrow> b)"

definition notify_cooldown_default :: int where
  "notify_cooldown_default = 5 * 60 * 1000000000"

definition cooldown_or_default :: "notify_config \<Rightarrow> int" where
  "cooldown_or_default c =
     (case nt_cooldown_seconds c of None \<Rightarrow> notify_cooldown_default
      | Some n \<Rightarrow> wrap64 (n * 1000000000))"

definition source_validate :: "refs \<Rightarrow> string \<Rightarrow> string option \<Rightarrow> (config_error, unit) result" where
  "source_validate R ty inner =
     (case inner of None \<Rightarrow> Inl (SourceNoConfig ty)
      | Some cfg \<Rightarrow> (case connector_validate R ty cfg of None \<Rightarrow> Inr ()
                     | Some e \<Rightarrow> Inl (SourceConfigInvalid e)))"

fun config_validate :: "refs \<Rightarrow> node_config \<Rightarrow> (config_error, unit) result" where
  "config_validate R (GithubFilterConfig c) = github_filter_validate R c"
| "config_validate R (FunctionConfig c) = function_validate c"
| "config_validate R (FeedConfig c) = feed_validate c"
| "config_validate R (ActionConfig a) = action_validate R a"
| "config_validate R (NotifyConfig c) = notify_validate c"
| "config_validate R (SourceConfig ty inner) = source_validate R ty inner"

section \<open>Slugify always produces a valid slug\<close>

lemma set_replace_non_slug_runs:
  "c \<in> set (replace_non_slug_runs s) \<Longrightarrow> slug_alnum c \<or> c = CHR ''-''"
  by (induction s rule: replace_non_slug_runs.induct) (auto split: if_splits)

lemma slug_pattern_trimmed:
  assumes chars: "\<And>c. c \<in> set s \<Longrightarrow> slug_alnum c \<or> c = CHR ''-''"
    and ne: "trim_hyphens s \<noteq> []"
  shows "slug_pattern (trim_hyphens s)"
proof -
  obtain c cs where t: "trim_hyphens s = c # cs" using ne by (cases "trim_hyphens s") auto
  have "set (trim_hyphens s) \<subseteq> set s"
    unfolding trim_hyphens_def by (rule set_trim_by)
  moreover have "c \<noteq> CHR ''-''"
    using trim_by_ends(1) [of "\<lambda>c. c = CHR ''-''" s] ne t by (simp add: trim_hyphens_def)
  ultimately show ?thesis
    using t chars by (auto simp: slug_pattern_def list_all_iff)
qed

lemma length_trim_hyphens: "length (trim_hyphens s) \<le> length s"
  by (simp add: trim_hyphens_def length_trim_by)

text \<open>
  Whatever display name a flow is given, \<open>slugify\<close> returns an id the schema
  accepts: never empty, at most 64 characters, lowercase letters, digits and hyphens, the
  first one a letter or digit. The loader can therefore always read back a flow saved under
  a slugified name.
\<close>

theorem slugify_valid: "valid_slug (slugify name)"
proof -
  define s1 where "s1 = replace_non_slug_runs (to_lower (trim_space name))"
  define s2 where "s2 = trim_hyphens s1"
  define s3 where "s3 = (if max_slug_len < length s2 then trim_hyphens (take max_slug_len s2) else s2)"
  have ok1: "slug_alnum c \<or> c = CHR ''-''" if "c \<in> set s1" for c
    using that set_replace_non_slug_runs by (auto simp: s1_def)
  have ok2: "slug_alnum c \<or> c = CHR ''-''" if "c \<in> set (take max_slug_len s2)" for c
    using that ok1 set_trim_by by (fastforce simp: s2_def trim_hyphens_def dest: in_set_takeD)
  have pat: "s3 \<noteq> [] \<Longrightarrow> slug_pattern s3"
    using slug_pattern_trimmed [of s1] slug_pattern_trimmed [of "take max_slug_len s2"] ok1 ok2
    by (auto simp: s3_def s2_def)
  have len: "length s3 \<le> max_slug_len"
    using length_trim_hyphens [of "take max_slug_len s2"] by (auto simp: s3_def)
  have "slugify name = (if s3 = [] then ''flow'' else s3)"
    by (simp add: slugify_def s3_def s2_def s1_def Let_def)
  moreover have "valid_slug ''flow''"
    by (simp add: valid_slug_def slug_pattern_def slug_alnum_def max_slug_len_def)
  ultimately show ?thesis
    using pat len by (auto simp: valid_slug_def)
qed

end
