(* ===== verification/Validate.thy ===== *)
theory Validate
  imports Flow
begin

text \<open>
  The whole-flow checks of \<open>internal/app/flow/validate.go\<close>: ids, per-node configuration,
  wires, and the depth-first search for a cycle, then the warnings. The search recurses
  along unvisited nodes; its recursion depth is the \<open>fuel\<close> argument, and one more than the
  number of nodes is always enough (\<open>find_cycle_never_out_of_fuel\<close>).
\<close>

section \<open>Errors and warnings\<close>

datatype flow_error =
    UnknownResurface resurface_policy
  | NodeIdRequired
  | NodeIdInvalid string
  | NodeIdDuplicate string
  | NodeNoConfig string
  | NodeConfigError string string config_error
  | WireUnknownSource wire
  | WireUnknownTarget wire
  | WireFromTerminal wire
  | WireToSource wire
  | WireOutOfRange wire int
  | WireDuplicate wire
  | FlowHasCycle "string list"
  | CycleSearchOutOfFuel

datatype flow_warning =
    NodeDisabled string
  | TerminalWithoutInbound string string
  | NoTerminal

section \<open>Cycle search\<close>

datatype color = White | Gray | Black

record dfs_state =
  d_color :: "string \<Rightarrow> color"
  d_path :: "string list"

datatype dfs_result = DfsCycle "string list" | DfsDone | DfsOutOfFuel

fun index_of :: "string list \<Rightarrow> string \<Rightarrow> nat" where
  "index_of [] v = 0"
| "index_of (x # xs) v = (if x = v then 0 else Suc (index_of xs v))"

definition dfs_enter :: "string \<Rightarrow> dfs_state \<Rightarrow> dfs_state" where
  "dfs_enter x st = st\<lparr>d_color := (d_color st)(x := Gray), d_path := d_path st @ [x]\<rparr>"

definition dfs_leave :: "string \<Rightarrow> dfs_state \<Rightarrow> dfs_state" where
  "dfs_leave x st = st\<lparr>d_color := (d_color st)(x := Black), d_path := butlast (d_path st)\<rparr>"

text \<open>The loop of \<open>visit\<close> over a node's successors; a white successor is visited first.\<close>

fun visit_each ::
  "nat \<Rightarrow> (string \<Rightarrow> string list) \<Rightarrow> string list \<Rightarrow> dfs_state \<Rightarrow> dfs_result \<times> dfs_state" where
  "visit_each fuel adj [] st = (DfsDone, st)"
| "visit_each fuel adj (x # rest) st =
     (case d_color st x of
        White \<Rightarrow>
          (case fuel of
             0 \<Rightarrow> (DfsOutOfFuel, st)
           | Suc k \<Rightarrow>
               (case visit_each k adj (adj x) (dfs_enter x st) of
                  (DfsDone, st') \<Rightarrow> visit_each fuel adj rest (dfs_leave x st')
                | stopped \<Rightarrow> stopped))
      | Gray \<Rightarrow> (DfsCycle (drop (index_of (d_path st) x) (d_path st) @ [x]), st)
      | Black \<Rightarrow> visit_each fuel adj rest st)"

text \<open>The outer loop starts a visit at every node that is still white.\<close>

fun visit_roots ::
  "nat \<Rightarrow> (string \<Rightarrow> string list) \<Rightarrow> string list \<Rightarrow> dfs_state \<Rightarrow> dfs_result \<times> dfs_state" where
  "visit_roots fuel adj [] st = (DfsDone, st)"
| "visit_roots fuel adj (x # rest) st =
     (if d_color st x = White
      then (case visit_each fuel adj [x] st of
              (DfsDone, st') \<Rightarrow> visit_roots fuel adj rest st'
            | stopped \<Rightarrow> stopped)
      else visit_roots fuel adj rest st)"

definition dfs_start :: dfs_state where
  "dfs_start = \<lparr>d_color = (\<lambda>_. White), d_path = []\<rparr>"

definition find_cycle :: "string list \<Rightarrow> (string \<Rightarrow> string list) \<Rightarrow> dfs_result" where
  "find_cycle ids adj = fst (visit_roots (Suc (length ids)) adj ids dfs_start)"

section \<open>validateFlow\<close>

fun validate_ids :: "node list \<Rightarrow> string list \<Rightarrow> (flow_error, unit) result" where
  "validate_ids [] seen = Inr ()"
| "validate_ids (n # ns) seen =
     (if n_id n = [] then Inl NodeIdRequired
      else if \<not> valid_slug (n_id n) then Inl (NodeIdInvalid (n_id n))
      else if n_id n \<in> set seen then Inl (NodeIdDuplicate (n_id n))
      else validate_ids ns (n_id n # seen))"

fun validate_configs :: "refs \<Rightarrow> node list \<Rightarrow> (flow_error, unit) result" where
  "validate_configs R [] = Inr ()"
| "validate_configs R (n # ns) =
     (case n_config n of
        None \<Rightarrow> Inl (NodeNoConfig (n_id n))
      | Some cfg \<Rightarrow>
          (case config_validate R cfg of
             Inl e \<Rightarrow> Inl (NodeConfigError (n_id n) (n_type n) e)
           | Inr _ \<Rightarrow> validate_configs R ns))"

definition node_outputs :: "node \<Rightarrow> int" where
  "node_outputs n = (case n_config n of None \<Rightarrow> 0 | Some cfg \<Rightarrow> config_outputs cfg)"

definition node_inputs :: "node \<Rightarrow> int" where
  "node_inputs n = (case n_config n of None \<Rightarrow> 0 | Some cfg \<Rightarrow> config_inputs cfg)"

definition node_by_id :: "node list \<Rightarrow> string \<Rightarrow> node option" where
  "node_by_id ns x = map_of (map (\<lambda>n. (n_id n, n)) (rev ns)) x"

definition wire_key :: "wire \<Rightarrow> string" where
  "wire_key w = w_from w @ NUL @ format_int (w_out w) @ NUL @ w_to w"

definition validate_wire :: "node list \<Rightarrow> wire \<Rightarrow> (flow_error, unit) result" where
  "validate_wire ns w =
     (case node_by_id ns (w_from w) of
        None \<Rightarrow> Inl (WireUnknownSource w)
      | Some src \<Rightarrow>
          (case node_by_id ns (w_to w) of
             None \<Rightarrow> Inl (WireUnknownTarget w)
           | Some dst \<Rightarrow>
               if node_outputs src = 0 then Inl (WireFromTerminal w)
               else if node_inputs dst = 0 then Inl (WireToSource w)
               else if w_out w < 0 \<or> node_outputs src \<le> w_out w
                 then Inl (WireOutOfRange w (node_outputs src))
               else Inr ()))"

fun validate_wires :: "node list \<Rightarrow> wire list \<Rightarrow> string list \<Rightarrow> (flow_error, unit) result" where
  "validate_wires ns [] seen = Inr ()"
| "validate_wires ns (w # ws) seen =
     res_bind (validate_wire ns w) (\<lambda>_.
       if wire_key w \<in> set seen then Inl (WireDuplicate w)
       else validate_wires ns ws (wire_key w # seen))"

definition adjacency :: "wire list \<Rightarrow> string \<Rightarrow> string list" where
  "adjacency ws x = map w_to (filter (\<lambda>w. w_from w = x) ws)"

definition inbound :: "wire list \<Rightarrow> string \<Rightarrow> nat" where
  "inbound ws x = length (filter (\<lambda>w. w_to w = x) ws)"

definition node_warnings :: "wire list \<Rightarrow> node \<Rightarrow> flow_warning list" where
  "node_warnings ws n =
     (if n_disabled n then [NodeDisabled (n_id n)] else []) @
     (if node_outputs n = 0 \<and> inbound ws (n_id n) = 0
      then [TerminalWithoutInbound (n_id n) (n_type n)] else [])"

definition flow_warnings :: "flow \<Rightarrow> flow_warning list" where
  "flow_warnings f =
     concat (map (node_warnings (f_wires f)) (f_nodes f)) @
     (if list_ex (\<lambda>n. node_outputs n = 0) (f_nodes f) then [] else [NoTerminal])"

definition resurface_is_valid :: "resurface_policy \<Rightarrow> bool" where
  "resurface_is_valid p \<longleftrightarrow> p = PolicyAll \<or> p = PolicyStateChanges \<or> p = PolicyNever"

definition validate_flow :: "refs \<Rightarrow> flow \<Rightarrow> (flow_error, flow_warning list) result" where
  "validate_flow R f =
     (if f_resurface f \<noteq> PolicyUnset \<and> \<not> resurface_is_valid (f_resurface f)
      then Inl (UnknownResurface (f_resurface f))
      else res_bind (validate_ids (f_nodes f) []) (\<lambda>_.
           res_bind (validate_configs R (f_nodes f)) (\<lambda>_.
           res_bind (validate_wires (f_nodes f) (f_wires f) []) (\<lambda>_.
           (case find_cycle (map n_id (f_nodes f)) (adjacency (f_wires f)) of
              DfsCycle c \<Rightarrow> Inl (FlowHasCycle c)
            | DfsOutOfFuel \<Rightarrow> Inl CycleSearchOutOfFuel
            | DfsDone \<Rightarrow> Inr (flow_warnings f))))))"

section \<open>The cycle search terminates with an answer\<close>

definition whites :: "dfs_state \<Rightarrow> string set" where
  "whites st = {x. d_color st x = White}"

definition grays :: "dfs_state \<Rightarrow> string set" where
  "grays st = {x. d_color st x = Gray}"

definition blacks :: "dfs_state \<Rightarrow> string set" where
  "blacks st = {x. d_color st x = Black}"

lemma color_sets_simps [simp]:
  "whites (dfs_enter x st) = whites st - {x}"
  "whites (dfs_leave x st) = whites st - {x}"
  "grays (dfs_enter x st) = insert x (grays st)"
  "grays (dfs_leave x st) = grays st - {x}"
  "blacks (dfs_enter x st) = blacks st - {x}"
  "blacks (dfs_leave x st) = insert x (blacks st)"
  "d_path (dfs_enter x st) = d_path st @ [x]"
  "d_path (dfs_leave x st) = butlast (d_path st)"
  by (auto simp: whites_def grays_def blacks_def dfs_enter_def dfs_leave_def)

lemma color_mem:
  "x \<in> whites st \<longleftrightarrow> d_color st x = White"
  "x \<in> grays st \<longleftrightarrow> d_color st x = Gray"
  "x \<in> blacks st \<longleftrightarrow> d_color st x = Black"
  by (simp_all add: whites_def grays_def blacks_def)

lemma visit_each_whites:
  "visit_each fuel adj xs st = (r, st') \<Longrightarrow> whites st' \<subseteq> whites st"
proof (induction fuel adj xs st arbitrary: r st' rule: visit_each.induct)
  case (2 fuel adj x rest st)
  show ?case
  proof (cases "d_color st x")
    case White
    show ?thesis
    proof (cases fuel)
      case 0
      with White "2.prems" show ?thesis by simp
    next
      case (Suc k)
      obtain r1 s1 where inner: "visit_each k adj (adj x) (dfs_enter x st) = (r1, s1)"
        by fastforce
      have "whites s1 \<subseteq> whites st"
        using "2.IH"(1) [OF White Suc inner] by auto
      moreover have "whites st' \<subseteq> whites (dfs_leave x s1)" if "r1 = DfsDone"
        using "2.IH"(2) [OF White Suc inner [symmetric] that] "2.prems" White Suc inner that
        by simp
      ultimately show ?thesis
        using "2.prems" White Suc inner by (cases r1) auto
    qed
  qed (use "2" in auto)
qed auto

lemma card_less_whites:
  assumes "finite U" and "x \<in> U" and "d_color st x = White" and "card (whites st \<inter> U) \<le> Suc k"
  shows "card (whites (dfs_enter x st) \<inter> U) \<le> k"
proof -
  have "whites (dfs_enter x st) \<inter> U = (whites st \<inter> U) - {x}" by auto
  moreover have "x \<in> whites st \<inter> U" using assms by (simp add: whites_def)
  ultimately show ?thesis using assms(1,4) by simp
qed

lemma visit_each_fuel:
  assumes "finite U" and "\<forall>x\<in>U. set (adj x) \<subseteq> U"
  shows "set xs \<subseteq> U \<Longrightarrow> card (whites st \<inter> U) \<le> fuel \<Longrightarrow>
         fst (visit_each fuel adj xs st) \<noteq> DfsOutOfFuel"
  using assms
proof (induction fuel adj xs st rule: visit_each.induct)
  case (2 fuel adj x rest st)
  show ?case
  proof (cases "d_color st x")
    case White
    then have "card (whites st \<inter> U) \<noteq> 0"
      using "2.prems" by (auto simp: whites_def)
    then obtain k where Suc: "fuel = Suc k" using "2.prems"(2) by (cases fuel) auto
    obtain r1 s1 where inner: "visit_each k adj (adj x) (dfs_enter x st) = (r1, s1)"
      by fastforce
    have enter: "card (whites (dfs_enter x st) \<inter> U) \<le> k"
      using card_less_whites "2.prems" White Suc by simp
    have r1: "r1 \<noteq> DfsOutOfFuel"
      using "2.IH"(1) [OF White Suc] enter "2.prems" inner by auto
    have "whites (dfs_leave x s1) \<inter> U \<subseteq> whites st \<inter> U"
      using visit_each_whites [OF inner] by auto
    then have "card (whites (dfs_leave x s1) \<inter> U) \<le> fuel"
      using "2.prems" by (meson card_mono finite_Int le_trans)
    then have "fst (visit_each fuel adj rest (dfs_leave x s1)) \<noteq> DfsOutOfFuel" if "r1 = DfsDone"
      using "2.IH"(2) [OF White Suc inner [symmetric] that] "2.prems" by simp
    with r1 White Suc inner show ?thesis by (cases r1) auto
  qed (use "2" in auto)
qed simp

lemma visit_roots_fuel:
  assumes "finite U" and "\<forall>x\<in>U. set (adj x) \<subseteq> U"
  shows "set xs \<subseteq> U \<Longrightarrow> card (whites st \<inter> U) \<le> fuel \<Longrightarrow>
         fst (visit_roots fuel adj xs st) \<noteq> DfsOutOfFuel"
  using assms
proof (induction fuel adj xs st rule: visit_roots.induct)
  case (2 fuel adj x rest st)
  obtain r1 s1 where inner: "visit_each fuel adj [x] st = (r1, s1)" by fastforce
  have r1: "r1 \<noteq> DfsOutOfFuel"
    using visit_each_fuel [of U adj "[x]" st fuel] "2.prems" inner by auto
  have "whites s1 \<inter> U \<subseteq> whites st \<inter> U" using visit_each_whites [OF inner] by auto
  then have card: "card (whites s1 \<inter> U) \<le> fuel"
    using "2.prems" by (meson card_mono finite_Int le_trans)
  show ?case
  proof (cases "d_color st x = White")
    case True
    have "fst (visit_roots fuel adj rest s1) \<noteq> DfsOutOfFuel" if "r1 = DfsDone"
      using "2.IH"(1) [OF True inner [symmetric] that] card "2.prems" by simp
    with True r1 inner show ?thesis by (cases r1) auto
  next
    case False
    with "2.IH"(2) [OF False] "2.prems" show ?thesis by simp
  qed
qed simp

section \<open>A search that finds nothing has proved the graph acyclic\<close>

text \<open>A rank that decreases along every edge between black nodes, whose successors are all
  black.\<close>

definition ranked :: "(string \<Rightarrow> string list) \<Rightarrow> string set \<Rightarrow> bool" where
  "ranked adj B \<longleftrightarrow> (\<exists>r :: string \<Rightarrow> nat. \<forall>x\<in>B. \<forall>y\<in>set (adj x). y \<in> B \<and> r y < r x)"

lemma ranked_empty [simp]: "ranked adj {}"
  by (simp add: ranked_def)

lemma ranked_insert:
  assumes "ranked adj B" and "set (adj x) \<subseteq> B" and "x \<notin> B"
  shows "ranked adj (insert x B)"
proof -
  obtain r :: "string \<Rightarrow> nat" where r: "\<forall>x\<in>B. \<forall>y\<in>set (adj x). y \<in> B \<and> r y < r x"
    using assms(1) by (auto simp: ranked_def)
  let ?r = "r(x := Suc (Max (insert 0 (r ` set (adj x)))))"
  have below: "r y < Suc (Max (insert 0 (r ` set (adj x))))" if "y \<in> set (adj x)" for y
    using that by (simp add: less_Suc_eq_le)
  have "y \<in> insert x B \<and> ?r y < ?r z" if "z \<in> insert x B" and "y \<in> set (adj z)" for y z
  proof (cases "z = x")
    case True
    then have "y \<in> B" and "y \<noteq> x" using that assms by auto
    then show ?thesis using True that below by simp
  next
    case False
    then have "z \<in> B" using that by simp
    with that r have "y \<in> B" and "r y < r z" by auto
    then show ?thesis using False assms(3) by auto
  qed
  then show ?thesis unfolding ranked_def by (intro exI [of _ ?r]) blast
qed

lemma visit_each_done:
  "visit_each fuel adj xs st = (DfsDone, st') \<Longrightarrow> ranked adj (blacks st) \<Longrightarrow>
   ranked adj (blacks st') \<and> blacks st \<subseteq> blacks st' \<and> set xs \<subseteq> blacks st' \<and> grays st' = grays st"
proof (induction fuel adj xs st arbitrary: st' rule: visit_each.induct)
  case (2 fuel adj x rest st)
  show ?case
  proof (cases "d_color st x")
    case White
    then obtain k where Suc: "fuel = Suc k" using "2.prems"(1) by (cases fuel) auto
    obtain s1 where inner: "visit_each k adj (adj x) (dfs_enter x st) = (DfsDone, s1)"
      using "2.prems"(1) White Suc by (auto split: prod.splits dfs_result.splits)
    have rest: "visit_each fuel adj rest (dfs_leave x s1) = (DfsDone, st')"
      using "2.prems"(1) White Suc inner by simp
    have sets: "x \<notin> blacks st" "x \<notin> grays st" using White by (simp_all add: color_mem)
    have IH1: "ranked adj (blacks s1)" "blacks st \<subseteq> blacks s1" "set (adj x) \<subseteq> blacks s1"
      "grays s1 = insert x (grays st)"
      using "2.IH"(1) [OF White Suc inner] "2.prems"(2) sets by auto
    have "x \<in> grays s1" using IH1(4) by simp
    then have "x \<notin> blacks s1" by (simp add: color_mem)
    then have "ranked adj (blacks (dfs_leave x s1))"
      using ranked_insert [of adj "blacks s1" x] IH1 by simp
    then have "ranked adj (blacks st')" "blacks (dfs_leave x s1) \<subseteq> blacks st'"
      "set rest \<subseteq> blacks st'" "grays st' = grays (dfs_leave x s1)"
      using "2.IH"(2) [OF White Suc inner [symmetric] refl rest] by auto
    then show ?thesis using IH1 sets by auto
  next
    case Gray
    with "2.prems" show ?thesis by simp
  next
    case Black
    with "2.IH"(3) [OF Black] "2.prems" show ?thesis by (auto simp: color_mem)
  qed
qed simp

lemma visit_roots_done:
  "visit_roots fuel adj xs st = (DfsDone, st') \<Longrightarrow> ranked adj (blacks st) \<Longrightarrow> grays st = {} \<Longrightarrow>
   ranked adj (blacks st') \<and> blacks st \<subseteq> blacks st' \<and> set xs \<subseteq> blacks st' \<and> grays st' = {}"
proof (induction fuel adj xs st arbitrary: st' rule: visit_roots.induct)
  case (2 fuel adj x rest st)
  show ?case
  proof (cases "d_color st x = White")
    case True
    obtain s1 where inner: "visit_each fuel adj [x] st = (DfsDone, s1)"
      using "2.prems"(1) True by (auto split: prod.splits dfs_result.splits)
    have rest: "visit_roots fuel adj rest s1 = (DfsDone, st')"
      using "2.prems"(1) True inner by simp
    from visit_each_done [OF inner "2.prems"(2)]
    show ?thesis
      using "2.IH"(1) [OF True inner [symmetric] refl rest] "2.prems"(3) by auto
  next
    case False
    then have "x \<in> blacks st"
      using "2.prems"(3) by (cases "d_color st x") (auto simp: color_mem grays_def)
    then show ?thesis using "2.IH"(2) [OF False] "2.prems" False by auto
  qed
qed simp

lemma find_cycle_done_ranked:
  assumes "find_cycle ids adj = DfsDone"
  shows "\<exists>r :: string \<Rightarrow> nat. \<forall>x\<in>set ids. \<forall>y\<in>set (adj x). r y < r x"
proof -
  obtain st' where st': "visit_roots (Suc (length ids)) adj ids dfs_start = (DfsDone, st')"
    using assms by (cases "visit_roots (Suc (length ids)) adj ids dfs_start")
      (simp add: find_cycle_def)
  have "ranked adj (blacks dfs_start)" and "grays dfs_start = {}"
    by (simp_all add: dfs_start_def blacks_def grays_def)
  then have "ranked adj (blacks st')" and "set ids \<subseteq> blacks st'"
    using visit_roots_done [OF st'] by simp_all
  then show ?thesis by (auto simp: ranked_def)
qed

lemma find_cycle_never_out_of_fuel:
  assumes "\<forall>x\<in>set ids. set (adj x) \<subseteq> set ids"
  shows "find_cycle ids adj \<noteq> DfsOutOfFuel"
proof -
  have "card (whites dfs_start \<inter> set ids) \<le> Suc (length ids)"
    by (simp add: dfs_start_def whites_def card_length le_SucI)
  then show ?thesis
    unfolding find_cycle_def using visit_roots_fuel [of "set ids" adj ids] assms by simp
qed

section \<open>A cycle that is reported is one\<close>

text \<open>The path of gray nodes is a walk along the edges, and the loop runs over successors
  of its last node.\<close>

definition on_walk :: "(string \<Rightarrow> string list) \<Rightarrow> string list \<Rightarrow> bool" where
  "on_walk adj p \<longleftrightarrow> successively (\<lambda>a b. b \<in> set (adj a)) p"

definition is_cycle :: "(string \<Rightarrow> string list) \<Rightarrow> string list \<Rightarrow> bool" where
  "is_cycle adj c \<longleftrightarrow> on_walk adj c \<and> 2 \<le> length c \<and> hd c = last c"

definition walk_state :: "(string \<Rightarrow> string list) \<Rightarrow> dfs_state \<Rightarrow> bool" where
  "walk_state adj st \<longleftrightarrow> on_walk adj (d_path st) \<and> grays st = set (d_path st)"

lemma index_of_split:
  "x \<in> set p \<Longrightarrow> \<exists>a b. p = a @ x # b \<and> index_of p x = length a"
proof (induction p)
  case (Cons y p)
  show ?case
  proof (cases "y = x")
    case True
    then show ?thesis by (intro exI [of _ "[]"] exI [of _ p]) simp
  next
    case False
    with Cons obtain a b where "p = a @ x # b" "index_of p x = length a" by auto
    with False show ?thesis by (intro exI [of _ "y # a"] exI [of _ b]) simp
  qed
qed simp

lemma on_walk_append_single:
  "on_walk adj (p @ [x]) \<longleftrightarrow> on_walk adj p \<and> (p \<noteq> [] \<longrightarrow> x \<in> set (adj (last p)))"
  by (auto simp: on_walk_def successively_append_iff)

lemma on_walk_suffix: "on_walk adj (a @ b) \<Longrightarrow> on_walk adj b"
  by (auto simp: on_walk_def successively_append_iff)

lemma gray_closes_cycle:
  assumes "walk_state adj st" and "d_color st x = Gray" and "x \<in> set (adj (last (d_path st)))"
  shows "is_cycle adj (drop (index_of (d_path st) x) (d_path st) @ [x])"
proof -
  have "x \<in> set (d_path st)" using assms by (auto simp: walk_state_def grays_def)
  then obtain a b where p: "d_path st = a @ x # b" "index_of (d_path st) x = length a"
    using index_of_split by blast
  have "on_walk adj (x # b)" using assms(1) p(1) on_walk_suffix [of adj a "x # b"] by (simp add: walk_state_def)
  then have "on_walk adj ((x # b) @ [x])"
    using assms(3) p(1) by (simp only: on_walk_append_single) simp
  then show ?thesis using p by (simp add: is_cycle_def)
qed

fun walk_result :: "(string \<Rightarrow> string list) \<Rightarrow> string list \<Rightarrow> dfs_result \<Rightarrow> dfs_state \<Rightarrow> bool" where
  "walk_result adj p (DfsCycle c) st = is_cycle adj c"
| "walk_result adj p DfsDone st = (walk_state adj st \<and> d_path st = p)"
| "walk_result adj p DfsOutOfFuel st = True"

lemma visit_each_walk:
  "visit_each fuel adj xs st = (r, st') \<Longrightarrow> walk_state adj st \<Longrightarrow>
   (d_path st = [] \<longrightarrow> grays st = {}) \<Longrightarrow>
   (d_path st \<noteq> [] \<longrightarrow> set xs \<subseteq> set (adj (last (d_path st)))) \<Longrightarrow>
   walk_result adj (d_path st) r st'"
proof (induction fuel adj xs st arbitrary: r st' rule: visit_each.induct)
  case (2 fuel adj x rest st)
  show ?case
  proof (cases "d_color st x")
    case White
    show ?thesis
    proof (cases fuel)
      case 0
      with White "2.prems"(1) show ?thesis by auto
    next
      case (Suc k)
      obtain r1 s1 where inner: "visit_each k adj (adj x) (dfs_enter x st) = (r1, s1)"
        by fastforce
      have enter: "walk_state adj (dfs_enter x st)"
        using "2.prems"(2,4) by (auto simp: walk_state_def on_walk_append_single)
      have IH: "walk_result adj (d_path st @ [x]) r1 s1"
        using "2.IH"(1) [OF White Suc inner enter] by simp
      show ?thesis
      proof (cases r1)
        case DfsDone
        have notin: "x \<notin> set (d_path st)"
          using White "2.prems"(2) color_mem(2) [of x st] by (auto simp: walk_state_def)
        have leave: "walk_state adj (dfs_leave x s1)" "d_path (dfs_leave x s1) = d_path st"
          using IH DfsDone notin by (auto simp: walk_state_def on_walk_append_single)
        have "visit_each fuel adj rest (dfs_leave x s1) = (r, st')"
          using "2.prems"(1) White Suc inner DfsDone by simp
        note rest = this
        have g: "d_path (dfs_leave x s1) = [] \<longrightarrow> grays (dfs_leave x s1) = {}"
          using leave(1) by (auto simp: walk_state_def simp del: color_sets_simps)
        have h: "d_path (dfs_leave x s1) \<noteq> [] \<longrightarrow>
            set rest \<subseteq> set (adj (last (d_path (dfs_leave x s1))))"
          using "2.prems"(4) unfolding leave(2) by auto
        show ?thesis
          using "2.IH"(2) [OF White Suc inner [symmetric] DfsDone rest leave(1) g h]
          unfolding leave(2) .
      qed (use "2.prems"(1) White Suc inner IH in auto)
    qed
  next
    case Gray
    have "d_path st \<noteq> []" using Gray "2.prems"(3) by (auto simp: grays_def)
    then have "x \<in> set (adj (last (d_path st)))" using "2.prems"(4) by auto
    then show ?thesis using gray_closes_cycle [OF "2.prems"(2) Gray] Gray "2.prems"(1) by auto
  next
    case Black
    with "2" show ?thesis by auto
  qed
qed auto

lemma visit_roots_walk:
  "visit_roots fuel adj xs st = (DfsCycle c, st') \<Longrightarrow> walk_state adj st \<Longrightarrow> d_path st = [] \<Longrightarrow>
   is_cycle adj c"
proof (induction fuel adj xs st rule: visit_roots.induct)
  case (2 fuel adj x rest st)
  obtain r1 s1 where inner: "visit_each fuel adj [x] st = (r1, s1)" by fastforce
  have grays: "grays st = {}" using "2.prems"(2,3) by (simp add: walk_state_def)
  note walk = visit_each_walk [OF inner "2.prems"(2)]
  show ?case
  proof (cases "d_color st x = White")
    case True
    then show ?thesis
      using "2.IH"(1) [OF True inner [symmetric]] "2.prems" inner walk grays
      by (cases r1) auto
  next
    case False
    with "2" show ?thesis by auto
  qed
qed auto

lemma find_cycle_sound:
  assumes "find_cycle ids adj = DfsCycle c"
  shows "is_cycle adj c"
proof -
  obtain st' where "visit_roots (Suc (length ids)) adj ids dfs_start = (DfsCycle c, st')"
    using assms by (cases "visit_roots (Suc (length ids)) adj ids dfs_start")
      (simp add: find_cycle_def)
  then show ?thesis
    by (rule visit_roots_walk) (auto simp: walk_state_def on_walk_def dfs_start_def grays_def)
qed

section \<open>What an accepted flow satisfies\<close>

lemma validate_ids_ok:
  "validate_ids ns seen = Inr () \<longleftrightarrow>
   (\<forall>n\<in>set ns. valid_slug (n_id n)) \<and> distinct (map n_id ns) \<and> set (map n_id ns) \<inter> set seen = {}"
proof (induction ns arbitrary: seen)
  case (Cons n ns)
  have "n_id n = [] \<Longrightarrow> \<not> valid_slug (n_id n)" by (simp add: valid_slug_def)
  with Cons show ?case by auto
qed simp

lemma validate_configs_ok:
  "validate_configs R ns = Inr () \<longleftrightarrow>
   (\<forall>n\<in>set ns. \<exists>cfg. n_config n = Some cfg \<and> config_validate R cfg = Inr ())"
  by (induction ns) (auto split: option.splits sum.splits)

lemma node_by_id_mem: "node_by_id ns x = Some n \<Longrightarrow> n \<in> set ns \<and> n_id n = x"
  by (auto simp: node_by_id_def dest!: map_of_SomeD)

lemma node_by_id_None: "node_by_id ns x = None \<longleftrightarrow> x \<notin> n_id ` set ns"
  by (force simp: node_by_id_def map_of_eq_None_iff)

definition wire_ok :: "node list \<Rightarrow> wire \<Rightarrow> bool" where
  "wire_ok ns w \<longleftrightarrow>
     (\<exists>src dst. node_by_id ns (w_from w) = Some src \<and> node_by_id ns (w_to w) = Some dst \<and>
        0 \<le> w_out w \<and> w_out w < node_outputs src \<and> node_inputs dst \<noteq> 0)"

lemma validate_wire_ok: "validate_wire ns w = Inr () \<longleftrightarrow> wire_ok ns w"
  by (auto simp: validate_wire_def wire_ok_def split: option.splits if_splits)

lemma validate_wires_ok:
  "validate_wires ns ws seen = Inr () \<longleftrightarrow>
   (\<forall>w\<in>set ws. wire_ok ns w) \<and> distinct (map wire_key ws) \<and> set (map wire_key ws) \<inter> set seen = {}"
proof (induction ws arbitrary: seen)
  case (Cons w ws)
  show ?case
  proof (cases "validate_wire ns w")
    case (Inl e)
    then have "\<not> wire_ok ns w" using validate_wire_ok [of ns w] by simp
    with Inl show ?thesis by simp
  next
    case (Inr u)
    then have "wire_ok ns w" using validate_wire_ok [of ns w] by simp
    with Inr Cons show ?thesis by auto
  qed
qed simp

definition flow_wires_acyclic :: "flow \<Rightarrow> bool" where
  "flow_wires_acyclic f \<longleftrightarrow> acyclic {(w_from w, w_to w) | w. w \<in> set (f_wires f)}"

lemma ranked_acyclic:
  fixes r :: "'a \<Rightarrow> nat"
  assumes "\<And>x y. (x, y) \<in> E \<Longrightarrow> r y < r x"
  shows "acyclic E"
proof -
  have "(x, y) \<in> E\<^sup>+ \<Longrightarrow> r y < r x" for x y
    by (induction rule: trancl_induct) (auto dest: assms intro: less_trans)
  then show ?thesis by (auto simp: acyclic_def)
qed

lemma validate_flow_parts:
  "validate_flow R f = Inr ws \<Longrightarrow>
   validate_ids (f_nodes f) [] = Inr () \<and> validate_configs R (f_nodes f) = Inr () \<and>
   validate_wires (f_nodes f) (f_wires f) [] = Inr () \<and>
   find_cycle (map n_id (f_nodes f)) (adjacency (f_wires f)) = DfsDone"
  by (auto simp: validate_flow_def res_bind_Inr_conv split: if_splits dfs_result.splits)

lemma wire_ok_endpoints:
  "wire_ok ns w \<Longrightarrow> w_from w \<in> n_id ` set ns \<and> w_to w \<in> n_id ` set ns"
  by (auto simp: wire_ok_def dest!: node_by_id_mem) (metis image_eqI)+

lemma cycle_free_acyclic:
  assumes "find_cycle ids (adjacency (f_wires f)) = DfsDone"
    and "\<And>w. w \<in> set (f_wires f) \<Longrightarrow> w_from w \<in> set ids"
  shows "flow_wires_acyclic f"
proof -
  obtain r :: "string \<Rightarrow> nat"
    where r: "\<And>x y. x \<in> set ids \<Longrightarrow> y \<in> set (adjacency (f_wires f) x) \<Longrightarrow> r y < r x"
    using find_cycle_done_ranked [OF assms(1)] by blast
  have "r (w_to w) < r (w_from w)" if "w \<in> set (f_wires f)" for w
    using r [OF assms(2) [OF that], of "w_to w"] that by (auto simp: adjacency_def)
  then show ?thesis
    unfolding flow_wires_acyclic_def by (intro ranked_acyclic [of _ r]) auto
qed

lemma accepted_acyclic:
  assumes "validate_flow R f = Inr ws"
  shows "flow_wires_acyclic f"
proof (rule cycle_free_acyclic)
  note parts = validate_flow_parts [OF assms]
  from parts show "find_cycle (map n_id (f_nodes f)) (adjacency (f_wires f)) = DfsDone" by simp
  show "w_from w \<in> set (map n_id (f_nodes f))" if "w \<in> set (f_wires f)" for w
    using that parts wire_ok_endpoints by (auto simp: validate_wires_ok)
qed

text \<open>
  Claim C1: a flow that \<open>validateFlow\<close> accepts is well formed: its node ids are distinct
  valid slugs, every node has a configuration that passed its own checks, every wire joins
  known nodes, leaves a port the source really has and enters a node that takes input, no
  wire is repeated, and the wires contain no cycle.
\<close>

theorem validate_flow_sound:
  assumes "validate_flow R f = Inr ws"
  shows "distinct (map n_id (f_nodes f)) \<and> (\<forall>n\<in>set (f_nodes f). valid_slug (n_id n)) \<and>
    (\<forall>n\<in>set (f_nodes f). \<exists>cfg. n_config n = Some cfg \<and> config_validate R cfg = Inr ()) \<and>
    (\<forall>w\<in>set (f_wires f). wire_ok (f_nodes f) w) \<and> distinct (map wire_key (f_wires f)) \<and>
    flow_wires_acyclic f"
  using validate_flow_parts [OF assms] accepted_acyclic [OF assms]
  by (simp add: validate_ids_ok validate_configs_ok validate_wires_ok)

text \<open>
  Claim C2: the cycle search always answers, within a recursion depth of one more than the
  number of nodes, and the answer is right in both directions: a reported path walks along
  wires from a node back to itself, and a flow whose wires form a cycle is never accepted.
\<close>

theorem cycle_search_correct:
  assumes "\<forall>w\<in>set (f_wires f). wire_ok (f_nodes f) w"
  shows "case find_cycle (map n_id (f_nodes f)) (adjacency (f_wires f)) of
           DfsCycle c \<Rightarrow> is_cycle (adjacency (f_wires f)) c
         | DfsDone \<Rightarrow> flow_wires_acyclic f
         | DfsOutOfFuel \<Rightarrow> False"
proof -
  let ?ids = "map n_id (f_nodes f)" and ?adj = "adjacency (f_wires f)"
  have closed: "\<forall>x\<in>set ?ids. set (?adj x) \<subseteq> set ?ids"
    using assms wire_ok_endpoints [of "f_nodes f"] by (auto simp: adjacency_def)
  have acyc: "find_cycle ?ids ?adj = DfsDone \<Longrightarrow> flow_wires_acyclic f"
    by (rule cycle_free_acyclic) (use assms wire_ok_endpoints in auto)
  show ?thesis
    using find_cycle_never_out_of_fuel [OF closed] find_cycle_sound acyc
    by (auto split: dfs_result.split)
qed

end
