(* ===== verification/Graph.thy ===== *)
theory Graph
  imports Validate
begin

text \<open>
  The execution index of \<open>internal/app/runtime/graph.go\<close>: known nodes, outbound wires by
  port, entry nodes, and Kahn's algorithm. The queue of the Go loop that grows while it is
  walked is here the list of ids not yet walked; \<open>relax\<close> is the loop body that counts down
  the targets' remaining inbound wires. The lemmas show that the order is a topological
  order of all nodes exactly when the wires have no cycle, so that a flow which passed
  \<open>validateFlow\<close> can always be executed.
\<close>

section \<open>The index\<close>

definition known_wires :: "flow \<Rightarrow> wire list" where
  "known_wires f = filter (\<lambda>w. node_by_id (f_nodes f) (w_from w) \<noteq> None \<and>
                               node_by_id (f_nodes f) (w_to w) \<noteq> None) (f_wires f)"

definition degree :: "wire list \<Rightarrow> string \<Rightarrow> int" where
  "degree ws x = int (inbound ws x)"

definition entry_ids :: "node list \<Rightarrow> wire list \<Rightarrow> string list" where
  "entry_ids ns ws = filter (\<lambda>x. degree ws x = 0) (map n_id ns)"

definition wires_on :: "wire list \<Rightarrow> string \<Rightarrow> int \<Rightarrow> wire list" where
  "wires_on ws x port = filter (\<lambda>w. w_from w = x \<and> w_out w = port) ws"

definition ports_in_order :: "wire list \<Rightarrow> string \<Rightarrow> wire list list" where
  "ports_in_order ws x =
     map (wires_on ws x) (sort (remdups (map w_out (filter (\<lambda>w. w_from w = x) ws))))"

section \<open>Kahn's algorithm\<close>

text \<open>One round of the inner loops: every wire leaving the walked node lowers its target's
  count, and a target whose count reaches zero joins the queue.\<close>

fun relax :: "wire list \<Rightarrow> (string \<Rightarrow> int) \<Rightarrow> (string \<Rightarrow> int) \<times> string list" where
  "relax [] remaining = (remaining, [])"
| "relax (w # ws) remaining =
     (let n = remaining (w_to w) - 1;
          (remaining', queued) = relax ws (remaining(w_to w := n))
      in (remaining', if n = 0 then w_to w # queued else queued))"

definition arrivals :: "wire list \<Rightarrow> string \<Rightarrow> int" where
  "arrivals ws t = int (length (filter (\<lambda>w. w_to w = t) ws))"

lemma arrivals_simps [simp]:
  "arrivals [] t = 0"
  "arrivals (w # ws) t = (if w_to w = t then 1 else 0) + arrivals ws t"
  "0 \<le> arrivals ws t"
  by (simp_all add: arrivals_def)

lemma arrivals_pos_mem: "0 < arrivals ws t \<Longrightarrow> t \<in> w_to ` set ws"
  by (induction ws) (auto split: if_splits)

lemma relax_Cons:
  "fst (relax (w # ws) rem) = fst (relax ws (rem(w_to w := rem (w_to w) - 1)))"
  "snd (relax (w # ws) rem) =
     (if rem (w_to w) = 1 then w_to w # snd (relax ws (rem(w_to w := rem (w_to w) - 1)))
      else snd (relax ws (rem(w_to w := rem (w_to w) - 1))))"
  by (simp_all add: Let_def split: prod.split)

declare relax.simps(2) [simp del]

lemma relax_counts: "fst (relax ws rem) t = rem t - arrivals ws t"
  by (induction ws arbitrary: rem) (auto simp: relax_Cons)

lemma relax_queued:
  shows set_relax: "set (snd (relax ws rem)) = {t. 0 < rem t \<and> rem t \<le> arrivals ws t}"
    and distinct_relax: "distinct (snd (relax ws rem))"
proof (induction ws arbitrary: rem)
  case (Cons w ws)
  have a: "0 \<le> arrivals ws (w_to w)" by simp
  { case 1 show ?case unfolding relax_Cons using a
      by (simp add: Cons.IH(1) del: arrivals_simps(3)) auto }
  { case 2 show ?case unfolding relax_Cons using Cons.IH by simp }
qed auto

lemma arrivals_target:
  assumes "set zs \<subseteq> set ws" and "0 < n" and "n \<le> arrivals zs t"
  shows "t \<in> w_to ` set ws"
  using arrivals_pos_mem [of zs t] assms by auto

definition waiting :: "wire list \<Rightarrow> (string \<Rightarrow> int) \<Rightarrow> string set" where
  "waiting ws rem = {t \<in> w_to ` set ws. 0 < rem t}"

lemma relax_waiting:
  assumes "set zs \<subseteq> set ws"
  shows "card (waiting ws (fst (relax zs rem))) + length (snd (relax zs rem)) = card (waiting ws rem)"
proof -
  have "waiting ws rem = waiting ws (fst (relax zs rem)) \<union> set (snd (relax zs rem))"
    using arrivals_target [OF assms]
    by (auto simp: waiting_def relax_counts relax_queued intro: le_less_trans [OF arrivals_simps(3)])
  moreover have "waiting ws (fst (relax zs rem)) \<inter> set (snd (relax zs rem)) = {}"
    by (auto simp: waiting_def relax_counts relax_queued)
  moreover have "finite (waiting ws (fst (relax zs rem)))" by (simp add: waiting_def)
  ultimately show ?thesis
    using distinct_card [OF relax_queued(2) [of zs rem]] by (simp add: card_Un_disjoint)
qed

lemma set_wires_of:
  "set (concat (ports_in_order ws x)) = {w \<in> set ws. w_from w = x}"
  by (auto simp: ports_in_order_def wires_on_def)

function kahn :: "wire list \<Rightarrow> (string \<Rightarrow> int) \<Rightarrow> string list \<Rightarrow> string list" where
  "kahn ws rem [] = []"
| "kahn ws rem (x # queue) =
     x # kahn ws (fst (relax (concat (ports_in_order ws x)) rem))
           (queue @ snd (relax (concat (ports_in_order ws x)) rem))"
  by pat_completeness auto
termination
proof (relation "measure (\<lambda>(ws, rem, queue). card (waiting ws rem) + length queue)", goal_cases)
  case (2 ws rem x queue)
  have "set (concat (ports_in_order ws x)) \<subseteq> set ws" unfolding set_wires_of by auto
  from relax_waiting [OF this, of rem] show ?case by simp
qed simp

record graph =
  g_order :: "string list"
  g_nodes :: "node list"
  g_wires :: "wire list"
  g_entries :: "string list"

definition new_graph :: "flow \<Rightarrow> graph option" where
  "new_graph f =
     (let ws = known_wires f;
          entries = entry_ids (f_nodes f) ws;
          order = kahn ws (degree ws) entries
      in if length order \<noteq> length (f_nodes f) then None
         else Some \<lparr>g_order = order, g_nodes = f_nodes f, g_wires = ws, g_entries = entries\<rparr>)"

definition graph_node :: "graph \<Rightarrow> string \<Rightarrow> node option" where
  "graph_node g x = node_by_id (g_nodes g) x"

definition graph_wires :: "graph \<Rightarrow> string \<Rightarrow> int \<Rightarrow> wire list" where
  "graph_wires g x port = wires_on (g_wires g) x port"

section \<open>The order is topological\<close>

text \<open>\<open>topo ws seen xs\<close>: walking \<open>xs\<close> after \<open>seen\<close>, every node comes after all its
  predecessors.\<close>

fun topo :: "wire list \<Rightarrow> string set \<Rightarrow> string list \<Rightarrow> bool" where
  "topo ws seen [] = True"
| "topo ws seen (x # xs) \<longleftrightarrow>
     (\<forall>w\<in>set ws. w_to w = x \<longrightarrow> w_from w \<in> seen) \<and> topo ws (insert x seen) xs"

definition unmet :: "wire list \<Rightarrow> string set \<Rightarrow> string \<Rightarrow> int" where
  "unmet ws walked t = int (length (filter (\<lambda>w. w_to w = t \<and> w_from w \<notin> walked) ws))"

lemma unmet_empty [simp]: "unmet ws {} = degree ws"
  by (simp add: unmet_def degree_def inbound_def fun_eq_iff)

lemma unmet_zero: "unmet ws W t = 0 \<longleftrightarrow> (\<forall>w\<in>set ws. w_to w = t \<longrightarrow> w_from w \<in> W)"
  by (auto simp: unmet_def filter_empty_conv)

lemma unmet_nonneg [simp]: "0 \<le> unmet ws W t"
  by (simp add: unmet_def)

lemma arrivals_concat: "arrivals (concat xss) t = sum_list (map (\<lambda>xs. arrivals xs t) xss)"
  by (induction xss) (simp_all add: arrivals_def filter_concat)

lemma arrivals_by_port:
  assumes "distinct ports" and "set (map w_out (filter (\<lambda>w. w_from w = x) ws)) \<subseteq> set ports"
  shows "(\<Sum>p\<leftarrow>ports. arrivals (wires_on ws x p) t) =
         int (length (filter (\<lambda>w. w_to w = t \<and> w_from w = x) ws))"
  using assms
proof (induction ws)
  case (Cons w ws)
  have IH: "(\<Sum>p\<leftarrow>ports. arrivals (wires_on ws x p) t) =
      int (length (filter (\<lambda>w. w_to w = t \<and> w_from w = x) ws))"
    using Cons by (auto split: if_splits)
  have step: "arrivals (wires_on (w # ws) x p) t = arrivals (wires_on ws x p) t +
      (if p = w_out w then (if w_from w = x \<and> w_to w = t then 1 else 0) else 0)" for p
    by (simp add: wires_on_def)
  have one: "distinct ps \<Longrightarrow> (\<Sum>p\<leftarrow>ps. if p = q then c else 0) = (if q \<in> set ps then c else (0::int))"
    for ps :: "int list" and q c by (induction ps) auto
  show ?case
    unfolding step sum_list_addf IH one [OF Cons.prems(1)]
    using Cons.prems(2) by (auto split: if_splits)
qed (simp add: wires_on_def)

lemma arrivals_out:
  "arrivals (concat (ports_in_order ws x)) t =
     int (length (filter (\<lambda>w. w_to w = t \<and> w_from w = x) ws))"
  unfolding ports_in_order_def arrivals_concat map_map comp_def
  by (rule arrivals_by_port) auto

lemma unmet_insert:
  assumes "x \<notin> W"
  shows "unmet ws (insert x W) t = unmet ws W t - arrivals (concat (ports_in_order ws x)) t"
  unfolding arrivals_out unmet_def using assms by (induction ws) auto

definition kahn_inv :: "wire list \<Rightarrow> string set \<Rightarrow> string set \<Rightarrow> string list \<Rightarrow> bool" where
  "kahn_inv ws ids walked queue \<longleftrightarrow>
     distinct queue \<and> set queue \<inter> walked = {} \<and> set queue \<union> walked \<subseteq> ids \<and>
     (\<forall>t\<in>ids. unmet ws walked t = 0 \<longleftrightarrow> t \<in> set queue \<union> walked)"

lemma kahn_inv_step:
  assumes inv: "kahn_inv ws ids walked (x # queue)" and ids: "\<forall>w\<in>set ws. w_to w \<in> ids"
  shows "kahn_inv ws ids (insert x walked)
           (queue @ snd (relax (concat (ports_in_order ws x)) (unmet ws walked)))"
proof -
  let ?out = "concat (ports_in_order ws x)" and ?new = "snd (relax (concat (ports_in_order ws x)) (unmet ws walked))"
  have x: "x \<notin> walked" using inv by (auto simp: kahn_inv_def)
  have un: "unmet ws (insert x walked) t = unmet ws walked t - arrivals ?out t" for t
    by (rule unmet_insert [OF x])
  have new: "t \<in> set ?new \<longleftrightarrow> 0 < unmet ws walked t \<and> unmet ws (insert x walked) t = 0" for t
    using unmet_nonneg [of ws "insert x walked" t] by (auto simp: relax_queued un)
  have newids: "set ?new \<subseteq> ids"
  proof
    fix t assume "t \<in> set ?new"
    then have "0 < unmet ws walked t" by (simp add: new)
    then have "\<exists>w\<in>set ws. w_to w = t" using unmet_zero [of ws walked t] by auto
    then show "t \<in> ids" using ids by blast
  qed
  have keep: "unmet ws walked t = 0 \<Longrightarrow> unmet ws (insert x walked) t = 0" for t
    by (auto simp: unmet_zero)
  have pos: "unmet ws walked t \<noteq> 0 \<Longrightarrow> 0 < unmet ws walked t" for t
    using unmet_nonneg [of ws walked t] by linarith
  have old: "t \<notin> set ?new" if "t \<in> insert x (set queue \<union> walked)" for t
    using inv that by (auto simp: kahn_inv_def new)
  have "\<forall>t\<in>ids. unmet ws (insert x walked) t = 0 \<longleftrightarrow>
      t \<in> set (queue @ ?new) \<union> insert x walked"
  proof
    fix t assume "t \<in> ids"
    then have t: "unmet ws walked t = 0 \<longleftrightarrow> t = x \<or> t \<in> set queue \<or> t \<in> walked"
      using inv by (auto simp: kahn_inv_def)
    show "unmet ws (insert x walked) t = 0 \<longleftrightarrow> t \<in> set (queue @ ?new) \<union> insert x walked"
      using t keep [of t] pos [of t] by (auto simp: new)
  qed
  moreover have "set ?new \<inter> insert x walked = {}"
    using old by blast
  ultimately show ?thesis
    using inv newids old relax_queued(2) [of ?out "unmet ws walked"]
    unfolding kahn_inv_def by auto
qed

lemma kahn_topo:
  "kahn_inv ws ids walked queue \<Longrightarrow> \<forall>w\<in>set ws. w_to w \<in> ids \<Longrightarrow>
   topo ws walked (kahn ws (unmet ws walked) queue) \<and>
   distinct (kahn ws (unmet ws walked) queue) \<and>
   set (kahn ws (unmet ws walked) queue) \<inter> walked = {} \<and>
   kahn_inv ws ids (walked \<union> set (kahn ws (unmet ws walked) queue)) []"
proof (induction ws "unmet ws walked" queue arbitrary: walked rule: kahn.induct)
  case (2 ws x queue)
  have x: "x \<notin> walked" "unmet ws walked x = 0"
    using "2.prems"(1) by (auto simp: kahn_inv_def)
  have rem: "fst (relax (concat (ports_in_order ws x)) (unmet ws walked)) = unmet ws (insert x walked)"
    by (simp add: fun_eq_iff relax_counts unmet_insert [OF x(1)])
  note IH = "2.hyps" [OF rem kahn_inv_step [OF "2.prems"] "2.prems"(2)]
  show ?case using IH x by (auto simp: rem unmet_zero)
qed (simp add: kahn_inv_def)

lemma topo_rank:
  "topo ws seen xs \<Longrightarrow> w \<in> set ws \<Longrightarrow> w_to w \<in> set xs \<Longrightarrow>
   w_from w \<in> seen \<or> index_of xs (w_from w) < index_of xs (w_to w)"
  by (induction xs arbitrary: seen) (auto split: if_splits)

lemma topo_acyclic:
  assumes "topo ws {} xs" and "\<forall>w\<in>set ws. w_to w \<in> set xs"
  shows "acyclic {(w_from w, w_to w) | w. w \<in> set ws}"
proof -
  have "index_of xs y < index_of xs x"
    if e: "(x, y) \<in> {(w_from w, w_to w) | w. w \<in> set ws}\<inverse>" for x y
  proof -
    from e obtain w where w: "w \<in> set ws" "x = w_to w" "y = w_from w" by auto
    with topo_rank [OF assms(1) w(1)] assms(2) show ?thesis by simp
  qed
  then have "acyclic ({(w_from w, w_to w) | w. w \<in> set ws}\<inverse>)"
    by (rule ranked_acyclic)
  then show ?thesis unfolding acyclic_converse .
qed

lemma acyclic_source:
  assumes "acyclic {(w_from w, w_to w) | w. w \<in> set ws}" and "finite S" and "S \<noteq> {}"
  shows "\<exists>x\<in>S. \<forall>w\<in>set ws. w_to w = x \<longrightarrow> w_from w \<notin> S"
proof -
  let ?E = "{(w_from w, w_to w) | w. w \<in> set ws}"
  have "?E = (\<lambda>w. (w_from w, w_to w)) ` set ws" by auto
  then have "finite ?E" by simp
  then have "wf ?E" using assms(1) by (rule finite_acyclic_wf)
  then obtain x where x: "x \<in> S" "\<And>y. (y, x) \<in> ?E \<Longrightarrow> y \<notin> S"
    using assms(3) by (rule wfE_min') blast
  then show ?thesis by (intro bexI [of _ x]) auto
qed

lemma kahn_complete:
  assumes "kahn_inv ws ids walked []" and "finite ids"
    and "\<forall>w\<in>set ws. w_from w \<in> ids" and "acyclic {(w_from w, w_to w) | w. w \<in> set ws}"
  shows "walked = ids"
proof (rule ccontr)
  assume "walked \<noteq> ids"
  then have "ids - walked \<noteq> {}" using assms(1) by (auto simp: kahn_inv_def)
  with acyclic_source [OF assms(4), of "ids - walked"] assms(2)
  obtain x where x: "x \<in> ids - walked" "\<forall>w\<in>set ws. w_to w = x \<longrightarrow> w_from w \<notin> ids - walked"
    by auto
  then have "unmet ws walked x = 0" using assms(3) by (auto simp: unmet_zero)
  with x(1) assms(1) show False by (auto simp: kahn_inv_def)
qed

section \<open>NewGraph\<close>

lemma node_by_id_Some: "(\<exists>n. node_by_id ns x = Some n) \<longleftrightarrow> x \<in> n_id ` set ns"
  using node_by_id_None [of ns x] by (cases "node_by_id ns x") auto

lemma known_wires_ends:
  "w \<in> set (known_wires f) \<longleftrightarrow>
   w \<in> set (f_wires f) \<and> w_from w \<in> n_id ` set (f_nodes f) \<and> w_to w \<in> n_id ` set (f_nodes f)"
  by (auto simp: known_wires_def node_by_id_Some)

definition kahn_order :: "flow \<Rightarrow> string list" where
  "kahn_order f = kahn (known_wires f) (degree (known_wires f)) (entry_ids (f_nodes f) (known_wires f))"

lemma kahn_order_facts:
  fixes f :: flow
  defines "ids \<equiv> n_id ` set (f_nodes f)" and "ws \<equiv> known_wires f"
  assumes dist: "distinct (map n_id (f_nodes f))"
  shows "topo ws {} (kahn_order f)" and "distinct (kahn_order f)" and "set (kahn_order f) \<subseteq> ids"
    and "kahn_inv ws ids (set (kahn_order f)) []"
proof -
  have inv: "kahn_inv ws ids {} (entry_ids (f_nodes f) ws)"
    using dist by (auto simp: kahn_inv_def entry_ids_def ids_def)
  have to: "\<forall>w\<in>set ws. w_to w \<in> ids" by (auto simp: ws_def ids_def known_wires_ends)
  note k = kahn_topo [OF inv to, unfolded unmet_empty ws_def, folded kahn_order_def]
  show "topo ws {} (kahn_order f)" "distinct (kahn_order f)" "kahn_inv ws ids (set (kahn_order f)) []"
    using k by (simp_all add: ws_def)
  then show "set (kahn_order f) \<subseteq> ids" by (simp add: kahn_inv_def)
qed

lemma new_graph_Some:
  "new_graph f = Some g \<longleftrightarrow> length (kahn_order f) = length (f_nodes f) \<and>
     g = \<lparr>g_order = kahn_order f, g_nodes = f_nodes f, g_wires = known_wires f,
          g_entries = entry_ids (f_nodes f) (known_wires f)\<rparr>"
  by (auto simp: new_graph_def kahn_order_def Let_def)

lemma kahn_order_all:
  assumes "distinct (map n_id (f_nodes f))" and "length (kahn_order f) = length (f_nodes f)"
  shows "set (kahn_order f) = n_id ` set (f_nodes f)"
proof (rule card_subset_eq)
  show "card (set (kahn_order f)) = card (n_id ` set (f_nodes f))"
    using distinct_card [OF kahn_order_facts(2) [OF assms(1)]] distinct_card [OF assms(1)] assms(2)
    by simp
qed (use kahn_order_facts(3) [OF assms(1)] in auto)

text \<open>
  The execution order \<open>NewGraph\<close> computes lists every node of the flow exactly
  once and is topological: a node comes after the source of each of its known inbound
  wires; and the entries are exactly the nodes with no known inbound wire, in declaration
  order.
\<close>

theorem new_graph_order:
  assumes "distinct (map n_id (f_nodes f))" and "new_graph f = Some g"
  shows "distinct (g_order g) \<and> set (g_order g) = n_id ` set (f_nodes f) \<and>
    topo (g_wires g) {} (g_order g) \<and>
    g_entries g = filter (\<lambda>x. \<forall>w\<in>set (g_wires g). w_to w \<noteq> x) (map n_id (f_nodes f))"
proof -
  have len: "length (kahn_order f) = length (f_nodes f)" using assms(2) by (simp add: new_graph_Some)
  have ent: "(degree ws x = 0) = (\<forall>w\<in>set ws. w_to w \<noteq> x)" for ws x
    by (simp add: degree_def inbound_def filter_empty_conv)
  show ?thesis
    using assms(2) kahn_order_facts(1,2) [OF assms(1)] kahn_order_all [OF assms(1) len]
    by (simp add: new_graph_Some entry_ids_def ent)
qed

text \<open>
  Claim C4: \<open>NewGraph\<close> fails exactly for a flow that is not a DAG: it returns a graph if
  and only if the wires between known nodes are acyclic.
\<close>

theorem new_graph_iff_acyclic:
  assumes "distinct (map n_id (f_nodes f))"
  shows "(\<exists>g. new_graph f = Some g) \<longleftrightarrow>
         acyclic {(w_from w, w_to w) | w. w \<in> set (known_wires f)}"
proof
  assume "\<exists>g. new_graph f = Some g"
  then have "set (kahn_order f) = n_id ` set (f_nodes f)"
    by (auto simp: new_graph_Some kahn_order_all [OF assms])
  then show "acyclic {(w_from w, w_to w) | w. w \<in> set (known_wires f)}"
    by (intro topo_acyclic [OF kahn_order_facts(1) [OF assms]]) (auto simp: known_wires_ends)
next
  assume "acyclic {(w_from w, w_to w) | w. w \<in> set (known_wires f)}"
  then have "set (kahn_order f) = n_id ` set (f_nodes f)"
    by (intro kahn_complete [OF kahn_order_facts(4) [OF assms]]) (auto simp: known_wires_ends)
  then have "length (kahn_order f) = length (f_nodes f)"
    using distinct_card [OF kahn_order_facts(2) [OF assms]] distinct_card [OF assms] by simp
  then show "\<exists>g. new_graph f = Some g" by (simp add: new_graph_Some)
qed

lemma known_wires_acyclic:
  assumes "flow_wires_acyclic f"
  shows "acyclic {(w_from w, w_to w) | w. w \<in> set (known_wires f)}"
  using assms unfolding flow_wires_acyclic_def
  by (rule acyclic_subset) (auto simp: known_wires_def)

lemma new_graph_of_acyclic:
  assumes "distinct (map n_id (f_nodes f))" and "flow_wires_acyclic f"
  shows "\<exists>g. new_graph f = Some g"
proof -
  note acyc = known_wires_acyclic [OF assms(2)]
  have "set (kahn_order f) = n_id ` set (f_nodes f)"
    by (rule kahn_complete [OF kahn_order_facts(4) [OF assms(1)] _ _ acyc]) (auto simp: known_wires_ends)
  then have "length (kahn_order f) = length (f_nodes f)"
    using distinct_card [OF kahn_order_facts(2) [OF assms(1)]] distinct_card [OF assms(1)] by simp
  then show ?thesis by (simp add: new_graph_Some)
qed

text \<open>
  Claim C3: validation and execution agree. A flow that \<open>validateFlow\<close> accepts always has
  an executable graph, and the graph then keeps every wire of the flow.
\<close>

theorem accepted_flow_executes:
  assumes "validate_flow R f = Inr warnings"
  shows "\<exists>g. new_graph f = Some g \<and> g_wires g = f_wires f"
proof -
  note parts = validate_flow_parts [OF assms]
  have dist: "distinct (map n_id (f_nodes f))" using parts by (simp add: validate_ids_ok)
  obtain g where g: "new_graph f = Some g"
    using new_graph_of_acyclic [OF dist accepted_acyclic [OF assms]] by blast
  have "\<forall>w\<in>set (f_wires f). wire_ok (f_nodes f) w" using parts by (simp add: validate_wires_ok)
  then have "known_wires f = f_wires f"
    by (auto simp: known_wires_def wire_ok_def filter_id_conv)
  with g show ?thesis by (simp add: new_graph_Some)
qed

end
