(* ===== verification/Sql.thy ===== *)
theory Sql
  imports Prelude
begin

text \<open>
  The SQL the queries of \<open>internal/app/data/queries\<close> use, over tables as row lists in rowid
  order: conditional update and delete, insert, upsert on a key, single-row lookup, and the
  \<open>GLOB\<close> operator. A \<open>UNIQUE\<close> or primary-key constraint is the predicate \<open>unique_on\<close>, kept
  by every statement that cannot violate it.
\<close>

section \<open>Statements\<close>

definition sql_update :: "('r \<Rightarrow> bool) \<Rightarrow> ('r \<Rightarrow> 'r) \<Rightarrow> 'r list \<Rightarrow> 'r list" where
  "sql_update P f rows = map (\<lambda>r. if P r then f r else r) rows"

definition sql_delete :: "('r \<Rightarrow> bool) \<Rightarrow> 'r list \<Rightarrow> 'r list" where
  "sql_delete P rows = filter (\<lambda>r. \<not> P r) rows"

definition sql_upsert :: "('r \<Rightarrow> 'k) \<Rightarrow> 'r \<Rightarrow> ('r \<Rightarrow> 'r) \<Rightarrow> 'r list \<Rightarrow> 'r list" where
  "sql_upsert key row f rows =
     (if list_ex (\<lambda>r. key r = key row) rows
      then sql_update (\<lambda>r. key r = key row) f rows else rows @ [row])"

definition sql_insert_ignore :: "('r \<Rightarrow> 'k) \<Rightarrow> 'r \<Rightarrow> 'r list \<Rightarrow> 'r list" where
  "sql_insert_ignore key row rows =
     (if list_ex (\<lambda>r. key r = key row) rows then rows else rows @ [row])"

definition changes :: "('r \<Rightarrow> bool) \<Rightarrow> 'r list \<Rightarrow> int" where
  "changes P rows = int (length (filter P rows))"

definition unique_on :: "('r \<Rightarrow> 'k) \<Rightarrow> 'r list \<Rightarrow> bool" where
  "unique_on key rows \<longleftrightarrow> distinct (map key rows)"

section \<open>Keys stay unique\<close>

lemma unique_on_Nil [simp]: "unique_on key []"
  by (simp add: unique_on_def)

lemma unique_on_filter [intro]: "unique_on key rows \<Longrightarrow> unique_on key (filter P rows)"
  by (simp add: unique_on_def distinct_map_filter)

lemma unique_on_delete [intro, preserves]: "unique_on key rows \<Longrightarrow> unique_on key (sql_delete P rows)"
  by (simp add: sql_delete_def unique_on_filter)

lemma map_key_update:
  "(\<And>r. r \<in> set rows \<Longrightarrow> P r \<Longrightarrow> key (f r) = key r) \<Longrightarrow> map key (sql_update P f rows) = map key rows"
  by (induction rows) (auto simp: sql_update_def)

lemma unique_on_update [preserves]:
  "unique_on key rows \<Longrightarrow> (\<And>r. r \<in> set rows \<Longrightarrow> P r \<Longrightarrow> key (f r) = key r) \<Longrightarrow>
   unique_on key (sql_update P f rows)"
  by (simp add: unique_on_def map_key_update)

lemma unique_on_insert:
  "unique_on key (rows @ [row]) \<longleftrightarrow> unique_on key rows \<and> (\<forall>r\<in>set rows. key r \<noteq> key row)"
proof -
  have "key row \<notin> key ` set rows \<longleftrightarrow> (\<forall>r\<in>set rows. key r \<noteq> key row)"
    by (metis imageE image_eqI)
  then show ?thesis by (simp add: unique_on_def)
qed

lemma unique_on_insert_ignore [preserves]:
  "unique_on key rows \<Longrightarrow> unique_on key (sql_insert_ignore key row rows)"
  by (auto simp: sql_insert_ignore_def unique_on_insert list_ex_iff)

lemma unique_on_upsert [preserves]:
  assumes "unique_on key rows" and "\<And>r. key r = key row \<Longrightarrow> key (f r) = key r"
  shows "unique_on key (sql_upsert key row f rows)"
proof (cases "list_ex (\<lambda>r. key r = key row) rows")
  case True
  have "unique_on key (sql_update (\<lambda>r. key r = key row) f rows)"
    by (rule unique_on_update [OF assms(1)]) (rule assms(2))
  with True show ?thesis by (simp add: sql_upsert_def)
next
  case False
  then show ?thesis using assms(1) by (simp add: sql_upsert_def unique_on_insert list_ex_iff)
qed

lemma unique_on_eq:
  "unique_on key rows \<Longrightarrow> r \<in> set rows \<Longrightarrow> r' \<in> set rows \<Longrightarrow> key r = key r' \<Longrightarrow> r = r'"
  by (auto simp: unique_on_def distinct_map dest: inj_onD)

section \<open>Lookups after statements\<close>

lemma find_update:
  "(\<And>r. P r \<Longrightarrow> Q (f r) = Q r) \<Longrightarrow>
   find Q (sql_update P f rows) = map_option (\<lambda>r. if P r then f r else r) (find Q rows)"
  by (induction rows) (auto simp: sql_update_def)

lemma find_append: "find P (xs @ ys) = (case find P xs of None \<Rightarrow> find P ys | Some x \<Rightarrow> Some x)"
  by (induction xs) auto

lemma find_delete: "(\<And>r. Q r \<Longrightarrow> \<not> P r) \<Longrightarrow> find Q (sql_delete P rows) = find Q rows"
  by (induction rows) (auto simp: sql_delete_def)

lemma find_delete_gone: "(\<And>r. Q r \<Longrightarrow> P r) \<Longrightarrow> find Q (sql_delete P rows) = None"
  by (induction rows) (auto simp: sql_delete_def)

lemma find_Some_mem: "find P xs = Some x \<Longrightarrow> x \<in> set xs \<and> P x"
  by (induction xs) (auto split: if_splits)

lemma find_None_conv: "find P xs = None \<longleftrightarrow> (\<forall>x\<in>set xs. \<not> P x)"
  by (induction xs) auto

lemma find_key_upsert:
  assumes "\<And>r. key r = key row \<Longrightarrow> key (f r) = key row"
  shows "find (\<lambda>r. key r = k) (sql_upsert key row f rows) =
    (if k = key row then Some (case find (\<lambda>r. key r = k) rows of None \<Rightarrow> row | Some r \<Rightarrow> f r)
     else find (\<lambda>r. key r = k) rows)"
proof (cases "list_ex (\<lambda>r. key r = key row) rows")
  case True
  then have ex: "find (\<lambda>r. key r = key row) rows \<noteq> None"
    by (auto simp: find_None_conv list_ex_iff)
  have "find (\<lambda>r. key r = k) (sql_update (\<lambda>r. key r = key row) f rows) =
      map_option (\<lambda>r. if key r = key row then f r else r) (find (\<lambda>r. key r = k) rows)"
    by (rule find_update) (use assms in auto)
  with True ex assms find_Some_mem [of "\<lambda>r. key r = k" rows] show ?thesis
    by (cases "find (\<lambda>r. key r = k) rows") (auto simp: sql_upsert_def)
next
  case False
  then have "find (\<lambda>r. key r = key row) rows = None"
    by (auto simp: find_None_conv list_ex_iff)
  with False show ?thesis by (auto simp: sql_upsert_def find_append split: option.splits)
qed

lemma find_unique:
  assumes "unique_on key rows"
  shows "find (\<lambda>r. key r = k \<and> P r) rows = (case find (\<lambda>r. key r = k) rows of None \<Rightarrow> None
                        | Some r \<Rightarrow> if P r then Some r else None)"
  using assms
proof (induction rows)
  case (Cons a rows)
  show ?case
  proof (cases "key a = k")
    case True
    with Cons.prems have "\<forall>r\<in>set rows. key r \<noteq> k" by (auto simp: unique_on_def image_iff)
    then have "find (\<lambda>r. key r = k \<and> P r) rows = None" by (auto simp: find_None_conv)
    with True show ?thesis by simp
  next
    case False
    with Cons show ?thesis by (simp add: unique_on_def)
  qed
qed simp

lemma find_key_mem:
  "unique_on key rows \<Longrightarrow> r \<in> set rows \<Longrightarrow> find (\<lambda>x. key x = key r) rows = Some r"
  by (induction rows) (auto simp: unique_on_def)

section \<open>GLOB\<close>

text \<open>The pattern language of SQLite's \<open>GLOB\<close>: star, question mark, and bracketed classes
  without ranges or negation, which is all that \<open>escapeGlob\<close> produces.\<close>

fun class_members :: "string \<Rightarrow> (string \<times> string) option" where
  "class_members [] = None"
| "class_members (c # rest) =
     (if c = CHR '']'' then Some ([], rest)
      else map_option (\<lambda>(cs, r). (c # cs, r)) (class_members rest))"

lemma class_members_length: "class_members p = Some (cs, rest) \<Longrightarrow> length rest < length p"
  by (induction p arbitrary: cs rest) (auto split: if_splits simp: less_SucI)

function glob_match :: "string \<Rightarrow> string \<Rightarrow> bool" where
  "glob_match [] s \<longleftrightarrow> s = []"
| "glob_match (c # p) s \<longleftrightarrow>
     (if c = CHR ''*'' then
        glob_match p s \<or> (case s of [] \<Rightarrow> False | _ # s' \<Rightarrow> glob_match (c # p) s')
      else
        (case s of
           [] \<Rightarrow> False
         | d # s' \<Rightarrow>
             if c = CHR ''?'' then glob_match p s'
             else if c = CHR ''['' then
               (case class_members p of
                  None \<Rightarrow> False
                | Some (cs, rest) \<Rightarrow> d \<in> set cs \<and> glob_match rest s')
             else d = c \<and> glob_match p s'))"
  by pat_completeness auto
termination
  by (relation "measure (\<lambda>(p, s). length p + length s)") (auto dest!: class_members_length)

declare glob_match.simps(2) [simp del]

lemma glob_match_star [simp]: "glob_match ''*'' s"
  by (induction s) (simp_all add: glob_match.simps(2) [of "CHR ''*''"])

lemma glob_match_literal:
  "c \<noteq> CHR ''*'' \<Longrightarrow> c \<noteq> CHR ''?'' \<Longrightarrow> c \<noteq> CHR ''['' \<Longrightarrow>
   glob_match (c # p) s \<longleftrightarrow> (\<exists>s'. s = c # s' \<and> glob_match p s')"
  by (auto simp: glob_match.simps(2) split: list.split)

lemma glob_match_class1:
  "c \<noteq> CHR '']'' \<Longrightarrow>
   glob_match (CHR ''['' # c # CHR '']'' # p) s \<longleftrightarrow> (\<exists>s'. s = c # s' \<and> glob_match p s')"
  by (auto simp: glob_match.simps(2) [of "CHR ''[''"] split: list.split)

end
