(* ===== verification/Kv.thy ===== *)
theory Kv
  imports Sql
begin

text \<open>
  Durable key-value state of function nodes: the staging layers of
  \<open>internal/app/runtime/kv.go\<close>, the in-memory seed of \<open>dryrun.go\<close> and the table of
  \<open>internal/app/data/stores/store_node_kv.go\<close>. The interface \<open>KVReader\<close> is a record of
  operations; its laws are the locale \<open>durable_kv\<close>, which the table, the seed and the no-op
  reader all satisfy. \<open>kv_writer\<close> is the store's write contract; under it, what a script
  reads in the middle of a run is what the table holds once the run's mutations are applied.
\<close>

datatype kv_error = CtxDone | ReadFailed string

record kv_reader =
  rd_get :: "string \<Rightarrow> string \<Rightarrow> string \<Rightarrow> int \<Rightarrow> (kv_error, string option) result"
  rd_keys :: "string \<Rightarrow> string \<Rightarrow> string \<Rightarrow> int \<Rightarrow> (kv_error, string list) result"

record kv_op =
  op_deleted :: bool
  op_value :: string
  op_expires :: int

record kv_buffer =
  kb_reader :: kv_reader
  kb_flow :: string
  kb_now :: int
  kb_inert :: bool
  kb_ops :: "(string, (string, kv_op) amap) amap"

record kv_mutation =
  km_node :: string
  km_key :: string
  km_delete :: bool
  km_value :: string
  km_expires :: int

record staging =
  sg_node :: string
  sg_staged :: "(string, kv_op) amap"

section \<open>One run's buffer\<close>

definition noop_reader :: kv_reader where
  "noop_reader = \<lparr>rd_get = (\<lambda>_ _ _ _. Inr None), rd_keys = (\<lambda>_ _ _ _. Inr [])\<rparr>"

definition new_kv_buffer :: "kv_reader option \<Rightarrow> string \<Rightarrow> int \<Rightarrow> kv_buffer" where
  "new_kv_buffer r flow now =
     \<lparr>kb_reader = (case r of None \<Rightarrow> noop_reader | Some rd \<Rightarrow> rd), kb_flow = flow, kb_now = now,
      kb_inert = False, kb_ops = []\<rparr>"

definition new_inert_kv_buffer :: "string \<Rightarrow> int \<Rightarrow> kv_buffer" where
  "new_inert_kv_buffer flow now = (new_kv_buffer (Some noop_reader) flow now)\<lparr>kb_inert := True\<rparr>"

definition node_ops :: "kv_buffer \<Rightarrow> string \<Rightarrow> (string, kv_op) amap" where
  "node_ops b n = (case map_of (kb_ops b) n of None \<Rightarrow> [] | Some ops \<Rightarrow> ops)"

definition buffer_node :: "string \<Rightarrow> staging" where
  "buffer_node n = \<lparr>sg_node = n, sg_staged = []\<rparr>"

definition op_mutation :: "string \<Rightarrow> string \<Rightarrow> kv_op \<Rightarrow> kv_mutation" where
  "op_mutation n k op =
     \<lparr>km_node = n, km_key = k, km_delete = op_deleted op, km_value = op_value op,
      km_expires = op_expires op\<rparr>"

definition node_mutations :: "kv_buffer \<Rightarrow> string \<Rightarrow> kv_mutation list" where
  "node_mutations b n =
     map (\<lambda>k. op_mutation n k (the (map_of (node_ops b n) k))) (amap_keys (node_ops b n))"

definition mutations :: "kv_buffer \<Rightarrow> kv_mutation list" where
  "mutations b =
     (if kb_inert b \<or> kb_ops b = [] then []
      else concat (map (node_mutations b) (amap_keys (kb_ops b))))"

definition staging_commit :: "staging \<Rightarrow> kv_buffer \<Rightarrow> kv_buffer" where
  "staging_commit s b =
     (if kb_inert b \<or> sg_staged s = [] then b
      else b\<lparr>kb_ops := AList.update (sg_node s)
                (amap_merge (node_ops b (sg_node s)) (sg_staged s)) (kb_ops b)\<rparr>)"

section \<open>One message's staging\<close>

definition op_expired :: "int \<Rightarrow> kv_op \<Rightarrow> bool" where
  "op_expired now op \<longleftrightarrow> 0 < op_expires op \<and> op_expires op \<le> now"

definition op_resolve :: "int \<Rightarrow> kv_op \<Rightarrow> string option" where
  "op_resolve now op = (if op_deleted op \<or> op_expired now op then None else Some (op_value op))"

definition staging_get ::
  "bool \<Rightarrow> kv_buffer \<Rightarrow> staging \<Rightarrow> string \<Rightarrow> (kv_error, string option) result" where
  "staging_get ctx_done b s key =
     (if ctx_done then Inl CtxDone
      else if kb_inert b then Inr None
      else case map_of (sg_staged s) key of
             Some op \<Rightarrow> Inr (op_resolve (kb_now b) op)
           | None \<Rightarrow>
               (case map_of (node_ops b (sg_node s)) key of
                  Some op \<Rightarrow> Inr (op_resolve (kb_now b) op)
                | None \<Rightarrow> rd_get (kb_reader b) (kb_flow b) (sg_node s) key (kb_now b)))"

definition staging_has ::
  "bool \<Rightarrow> kv_buffer \<Rightarrow> staging \<Rightarrow> string \<Rightarrow> (kv_error, bool) result" where
  "staging_has ctx_done b s key =
     res_bind (staging_get ctx_done b s key) (\<lambda>v. Inr (v \<noteq> None))"

definition staging_set ::
  "bool \<Rightarrow> kv_buffer \<Rightarrow> staging \<Rightarrow> string \<Rightarrow> string \<Rightarrow> int \<Rightarrow> (kv_error, staging) result" where
  "staging_set ctx_done b s key val ttl =
     (if ctx_done then Inl CtxDone
      else if kb_inert b then Inr s
      else Inr (s\<lparr>sg_staged := AList.update key
             \<lparr>op_deleted = False, op_value = val,
              op_expires = (if 0 < ttl then wrap64 (kb_now b + wrap64 (ttl * 1000)) else 0)\<rparr>
             (sg_staged s)\<rparr>))"

definition staging_delete ::
  "bool \<Rightarrow> kv_buffer \<Rightarrow> staging \<Rightarrow> string \<Rightarrow> (kv_error, staging) result" where
  "staging_delete ctx_done b s key =
     (if ctx_done then Inl CtxDone
      else if kb_inert b then Inr s
      else Inr (s\<lparr>sg_staged := AList.update key
             \<lparr>op_deleted = True, op_value = [], op_expires = 0\<rparr> (sg_staged s)\<rparr>))"

definition overlay_op ::
  "int \<Rightarrow> string \<Rightarrow> string \<times> kv_op \<Rightarrow> string list \<Rightarrow> string list" where
  "overlay_op now prefix = (\<lambda>(key, op) seen.
     if \<not> has_prefix prefix key then seen
     else if op_deleted op \<or> op_expired now op then filter (\<lambda>k. k \<noteq> key) seen
     else List.insert key seen)"

definition staging_keys ::
  "bool \<Rightarrow> kv_buffer \<Rightarrow> staging \<Rightarrow> string \<Rightarrow> (kv_error, string list) result" where
  "staging_keys ctx_done b s prefix =
     (if ctx_done then Inl CtxDone
      else if kb_inert b then Inr []
      else res_bind (rd_keys (kb_reader b) (kb_flow b) (sg_node s) prefix (kb_now b)) (\<lambda>durable.
             Inr (sort (fold (overlay_op (kb_now b) prefix) (sg_staged s)
                   (fold (overlay_op (kb_now b) prefix) (node_ops b (sg_node s))
                     (remdups durable))))))"

section \<open>The in-memory seed\<close>

type_synonym memory_kv = "(string, (string, string) amap) amap"

definition memory_node :: "memory_kv \<Rightarrow> string \<Rightarrow> (string, string) amap" where
  "memory_node m n = (case map_of m n of None \<Rightarrow> [] | Some kvs \<Rightarrow> kvs)"

definition memory_get :: "memory_kv \<Rightarrow> string \<Rightarrow> string \<Rightarrow> string option" where
  "memory_get m n key = map_of (memory_node m n) key"

definition memory_keys :: "memory_kv \<Rightarrow> string \<Rightarrow> string \<Rightarrow> string list" where
  "memory_keys m n prefix = sort (filter (has_prefix prefix) (amap_keys (memory_node m n)))"

definition memory_reader :: "memory_kv \<Rightarrow> kv_reader" where
  "memory_reader m =
     \<lparr>rd_get = (\<lambda>_ n key _. Inr (memory_get m n key)),
      rd_keys = (\<lambda>_ n prefix _. Inr (memory_keys m n prefix))\<rparr>"

section \<open>The node_kv table\<close>

record kv_row =
  kr_flow :: string
  kr_node :: string
  kr_scope :: string
  kr_key :: string
  kr_value :: string
  kr_expires :: "int option"
  kr_updated :: int

type_synonym kv_table = "kv_row list"

definition kr_pk :: "kv_row \<Rightarrow> string \<times> string \<times> string \<times> string" where
  "kr_pk r = (kr_flow r, kr_node r, kr_scope r, kr_key r)"

definition kv_scope_node :: string where
  "kv_scope_node = ''node''"

definition kr_live :: "int \<Rightarrow> kv_row \<Rightarrow> bool" where
  "kr_live now r \<longleftrightarrow> (case kr_expires r of None \<Rightarrow> True | Some e \<Rightarrow> now < e)"

definition escape_glob :: "string \<Rightarrow> string" where
  "escape_glob s = concat (map (\<lambda>c.
     if c = CHR ''*'' then ''[*]'' else if c = CHR ''?'' then ''[?]''
     else if c = CHR ''['' then ''[[]'' else [c]) s)"

definition node_kv_get :: "kv_table \<Rightarrow> string \<Rightarrow> string \<Rightarrow> string \<Rightarrow> int \<Rightarrow> string option" where
  "node_kv_get t flow n key now =
     map_option kr_value
       (find (\<lambda>r. kr_pk r = (flow, n, kv_scope_node, key) \<and> kr_live now r) t)"

definition node_kv_keys :: "kv_table \<Rightarrow> string \<Rightarrow> string \<Rightarrow> string \<Rightarrow> int \<Rightarrow> string list" where
  "node_kv_keys t flow n prefix now =
     sort (map kr_key (filter (\<lambda>r. kr_flow r = flow \<and> kr_node r = n \<and> kr_scope r = kv_scope_node \<and>
        glob_match (escape_glob prefix @ ''*'') (kr_key r) \<and> kr_live now r) t))"

definition node_kv_set ::
  "string \<Rightarrow> string \<Rightarrow> string \<Rightarrow> string \<Rightarrow> int \<Rightarrow> int \<Rightarrow> kv_table \<Rightarrow> kv_table" where
  "node_kv_set flow n key val expires clock t =
     (let exp = (if 0 < expires then Some expires else None)
      in sql_upsert kr_pk
           \<lparr>kr_flow = flow, kr_node = n, kr_scope = kv_scope_node, kr_key = key, kr_value = val,
            kr_expires = exp, kr_updated = clock\<rparr>
           (\<lambda>r. r\<lparr>kr_value := val, kr_expires := exp, kr_updated := clock\<rparr>) t)"

definition node_kv_delete :: "string \<Rightarrow> string \<Rightarrow> string \<Rightarrow> kv_table \<Rightarrow> kv_table" where
  "node_kv_delete flow n key t = sql_delete (\<lambda>r. kr_pk r = (flow, n, kv_scope_node, key)) t"

definition node_kv_delete_by_flow :: "string \<Rightarrow> kv_table \<Rightarrow> kv_table" where
  "node_kv_delete_by_flow flow t = sql_delete (\<lambda>r. kr_flow r = flow) t"

definition node_kv_delete_except :: "string \<Rightarrow> string list \<Rightarrow> kv_table \<Rightarrow> kv_table" where
  "node_kv_delete_except flow keep t =
     sql_delete (\<lambda>r. kr_flow r = flow \<and> kr_node r \<notin> set keep) t"

definition node_kv_delete_expired :: "int \<Rightarrow> kv_table \<Rightarrow> kv_table" where
  "node_kv_delete_expired now t = sql_delete (\<lambda>r. \<not> kr_live now r) t"

definition node_kv_reader :: "kv_table \<Rightarrow> kv_reader" where
  "node_kv_reader t =
     \<lparr>rd_get = (\<lambda>f n k now. Inr (node_kv_get t f n k now)),
      rd_keys = (\<lambda>f n p now. Inr (node_kv_keys t f n p now))\<rparr>"

text \<open>How a commit writes a batch's mutations.\<close>

definition apply_kv_mutation :: "string \<Rightarrow> int \<Rightarrow> kv_mutation \<Rightarrow> kv_table \<Rightarrow> kv_table" where
  "apply_kv_mutation flow clock m t =
     (if km_delete m then node_kv_delete flow (km_node m) (km_key m) t
      else node_kv_set flow (km_node m) (km_key m) (km_value m) (km_expires m) clock t)"

definition apply_kv_mutations :: "string \<Rightarrow> int \<Rightarrow> kv_mutation list \<Rightarrow> kv_table \<Rightarrow> kv_table" where
  "apply_kv_mutations flow clock ms t = fold (apply_kv_mutation flow clock) ms t"

section \<open>The read contract\<close>

text \<open>What \<open>KVReader\<close> promises: reads succeed, and the keys listed under a prefix are exactly
  the keys of that prefix a read finds.\<close>

locale durable_kv =
  fixes rd :: kv_reader
  assumes get_ok: "\<exists>v. rd_get rd flow n key now = Inr v"
    and keys_ok: "\<exists>ks. rd_keys rd flow n prefix now = Inr ks \<and>
      (\<forall>k. k \<in> set ks \<longleftrightarrow> has_prefix prefix k \<and> rd_get rd flow n k now \<noteq> Inr None)"
begin

lemma staging_get_total:
  assumes "kb_reader b = rd"
  shows "\<exists>v. staging_get False b s key = Inr v"
  using get_ok assms by (auto simp: staging_get_def split: option.split)

lemma staging_keys_total:
  assumes "kb_reader b = rd"
  shows "\<exists>ks. staging_keys False b s prefix = Inr ks \<and> sorted ks"
proof (cases "kb_inert b")
  case False
  obtain ks where "rd_keys rd (kb_flow b) (sg_node s) prefix (kb_now b) = Inr ks" using keys_ok by blast
  with False assms show ?thesis by (simp add: staging_keys_def)
qed (simp add: staging_keys_def)

end

text \<open>Laying one layer of writes over a set of keys.\<close>

definition layer :: "int \<Rightarrow> (string, kv_op) amap \<Rightarrow> string option \<Rightarrow> string \<Rightarrow> string option" where
  "layer now ops below key =
     (case map_of ops key of None \<Rightarrow> below | Some op \<Rightarrow> op_resolve now op)"

lemma overlay_op_mem:
  "k \<in> set (overlay_op now prefix (key, op) seen) \<longleftrightarrow>
     (if k = key \<and> has_prefix prefix key then op_resolve now op \<noteq> None else k \<in> set seen)"
  by (auto simp: overlay_op_def op_resolve_def)

lemma overlay_distinct: "distinct seen \<Longrightarrow> distinct (fold (overlay_op now prefix) ops seen)"
proof (induction ops arbitrary: seen)
  case (Cons kv ops)
  have "distinct (overlay_op now prefix kv seen)"
    using Cons.prems by (cases kv) (simp add: overlay_op_def)
  with Cons.IH show ?case by simp
qed simp

lemma overlay_mem:
  assumes "distinct (map fst ops)"
    and "\<And>k. k \<in> set seen \<longleftrightarrow> has_prefix prefix k \<and> below k \<noteq> None"
  shows "k \<in> set (fold (overlay_op now prefix) ops seen) \<longleftrightarrow>
         has_prefix prefix k \<and> layer now ops (below k) k \<noteq> None"
  using assms
proof (induction ops arbitrary: seen below)
  case (Cons kv ops)
  obtain key op where kv: "kv = (key, op)" by fastforce
  let ?below = "\<lambda>k. if k = key then op_resolve now op else below k"
  have "k \<in> set (overlay_op now prefix kv seen) \<longleftrightarrow> has_prefix prefix k \<and> ?below k \<noteq> None" for k
    unfolding kv overlay_op_mem using Cons.prems(2) by auto
  from Cons.IH [OF _ this]
  have "k \<in> set (fold (overlay_op now prefix) ops (overlay_op now prefix kv seen)) \<longleftrightarrow>
        has_prefix prefix k \<and> layer now ops (?below k) k \<noteq> None"
    using Cons.prems(1) by (simp add: kv)
  moreover have "map_of ops key = None" using Cons.prems(1) by (simp add: kv map_of_None_iff)
  ultimately show ?case by (auto simp: kv layer_def split: option.splits)
qed (simp add: layer_def)

definition buffer_wf :: "kv_buffer \<Rightarrow> bool" where
  "buffer_wf b \<longleftrightarrow> distinct (map fst (kb_ops b)) \<and>
     (\<forall>(n, ops)\<in>set (kb_ops b). distinct (map fst ops) \<and> ops \<noteq> [])"

definition staging_wf :: "staging \<Rightarrow> bool" where
  "staging_wf s \<longleftrightarrow> distinct (map fst (sg_staged s))"

lemma node_ops_distinct: "buffer_wf b \<Longrightarrow> distinct (map fst (node_ops b n))"
  by (auto simp: buffer_wf_def node_ops_def split: option.split dest!: map_of_SomeD)

lemma buffer_wf_new [simp]: "buffer_wf (new_kv_buffer r flow now)"
  by (simp add: buffer_wf_def new_kv_buffer_def)

lemma staging_wf_new [simp]: "staging_wf (buffer_node n)"
  by (simp add: staging_wf_def buffer_node_def)

lemma staging_wf_set [preserves]:
  "staging_wf s \<Longrightarrow> staging_set c b s k v ttl = Inr s' \<Longrightarrow> staging_wf s'"
  by (auto simp: staging_set_def staging_wf_def distinct_update split: if_splits)

lemma staging_wf_delete [preserves]:
  "staging_wf s \<Longrightarrow> staging_delete c b s k = Inr s' \<Longrightarrow> staging_wf s'"
  by (auto simp: staging_delete_def staging_wf_def distinct_update split: if_splits)

lemma amap_merge_Nil_iff: "new \<noteq> [] \<Longrightarrow> amap_merge old new \<noteq> []"
proof
  assume "new \<noteq> []" and m: "amap_merge old new = []"
  then obtain kv where "kv \<in> set new" by (meson hd_in_set)
  then have "map_of new (fst kv) \<noteq> None" by (simp add: map_of_None_iff)
  then have "map_of (amap_merge old new) (fst kv) \<noteq> None" by auto
  with m show False by simp
qed

lemma buffer_wf_commit [preserves]:
  assumes "buffer_wf b" and "staging_wf s"
  shows "buffer_wf (staging_commit s b)"
proof (cases "kb_inert b \<or> sg_staged s = []")
  case False
  have m: "distinct (map fst (amap_merge (node_ops b (sg_node s)) (sg_staged s)))"
    by (rule distinct_amap_merge [OF node_ops_distinct [OF assms(1)]])
  let ?new = "amap_merge (node_ops b (sg_node s)) (sg_staged s)"
  have sub: "set (AList.update k v al) \<subseteq> insert (k, v) (set al)" for k v and al :: "('a \<times> 'b) list"
    by (induction al) auto
  have ne: "?new \<noteq> []" by (rule amap_merge_Nil_iff) (use False in simp)
  have "distinct (map fst ops) \<and> ops \<noteq> []"
    if "(n, ops) \<in> set (AList.update (sg_node s) ?new (kb_ops b))" for n ops
  proof (cases "(n, ops) = (sg_node s, ?new)")
    case True
    then show ?thesis using m ne by simp
  next
    case False
    with subsetD [OF sub that] have "(n, ops) \<in> set (kb_ops b)" by auto
    then show ?thesis using assms(1) by (auto simp: buffer_wf_def)
  qed
  moreover have "staging_commit s b = b\<lparr>kb_ops := AList.update (sg_node s) ?new (kb_ops b)\<rparr>"
    using False by (simp add: staging_commit_def)
  moreover have "distinct (map fst (AList.update (sg_node s) ?new (kb_ops b)))"
    using assms(1) by (simp add: distinct_update buffer_wf_def)
  ultimately show ?thesis by (auto simp: buffer_wf_def)
qed (use assms in \<open>simp add: staging_commit_def\<close>)

context durable_kv
begin

lemma staging_keys_agree:
  assumes "kb_reader b = rd" and "buffer_wf b" and "staging_wf s"
  shows "\<exists>ks. staging_keys False b s prefix = Inr ks \<and> sorted ks \<and> distinct ks \<and>
    (\<forall>k. k \<in> set ks \<longleftrightarrow> has_prefix prefix k \<and> staging_get False b s k \<noteq> Inr None)"
proof (cases "kb_inert b")
  case False
  let ?read = "\<lambda>k. rd_get rd (kb_flow b) (sg_node s) k (kb_now b)"
  obtain ks where ks: "rd_keys rd (kb_flow b) (sg_node s) prefix (kb_now b) = Inr ks"
    "\<And>k. k \<in> set ks \<longleftrightarrow> has_prefix prefix k \<and> ?read k \<noteq> Inr None" using keys_ok by metis
  define below where "below = (\<lambda>k. case ?read k of Inr v \<Rightarrow> v | Inl _ \<Rightarrow> None)"
  have below: "?read k = Inr (below k)" for k
    using get_ok [of "kb_flow b" "sg_node s" k "kb_now b"] by (auto simp: below_def)
  have seen: "k \<in> set (remdups ks) \<longleftrightarrow> has_prefix prefix k \<and> below k \<noteq> None" for k
    using ks(2) [of k] below [of k] by simp
  note mem1 = overlay_mem [OF node_ops_distinct [OF assms(2)] seen]
  note mem2 = overlay_mem [OF assms(3) [unfolded staging_wf_def] mem1]
  have get: "staging_get False b s k =
      Inr (layer (kb_now b) (sg_staged s) (layer (kb_now b) (node_ops b (sg_node s)) (below k) k) k)" for k
    using False assms(1) below [of k] by (simp add: staging_get_def layer_def split: option.split)
  show ?thesis
    using False assms(1) ks(1) mem2 overlay_distinct
    by (simp add: staging_keys_def get)
qed (simp add: staging_keys_def staging_get_def)

end

section \<open>The three readers\<close>

interpretation no_kv: durable_kv noop_reader
  by unfold_locales (auto simp: noop_reader_def)

interpretation seed_kv: durable_kv "memory_reader m" for m
proof
  fix n key prefix :: string
  show "\<exists>v. rd_get (memory_reader m) flow n key now = Inr v" for flow now
    by (simp add: memory_reader_def)
  have "(k \<in> fst ` set (memory_node m n)) = (\<exists>y. map_of (memory_node m n) k = Some y)" for k
    using map_of_None_iff [of "memory_node m n" k] by auto
  then show "\<exists>ks. rd_keys (memory_reader m) flow n prefix now = Inr ks \<and>
      (\<forall>k. k \<in> set ks \<longleftrightarrow> has_prefix prefix k \<and> rd_get (memory_reader m) flow n k now \<noteq> Inr None)"
    for flow now
    by (auto simp: memory_reader_def memory_keys_def memory_get_def)
qed

lemma escape_glob_simps [simp]:
  "escape_glob [] = []"
  "escape_glob (c # s) =
     (if c = CHR ''*'' then ''[*]'' else if c = CHR ''?'' then ''[?]''
      else if c = CHR ''['' then ''[[]'' else [c]) @ escape_glob s"
  by (simp_all add: escape_glob_def)

lemma has_prefix_Cons: "has_prefix (c # p) s \<longleftrightarrow> (\<exists>s'. s = c # s' \<and> has_prefix p s')"
  by (cases s) (auto simp: has_prefix_def)

lemma glob_match_escaped: "glob_match (escape_glob p @ ''*'') s \<longleftrightarrow> has_prefix p s"
proof (induction p arbitrary: s)
  case Nil
  show ?case by (simp add: has_prefix_def)
next
  case (Cons c p)
  consider "c = CHR ''*''" | "c = CHR ''?''" | "c = CHR ''[''"
    | "c \<noteq> CHR ''*''" "c \<noteq> CHR ''?''" "c \<noteq> CHR ''[''" by blast
  then show ?case
  proof cases
    case 4
    then show ?thesis by (simp add: Cons.IH has_prefix_Cons glob_match_literal)
  qed (simp_all add: Cons.IH has_prefix_Cons glob_match_class1)
qed

interpretation table_kv: durable_kv "node_kv_reader t" for t
proof
  fix flow n key prefix :: string and now :: int
  show "\<exists>v. rd_get (node_kv_reader t) flow n key now = Inr v"
    by (simp add: node_kv_reader_def)
  have "(k \<in> set (node_kv_keys t flow n prefix now)) \<longleftrightarrow>
        has_prefix prefix k \<and> node_kv_get t flow n k now \<noteq> None" for k
    by (auto simp: node_kv_keys_def node_kv_get_def glob_match_escaped find_None_conv kr_pk_def)
  then show "\<exists>ks. rd_keys (node_kv_reader t) flow n prefix now = Inr ks \<and>
      (\<forall>k. k \<in> set ks \<longleftrightarrow> has_prefix prefix k \<and> rd_get (node_kv_reader t) flow n k now \<noteq> Inr None)"
    by (simp add: node_kv_reader_def)
qed

section \<open>What a run reads is what it writes\<close>

text \<open>The write contract of a store that mutations are applied to: applying one changes the
  read of its own node and key, to what the mutation says, and no other.\<close>

definition mutation_read :: "int \<Rightarrow> kv_mutation \<Rightarrow> string option" where
  "mutation_read now m =
     op_resolve now \<lparr>op_deleted = km_delete m, op_value = km_value m, op_expires = km_expires m\<rparr>"

locale kv_writer =
  fixes ok :: "'db \<Rightarrow> bool"
    and get :: "'db \<Rightarrow> string \<Rightarrow> string \<Rightarrow> int \<Rightarrow> string option"
    and app :: "kv_mutation \<Rightarrow> 'db \<Rightarrow> 'db"
  assumes ok_app: "ok db \<Longrightarrow> ok (app m db)"
    and get_app: "ok db \<Longrightarrow> get (app m db) n k now =
      (if km_node m = n \<and> km_key m = k then mutation_read now m else get db n k now)"
begin

lemma ok_all: "ok db \<Longrightarrow> ok (fold app ms db)"
  by (induction ms arbitrary: db) (simp_all add: ok_app)

lemma get_all_unrelated:
  "ok db \<Longrightarrow> \<forall>m\<in>set ms. \<not> (km_node m = n \<and> km_key m = k) \<Longrightarrow>
   get (fold app ms db) n k now = get db n k now"
  by (induction ms arbitrary: db) (auto simp: ok_app get_app)

lemma get_all_agreed:
  "ok db \<Longrightarrow> \<forall>m\<in>set ms. km_node m = n \<and> km_key m = k \<longrightarrow> m = m0 \<Longrightarrow> m0 \<in> set ms \<Longrightarrow>
   km_node m0 = n \<Longrightarrow> km_key m0 = k \<Longrightarrow> get (fold app ms db) n k now = mutation_read now m0"
proof (induction ms arbitrary: db)
  case (Cons m ms)
  show ?case
  proof (cases "m0 \<in> set ms")
    case True
    show ?thesis
      using Cons.IH [OF ok_app [OF Cons.prems(1)] _ True Cons.prems(4,5)] Cons.prems(2) by simp
  next
    case False
    with Cons.prems(2,3) have "m = m0" and "\<forall>x\<in>set ms. \<not> (km_node x = n \<and> km_key x = k)" by auto
    then show ?thesis
      using Cons.prems(4,5) get_all_unrelated [OF ok_app [OF Cons.prems(1)], of ms n k m0 now]
        get_app [OF Cons.prems(1), of m0 n k now] by simp
  qed
qed simp

end

lemma set_mutations:
  assumes "\<not> kb_inert b"
  shows "m \<in> set (mutations b) \<longleftrightarrow>
   (\<exists>n k op. map_of (node_ops b n) k = Some op \<and> m = op_mutation n k op)"
proof -
  have dom: "k \<in> fst ` set ops \<longleftrightarrow> (\<exists>op. map_of ops k = Some op)"
    for ops :: "(string, kv_op) amap" and k
    using map_of_None_iff [of ops k] by auto
  have node: "x \<in> fst ` set (kb_ops b)" if "map_of (node_ops b x) k = Some op" for x k op
    using that by (auto simp: node_ops_def split: option.splits dest: map_of_fst_mem)
  have inner: "m \<in> set (node_mutations b n) \<longleftrightarrow>
      (\<exists>k op. map_of (node_ops b n) k = Some op \<and> m = op_mutation n k op)" for n
  proof -
    have "m \<in> set (node_mutations b n) \<longleftrightarrow>
        (\<exists>k\<in>fst ` set (node_ops b n). m = op_mutation n k (the (map_of (node_ops b n) k)))"
      by (auto simp: node_mutations_def)
    then show ?thesis unfolding Bex_def dom by (metis option.sel)
  qed
  have "m \<in> set (mutations b) \<longleftrightarrow> (\<exists>n\<in>fst ` set (kb_ops b). m \<in> set (node_mutations b n))"
    using assms by (auto simp: mutations_def)
  then show ?thesis unfolding inner using node by blast
qed

context kv_writer
begin

lemma run_view:
  assumes "ok db" and "\<not> kb_inert b"
    and "\<And>n k. rd_get (kb_reader b) (kb_flow b) n k (kb_now b) = Inr (get db n k (kb_now b))"
  shows "staging_get False b (buffer_node n) k =
         Inr (get (fold app (mutations b) db) n k (kb_now b))"
proof (cases "map_of (node_ops b n) k")
  case None
  have "\<forall>m\<in>set (mutations b). \<not> (km_node m = n \<and> km_key m = k)"
    using None by (auto simp: set_mutations [OF assms(2)] op_mutation_def)
  from get_all_unrelated [OF assms(1) this, of "kb_now b"] show ?thesis
    using None assms(2,3) by (simp add: staging_get_def buffer_node_def)
next
  case (Some op)
  have mem: "op_mutation n k op \<in> set (mutations b)"
    using Some by (auto simp: set_mutations [OF assms(2)])
  have one: "\<forall>m\<in>set (mutations b). km_node m = n \<and> km_key m = k \<longrightarrow> m = op_mutation n k op"
    using Some by (auto simp: set_mutations [OF assms(2)] op_mutation_def)
  have "get (fold app (mutations b) db) n k (kb_now b) =
      mutation_read (kb_now b) (op_mutation n k op)"
    by (rule get_all_agreed [OF assms(1) one mem]) (simp_all add: op_mutation_def)
  then show ?thesis
    using Some assms(2) by (simp add: staging_get_def buffer_node_def mutation_read_def op_mutation_def
        op_resolve_def op_expired_def)
qed

end

lemma staging_commit_fields [simp]:
  "kb_reader (staging_commit s b) = kb_reader b" "kb_flow (staging_commit s b) = kb_flow b"
  "kb_now (staging_commit s b) = kb_now b" "kb_inert (staging_commit s b) = kb_inert b"
  by (simp_all add: staging_commit_def)

lemma node_ops_commit:
  "\<not> kb_inert b \<Longrightarrow> map_of (node_ops (staging_commit s b) n) =
   (if n = sg_node s then map_of (node_ops b n) ++ map_of (sg_staged s) else map_of (node_ops b n))"
  by (auto simp: staging_commit_def node_ops_def update_conv')

lemma staging_get_commit:
  "staging_get c b s k = staging_get c (staging_commit s b) (buffer_node (sg_node s)) k"
proof (cases "kb_inert b")
  case False
  then show ?thesis
    by (simp add: staging_get_def node_ops_commit buffer_node_def map_add_def split: option.split)
qed (simp add: staging_get_def)

lemma node_kv_get_unique:
  "unique_on kr_pk t \<Longrightarrow> node_kv_get t flow n key now =
     (case find (\<lambda>r. kr_pk r = (flow, n, kv_scope_node, key)) t of None \<Rightarrow> None
      | Some r \<Rightarrow> if kr_live now r then Some (kr_value r) else None)"
  by (simp add: node_kv_get_def find_unique split: option.split)

lemma kr_pk_update [simp]:
  "kr_pk (r\<lparr>kr_value := v, kr_expires := e, kr_updated := c\<rparr>) = kr_pk r"
  by (simp add: kr_pk_def)

lemma apply_kv_unique [preserves]:
  "unique_on kr_pk t \<Longrightarrow> unique_on kr_pk (apply_kv_mutation flow clock m t)"
  by (auto simp: apply_kv_mutation_def node_kv_delete_def node_kv_set_def Let_def
      intro!: unique_on_upsert unique_on_delete)

lemma apply_kv_get:
  assumes "unique_on kr_pk t"
  shows "node_kv_get (apply_kv_mutation flow clock m t) flow n k now =
    (if km_node m = n \<and> km_key m = k then mutation_read now m else node_kv_get t flow n k now)"
proof (cases "km_delete m")
  case True
  have "find (\<lambda>r. kr_pk r = (flow, n, kv_scope_node, k)) (node_kv_delete flow (km_node m) (km_key m) t) =
      (if km_node m = n \<and> km_key m = k then None
       else find (\<lambda>r. kr_pk r = (flow, n, kv_scope_node, k)) t)"
    by (auto simp: node_kv_delete_def intro!: find_delete find_delete_gone)
  then show ?thesis
    using node_kv_get_unique [OF apply_kv_unique [OF assms, of flow clock m], of flow n k now] True
      node_kv_get_unique [OF assms, of flow n k now]
    by (simp add: apply_kv_mutation_def mutation_read_def op_resolve_def)
next
  case False
  have new: "kr_pk \<lparr>kr_flow = flow, kr_node = km_node m, kr_scope = kv_scope_node, kr_key = km_key m,
      kr_value = v, kr_expires = e, kr_updated = c\<rparr> = (flow, km_node m, kv_scope_node, km_key m)" for v e c
    by (simp add: kr_pk_def)
  have "find (\<lambda>r. kr_pk r = (flow, n, kv_scope_node, k)) (apply_kv_mutation flow clock m t) =
     (if km_node m = n \<and> km_key m = k
      then Some (case find (\<lambda>r. kr_pk r = (flow, n, kv_scope_node, k)) t of
          None \<Rightarrow> \<lparr>kr_flow = flow, kr_node = n, kr_scope = kv_scope_node, kr_key = k,
             kr_value = km_value m, kr_expires = (if 0 < km_expires m then Some (km_expires m) else None),
             kr_updated = clock\<rparr>
        | Some r \<Rightarrow> r\<lparr>kr_value := km_value m,
             kr_expires := (if 0 < km_expires m then Some (km_expires m) else None), kr_updated := clock\<rparr>)
      else find (\<lambda>r. kr_pk r = (flow, n, kv_scope_node, k)) t)"
    unfolding apply_kv_mutation_def node_kv_set_def Let_def using False
    by (simp add: find_key_upsert new) auto
  with False show ?thesis
    using node_kv_get_unique [OF apply_kv_unique [OF assms, of flow clock m], of flow n k now]
      node_kv_get_unique [OF assms, of flow n k now]
    by (auto simp: mutation_read_def op_resolve_def op_expired_def kr_live_def split: option.split)
qed

interpretation table_writer:
  kv_writer "unique_on kr_pk" "\<lambda>t n k now. node_kv_get t flow n k now" "apply_kv_mutation flow clock"
  for flow clock
  by unfold_locales (auto simp: apply_kv_get preserves)

text \<open>
  Claim C40: A run reads what it writes. Whatever a script reads in the middle of a message,
  through its staging, the run's buffer and the durable table, is exactly what the table holds
  under the same key once the message's staging is merged and the run's mutations have been
  applied to it.
\<close>

theorem kv_run_refines_table:
  assumes "unique_on kr_pk t" and "kb_reader b = node_kv_reader t" and "\<not> kb_inert b"
  shows "staging_get False b s key =
    Inr (node_kv_get (apply_kv_mutations (kb_flow b) clock (mutations (staging_commit s b)) t)
           (kb_flow b) (sg_node s) key (kb_now b))"
proof -
  have "staging_get False (staging_commit s b) (buffer_node (sg_node s)) key =
      Inr (node_kv_get (fold (apply_kv_mutation (kb_flow b) clock) (mutations (staging_commit s b)) t)
            (kb_flow b) (sg_node s) key (kb_now b))"
    using table_writer.run_view [OF assms(1), of "staging_commit s b" "kb_flow b" "sg_node s" key clock]
      assms(2,3) by (simp add: node_kv_reader_def)
  then show ?thesis by (simp add: staging_get_commit [symmetric] apply_kv_mutations_def)
qed

text \<open>
  Listing agrees: \<open>kv.keys\<close> agrees with \<open>kv.get\<close>. Over the durable table, and through any layers of
  writes of the run, the listing of a prefix succeeds, is sorted without repetition, and holds
  exactly the keys of that prefix (matched byte by byte, glob characters included) that a read
  would find.
\<close>

theorem kv_keys_agree_with_get:
  assumes "kb_reader b = node_kv_reader t" and "buffer_wf b" and "staging_wf s"
  shows "\<exists>ks. staging_keys False b s prefix = Inr ks \<and> sorted ks \<and> distinct ks \<and>
    (\<forall>k. k \<in> set ks \<longleftrightarrow> has_prefix prefix k \<and> staging_get False b s k \<noteq> Inr None)"
  by (rule table_kv.staging_keys_agree [OF assms])

text \<open>The dry run's seed and a runner without a KV port satisfy the same contract.\<close>

lemma seed_keys_agree:
  assumes "kb_reader b = memory_reader m" and "buffer_wf b" and "staging_wf s"
  shows "\<exists>ks. staging_keys False b s prefix = Inr ks \<and> sorted ks \<and> distinct ks \<and>
    (\<forall>k. k \<in> set ks \<longleftrightarrow> has_prefix prefix k \<and> staging_get False b s k \<noteq> Inr None)"
  by (rule seed_kv.staging_keys_agree [OF assms])

lemma no_kv_reads_miss: "staging_get False (new_kv_buffer None flow now) (buffer_node n) k = Inr None"
  by (simp add: staging_get_def new_kv_buffer_def buffer_node_def node_ops_def noop_reader_def)

lemma inert_kv:
  assumes "kb_inert b"
  shows "staging_get False b s k = Inr None" and "staging_keys False b s p = Inr []"
    and "staging_set False b s k v ttl = Inr s" and "staging_delete False b s k = Inr s"
    and "staging_commit s b = b" and "mutations b = []"
  using assms by (simp_all add: staging_get_def staging_keys_def staging_set_def staging_delete_def
      staging_commit_def mutations_def)

end
