(* ===== verification/Models.thy ===== *)
theory Models
  imports Json Kv
begin

text \<open>
  The data of \<open>internal/app/data/models/pipeline.go\<close>: log messages, outputs, discards, node
  runs and the commit batch a flow run produces. A nil \<open>Snapshot\<close> is \<open>None\<close>; an empty
  snapshot is \<open>Some []\<close>, which the code tells apart. A nil payload is the empty byte string.
\<close>

record snapshot_item =
  si_key :: string
  si_payload :: bytes

record msg =
  m_id :: string
  m_key :: string
  m_topic :: string
  m_ts :: int
  m_payload :: bytes
  m_snapshot :: "snapshot_item list option"
  m_source_kind :: string
  m_source_scope :: string
  m_occurrence :: string

definition empty_msg :: msg where
  "empty_msg = \<lparr>m_id = [], m_key = [], m_topic = [], m_ts = 0, m_payload = [], m_snapshot = None,
     m_source_kind = [], m_source_scope = [], m_occurrence = []\<rparr>"

datatype sink_kind = SinkFeed | SinkAction | SinkNotify

record sink_output =
  o_kind :: sink_kind
  o_target :: string
  o_key :: string
  o_occurrence :: string
  o_payload :: bytes
  o_source_kind :: string
  o_source_scope :: string
  o_source_topic :: string
  o_snapshot_id :: string

record feed_snapshot =
  fs_feed :: string
  fs_topic :: string
  fs_snapshot :: string

record discard =
  d_msg :: string
  d_node :: string

record node_run =
  nr_flow :: string
  nr_node :: string
  nr_ok :: bool
  nr_in :: nat
  nr_out :: nat
  nr_drop :: nat
  nr_err :: string

record commit_batch =
  cb_consumer :: string
  cb_up_to :: int
  cb_outputs :: "sink_output list"
  cb_snapshots :: "feed_snapshot list"
  cb_discards :: "discard list"
  cb_node_runs :: "node_run list"
  cb_mutations :: "kv_mutation list"

record feed_claim =
  fc_profile :: string
  fc_feed :: string
  fc_item :: int
  fc_source :: string

record item_ref =
  ir_profile :: string
  ir_kind :: string
  ir_scope :: string
  ir_external :: string

definition item_ref_known :: "item_ref \<Rightarrow> bool" where
  "item_ref_known r \<longleftrightarrow> ir_profile r \<noteq> [] \<and> ir_external r \<noteq> []"

section \<open>Synthetic action ids\<close>

definition notify_action_prefix :: string where
  "notify_action_prefix = ''notify:''"

definition notify_action_id :: "string \<Rightarrow> string" where
  "notify_action_id target = notify_action_prefix @ target"

definition notify_action_target :: "string \<Rightarrow> string \<times> bool" where
  "notify_action_target action =
     (if has_prefix notify_action_prefix action
      then (drop (length notify_action_prefix) action,
            drop (length notify_action_prefix) action \<noteq> [])
      else (action, False))"

lemma notify_action_roundtrip:
  "target \<noteq> [] \<Longrightarrow> notify_action_target (notify_action_id target) = (target, True)"
  by (simp add: notify_action_target_def notify_action_id_def)

section \<open>Decoding a message a script returned\<close>

text \<open>\<open>json.Unmarshal\<close> into \<open>Msg\<close>: a member of the wrong type fails the whole decode, a null
  leaves its field as it was. \<open>raw\<close> gives the bytes of a value, which \<open>Payload\<close> keeps.\<close>

fun want_str :: "json \<Rightarrow> string \<Rightarrow> string option" where
  "want_str (JStr s) old = Some s"
| "want_str JNull old = Some old"
| "want_str _ old = None"

fun want_int64 :: "json \<Rightarrow> int \<Rightarrow> int option" where
  "want_int64 (JNum lit) old = parse_int64 lit"
| "want_int64 JNull old = Some old"
| "want_int64 _ old = None"

definition item_member ::
  "(json \<Rightarrow> bytes) \<Rightarrow> string \<times> json \<Rightarrow> snapshot_item \<Rightarrow> snapshot_item option" where
  "item_member raw = (\<lambda>(k, v) it.
     if to_lower k = ''key'' then map_option (\<lambda>s. it\<lparr>si_key := s\<rparr>) (want_str v (si_key it))
     else if to_lower k = ''payload'' then Some (it\<lparr>si_payload := raw v\<rparr>)
     else Some it)"

fun decode_item :: "(json \<Rightarrow> bytes) \<Rightarrow> json \<Rightarrow> snapshot_item option" where
  "decode_item raw (JObj ms) =
     fold (\<lambda>kv acc. Option.bind acc (item_member raw kv)) ms (Some \<lparr>si_key = [], si_payload = []\<rparr>)"
| "decode_item raw JNull = Some \<lparr>si_key = [], si_payload = []\<rparr>"
| "decode_item raw _ = None"

fun decode_all :: "('a \<Rightarrow> 'b option) \<Rightarrow> 'a list \<Rightarrow> 'b list option" where
  "decode_all f [] = Some []"
| "decode_all f (x # xs) =
     (case f x of None \<Rightarrow> None | Some y \<Rightarrow> map_option ((#) y) (decode_all f xs))"

fun want_snapshot ::
  "(json \<Rightarrow> bytes) \<Rightarrow> json \<Rightarrow> snapshot_item list option option" where
  "want_snapshot raw (JArr vs) = map_option Some (decode_all (decode_item raw) vs)"
| "want_snapshot raw JNull = Some None"
| "want_snapshot raw _ = None"

definition msg_member :: "(json \<Rightarrow> bytes) \<Rightarrow> string \<times> json \<Rightarrow> msg \<Rightarrow> msg option" where
  "msg_member raw = (\<lambda>(k, v) m.
     (let f = to_lower k
      in if f = ''id'' then map_option (\<lambda>s. m\<lparr>m_id := s\<rparr>) (want_str v (m_id m))
         else if f = ''key'' then map_option (\<lambda>s. m\<lparr>m_key := s\<rparr>) (want_str v (m_key m))
         else if f = ''topic'' then map_option (\<lambda>s. m\<lparr>m_topic := s\<rparr>) (want_str v (m_topic m))
         else if f = ''ts'' then map_option (\<lambda>n. m\<lparr>m_ts := n\<rparr>) (want_int64 v (m_ts m))
         else if f = ''payload'' then Some (m\<lparr>m_payload := raw v\<rparr>)
         else if f = ''snapshot'' then map_option (\<lambda>s. m\<lparr>m_snapshot := s\<rparr>) (want_snapshot raw v)
         else if f = ''sourcekind''
           then map_option (\<lambda>s. m\<lparr>m_source_kind := s\<rparr>) (want_str v (m_source_kind m))
         else if f = ''sourcescope''
           then map_option (\<lambda>s. m\<lparr>m_source_scope := s\<rparr>) (want_str v (m_source_scope m))
         else if f = ''occurrencekey''
           then map_option (\<lambda>s. m\<lparr>m_occurrence := s\<rparr>) (want_str v (m_occurrence m))
         else Some m))"

fun decode_msg :: "(json \<Rightarrow> bytes) \<Rightarrow> json \<Rightarrow> msg option" where
  "decode_msg raw (JObj ms) = fold (\<lambda>kv acc. Option.bind acc (msg_member raw kv)) ms (Some empty_msg)"
| "decode_msg raw JNull = Some empty_msg"
| "decode_msg raw _ = None"

end
