(* ===== verification/Github_Filter.thy ===== *)
theory Github_Filter
  imports Models Flow
begin

text \<open>
  The github-filter node of \<open>internal/app/runtime/filter.go\<close>. A glob is compiled to a list of
  tokens, one per fragment \<open>globToRegexp\<close> writes: a double star is any run of characters but
  newline, a single star any run but slash, everything else literal. The item is decoded from
  the payload by field; the rule combines the groups.
\<close>

section \<open>Globs\<close>

datatype glob_token = AnyRun | SegmentRun | Literal char

fun glob_tokens :: "string \<Rightarrow> glob_token list" where
  "glob_tokens [] = []"
| "glob_tokens [c] = [if c = CHR ''*'' then SegmentRun else Literal c]"
| "glob_tokens (c # d # s) =
     (if c = CHR ''*'' \<and> d = CHR ''*'' then AnyRun # glob_tokens s
      else if c = CHR ''*'' then SegmentRun # glob_tokens (d # s)
      else Literal c # glob_tokens (d # s))"

text \<open>Matching the compiled expression from its start to the end of the text.\<close>

definition newline :: char where "newline = CHR 0x0A"

fun tokens_match :: "glob_token list \<Rightarrow> string \<Rightarrow> bool" where
  "tokens_match [] s = (s = [])"
| "tokens_match (Literal c # ts) s = (case s of [] \<Rightarrow> False | d # s' \<Rightarrow> d = c \<and> tokens_match ts s')"
| "tokens_match (AnyRun # ts) [] = tokens_match ts []"
| "tokens_match (AnyRun # ts) (d # s) =
     (tokens_match ts (d # s) \<or> (d \<noteq> newline \<and> tokens_match (AnyRun # ts) s))"
| "tokens_match (SegmentRun # ts) [] = tokens_match ts []"
| "tokens_match (SegmentRun # ts) (d # s) =
     (tokens_match ts (d # s) \<or> (d \<noteq> CHR ''/'' \<and> tokens_match (SegmentRun # ts) s))"

definition compile_globs :: "string list \<Rightarrow> bool \<Rightarrow> glob_token list list" where
  "compile_globs patterns fold_case =
     map (\<lambda>p. glob_tokens (if fold_case then to_lower p else p)) patterns"

section \<open>The processor\<close>

record filterable_item =
  fi_repo :: string
  fi_author :: string
  fi_labels :: "string list"
  fi_kind :: string
  fi_reason :: string
  fi_ci :: string
  fi_review :: string

record filter_proc =
  p_repos :: "glob_token list list"
  p_exclude_repos :: "glob_token list list"
  p_authors :: "glob_token list list"
  p_exclude_authors :: "glob_token list list"
  p_labels :: "glob_token list list"
  p_exclude_labels :: "glob_token list list"
  p_types :: "string list"
  p_reasons :: "string list"
  p_ci :: "string list"
  p_review :: "string list"

definition lower_all :: "string list \<Rightarrow> string list" where
  "lower_all vs = map to_lower vs"

definition new_filter_node :: "github_filter_config \<Rightarrow> filter_proc" where
  "new_filter_node c =
     \<lparr>p_repos = compile_globs (gf_repos c) False,
      p_exclude_repos = compile_globs (gf_exclude_repos c) False,
      p_authors = compile_globs (gf_authors c) True,
      p_exclude_authors = compile_globs (gf_exclude_authors c) True,
      p_labels = compile_globs (gf_labels c) False,
      p_exclude_labels = compile_globs (gf_exclude_labels c) False,
      p_types = lower_all (gf_types c), p_reasons = lower_all (gf_reasons c),
      p_ci = lower_all (gf_ci c), p_review = lower_all (gf_review c)\<rparr>"

definition match_any :: "glob_token list list \<Rightarrow> string \<Rightarrow> bool" where
  "match_any ps v = list_ex (\<lambda>p. tokens_match p v) ps"

definition match_any_of :: "glob_token list list \<Rightarrow> string list \<Rightarrow> bool" where
  "match_any_of ps vs = list_ex (match_any ps) vs"

definition contains_fold :: "string list \<Rightarrow> string \<Rightarrow> bool" where
  "contains_fold vs v = (to_lower v \<in> set vs)"

definition decode_filterable :: "json_scanner \<Rightarrow> bytes \<Rightarrow> filterable_item" where
  "decode_filterable J payload =
     (let j = J payload
      in \<lparr>fi_repo = str_field j ''repo'', fi_author = str_field j ''author'',
          fi_labels = strs_field j ''labels'', fi_kind = str_field j ''kind'',
          fi_reason = str_field j ''reason'', fi_ci = str_field j ''ci'',
          fi_review = str_field j ''review''\<rparr>)"

definition filter_matches :: "filter_proc \<Rightarrow> filterable_item \<Rightarrow> bool" where
  "filter_matches p it =
     (if match_any (p_exclude_repos p) (fi_repo it) then False
      else if p_repos p \<noteq> [] \<and> \<not> match_any (p_repos p) (fi_repo it) then False
      else if match_any (p_exclude_authors p) (to_lower (fi_author it)) then False
      else if p_authors p \<noteq> [] \<and> \<not> match_any (p_authors p) (to_lower (fi_author it)) then False
      else if match_any_of (p_exclude_labels p) (fi_labels it) then False
      else if p_labels p \<noteq> [] \<and> \<not> match_any_of (p_labels p) (fi_labels it) then False
      else if p_types p \<noteq> [] \<and> \<not> contains_fold (p_types p) (fi_kind it) then False
      else if p_reasons p \<noteq> [] \<and> \<not> contains_fold (p_reasons p) (fi_reason it) then False
      else if p_ci p \<noteq> [] \<and> \<not> contains_fold (p_ci p) (fi_ci it) then False
      else if p_review p \<noteq> [] \<and> \<not> contains_fold (p_review p) (fi_review it) then False
      else True)"

definition filter_process :: "json_scanner \<Rightarrow> filter_proc \<Rightarrow> msg \<Rightarrow> msg list list" where
  "filter_process J p m =
     (if filter_matches p (decode_filterable J (m_payload m)) then [[m], []] else [[], [m]])"

section \<open>What a glob matches\<close>

text \<open>The language of a pattern, stated without the compiled form: literal text stands for
  itself, a star for a stretch without slash, a double star for a stretch within one line.\<close>

inductive glob_lang :: "glob_token list \<Rightarrow> string \<Rightarrow> bool" where
  lang_end: "glob_lang [] []"
| lang_literal: "glob_lang ts s \<Longrightarrow> glob_lang (Literal c # ts) (c # s)"
| lang_any: "glob_lang ts s \<Longrightarrow> newline \<notin> set r \<Longrightarrow> glob_lang (AnyRun # ts) (r @ s)"
| lang_segment: "glob_lang ts s \<Longrightarrow> CHR ''/'' \<notin> set r \<Longrightarrow> glob_lang (SegmentRun # ts) (r @ s)"

inductive_cases glob_langE:
  "glob_lang [] s" "glob_lang (Literal c # ts) s" "glob_lang (AnyRun # ts) s"
  "glob_lang (SegmentRun # ts) s"

lemma tokens_match_any:
  "tokens_match ts s \<Longrightarrow> newline \<notin> set r \<Longrightarrow> tokens_match (AnyRun # ts) (r @ s)"
proof (induction r)
  case Nil
  then show ?case by (cases s) simp_all
qed auto

lemma tokens_match_segment:
  "tokens_match ts s \<Longrightarrow> CHR ''/'' \<notin> set r \<Longrightarrow> tokens_match (SegmentRun # ts) (r @ s)"
proof (induction r)
  case Nil
  then show ?case by (cases s) simp_all
qed auto

lemma tokens_match_sound: "tokens_match ts s \<Longrightarrow> glob_lang ts s"
proof (induction ts s rule: tokens_match.induct)
  case (4 ts d s)
  show ?case
  proof (cases "tokens_match ts (d # s)")
    case True
    then show ?thesis using lang_any [of ts "d # s" "[]"] "4.IH"(1) by simp
  next
    case False
    with "4.prems" have "d \<noteq> newline" "glob_lang (AnyRun # ts) s" using "4.IH"(2) by auto
    then show ?thesis by (auto elim!: glob_langE intro: lang_any [of ts _ "d # r" for r, simplified])
  qed
next
  case (6 ts d s)
  show ?case
  proof (cases "tokens_match ts (d # s)")
    case True
    then show ?thesis using lang_segment [of ts "d # s" "[]"] "6.IH"(1) by simp
  next
    case False
    with "6.prems" have "d \<noteq> CHR ''/''" "glob_lang (SegmentRun # ts) s" using "6.IH"(2) by auto
    then show ?thesis by (auto elim!: glob_langE intro: lang_segment [of ts _ "d # r" for r, simplified])
  qed
qed (auto intro: lang_end lang_literal lang_any [of _ "[]" "[]", simplified]
      lang_segment [of _ "[]" "[]", simplified] split: list.splits)

lemma tokens_match_lang: "tokens_match ts s \<longleftrightarrow> glob_lang ts s"
proof
  assume "glob_lang ts s"
  then show "tokens_match ts s"
    by induction (simp_all add: tokens_match_any tokens_match_segment)
qed (rule tokens_match_sound)

lemma tokens_of_literal:
  "CHR ''*'' \<notin> set p \<Longrightarrow> glob_tokens p = map Literal p"
  by (induction p rule: glob_tokens.induct) auto

lemma literal_match: "tokens_match (map Literal p) s \<longleftrightarrow> s = p"
  by (induction p arbitrary: s) (auto split: list.splits)

text \<open>A pattern with no star at all matches itself and nothing else; brackets, braces and
  question marks have no special meaning.\<close>

lemma starless_glob: "CHR ''*'' \<notin> set p \<Longrightarrow> tokens_match (glob_tokens p) s \<longleftrightarrow> s = p"
  by (simp add: tokens_of_literal literal_match)

section \<open>The rule\<close>

definition group_ok :: "'p list \<Rightarrow> bool \<Rightarrow> bool" where
  "group_ok ps hit \<longleftrightarrow> ps = [] \<or> hit"

definition glob_hits :: "string list \<Rightarrow> string \<Rightarrow> bool" where
  "glob_hits ps v \<longleftrightarrow> (\<exists>p\<in>set ps. glob_lang (glob_tokens p) v)"

lemma match_any_plain: "match_any (compile_globs ps False) v \<longleftrightarrow> glob_hits ps v"
  by (auto simp: match_any_def compile_globs_def glob_hits_def list_ex_iff tokens_match_lang)

lemma match_any_fold: "match_any (compile_globs ps True) v \<longleftrightarrow> glob_hits (map to_lower ps) v"
  by (auto simp: match_any_def compile_globs_def glob_hits_def list_ex_iff tokens_match_lang)

lemma compile_globs_Nil [simp]: "compile_globs ps c = [] \<longleftrightarrow> ps = []"
  by (simp add: compile_globs_def)

lemma guard_conj: "(if P then False else Q) \<longleftrightarrow> \<not> P \<and> Q" by simp

lemma group_guard: "\<not> (ps \<noteq> [] \<and> \<not> hit) \<longleftrightarrow> group_ok ps hit" by (auto simp: group_ok_def)

lemma group_ok_compiled [simp]: "group_ok (compile_globs ps c) hit = group_ok ps hit"
  by (simp add: group_ok_def)

lemma group_ok_lowered [simp]: "group_ok (lower_all vs) hit = group_ok vs hit"
  by (simp add: group_ok_def lower_all_def)

lemmas filter_matches_guards = filter_matches_def [unfolded guard_conj group_guard]

text \<open>The documented rule, over the configuration as written.\<close>

definition github_filter_passes :: "github_filter_config \<Rightarrow> filterable_item \<Rightarrow> bool" where
  "github_filter_passes c it \<longleftrightarrow>
    \<not> glob_hits (gf_exclude_repos c) (fi_repo it) \<and>
    group_ok (gf_repos c) (glob_hits (gf_repos c) (fi_repo it)) \<and>
    \<not> glob_hits (map to_lower (gf_exclude_authors c)) (to_lower (fi_author it)) \<and>
    group_ok (gf_authors c) (glob_hits (map to_lower (gf_authors c)) (to_lower (fi_author it))) \<and>
    \<not> (\<exists>l\<in>set (fi_labels it). glob_hits (gf_exclude_labels c) l) \<and>
    group_ok (gf_labels c) (\<exists>l\<in>set (fi_labels it). glob_hits (gf_labels c) l) \<and>
    group_ok (gf_types c) (to_lower (fi_kind it) \<in> to_lower ` set (gf_types c)) \<and>
    group_ok (gf_reasons c) (to_lower (fi_reason it) \<in> to_lower ` set (gf_reasons c)) \<and>
    group_ok (gf_ci c) (to_lower (fi_ci it) \<in> to_lower ` set (gf_ci c)) \<and>
    group_ok (gf_review c) (to_lower (fi_review it) \<in> to_lower ` set (gf_review c))"

text \<open>
  The decision of a github-filter node. An item passes exactly when no exclude
  pattern matches it and every include group that is not empty has a value matching it;
  globs have their documented meaning, authors are compared without regard to case, and so
  are the listed types, reasons, check states and review states. The message leaves on
  port 0 when it passes and on port 1 otherwise, never on both and never on neither.
\<close>

theorem github_filter_decision:
  "filter_process J (new_filter_node c) m =
     (if github_filter_passes c (decode_filterable J (m_payload m)) then [[m], []] else [[], [m]])"
proof -
  let ?it = "decode_filterable J (m_payload m)"
  have of: "match_any_of (compile_globs ps False) ls \<longleftrightarrow> (\<exists>l\<in>set ls. glob_hits ps l)" for ps ls
    by (auto simp: match_any_of_def list_ex_iff match_any_plain)
  have fold: "contains_fold (lower_all vs) v \<longleftrightarrow> to_lower v \<in> to_lower ` set vs" for vs v
    by (simp add: contains_fold_def lower_all_def)
  have "filter_matches (new_filter_node c) ?it \<longleftrightarrow> github_filter_passes c ?it"
    unfolding filter_matches_guards github_filter_passes_def new_filter_node_def filter_proc.simps
    by (simp only: match_any_plain match_any_fold of fold group_ok_compiled group_ok_lowered simp_thms)
  then show ?thesis by (simp add: filter_process_def)
qed

end
