(* ===== verification/Script.thy ===== *)
theory Script
  imports Models Flow
begin

text \<open>
  Function nodes: the script port of \<open>internal/app/runtime/script.go\<close>, the JavaScript adapter
  of \<open>runtime/js\<close> and the node processor of \<open>function.go\<close>.

  The interpreter itself (goja) is not part of the repository. What an evaluation does is a
  tree of the host calls the script makes, each with what the script does next for every answer
  it may get, ending in a returned value, a throw, an interrupt or a goroutine that never
  comes back. Host calls are answered by the code modelled here; the tree is an argument of
  the definitions, so the lemmas hold for every script.
\<close>

section \<open>Errors\<close>

datatype script_error_kind =
    ScriptCompile | ScriptRuntime | ScriptTimeout | ScriptResult | ScriptUnavailable

record script_error =
  se_kind :: script_error_kind
  se_message :: string
  se_line :: int
  se_column :: int

fun kind_text :: "script_error_kind \<Rightarrow> string" where
  "kind_text ScriptCompile = ''compile''"
| "kind_text ScriptRuntime = ''runtime''"
| "kind_text ScriptTimeout = ''timeout''"
| "kind_text ScriptResult = ''result''"
| "kind_text ScriptUnavailable = ''unavailable''"

definition script_error_text :: "script_error \<Rightarrow> string" where
  "script_error_text e =
     (if 0 < se_line e
      then kind_text (se_kind e) @ '':'' @ format_int (se_line e) @ '':'' @
           format_int (se_column e) @ '': '' @ se_message e
      else kind_text (se_kind e) @ '': '' @ se_message e)"

definition plain_error :: "script_error_kind \<Rightarrow> string \<Rightarrow> script_error" where
  "plain_error k t = \<lparr>se_kind = k, se_message = t, se_line = 0, se_column = 0\<rparr>"

definition wrapper_line_offset :: int where
  "wrapper_line_offset = 1"

text \<open>\<open>syntaxError\<close>: the parser's line, shifted past the wrapper and clamped to the source.\<close>

definition syntax_error_line :: "int \<Rightarrow> int \<Rightarrow> int" where
  "syntax_error_line position_line src_lines =
     min (max (position_line - wrapper_line_offset) 1) src_lines"

section \<open>Console output of a dry run\<close>

record console_line =
  cl_level :: string
  cl_text :: string

record run_trace =
  tr_lines :: "(string, console_line list) amap"
  tr_dropped :: bool

definition max_console_lines :: nat where
  "max_console_lines = 1000"

definition max_console_line_bytes :: nat where
  "max_console_line_bytes = 8192"

definition trace_total :: "run_trace \<Rightarrow> nat" where
  "trace_total t = sum_list (map (\<lambda>(_, ls). length ls) (tr_lines t))"

definition lines_for :: "run_trace \<Rightarrow> string \<Rightarrow> console_line list" where
  "lines_for t n = (case map_of (tr_lines t) n of None \<Rightarrow> [] | Some ls \<Rightarrow> ls)"

definition trace_add :: "string \<Rightarrow> console_line \<Rightarrow> run_trace \<Rightarrow> run_trace" where
  "trace_add n l t =
     (if max_console_lines \<le> trace_total t then t\<lparr>tr_dropped := True\<rparr>
      else t\<lparr>tr_lines := AList.update n (lines_for t n @ [l]) (tr_lines t)\<rparr>)"

definition truncated_marker :: string where
  "truncated_marker = [CHR 0xE2, CHR 0x80, CHR 0xA6] @ '' (truncated)''"

definition truncate_line :: "string \<Rightarrow> nat \<Rightarrow> string" where
  "truncate_line s limit = (if length s \<le> limit then s else take limit s @ truncated_marker)"

text \<open>An argument of a console call as the interpreter presents it: undefined, a string, or
  another value with its JSON text (when it has one) and its own string form.\<close>

datatype console_arg = ArgUndefined | ArgString string | ArgOther "string option" string

fun format_console_arg :: "console_arg \<Rightarrow> string" where
  "format_console_arg ArgUndefined = ''undefined''"
| "format_console_arg (ArgString s) = s"
| "format_console_arg (ArgOther encoded own) = (case encoded of None \<Rightarrow> own | Some s \<Rightarrow> s)"

definition format_console_args :: "console_arg list \<Rightarrow> string" where
  "format_console_args args =
     truncate_line (join '' '' (map format_console_arg args)) max_console_line_bytes"

definition console_log ::
  "string \<Rightarrow> string \<Rightarrow> console_arg list \<Rightarrow> run_trace option \<Rightarrow> run_trace option" where
  "console_log n level args t =
     map_option (trace_add n \<lparr>cl_level = level, cl_text = format_console_args args\<rparr>) t"

section \<open>The kv object\<close>

text \<open>What a host call can throw into the script.\<close>

datatype host_error = HostType string | HostGo kv_error | HostStoredInvalid | HostThrown string

definition max_kv_key_bytes :: nat where "max_kv_key_bytes = 512"
definition max_kv_value_bytes :: nat where "max_kv_value_bytes = 4096"
definition max_kv_ttl_seconds :: int where "max_kv_ttl_seconds = 100 * 365 * 24 * 60 * 60"

text \<open>The third argument of \<open>kv.set\<close>, as exported: absent, not an object, or its \<open>ttl\<close>. A
  float is not finite, has a fraction, or is a whole number.\<close>

datatype ttl_value = TtlAbsent | TtlNotNumber | TtlNotFinite | TtlFraction | TtlWhole int
datatype set_options = OptionsAbsent | OptionsNotObject | OptionsTtl ttl_value

fun kv_ttl :: "set_options \<Rightarrow> (host_error, int) result" where
  "kv_ttl OptionsAbsent = Inr 0"
| "kv_ttl OptionsNotObject = Inl (HostType ''kv.set: options must be an object'')"
| "kv_ttl (OptionsTtl v) =
     (case v of
        TtlAbsent \<Rightarrow> Inr 0
      | TtlWhole n \<Rightarrow>
          if n < 0 \<or> max_kv_ttl_seconds < n
          then Inl (HostType ''kv.set: ttl must be a non-negative whole number of seconds'')
          else Inr n
      | _ \<Rightarrow> Inl (HostType ''kv.set: ttl must be a non-negative whole number of seconds''))"

definition kv_key :: "string \<Rightarrow> string option \<Rightarrow> (host_error, string) result" where
  "kv_key meth arg =
     (case arg of None \<Rightarrow> Inl (HostType (meth @ '': key must be a string'')) | Some k \<Rightarrow> Inr k)"

definition host_kv :: "(kv_error, 'a) result \<Rightarrow> (host_error, 'a) result" where
  "host_kv r = (case r of Inl e \<Rightarrow> Inl (HostGo e) | Inr a \<Rightarrow> Inr a)"

definition js_kv_get ::
  "json_scanner \<Rightarrow> bool \<Rightarrow> kv_buffer \<Rightarrow> staging \<Rightarrow> string option \<Rightarrow> (host_error, json option) result" where
  "js_kv_get J ctx_done b s arg =
     res_bind (kv_key ''kv.get'' arg) (\<lambda>key.
     res_bind (host_kv (staging_get ctx_done b s key)) (\<lambda>v.
       (case v of
          None \<Rightarrow> Inr None
        | Some text \<Rightarrow> (case J text of None \<Rightarrow> Inl HostStoredInvalid | Some j \<Rightarrow> Inr (Some j)))))"

text \<open>\<open>encoded\<close> is what \<open>JSON.stringify\<close> made of the value: a throw, undefined, or a text.\<close>

definition js_kv_set ::
  "bool \<Rightarrow> kv_buffer \<Rightarrow> staging \<Rightarrow> string option \<Rightarrow> (string, string option) result \<Rightarrow> set_options \<Rightarrow>
   (host_error, staging) result" where
  "js_kv_set ctx_done b s arg encoded opts =
     res_bind (kv_key ''kv.set'' arg) (\<lambda>key.
       if max_kv_key_bytes < length key then Inl (HostType ''kv.set: key exceeds 512 bytes'')
       else (case encoded of
               Inl e \<Rightarrow> Inl (HostThrown e)
             | Inr None \<Rightarrow> Inl (HostType ''kv.set: value is not JSON-serializable'')
             | Inr (Some text) \<Rightarrow>
                 if max_kv_value_bytes < length text
                 then Inl (HostType ''kv.set: value exceeds 4096 bytes'')
                 else res_bind (kv_ttl opts) (\<lambda>ttl.
                        host_kv (staging_set ctx_done b s key text ttl))))"

definition js_kv_has ::
  "bool \<Rightarrow> kv_buffer \<Rightarrow> staging \<Rightarrow> string option \<Rightarrow> (host_error, bool) result" where
  "js_kv_has ctx_done b s arg =
     res_bind (kv_key ''kv.has'' arg) (\<lambda>key. host_kv (staging_has ctx_done b s key))"

definition js_kv_delete ::
  "bool \<Rightarrow> kv_buffer \<Rightarrow> staging \<Rightarrow> string option \<Rightarrow> (host_error, staging) result" where
  "js_kv_delete ctx_done b s arg =
     res_bind (kv_key ''kv.delete'' arg) (\<lambda>key. host_kv (staging_delete ctx_done b s key))"

text \<open>The prefix of \<open>kv.keys\<close> may be left out; otherwise it must be a string.\<close>

definition js_kv_keys ::
  "bool \<Rightarrow> kv_buffer \<Rightarrow> staging \<Rightarrow> string option option \<Rightarrow> (host_error, string list) result" where
  "js_kv_keys ctx_done b s arg =
     (case arg of
        None \<Rightarrow> host_kv (staging_keys ctx_done b s [])
      | Some None \<Rightarrow> Inl (HostType ''kv.keys: prefix must be a string'')
      | Some (Some prefix) \<Rightarrow> host_kv (staging_keys ctx_done b s prefix))"

section \<open>One evaluation\<close>

datatype 's js_prog =
    JReturn "(script_error, json option) result" 's
  | JThrow script_error 's
  | JInterrupted
  | JWedged
  | JExpire "'s js_prog"
  | JConsole string "console_arg list" "'s js_prog"
  | JGet "string option" "(host_error, json option) result \<Rightarrow> 's js_prog"
  | JSet "string option" "(string, string option) result" set_options "host_error option \<Rightarrow> 's js_prog"
  | JHas "string option" "(host_error, bool) result \<Rightarrow> 's js_prog"
  | JDelete "string option" "host_error option \<Rightarrow> 's js_prog"
  | JKeys "string option option" "(host_error, string list) result \<Rightarrow> 's js_prog"

datatype 's js_end = EndValue "(script_error, json option) result" 's
  | EndThrow script_error 's | EndInterrupted | EndWedged

definition res_error :: "('e, 'a) result \<Rightarrow> 'e option" where
  "res_error r = (case r of Inl e \<Rightarrow> Some e | Inr _ \<Rightarrow> None)"

definition res_or :: "'a \<Rightarrow> ('e, 'a) result \<Rightarrow> 'a" where
  "res_or d r = (case r of Inl _ \<Rightarrow> d | Inr a \<Rightarrow> a)"

primrec js_exec ::
  "'s js_prog \<Rightarrow> json_scanner \<Rightarrow> string \<Rightarrow> kv_buffer \<Rightarrow> bool \<Rightarrow> staging \<Rightarrow> run_trace option \<Rightarrow>
   's js_end \<times> staging \<times> run_trace option" where
  "js_exec (JReturn r st) J n b c s t = (EndValue r st, s, t)"
| "js_exec (JThrow e st) J n b c s t = (EndThrow e st, s, t)"
| "js_exec JInterrupted J n b c s t = (EndInterrupted, s, t)"
| "js_exec JWedged J n b c s t = (EndWedged, s, t)"
| "js_exec (JExpire p) J n b c s t = js_exec p J n b True s t"
| "js_exec (JConsole level args p) J n b c s t = js_exec p J n b c s (console_log n level args t)"
| "js_exec (JGet k cont) J n b c s t = js_exec (cont (js_kv_get J c b s k)) J n b c s t"
| "js_exec (JSet k v opts cont) J n b c s t =
     js_exec (cont (res_error (js_kv_set c b s k v opts))) J n b c (res_or s (js_kv_set c b s k v opts)) t"
| "js_exec (JHas k cont) J n b c s t = js_exec (cont (js_kv_has c b s k)) J n b c s t"
| "js_exec (JDelete k cont) J n b c s t =
     js_exec (cont (res_error (js_kv_delete c b s k))) J n b c (res_or s (js_kv_delete c b s k)) t"
| "js_exec (JKeys p cont) J n b c s t = js_exec (cont (js_kv_keys c b s p)) J n b c s t"

section \<open>What the script returned\<close>

record js_codec =
  jc_scan :: json_scanner
  jc_raw :: "json \<Rightarrow> bytes"
  jc_why :: "json \<Rightarrow> string"

definition decode_returned :: "js_codec \<Rightarrow> json \<Rightarrow> (script_error, msg) result" where
  "decode_returned C j =
     (case decode_msg (jc_raw C) j of
        Some m \<Rightarrow> Inr m
      | None \<Rightarrow> Inl (plain_error ScriptResult (''the returned value is not a message: '' @ jc_why C j)))"

text \<open>Decoding a list of entries, null ones skipped, up to the first that is not a message.\<close>

fun decode_entries :: "js_codec \<Rightarrow> json list \<Rightarrow> (script_error, msg list) result" where
  "decode_entries C [] = Inr []"
| "decode_entries C (j # js) =
     (if j = JNull then decode_entries C js
      else res_bind (decode_returned C j) (\<lambda>m.
           res_bind (decode_entries C js) (\<lambda>ms. Inr (m # ms))))"

fun decode_port :: "js_codec \<Rightarrow> json \<Rightarrow> (script_error, msg list) result" where
  "decode_port C JNull = Inr []"
| "decode_port C (JArr es) = decode_entries C es"
| "decode_port C j = res_bind (decode_returned C j) (\<lambda>m. Inr [m])"

fun decode_ports :: "js_codec \<Rightarrow> json list \<Rightarrow> (script_error, msg list list) result" where
  "decode_ports C [] = Inr []"
| "decode_ports C (j # js) =
     res_bind (decode_port C j) (\<lambda>ms.
     res_bind (decode_ports C js) (\<lambda>mss. Inr (ms # mss)))"

definition from_js :: "js_codec \<Rightarrow> nat \<Rightarrow> json option \<Rightarrow> (script_error, msg list list) result" where
  "from_js C outputs returned =
     (case returned of
        None \<Rightarrow> Inr []
      | Some JNull \<Rightarrow> Inr []
      | Some (JArr entries) \<Rightarrow>
          if outputs \<le> 1
          then res_bind (decode_entries C entries) (\<lambda>ms. Inr ((replicate outputs [])[0 := ms]))
          else res_bind (decode_ports C entries) (\<lambda>mss.
                 Inr (mss @ replicate (outputs - length entries) []))
      | Some j \<Rightarrow> res_bind (decode_returned C j) (\<lambda>m. Inr ((replicate outputs [])[0 := [m]])))"

section \<open>The script pool and instances\<close>

definition default_max_concurrent_scripts :: nat where
  "default_max_concurrent_scripts = 32"

definition new_script_pool :: "int \<Rightarrow> nat" where
  "new_script_pool n = (if n \<le> 0 then default_max_concurrent_scripts else nat n)"

definition pool_acquire :: "nat \<Rightarrow> nat option" where
  "pool_acquire free = (if free = 0 then None else Some (free - 1))"

record 's instance_state =
  is_state :: 's
  is_outputs :: nat
  is_wedged :: bool

record 's script_engine =
  sc_check :: "string \<Rightarrow> script_error option"
  sc_new :: "string \<Rightarrow> (script_error, 's) result"
  sc_eval :: "string \<Rightarrow> 's \<Rightarrow> msg \<Rightarrow> function_config \<Rightarrow> 's js_prog"

definition msg_encodable :: "js_codec \<Rightarrow> msg \<Rightarrow> bool" where
  "msg_encodable C m \<longleftrightarrow>
     (m_payload m = [] \<or> jc_scan C (m_payload m) \<noteq> None) \<and>
     (case m_snapshot m of
        None \<Rightarrow> True
      | Some items \<Rightarrow> list_all (\<lambda>it. si_payload it = [] \<or> jc_scan C (si_payload it) \<noteq> None) items)"

text \<open>\<open>Runtime.New\<close> and \<open>instance.OnMessage\<close>. An evaluation whose goroutine is abandoned
  keeps its pool slot; every other one gives it back.\<close>

definition script_new ::
  "'s script_engine \<Rightarrow> string \<Rightarrow> int \<Rightarrow> (script_error, 's instance_state) result" where
  "script_new S src outputs =
     res_bind (sc_new S src) (\<lambda>st.
       Inr \<lparr>is_state = st, is_outputs = nat (max 1 outputs), is_wedged = False\<rparr>)"

fun finish_eval ::
  "js_codec \<Rightarrow> 's instance_state \<Rightarrow> 's js_end \<Rightarrow>
   (script_error, msg list list) result \<times> 's instance_state" where
  "finish_eval C i (EndValue (Inl e) st) = (Inl e, i\<lparr>is_state := st\<rparr>)"
| "finish_eval C i (EndValue (Inr v) st) = (from_js C (is_outputs i) v, i\<lparr>is_state := st\<rparr>)"
| "finish_eval C i (EndThrow e st) = (Inl e, i\<lparr>is_state := st\<rparr>)"
| "finish_eval C i EndInterrupted =
     (Inl (plain_error ScriptTimeout ''script did not complete within its timeout''), i)"
| "finish_eval C i EndWedged =
     (Inl (plain_error ScriptTimeout ''script did not respond to interruption and was abandoned''),
      i\<lparr>is_wedged := True\<rparr>)"

definition on_message ::
  "'s script_engine \<Rightarrow> js_codec \<Rightarrow> string \<Rightarrow> string \<Rightarrow> function_config \<Rightarrow> kv_buffer \<Rightarrow> msg \<Rightarrow>
   's instance_state \<Rightarrow> nat \<times> staging \<times> run_trace option \<Rightarrow>
   (script_error, msg list list) result \<times> 's instance_state \<times> (nat \<times> staging \<times> run_trace option)" where
  "on_message S C src n cfg b m i = (\<lambda>(pool, s, t).
     if is_wedged i
     then (Inl (plain_error ScriptTimeout ''script instance is still running a previous message''),
           i, pool, s, t)
     else (case pool_acquire pool of
             None \<Rightarrow> (Inl (plain_error ScriptUnavailable
                 ''too many script evaluations are already running; an earlier one is not responding''),
                 i, pool, s, t)
           | Some taken \<Rightarrow>
               if \<not> msg_encodable C m
               then (Inl (plain_error ScriptResult ''encoding models.Msg for the script''), i, pool, s, t)
               else (let (fin, s', t') = js_exec (sc_eval S src (is_state i) m cfg) (jc_scan C) n b False s t;
                         (r, i') = finish_eval C i fin
                     in (r, i', (if is_wedged i' then taken else pool), s', t'))))"

section \<open>The registry and the function node\<close>

type_synonym 's script_registry = "(string, 's script_engine) amap"

definition default_script_language :: string where
  "default_script_language = ''javascript''"

text \<open>Registering a name twice panics, here \<open>None\<close>.\<close>

definition registry_register ::
  "string \<Rightarrow> 's script_engine \<Rightarrow> 's script_registry \<Rightarrow> 's script_registry option" where
  "registry_register name rt r =
     (if map_of r name \<noteq> None then None else Some (AList.update name rt r))"

definition registry_lookup :: "'s script_registry \<Rightarrow> string \<Rightarrow> 's script_engine option" where
  "registry_lookup r name = map_of r name"

record 's fn_proc =
  fp_rt :: "'s script_engine"
  fp_src :: string
  fp_config :: function_config
  fp_outputs :: int
  fp_instance :: "'s instance_state option"

datatype node_build_error =
    UnexpectedConfigType
  | NoScriptRuntime string
  | LanguageNotRegistered string
  | ScriptDoesNotCompile script_error

definition new_function_node ::
  "'s script_registry option \<Rightarrow> string \<Rightarrow> node_config option \<Rightarrow> (node_build_error, 's fn_proc) result" where
  "new_function_node scripts nid cfg =
     (case cfg of
        Some (FunctionConfig c) \<Rightarrow>
          (case scripts of
             None \<Rightarrow> Inl (NoScriptRuntime nid)
           | Some reg \<Rightarrow>
               (case registry_lookup reg default_script_language of
                  None \<Rightarrow> Inl (LanguageNotRegistered default_script_language)
                | Some rt \<Rightarrow>
                    (case sc_check rt (fn_on_message c) of
                       Some e \<Rightarrow> Inl (ScriptDoesNotCompile e)
                     | None \<Rightarrow> Inr \<lparr>fp_rt = rt, fp_src = fn_on_message c, fp_config = c,
                                   fp_outputs = function_outputs c, fp_instance = None\<rparr>)))
      | _ \<Rightarrow> Inl UnexpectedConfigType)"

definition function_instance :: "'s fn_proc \<Rightarrow> (script_error, 's instance_state) result" where
  "function_instance p =
     (case fp_instance p of
        Some i \<Rightarrow> Inr i
      | None \<Rightarrow> script_new (fp_rt p) (fp_src p) (fp_outputs p))"

definition function_process ::
  "js_codec \<Rightarrow> string \<Rightarrow> kv_buffer \<Rightarrow> msg \<Rightarrow> 's fn_proc \<Rightarrow> nat \<times> staging \<times> run_trace option \<Rightarrow>
   (script_error, msg list list) result \<times> 's fn_proc \<times> (nat \<times> staging \<times> run_trace option)" where
  "function_process C n b m p env =
     (case function_instance p of
        Inl e \<Rightarrow> (Inl e, p, env)
      | Inr i \<Rightarrow>
          (let (r, i', env') = on_message (fp_rt p) C (fp_src p) n (fp_config p) b m i env
           in (r, p\<lparr>fp_instance := Some i'\<rparr>, env')))"

definition function_reset :: "'s fn_proc \<Rightarrow> 's fn_proc" where
  "function_reset p = p\<lparr>fp_instance := None\<rparr>"

section \<open>Facts\<close>

lemma host_kv_Inr [simp]: "host_kv r = Inr a \<longleftrightarrow> r = Inr a"
  by (cases r) (simp_all add: host_kv_def)

lemma js_kv_set_Inr:
  "js_kv_set c b s k v opts = Inr s' \<Longrightarrow>
   \<exists>key text ttl. k = Some key \<and> length key \<le> max_kv_key_bytes \<and> v = Inr (Some text) \<and>
     length text \<le> max_kv_value_bytes \<and> kv_ttl opts = Inr ttl \<and> staging_set c b s key text ttl = Inr s'"
  by (cases k; cases v rule: sum.exhaust)
    (auto simp: js_kv_set_def kv_key_def res_bind_Inr_conv split: option.splits if_splits)

lemma js_kv_delete_Inr:
  "js_kv_delete c b s k = Inr s' \<Longrightarrow> \<exists>key. k = Some key \<and> staging_delete c b s key = Inr s'"
  by (cases k) (auto simp: js_kv_delete_def kv_key_def)

definition staging_kept :: "kv_buffer \<Rightarrow> staging \<Rightarrow> staging \<Rightarrow> bool" where
  "staging_kept b s s' \<longleftrightarrow> (staging_wf s \<longrightarrow> staging_wf s') \<and> sg_node s' = sg_node s \<and> (kb_inert b \<longrightarrow> s' = s)"

lemma staging_kept_refl [simp]: "staging_kept b s s"
  by (simp add: staging_kept_def)

lemma staging_kept_trans: "staging_kept b s1 s2 \<Longrightarrow> staging_kept b s2 s3 \<Longrightarrow> staging_kept b s1 s3"
  by (auto simp: staging_kept_def)

lemma js_kv_set_kept: "staging_kept b s (res_or s (js_kv_set c b s k v opts))"
proof (cases "js_kv_set c b s k v opts")
  case (Inr s')
  then show ?thesis
    using js_kv_set_Inr [OF Inr]
    by (auto simp: res_or_def staging_kept_def staging_set_def staging_wf_def distinct_update
        split: if_splits)
qed (simp add: res_or_def)

lemma js_kv_delete_kept: "staging_kept b s (res_or s (js_kv_delete c b s k))"
proof (cases "js_kv_delete c b s k")
  case (Inr s')
  then show ?thesis
    using js_kv_delete_Inr [OF Inr]
    by (auto simp: res_or_def staging_kept_def staging_delete_def staging_wf_def distinct_update
        split: if_splits)
qed (simp add: res_or_def)

lemma js_exec_staging: "staging_kept b s (fst (snd (js_exec p J n b c s t)))"
proof (induction p arbitrary: c s t)
  case (JSet k v opts cont)
  show ?case using staging_kept_trans [OF js_kv_set_kept JSet.IH [OF rangeI]] by simp
next
  case (JDelete k cont)
  show ?case using staging_kept_trans [OF js_kv_delete_kept JDelete.IH [OF rangeI]] by simp
qed simp_all

lemma js_exec_untraced: "snd (snd (js_exec p J n b c s None)) = None"
  by (induction p arbitrary: c s) (simp_all add: console_log_def)

text \<open>Tracing only records: an evaluation does the same with and without it.\<close>

lemma js_exec_trace_irrelevant:
  "fst (js_exec p J n b c s t) = fst (js_exec p J n b c s None) \<and>
   fst (snd (js_exec p J n b c s t)) = fst (snd (js_exec p J n b c s None))"
proof (induction p arbitrary: c s t)
  case (JConsole level args p)
  show ?case using JConsole [of c s "console_log n level args t"] by (simp add: console_log_def)
next
  case (JExpire p)
  show ?case using JExpire by simp
next
  case (JGet k cont)
  show ?case using JGet [OF rangeI] by simp
next
  case (JSet k v opts cont)
  show ?case using JSet [OF rangeI] by simp
next
  case (JHas k cont)
  show ?case using JHas [OF rangeI] by simp
next
  case (JDelete k cont)
  show ?case using JDelete [OF rangeI] by simp
next
  case (JKeys k cont)
  show ?case using JKeys [OF rangeI] by simp
qed simp_all

lemma kv_ttl_range: "kv_ttl opts = Inr ttl \<Longrightarrow> 0 \<le> ttl \<and> ttl \<le> max_kv_ttl_seconds"
  by (cases opts) (auto simp: max_kv_ttl_seconds_def split: ttl_value.splits if_splits)

text \<open>
  \<open>kv.set\<close> with a lifetime. A call that succeeds stages the text under the key with
  an expiry of exactly its lifetime after the run's clock (none when the lifetime is zero or
  left out): the cap on lifetimes rules out overflow of the 64-bit arithmetic for every clock
  before the year 146 million, so the value just written is the value read back.
\<close>

theorem kv_set_exact:
  assumes "js_kv_set False b s (Some key) (Inr (Some text)) opts = Inr s'"
    and "\<not> kb_inert b" and "0 \<le> kb_now b" and "kb_now b < 2 ^ 62"
  shows "\<exists>ttl. kv_ttl opts = Inr ttl \<and> 0 \<le> ttl \<and>
    map_of (sg_staged s') key =
      Some \<lparr>op_deleted = False, op_value = text,
            op_expires = (if ttl = 0 then 0 else kb_now b + ttl * 1000)\<rparr> \<and>
    staging_get False b s' key = Inr (Some text)"
proof -
  from js_kv_set_Inr [OF assms(1)] obtain ttl where
    ttl: "kv_ttl opts = Inr ttl" "staging_set False b s key text ttl = Inr s'" by auto
  have r: "0 \<le> ttl" "ttl \<le> max_kv_ttl_seconds" using kv_ttl_range [OF ttl(1)] by auto
  then have "in_int64 (ttl * 1000)" and "in_int64 (kb_now b + ttl * 1000)"
    using assms(3,4) by (auto simp: in_int64_def max_kv_ttl_seconds_def)
  then have "wrap64 (kb_now b + wrap64 (ttl * 1000)) = kb_now b + ttl * 1000"
    by (simp add: wrap64_id)
  then have "map_of (sg_staged s') key =
      Some \<lparr>op_deleted = False, op_value = text,
            op_expires = (if ttl = 0 then 0 else kb_now b + ttl * 1000)\<rparr>"
    using ttl(2) assms(2) r(1) by (auto simp: staging_set_def update_conv' split: if_splits)
  moreover from this have "staging_get False b s' key = Inr (Some text)"
    using assms(2) r(1) by (simp add: staging_get_def op_resolve_def op_expired_def)
  ultimately show ?thesis using ttl(1) r(1) by blast
qed

lemma decode_ports_length: "decode_ports C js = Inr mss \<Longrightarrow> length mss = length js"
  by (induction js arbitrary: mss) (auto simp: res_bind_Inr_conv)

lemma decode_entries_all:
  "decode_entries C js = Inr ms \<Longrightarrow>
   list_all2 (\<lambda>j m. decode_msg (jc_raw C) j = Some m) (filter (\<lambda>j. j \<noteq> JNull) js) ms"
  by (induction js arbitrary: ms)
    (auto simp: res_bind_Inr_conv decode_returned_def split: if_splits option.splits)

text \<open>
  How a returned value becomes messages on ports. A result that is accepted has at
  least as many ports as the node declares, and exactly one when it declares one; an array
  returned by a node with one output puts its non-null entries, in order, all on that port,
  and an array returned by a node with several puts entry \<open>i\<close> on port \<open>i\<close>.
\<close>

theorem from_js_ports:
  assumes "from_js C outputs (Some (JArr entries)) = Inr ports" and "1 \<le> outputs"
  shows "length ports = (if outputs = 1 then 1 else max outputs (length entries)) \<and>
    (outputs = 1 \<longrightarrow> list_all2 (\<lambda>j m. decode_msg (jc_raw C) j = Some m)
        (filter (\<lambda>j. j \<noteq> JNull) entries) (ports ! 0)) \<and>
    (1 < outputs \<longrightarrow> decode_ports C entries = Inr (take (length entries) ports) \<and>
        (\<forall>ms\<in>set (drop (length entries) ports). ms = []))"
proof (cases "outputs = 1")
  case True
  with assms(1) show ?thesis
    by (auto simp: from_js_def res_bind_Inr_conv dest: decode_entries_all)
next
  case False
  with assms obtain mss where mss: "decode_ports C entries = Inr mss"
    "ports = mss @ replicate (outputs - length entries) []"
    by (auto simp: from_js_def res_bind_Inr_conv)
  with False assms(2) decode_ports_length [OF mss(1)] show ?thesis by auto
qed

text \<open>
  The bounded script pool. An evaluation gives its slot back unless its goroutine was
  abandoned, in which case the instance is wedged and the slot is gone; a wedged instance, or an
  empty pool, refuses at once and touches neither the pool nor the staged writes.
\<close>

theorem script_pool_accounting:
  "(case on_message S C src n cfg b m i (pool, s, t) of
      (r, i', pool', s', t') \<Rightarrow>
        (if is_wedged i \<or> pool = 0
         then (\<exists>e. r = Inl e \<and> se_kind e \<in> {ScriptTimeout, ScriptUnavailable}) \<and>
              i' = i \<and> pool' = pool \<and> s' = s \<and> t' = t
         else if is_wedged i' then pool' = pool - 1 \<and> (\<exists>e. r = Inl e \<and> se_kind e = ScriptTimeout)
         else pool' = pool))"
proof -
  have fin: "finish_eval C i fin = (r, i') \<Longrightarrow> is_wedged i' \<Longrightarrow> \<not> is_wedged i \<Longrightarrow>
      \<exists>e. r = Inl e \<and> se_kind e = ScriptTimeout" for fin r i'
    by (cases "(C, i, fin)" rule: finish_eval.cases) (auto simp: plain_error_def)
  show ?thesis
    by (auto simp: on_message_def pool_acquire_def plain_error_def split: prod.split option.split dest: fin)
qed

end
