(* ===== verification/Run.thy ===== *)
theory Run
  imports Graph Github_Filter Script
begin

text \<open>
  One run of a flow over a batch: the node registry of \<open>internal/app/runtime/nodes.go\<close>, the
  runner of \<open>runtime.go\<close>, the run loop of \<open>run.go\<close> and the dry run of \<open>dryrun.go\<close>. The run
  state is a record passed from step to step; node counters are kept in the order nodes were
  first touched. Elapsed times are not part of the model, nor is the copying of payloads on
  fan-out, since values are never shared here.
\<close>

section \<open>Node types\<close>

datatype sink_fun = FeedSinks | ActionSinks | NotifySinks
datatype processor_kind = FilterProcessor | FunctionProcessor

record behavior =
  bh_relay :: bool
  bh_sinks :: "sink_fun option"
  bh_processor :: "processor_kind option"
  bh_reconciled :: bool
  bh_kv :: bool

definition no_behavior :: behavior where
  "no_behavior = \<lparr>bh_relay = False, bh_sinks = None, bh_processor = None, bh_reconciled = False,
     bh_kv = False\<rparr>"

definition source_types :: "string list" where
  "source_types =
     [''sources.exec'', ''sources.gitea'', ''sources.github'', ''sources.grafana_alerts'',
      ''sources.grafana_irm_alerts'', ''sources.grafana_metrics'', ''sources.posthog_alerts'',
      ''sources.posthog_errors'', ''sources.rss'', ''sources.webhook'']"

definition declared_behaviors :: "(string, behavior) amap" where
  "declared_behaviors =
     [(''github-filter'', no_behavior\<lparr>bh_processor := Some FilterProcessor\<rparr>),
      (''function'', no_behavior\<lparr>bh_processor := Some FunctionProcessor, bh_kv := True\<rparr>),
      (''feed'', no_behavior\<lparr>bh_sinks := Some FeedSinks, bh_reconciled := True\<rparr>),
      (''action'', no_behavior\<lparr>bh_sinks := Some ActionSinks\<rparr>),
      (''notify'', no_behavior\<lparr>bh_sinks := Some NotifySinks\<rparr>)]"

definition behaviors :: "(string, behavior) amap" where
  "behaviors = declared_behaviors @ map (\<lambda>t. (t, no_behavior\<lparr>bh_relay := True\<rparr>)) source_types"

definition behavior_of :: "string \<Rightarrow> behavior" where
  "behavior_of t = (case map_of behaviors t of None \<Rightarrow> no_behavior | Some b \<Rightarrow> b)"

fun sinks ::
  "sink_fun \<Rightarrow> string \<Rightarrow> string \<Rightarrow> node_config option \<Rightarrow> msg \<Rightarrow> sink_output list" where
  "sinks FeedSinks fid nid cfg m =
     [\<lparr>o_kind = SinkFeed, o_target = fid @ ''/'' @ nid, o_key = m_key m, o_occurrence = [],
       o_payload = m_payload m, o_source_kind = m_source_kind m, o_source_scope = m_source_scope m,
       o_source_topic = m_topic m, o_snapshot_id = []\<rparr>]"
| "sinks ActionSinks fid nid cfg m =
     (case cfg of
        Some (ActionConfig action) \<Rightarrow>
          [\<lparr>o_kind = SinkAction, o_target = action, o_key = m_key m, o_occurrence = m_occurrence m,
            o_payload = m_payload m, o_source_kind = m_source_kind m,
            o_source_scope = m_source_scope m, o_source_topic = [], o_snapshot_id = []\<rparr>]
      | _ \<Rightarrow> [])"
| "sinks NotifySinks fid nid cfg m =
     [\<lparr>o_kind = SinkNotify, o_target = fid @ ''/'' @ nid, o_key = m_key m,
       o_occurrence = m_occurrence m, o_payload = m_payload m, o_source_kind = m_source_kind m,
       o_source_scope = m_source_scope m, o_source_topic = m_topic m, o_snapshot_id = []\<rparr>]"

section \<open>Runners\<close>

datatype 's proc = FilterProc filter_proc | FunctionProc "'s fn_proc"

record 's options =
  op_scripts :: "'s script_registry option"
  op_kv :: "kv_reader option"

record 's runner =
  rn_flow :: flow
  rn_graph :: graph
  rn_kv :: "kv_reader option"
  rn_procs :: "(string, 's proc) amap"
  rn_timeouts :: "(string, int) amap"

datatype runner_error =
    NotADag string
  | CannotExecute string string
  | NodeBuildFailed string node_build_error

definition build_processor ::
  "'s options \<Rightarrow> processor_kind \<Rightarrow> node \<Rightarrow> (node_build_error, 's proc) result" where
  "build_processor opts k n =
     (case k of
        FilterProcessor \<Rightarrow>
          (case n_config n of
             Some (GithubFilterConfig c) \<Rightarrow> Inr (FilterProc (new_filter_node c))
           | _ \<Rightarrow> Inl UnexpectedConfigType)
      | FunctionProcessor \<Rightarrow>
          res_bind (new_function_node (op_scripts opts) (n_id n) (n_config n)) (\<lambda>p. Inr (FunctionProc p)))"

definition node_timeout :: "node_config option \<Rightarrow> int" where
  "node_timeout cfg =
     (case cfg of Some (FunctionConfig c) \<Rightarrow> effective_timeout c | _ \<Rightarrow> default_function_timeout)"

definition add_node :: "'s options \<Rightarrow> node \<Rightarrow> 's runner \<Rightarrow> (runner_error, 's runner) result" where
  "add_node opts n r =
     (case map_of behaviors (n_type n) of
        None \<Rightarrow> Inl (CannotExecute (n_id n) (n_type n))
      | Some b \<Rightarrow>
          (case bh_processor b of
             None \<Rightarrow> Inr r
           | Some k \<Rightarrow>
               (case build_processor opts k n of
                  Inl e \<Rightarrow> Inl (NodeBuildFailed (n_id n) e)
                | Inr p \<Rightarrow>
                    Inr (r\<lparr>rn_procs := AList.update (n_id n) p (rn_procs r),
                           rn_timeouts := AList.update (n_id n) (node_timeout (n_config n))
                             (rn_timeouts r)\<rparr>))))"

definition new_runner :: "flow \<Rightarrow> 's options \<Rightarrow> (runner_error, 's runner) result" where
  "new_runner f opts =
     (case new_graph f of
        None \<Rightarrow> Inl (NotADag (f_id f))
      | Some g \<Rightarrow>
          res_fold (add_node opts) (f_nodes f)
            \<lparr>rn_flow = f, rn_graph = g, rn_kv = op_kv opts, rn_procs = [], rn_timeouts = []\<rparr>)"

fun proc_reset :: "'s proc \<Rightarrow> 's proc" where
  "proc_reset (FilterProc p) = FilterProc p"
| "proc_reset (FunctionProc p) = FunctionProc (function_reset p)"

definition reset_processors :: "'s runner \<Rightarrow> 's runner" where
  "reset_processors r = r\<lparr>rn_procs := map (\<lambda>(n, p). (n, proc_reset p)) (rn_procs r)\<rparr>"

section \<open>Run state\<close>

record snapshot_context =
  sc_topic :: string
  sc_id :: string

record message =
  mg_msg :: msg
  mg_snapshot :: "snapshot_context option"

record run_acc =
  ra_in :: nat
  ra_out :: nat
  ra_drop :: nat
  ra_ok :: bool
  ra_err :: "script_error option"
  ra_received :: "msg list"
  ra_emitted :: "(nat, msg list) amap"

definition new_acc :: run_acc where
  "new_acc = \<lparr>ra_in = 0, ra_out = 0, ra_drop = 0, ra_ok = True, ra_err = None, ra_received = [],
     ra_emitted = []\<rparr>"

record 's run_state =
  rs_pending :: "string \<Rightarrow> message list"
  rs_outputs :: "sink_output list"
  rs_discards :: "discard list"
  rs_snapshots :: "feed_snapshot list"
  rs_seen :: "string list"
  rs_runs :: "(string, run_acc) amap"
  rs_kv :: kv_buffer
  rs_trace :: "run_trace option"
  rs_procs :: "(string, 's proc) amap"
  rs_pool :: nat

definition new_run_state :: "'s runner \<Rightarrow> kv_buffer \<Rightarrow> run_trace option \<Rightarrow> nat \<Rightarrow> 's run_state" where
  "new_run_state r kv t pool =
     \<lparr>rs_pending = (\<lambda>_. []), rs_outputs = [], rs_discards = [], rs_snapshots = [], rs_seen = [],
      rs_runs = [], rs_kv = kv, rs_trace = t, rs_procs = rn_procs r, rs_pool = pool\<rparr>"

definition unrouted_node_id :: string where
  "unrouted_node_id = ''$unrouted''"

definition acc_of :: "'s run_state \<Rightarrow> string \<Rightarrow> run_acc" where
  "acc_of st n = (case map_of (rs_runs st) n of None \<Rightarrow> new_acc | Some a \<Rightarrow> a)"

text \<open>\<open>acc\<close>: the node's counters, entered on first touch.\<close>

definition touch_acc :: "string \<Rightarrow> 's run_state \<Rightarrow> 's run_state" where
  "touch_acc n st =
     (case map_of (rs_runs st) n of
        Some _ \<Rightarrow> st
      | None \<Rightarrow> st\<lparr>rs_runs := rs_runs st @ [(n, new_acc)]\<rparr>)"

definition map_acc :: "string \<Rightarrow> (run_acc \<Rightarrow> run_acc) \<Rightarrow> 's run_state \<Rightarrow> 's run_state" where
  "map_acc n f st = st\<lparr>rs_runs := AList.map_entry n f (rs_runs st)\<rparr>"

section \<open>Routing\<close>

definition clone_payload :: "bytes \<Rightarrow> bytes" where
  "clone_payload p = p"

definition source_topic :: "string \<Rightarrow> string \<Rightarrow> string" where
  "source_topic fid nid = ''source:'' @ fid @ ''/'' @ nid"

definition accepts_entry :: "'s runner \<Rightarrow> node option \<Rightarrow> msg \<Rightarrow> bool" where
  "accepts_entry r n m =
     (case n of
        None \<Rightarrow> False
      | Some node \<Rightarrow>
          if \<not> bh_relay (behavior_of (n_type node)) then True
          else m_topic m = source_topic (f_id (rn_flow r)) (n_id node))"

definition enqueue :: "string \<Rightarrow> message \<Rightarrow> 's run_state \<Rightarrow> 's run_state" where
  "enqueue n m st = st\<lparr>rs_pending := (rs_pending st)(n := rs_pending st n @ [m])\<rparr>"

definition clone_message :: "message \<Rightarrow> message" where
  "clone_message m = m\<lparr>mg_msg := (mg_msg m)\<lparr>m_payload := clone_payload (m_payload (mg_msg m))\<rparr>\<rparr>"

definition offer :: "string list \<Rightarrow> message \<Rightarrow> 's run_state \<Rightarrow> 's run_state" where
  "offer ns m st =
     fold (\<lambda>n. enqueue n (if 1 < length ns then clone_message m else m)) ns st"

definition declare_one :: "'s runner \<Rightarrow> snapshot_context \<Rightarrow> node \<Rightarrow> 's run_state \<Rightarrow> 's run_state" where
  "declare_one r sc n st =
     (if \<not> bh_reconciled (behavior_of (n_type n)) then st
      else (let fid = f_id (rn_flow r) @ ''/'' @ n_id n;
                key = fid @ NUL @ sc_topic sc
            in if key \<in> set (rs_seen st) then st
               else st\<lparr>rs_seen := key # rs_seen st,
                       rs_snapshots := rs_snapshots st @
                         [\<lparr>fs_feed = fid, fs_topic = sc_topic sc, fs_snapshot = sc_id sc\<rparr>]\<rparr>))"

definition declare_snapshot :: "'s runner \<Rightarrow> snapshot_context \<Rightarrow> 's run_state \<Rightarrow> 's run_state" where
  "declare_snapshot r sc st = fold (declare_one r sc) (f_nodes (rn_flow r)) st"

definition expand_item :: "msg \<Rightarrow> snapshot_context \<Rightarrow> snapshot_item \<Rightarrow> message" where
  "expand_item m sc it =
     \<lparr>mg_msg = m\<lparr>m_key := si_key it, m_payload := si_payload it, m_snapshot := None\<rparr>,
      mg_snapshot = Some sc\<rparr>"

definition deliver :: "'s runner \<Rightarrow> string list \<Rightarrow> msg \<Rightarrow> 's run_state \<Rightarrow> 's run_state" where
  "deliver r targets m st =
     (case m_snapshot m of
        None \<Rightarrow> offer targets \<lparr>mg_msg = m, mg_snapshot = None\<rparr> st
      | Some items \<Rightarrow>
          (let sc = \<lparr>sc_topic = m_topic m, sc_id = m_id m\<rparr>
           in fold (\<lambda>it. offer targets (expand_item m sc it)) items (declare_snapshot r sc st)))"

definition matching_entries :: "'s runner \<Rightarrow> msg \<Rightarrow> string list" where
  "matching_entries r m =
     filter (\<lambda>x. accepts_entry r (graph_node (rn_graph r) x) m) (g_entries (rn_graph r))"

definition route_one :: "'s runner \<Rightarrow> msg \<Rightarrow> 's run_state \<Rightarrow> 's run_state" where
  "route_one r m st =
     (if matching_entries r m = []
      then st\<lparr>rs_discards := rs_discards st @ [\<lparr>d_msg = m_id m, d_node = unrouted_node_id\<rparr>]\<rparr>
      else deliver r (matching_entries r m) m st)"

definition route :: "'s runner \<Rightarrow> msg list \<Rightarrow> 's run_state \<Rightarrow> 's run_state" where
  "route r batch st = fold (route_one r) batch st"

section \<open>Execution\<close>

definition drop_msg :: "string \<Rightarrow> message \<Rightarrow> 's run_state \<Rightarrow> 's run_state" where
  "drop_msg n m st =
     (map_acc n (\<lambda>a. a\<lparr>ra_drop := Suc (ra_drop a)\<rparr>) st)
        \<lparr>rs_discards := rs_discards st @ [\<lparr>d_msg = m_id (mg_msg m), d_node = n\<rparr>]\<rparr>"

definition record_emitted :: "nat \<Rightarrow> msg \<Rightarrow> run_acc \<Rightarrow> run_acc" where
  "record_emitted port m a =
     a\<lparr>ra_emitted := AList.update port
         ((case map_of (ra_emitted a) port of None \<Rightarrow> [] | Some ms \<Rightarrow> ms) @ [m]) (ra_emitted a)\<rparr>"

definition forward :: "'s runner \<Rightarrow> string \<Rightarrow> nat \<Rightarrow> message \<Rightarrow> 's run_state \<Rightarrow> 's run_state" where
  "forward r n port m st =
     (let st = (if rs_trace st = None then st else map_acc n (record_emitted port (mg_msg m)) st);
          wires = graph_wires (rn_graph r) n (int port)
      in if wires = [] then drop_msg n m st
         else fold (\<lambda>w. enqueue (w_to w) (if 1 < length wires then clone_message m else m)) wires
                (map_acc n (\<lambda>a. a\<lparr>ra_out := Suc (ra_out a)\<rparr>) st))"

definition tag_snapshot :: "message \<Rightarrow> sink_output list \<Rightarrow> sink_output list" where
  "tag_snapshot m outs =
     (case mg_snapshot m of
        None \<Rightarrow> outs
      | Some sc \<Rightarrow> map (\<lambda>out. out\<lparr>o_snapshot_id := sc_id sc\<rparr>) (filter (\<lambda>out. o_kind out = SinkFeed) outs))"

definition commit_terminal :: "'s runner \<Rightarrow> sink_fun \<Rightarrow> node \<Rightarrow> message \<Rightarrow> 's run_state \<Rightarrow> 's run_state" where
  "commit_terminal r f n m st =
     (let outs = tag_snapshot m (sinks f (f_id (rn_flow r)) (n_id n) (n_config n) (mg_msg m))
      in if outs = [] then drop_msg (n_id n) m st
         else map_acc (n_id n) (\<lambda>a. a\<lparr>ra_out := Suc (ra_out a)\<rparr>)
                (st\<lparr>rs_outputs := rs_outputs st @ outs\<rparr>))"

definition empty_ports :: "msg list list \<Rightarrow> bool" where
  "empty_ports ports = list_all (\<lambda>p. p = []) ports"

fun proc_process ::
  "js_codec \<Rightarrow> string \<Rightarrow> kv_buffer \<Rightarrow> msg \<Rightarrow> 's proc \<Rightarrow> nat \<times> staging \<times> run_trace option \<Rightarrow>
   (script_error, msg list list) result \<times> 's proc \<times> (nat \<times> staging \<times> run_trace option)" where
  "proc_process C n b m (FilterProc p) env = (Inr (filter_process (jc_scan C) p m), FilterProc p, env)"
| "proc_process C n b m (FunctionProc p) env =
     (let (r, p', env') = function_process C n b m p env in (r, FunctionProc p', env'))"

definition forward_port ::
  "'s runner \<Rightarrow> string \<Rightarrow> message \<Rightarrow> nat \<times> msg list \<Rightarrow> 's run_state \<Rightarrow> 's run_state" where
  "forward_port r n m = (\<lambda>(port, outs) st.
     fold (\<lambda>out. forward r n port \<lparr>mg_msg = out, mg_snapshot = mg_snapshot m\<rparr>) outs st)"

datatype run_error = NoProcessor string string

definition fail_message :: "string \<Rightarrow> message \<Rightarrow> script_error \<Rightarrow> 's run_state \<Rightarrow> 's run_state" where
  "fail_message n m e st =
     (let st = drop_msg n m (map_acc n (\<lambda>a. a\<lparr>ra_ok := False, ra_err := Some e\<rparr>) st)
      in if se_kind e = ScriptTimeout
         then st\<lparr>rs_procs := AList.map_entry n proc_reset (rs_procs st)\<rparr> else st)"

definition process_node ::
  "js_codec \<Rightarrow> 's runner \<Rightarrow> node \<Rightarrow> message \<Rightarrow> 's run_state \<Rightarrow> (run_error, 's run_state) result" where
  "process_node C r n m st =
     (case map_of (rs_procs st) (n_id n) of
        None \<Rightarrow> Inl (NoProcessor (n_id n) (n_type n))
      | Some p \<Rightarrow>
          (let (res, p', pool, sg, t) =
                 proc_process C (n_id n) (rs_kv st) (mg_msg m) p
                   (rs_pool st, buffer_node (n_id n), rs_trace st);
               st = st\<lparr>rs_procs := AList.update (n_id n) p' (rs_procs st), rs_pool := pool, rs_trace := t\<rparr>
           in case res of
                Inl e \<Rightarrow> Inr (fail_message (n_id n) m e st)
              | Inr ports \<Rightarrow>
                  (let st = st\<lparr>rs_kv := staging_commit sg (rs_kv st)\<rparr>
                   in Inr (if empty_ports ports then drop_msg (n_id n) m st
                           else fold (forward_port r (n_id n) m) (enumerate 0 ports) st))))"

definition receive :: "string \<Rightarrow> message \<Rightarrow> 's run_state \<Rightarrow> 's run_state" where
  "receive n m st =
     map_acc n (\<lambda>a. a\<lparr>ra_in := Suc (ra_in a),
         ra_received := (if rs_trace st = None then ra_received a else ra_received a @ [mg_msg m])\<rparr>) st"

definition execute_message ::
  "js_codec \<Rightarrow> 's runner \<Rightarrow> node \<Rightarrow> message \<Rightarrow> 's run_state \<Rightarrow> (run_error, 's run_state) result" where
  "execute_message C r n m st =
     (let st = receive (n_id n) m st; b = behavior_of (n_type n)
      in if n_disabled n then Inr (drop_msg (n_id n) m st)
         else if bh_relay b then Inr (forward r (n_id n) 0 m st)
         else case bh_sinks b of
                Some f \<Rightarrow> Inr (commit_terminal r f n m st)
              | None \<Rightarrow> process_node C r n m st)"

definition execute_node ::
  "js_codec \<Rightarrow> 's runner \<Rightarrow> string \<Rightarrow> 's run_state \<Rightarrow> (run_error, 's run_state) result" where
  "execute_node C r x st =
     (if rs_pending st x = [] then Inr st
      else case graph_node (rn_graph r) x of
             None \<Rightarrow> Inr st
           | Some n \<Rightarrow> res_fold (execute_message C r n) (rs_pending st x) (touch_acc x st))"

definition execute :: "js_codec \<Rightarrow> 's runner \<Rightarrow> 's run_state \<Rightarrow> (run_error, 's run_state) result" where
  "execute C r st = res_fold (execute_node C r) (g_order (rn_graph r)) st"

section \<open>Run and its result\<close>

definition up_to_offset :: "msg list \<Rightarrow> int" where
  "up_to_offset batch =
     fold (\<lambda>m hi. case parse_int64 (m_id m) of None \<Rightarrow> hi | Some n \<Rightarrow> if hi < n then n else hi) batch 0"

definition node_run_of :: "string \<Rightarrow> string \<times> run_acc \<Rightarrow> node_run" where
  "node_run_of fid = (\<lambda>(n, a).
     \<lparr>nr_flow = fid, nr_node = n, nr_ok = ra_ok a, nr_in = ra_in a, nr_out = ra_out a,
      nr_drop = ra_drop a,
      nr_err = (case ra_err a of None \<Rightarrow> [] | Some e \<Rightarrow> script_error_text e)\<rparr>)"

definition batch_of :: "'s runner \<Rightarrow> msg list \<Rightarrow> 's run_state \<Rightarrow> commit_batch" where
  "batch_of r batch st =
     \<lparr>cb_consumer = f_id (rn_flow r), cb_up_to = up_to_offset batch, cb_outputs = rs_outputs st,
      cb_snapshots = rs_snapshots st, cb_discards = rs_discards st,
      cb_node_runs = map (node_run_of (f_id (rn_flow r))) (rs_runs st),
      cb_mutations = mutations (rs_kv st)\<rparr>"

definition run_with ::
  "js_codec \<Rightarrow> 's runner \<Rightarrow> kv_buffer \<Rightarrow> nat \<Rightarrow> msg list \<Rightarrow>
   (run_error, commit_batch \<times> 's runner \<times> nat) result" where
  "run_with C r kv pool batch =
     res_bind (execute C r (route r batch (new_run_state r kv None pool))) (\<lambda>st.
       Inr (batch_of r batch st, r\<lparr>rn_procs := rs_procs st\<rparr>, rs_pool st))"

definition run ::
  "js_codec \<Rightarrow> int \<Rightarrow> 's runner \<Rightarrow> nat \<Rightarrow> msg list \<Rightarrow>
   (run_error, commit_batch \<times> 's runner \<times> nat) result" where
  "run C now r pool batch = run_with C r (new_kv_buffer (rn_kv r) (f_id (rn_flow r)) now) pool batch"

definition run_replay ::
  "js_codec \<Rightarrow> int \<Rightarrow> 's runner \<Rightarrow> nat \<Rightarrow> msg list \<Rightarrow>
   (run_error, commit_batch \<times> 's runner \<times> nat) result" where
  "run_replay C now r pool batch =
     res_bind (run_with C r (new_inert_kv_buffer (f_id (rn_flow r)) now) pool batch)
       (\<lambda>(b, r', pool'). Inr (b, reset_processors r', pool'))"

section \<open>Dry run\<close>

record node_trace =
  nt_node :: string
  nt_type :: string
  nt_disabled :: bool
  nt_in :: nat
  nt_out :: nat
  nt_dropped :: nat
  nt_ok :: bool
  nt_error :: "script_error option"
  nt_received :: "msg list"
  nt_emitted :: "(nat \<times> msg list) list"
  nt_console :: "console_line list"

record dry_run_result =
  dr_nodes :: "node_trace list"
  dr_outputs :: "sink_output list"
  dr_snapshots :: "feed_snapshot list"
  dr_mutations :: "kv_mutation list"
  dr_truncated :: bool

datatype dry_run_error = NoEntryNode string string | DryRunFailed run_error

definition port_emissions :: "(nat, msg list) amap \<Rightarrow> (nat \<times> msg list) list" where
  "port_emissions by_port = map (\<lambda>p. (p, the (map_of by_port p))) (amap_keys by_port)"

definition node_trace_of :: "'s runner \<Rightarrow> 's run_state \<Rightarrow> string \<times> run_acc \<Rightarrow> node_trace" where
  "node_trace_of r st = (\<lambda>(x, a).
     (let n = graph_node (rn_graph r) x
      in \<lparr>nt_node = x,
          nt_type = (case n of None \<Rightarrow> [] | Some nd \<Rightarrow> n_type nd),
          nt_disabled = (case n of None \<Rightarrow> False | Some nd \<Rightarrow> n_disabled nd),
          nt_in = ra_in a, nt_out = ra_out a, nt_dropped = ra_drop a, nt_ok = ra_ok a,
          nt_error = ra_err a, nt_received = ra_received a,
          nt_emitted = port_emissions (ra_emitted a),
          nt_console = (case rs_trace st of None \<Rightarrow> [] | Some t \<Rightarrow> lines_for t x)\<rparr>))"

definition dry_run ::
  "js_codec \<Rightarrow> int \<Rightarrow> 's runner \<Rightarrow> nat \<Rightarrow> string \<Rightarrow> msg list \<Rightarrow> (dry_run_error, dry_run_result) result" where
  "dry_run C now r pool entry batch =
     (case graph_node (rn_graph r) entry of
        None \<Rightarrow> Inl (NoEntryNode (f_id (rn_flow r)) entry)
      | Some _ \<Rightarrow>
          (let st = new_run_state r (new_kv_buffer (rn_kv r) (f_id (rn_flow r)) now)
                      (Some \<lparr>tr_lines = [], tr_dropped = False\<rparr>) pool
           in case execute C r (fold (deliver r [entry]) batch st) of
                Inl e \<Rightarrow> Inl (DryRunFailed e)
              | Inr st' \<Rightarrow>
                  Inr \<lparr>dr_nodes = map (node_trace_of r st') (rs_runs st'), dr_outputs = rs_outputs st',
                       dr_snapshots = rs_snapshots st', dr_mutations = mutations (rs_kv st'),
                       dr_truncated = (case rs_trace st' of None \<Rightarrow> False | Some t \<Rightarrow> tr_dropped t)\<rparr>))"

definition synthetic_msg_id :: "nat \<Rightarrow> string" where
  "synthetic_msg_id i = ''dryrun-'' @ format_int (int i)"

end
