(* ===== verification/Run_Props.thy ===== *)
theory Run_Props
  imports Run
begin

text \<open>
  What a run guarantees: every message a node receives is accounted for, nothing put on a wire
  is lost, snapshots only reconcile feeds, a replay has no memory and leaves none, a failure
  stays with its message, and a dry run does what the live run does.
\<close>

section \<open>Counters\<close>

definition drops :: "'s run_state \<Rightarrow> string \<Rightarrow> nat" where
  "drops st n = length (filter (\<lambda>d. d_node d = n) (rs_discards st))"

definition touched :: "'s run_state \<Rightarrow> string \<Rightarrow> bool" where
  "touched st n \<longleftrightarrow> n \<in> set (map fst (rs_runs st))"

lemma touched_map_of: "touched st n \<longleftrightarrow> (\<exists>a. map_of (rs_runs st) n = Some a)"
  using map_of_None_iff [of "rs_runs st" n] by (auto simp: touched_def)

lemma map_acc_simps [simp]:
  "rs_pending (map_acc n f st) = rs_pending st" "rs_outputs (map_acc n f st) = rs_outputs st"
  "rs_discards (map_acc n f st) = rs_discards st" "rs_snapshots (map_acc n f st) = rs_snapshots st"
  "rs_kv (map_acc n f st) = rs_kv st" "rs_trace (map_acc n f st) = rs_trace st"
  "rs_procs (map_acc n f st) = rs_procs st" "rs_pool (map_acc n f st) = rs_pool st"
  "rs_seen (map_acc n f st) = rs_seen st"
  by (simp_all add: map_acc_def)

lemma keys_map_acc [simp]: "map fst (rs_runs (map_acc n f st)) = map fst (rs_runs st)"
proof -
  have "map fst (AList.map_entry n f xs) = map fst xs" for xs :: "(string \<times> run_acc) list"
    by (induction xs) auto
  then show ?thesis by (simp add: map_acc_def)
qed

lemma acc_of_map_acc:
  assumes "touched st n"
  shows "acc_of (map_acc n f st) k = (if k = n then f (acc_of st n) else acc_of st k)"
proof -
  have "map_of (AList.map_entry n f xs) k =
      (if k = n then map_option f (map_of xs k) else map_of xs k)" for xs :: "(string \<times> run_acc) list"
    by (induction xs) auto
  then show ?thesis using assms by (auto simp: acc_of_def map_acc_def touched_map_of)
qed

lemma acc_of_cong: "rs_runs st' = rs_runs st \<Longrightarrow> acc_of st' = acc_of st"
  by (simp add: acc_of_def fun_eq_iff)

definition spent :: "'s run_state \<Rightarrow> string \<Rightarrow> nat" where
  "spent st n = ra_out (acc_of st n) + ra_drop (acc_of st n)"

text \<open>\<open>acts ws x st st'\<close>: between the two states only node \<open>x\<close> acted, its discards moved with its
  drop counter, and new messages went only to targets of its wires.\<close>

definition acts :: "wire list \<Rightarrow> string \<Rightarrow> 's run_state \<Rightarrow> 's run_state \<Rightarrow> bool" where
  "acts ws x st st' \<longleftrightarrow>
     map fst (rs_runs st') = map fst (rs_runs st) \<and>
     (\<forall>y. y \<noteq> x \<longrightarrow> acc_of st' y = acc_of st y \<and> drops st' y = drops st y) \<and>
     drops st' x + ra_drop (acc_of st x) = drops st x + ra_drop (acc_of st' x) \<and>
     (\<forall>y. rs_pending st' y \<noteq> rs_pending st y \<longrightarrow> (\<exists>w\<in>set ws. w_from w = x \<and> w_to w = y))"

lemma acts_refl [simp]: "acts ws x st st"
  by (simp add: acts_def)

lemma acts_trans:
  assumes "acts ws x s1 s2" and "acts ws x s2 s3"
  shows "acts ws x s1 s3"
  unfolding acts_def
proof (intro conjI allI impI)
  show "drops s3 x + ra_drop (acc_of s1 x) = drops s1 x + ra_drop (acc_of s3 x)"
    using assms by (auto simp: acts_def)
  fix y assume "rs_pending s3 y \<noteq> rs_pending s1 y"
  then have "rs_pending s2 y \<noteq> rs_pending s1 y \<or> rs_pending s3 y \<noteq> rs_pending s2 y" by auto
  then show "\<exists>w\<in>set ws. w_from w = x \<and> w_to w = y" using assms unfolding acts_def by blast
qed (use assms in \<open>auto simp: acts_def\<close>)

lemma acts_touched: "acts ws x st st' \<Longrightarrow> touched st' y = touched st y"
  by (simp add: acts_def touched_def)

text \<open>One node action with its effect on the two sides of the balance.\<close>

definition acted ::
  "wire list \<Rightarrow> string \<Rightarrow> nat \<Rightarrow> nat \<Rightarrow> 's run_state \<Rightarrow> 's run_state \<Rightarrow> bool" where
  "acted ws x i k st st' \<longleftrightarrow>
     acts ws x st st' \<and> ra_in (acc_of st' x) = ra_in (acc_of st x) + i \<and> spent st' x = spent st x + k"

lemma acted_trans:
  "acted ws x i k s1 s2 \<Longrightarrow> acted ws x j l s2 s3 \<Longrightarrow> acted ws x (i + j) (k + l) s1 s3"
  by (auto simp: acted_def intro: acts_trans)

lemma acted_touched: "acted ws x i k st st' \<Longrightarrow> touched st' y = touched st y"
  by (auto simp: acted_def acts_touched)

lemma acted_same:
  "rs_runs st' = rs_runs st \<Longrightarrow> rs_discards st' = rs_discards st \<Longrightarrow> rs_pending st' = rs_pending st \<Longrightarrow>
   acted ws x 0 0 st st'"
  using acc_of_cong [of st' st] by (simp add: acted_def acts_def drops_def spent_def)

lemma acted_map_acc:
  assumes "touched st x" and "\<And>a. ra_in (f a) = ra_in a + i" and "\<And>a. ra_drop (f a) = ra_drop a"
    and "\<And>a. ra_out (f a) = ra_out a + k"
  shows "acted ws x i k st (map_acc x f st)"
  using assms by (simp add: acted_def acts_def drops_def spent_def acc_of_map_acc)

lemma acted_drop:
  assumes "touched st x"
  shows "acted ws x 0 1 st (drop_msg x m st)"
proof -
  have acc: "acc_of (drop_msg x m st) = acc_of (map_acc x (\<lambda>a. a\<lparr>ra_drop := Suc (ra_drop a)\<rparr>) st)"
    by (rule acc_of_cong) (simp add: drop_msg_def)
  have fields: "rs_runs (drop_msg x m st) = rs_runs (map_acc x (\<lambda>a. a\<lparr>ra_drop := Suc (ra_drop a)\<rparr>) st)"
    "rs_pending (drop_msg x m st) = rs_pending st"
    "rs_discards (drop_msg x m st) = rs_discards st @ [\<lparr>d_msg = m_id (mg_msg m), d_node = x\<rparr>]"
    by (simp_all add: drop_msg_def)
  show ?thesis
    using assms by (simp add: acted_def acts_def drops_def spent_def acc acc_of_map_acc fields)
qed

lemma acted_enqueue:
  assumes "w \<in> set ws" and "w_from w = x" and "w_to w = y"
  shows "acted ws x 0 0 st (enqueue y m st)"
proof -
  have "acc_of (enqueue y m st) = acc_of st" by (rule acc_of_cong) (simp add: enqueue_def)
  then show ?thesis using assms by (auto simp: acted_def acts_def drops_def spent_def enqueue_def)
qed

lemma acted_enqueue_all:
  "set zs \<subseteq> set ws \<Longrightarrow> \<forall>w\<in>set zs. w_from w = x \<Longrightarrow>
   acted ws x 0 0 st (fold (\<lambda>w. enqueue (w_to w) m) zs st)"
proof (induction zs arbitrary: st)
  case Nil
  then show ?case by (simp add: acted_def)
next
  case (Cons z zs)
  have "acted ws x 0 0 st (enqueue (w_to z) m st)"
    using Cons.prems by (intro acted_enqueue [of z]) auto
  from acted_trans [OF this Cons.IH] Cons.prems show ?case by simp
qed

lemma graph_wires_sub:
  "set (graph_wires g x p) \<subseteq> set (g_wires g)" "\<forall>w\<in>set (graph_wires g x p). w_from w = x"
  by (auto simp: graph_wires_def wires_on_def)

lemma acted_forward:
  assumes "touched st x"
  shows "acted (g_wires (rn_graph r)) x 0 1 st (forward r x port m st)"
proof -
  let ?ws = "g_wires (rn_graph r)"
  let ?st = "if rs_trace st = None then st else map_acc x (record_emitted port (mg_msg m)) st"
  have rec: "acted ?ws x 0 0 st ?st"
    using assms by (auto intro!: acted_map_acc simp: record_emitted_def acted_same)
  have t: "touched ?st x" using acted_touched [OF rec] assms by blast
  show ?thesis
  proof (cases "graph_wires (rn_graph r) x (int port) = []")
    case True
    have "acted ?ws x 0 1 ?st (drop_msg x m ?st)" by (rule acted_drop [OF t])
    from acted_trans [OF rec this] True show ?thesis by (simp add: forward_def Let_def)
  next
    case False
    let ?st2 = "map_acc x (\<lambda>a. a\<lparr>ra_out := Suc (ra_out a)\<rparr>) ?st"
    have "acted ?ws x 0 1 ?st ?st2" by (rule acted_map_acc [OF t]) auto
    from acted_trans [OF acted_trans [OF rec this] acted_enqueue_all [OF graph_wires_sub]] False
    show ?thesis by (simp add: forward_def Let_def)
  qed
qed

lemma acted_commit_terminal:
  assumes "touched st (n_id n)"
  shows "acted ws (n_id n) 0 1 st (commit_terminal r f n m st)"
proof -
  have out: "acted ws (n_id n) 0 1 st
      (map_acc (n_id n) (\<lambda>a. a\<lparr>ra_out := Suc (ra_out a)\<rparr>) (st\<lparr>rs_outputs := os\<rparr>))" for os
  proof -
    have "acted ws (n_id n) 0 0 st (st\<lparr>rs_outputs := os\<rparr>)" by (rule acted_same) simp_all
    moreover have "acted ws (n_id n) 0 1 (st\<lparr>rs_outputs := os\<rparr>)
      (map_acc (n_id n) (\<lambda>a. a\<lparr>ra_out := Suc (ra_out a)\<rparr>) (st\<lparr>rs_outputs := os\<rparr>))"
      using assms by (intro acted_map_acc) (auto simp: touched_def)
    ultimately show ?thesis using acted_trans by fastforce
  qed
  show ?thesis
    using out acted_drop [OF assms] by (simp add: commit_terminal_def Let_def)
qed

lemma acted_forwards:
  assumes "touched st x"
  shows "acted (g_wires (rn_graph r)) x 0 (length outs) st
    (fold (\<lambda>out. forward r x port \<lparr>mg_msg = out, mg_snapshot = sc\<rparr>) outs st)"
  using assms
proof (induction outs arbitrary: st)
  case Nil
  then show ?case by (simp add: acted_def)
next
  case (Cons out outs)
  let ?m = "\<lparr>mg_msg = out, mg_snapshot = sc\<rparr>"
  have 1: "acted (g_wires (rn_graph r)) x 0 1 st (forward r x port ?m st)"
    by (rule acted_forward [OF Cons.prems])
  have "touched (forward r x port ?m st) x" using acted_touched [OF 1] Cons.prems by simp
  from acted_trans [OF 1 Cons.IH [OF this]] show ?case by simp
qed

lemma acted_ports:
  assumes "touched st x"
  shows "acted (g_wires (rn_graph r)) x 0 (sum_list (map (\<lambda>(_, outs). length outs) ports)) st
    (fold (forward_port r x m) ports st)"
  using assms
proof (induction ports arbitrary: st)
  case Nil
  then show ?case by (simp add: acted_def)
next
  case (Cons p ports)
  obtain port outs where p: "p = (port, outs)" by fastforce
  have 1: "acted (g_wires (rn_graph r)) x 0 (length outs) st (forward_port r x m p st)"
    unfolding p forward_port_def prod.case by (rule acted_forwards [OF Cons.prems])
  have "touched (forward_port r x m p st) x" using acted_touched [OF 1] Cons.prems by simp
  from acted_trans [OF 1 Cons.IH [OF this]] show ?case by (simp add: p)
qed

lemma ports_not_empty:
  assumes "\<not> empty_ports ports"
  shows "1 \<le> sum_list (map (\<lambda>(_, outs). length outs) (enumerate n ports))"
  using assms
proof (induction ports arbitrary: n)
  case (Cons p ports)
  show ?case
  proof (cases "p = []")
    case True
    with Cons.prems have "\<not> empty_ports ports" by (simp add: empty_ports_def)
    from Cons.IH [OF this, of "Suc n"] show ?thesis by (simp add: trans_le_add2)
  qed (simp add: Suc_le_eq)
qed (simp add: empty_ports_def)

lemma acted_process:
  assumes "process_node C r n m st = Inr st'" and "touched st (n_id n)"
  shows "\<exists>k\<ge>1. acted (g_wires (rn_graph r)) (n_id n) 0 k st st'"
proof -
  let ?ws = "g_wires (rn_graph r)" and ?x = "n_id n"
  obtain p where p: "map_of (rs_procs st) ?x = Some p"
    using assms(1) by (auto simp: process_node_def split: option.splits)
  obtain res p' pool sg t where e: "proc_process C ?x (rs_kv st) (mg_msg m) p
      (rs_pool st, buffer_node ?x, rs_trace st) = (res, p', pool, sg, t)" by (metis prod_cases5)
  define st1 where "st1 = st\<lparr>rs_procs := AList.update ?x p' (rs_procs st), rs_pool := pool, rs_trace := t\<rparr>"
  have 1: "acted ?ws ?x 0 0 st st1" unfolding st1_def by (rule acted_same) simp_all
  have t1: "touched st1 ?x" using acted_touched [OF 1] assms(2) by simp
  show ?thesis
  proof (cases res)
    case (Inl err)
    then have st': "st' = fail_message ?x m err st1"
      using assms(1) p e by (simp add: process_node_def st1_def)
    let ?st2 = "map_acc ?x (\<lambda>a. a\<lparr>ra_ok := False, ra_err := Some err\<rparr>) st1"
    have 2: "acted ?ws ?x 0 0 st1 ?st2" by (rule acted_map_acc [OF t1]) auto
    have 3: "acted ?ws ?x 0 1 ?st2 (drop_msg ?x m ?st2)"
      by (rule acted_drop) (use t1 in \<open>simp add: touched_def\<close>)
    have 4: "acted ?ws ?x 0 0 (drop_msg ?x m ?st2) st'"
      unfolding st' by (rule acted_same) (simp_all add: fail_message_def Let_def)
    from acted_trans [OF acted_trans [OF acted_trans [OF 1 2] 3] 4]
    show ?thesis by (intro exI [of _ 1]) simp
  next
    case (Inr ports)
    let ?st2 = "st1\<lparr>rs_kv := staging_commit sg (rs_kv st1)\<rparr>"
    have st': "st' = (if empty_ports ports then drop_msg ?x m ?st2
        else fold (forward_port r ?x m) (enumerate 0 ports) ?st2)"
      using assms(1) p e Inr by (auto simp: process_node_def st1_def Let_def split: if_splits)
    have 2: "acted ?ws ?x 0 0 st1 ?st2" by (rule acted_same) simp_all
    have t2: "touched ?st2 ?x" using acted_touched [OF 2] t1 by simp
    show ?thesis
    proof (cases "empty_ports ports")
      case True
      from acted_trans [OF acted_trans [OF 1 2] acted_drop [OF t2]] True
      show ?thesis unfolding st' by (intro exI [of _ 1]) simp
    next
      case False
      from acted_trans [OF acted_trans [OF 1 2] acted_ports [OF t2]] False ports_not_empty [OF False]
      show ?thesis unfolding st' by auto
    qed
  qed
qed

section \<open>One message, one node\<close>

definition plain_node :: "node \<Rightarrow> bool" where
  "plain_node n \<longleftrightarrow> n_disabled n \<or> bh_relay (behavior_of (n_type n)) \<or>
     bh_sinks (behavior_of (n_type n)) \<noteq> None"

lemma acted_execute_message:
  assumes "execute_message C r n m st = Inr st'" and "touched st (n_id n)"
  shows "\<exists>k\<ge>1. acted (g_wires (rn_graph r)) (n_id n) 1 k st st' \<and> (plain_node n \<longrightarrow> k = 1)"
proof -
  let ?ws = "g_wires (rn_graph r)" and ?x = "n_id n"
  have 1: "acted ?ws ?x 1 0 st (receive ?x m st)"
    unfolding receive_def by (rule acted_map_acc [OF assms(2)]) auto
  have t: "touched (receive ?x m st) ?x" using acted_touched [OF 1] assms(2) by simp
  have "\<exists>k\<ge>1. acted ?ws ?x 0 k (receive ?x m st) st' \<and> (plain_node n \<longrightarrow> k = 1)"
    using assms(1) acted_drop [OF t] acted_forward [OF t] acted_commit_terminal [OF t]
      acted_process [OF _ t]
    by (auto simp: execute_message_def Let_def plain_node_def split: if_splits option.splits)
  then show ?thesis using acted_trans [OF 1] by fastforce
qed

lemma acted_messages:
  "res_fold (execute_message C r n) ms st = Inr st' \<Longrightarrow> touched st (n_id n) \<Longrightarrow>
   \<exists>k\<ge>length ms. acted (g_wires (rn_graph r)) (n_id n) (length ms) k st st' \<and>
     (plain_node n \<longrightarrow> k = length ms)"
proof (induction ms arbitrary: st)
  case Nil
  then show ?case by (auto simp: acted_def)
next
  case (Cons m ms)
  then obtain st1 where s: "execute_message C r n m st = Inr st1"
    "res_fold (execute_message C r n) ms st1 = Inr st'" by (auto simp: res_bind_Inr_conv)
  obtain k where k: "k \<ge> 1" "acted (g_wires (rn_graph r)) (n_id n) 1 k st st1" "plain_node n \<longrightarrow> k = 1"
    using acted_execute_message [OF s(1) Cons.prems(2)] by blast
  have "touched st1 (n_id n)" using acted_touched [OF k(2)] Cons.prems(2) by simp
  then obtain l where l: "l \<ge> length ms"
    "acted (g_wires (rn_graph r)) (n_id n) (length ms) l st1 st'" "plain_node n \<longrightarrow> l = length ms"
    using Cons.IH [OF s(2)] by blast
  from acted_trans [OF k(2) l(2)] k l show ?case by (intro exI [of _ "k + l"]) auto
qed

section \<open>The whole walk\<close>

lemma new_graph_known:
  assumes "new_graph f = Some g"
  shows "g_nodes g = f_nodes f" and "g_wires g = known_wires f"
    and "g_entries g = entry_ids (f_nodes f) (known_wires f)"
  using assms by (auto simp: new_graph_Some)

lemma touch_acc_facts:
  "touched (touch_acc x st) x" "acc_of (touch_acc x st) = acc_of st"
  "drops (touch_acc x st) = drops st" "rs_pending (touch_acc x st) = rs_pending st"
  "touched (touch_acc x st) y \<longleftrightarrow> y = x \<or> touched st y"
  by (auto simp: touch_acc_def touched_def acc_of_def drops_def fun_eq_iff map_add_def
      split: option.splits dest: map_of_fst_mem)

text \<open>The state between two nodes of the walk, \<open>walked\<close> being the nodes already run.\<close>

definition walk_inv :: "graph \<Rightarrow> string set \<Rightarrow> 's run_state \<Rightarrow> bool" where
  "walk_inv g walked st \<longleftrightarrow>
     (\<forall>y. touched st y \<longrightarrow> y \<in> walked) \<and>
     (\<forall>y\<in>walked. ra_in (acc_of st y) = length (rs_pending st y)) \<and>
     (\<forall>y. touched st y \<longrightarrow> ra_in (acc_of st y) \<le> spent st y) \<and>
     (\<forall>y n. touched st y \<longrightarrow> graph_node g y = Some n \<longrightarrow> plain_node n \<longrightarrow>
        spent st y = ra_in (acc_of st y)) \<and>
     (\<forall>y. y \<noteq> unrouted_node_id \<longrightarrow> drops st y = ra_drop (acc_of st y))"

lemma untouched_acc: "\<not> touched st y \<Longrightarrow> acc_of st y = new_acc"
  by (auto simp: touched_map_of acc_of_def split: option.split)

lemma walk_inv_node:
  assumes inv: "walk_inv (rn_graph r) walked st" and x: "x \<notin> walked"
    and exec: "execute_node C r x st = Inr st'"
    and node: "graph_node (rn_graph r) x = Some n"
    and fwd: "\<forall>w\<in>set (g_wires (rn_graph r)). w_from w = x \<longrightarrow> w_to w \<notin> insert x walked"
  shows "walk_inv (rn_graph r) (insert x walked) st'"
proof (cases "rs_pending st x = []")
  case True
  then have st': "st' = st" using exec by (simp add: execute_node_def)
  have "acc_of st x = new_acc" using inv x untouched_acc by (auto simp: walk_inv_def)
  then show ?thesis using inv True by (auto simp: walk_inv_def st' new_acc_def)
next
  case False
  have nid: "n_id n = x" using node node_by_id_mem [of "g_nodes (rn_graph r)" x n]
    by (simp add: graph_node_def)
  let ?t = "touch_acc x st"
  have "res_fold (execute_message C r n) (rs_pending st x) ?t = Inr st'"
    using exec False node by (simp add: execute_node_def)
  from acted_messages [OF this] nid touch_acc_facts(1) obtain k where
    k: "length (rs_pending st x) \<le> k"
      "acted (g_wires (rn_graph r)) x (length (rs_pending st x)) k ?t st'"
      "plain_node n \<longrightarrow> k = length (rs_pending st x)" by metis
  have new: "acc_of ?t x = new_acc" using inv x untouched_acc by (auto simp: walk_inv_def touch_acc_facts)
  have a: "acts (g_wires (rn_graph r)) x ?t st'" using k(2) by (simp add: acted_def)
  have tch: "touched st' y \<longleftrightarrow> y = x \<or> touched st y" for y
    using acts_touched [OF a] touch_acc_facts(5) by simp
  have in_x: "ra_in (acc_of st' x) = length (rs_pending st x)" and sp_x: "spent st' x = k"
    using k(2) new by (simp_all add: acted_def spent_def new_acc_def)
  have pend: "rs_pending st' y = rs_pending st y" if "y \<in> insert x walked" for y
    using a fwd that by (auto simp: acts_def touch_acc_facts)
  have other: "acc_of st' y = acc_of st y \<and> drops st' y = drops st y" if "y \<noteq> x" for y
    using a that by (simp add: acts_def touch_acc_facts)
  have dr_x: "drops st' x = drops st x + ra_drop (acc_of st' x)"
    using a new by (simp add: acts_def touch_acc_facts new_acc_def)
  have dr0: "drops st x = 0" if "x \<noteq> unrouted_node_id"
    using inv that new by (simp add: walk_inv_def touch_acc_facts new_acc_def)
  show ?thesis
    unfolding walk_inv_def
  proof (intro conjI allI ballI impI)
    fix y assume "y \<in> insert x walked"
    then show "ra_in (acc_of st' y) = length (rs_pending st' y)"
      using pend [of y] other [of y] in_x inv by (cases "y = x") (auto simp: walk_inv_def)
  next
    fix y assume "touched st' y"
    then show "ra_in (acc_of st' y) \<le> spent st' y"
      using other [of y] in_x sp_x k(1) inv tch by (cases "y = x") (auto simp: walk_inv_def spent_def)
  next
    fix y m assume "touched st' y" "graph_node (rn_graph r) y = Some m" "plain_node m"
    then show "spent st' y = ra_in (acc_of st' y)"
      using other [of y] in_x sp_x k(3) inv tch node by (cases "y = x") (auto simp: walk_inv_def spent_def)
  next
    fix y assume "y \<noteq> unrouted_node_id"
    then show "drops st' y = ra_drop (acc_of st' y)"
      using other [of y] dr_x dr0 inv by (cases "y = x") (auto simp: walk_inv_def)
  qed (use inv tch in \<open>auto simp: walk_inv_def\<close>)
qed

lemma index_of_append:
  "x \<notin> set xs \<Longrightarrow> index_of (xs @ x # ys) x = length xs"
  "y \<in> set xs \<Longrightarrow> index_of (xs @ zs) y < length xs"
  by (induction xs) auto

lemma topo_forward:
  assumes "topo ws {} (pre @ x # post)" and "distinct (pre @ x # post)"
    and "w \<in> set ws" and "w_from w = x"
  shows "w_to w \<notin> insert x (set pre)"
proof
  assume m: "w_to w \<in> insert x (set pre)"
  then have "index_of (pre @ x # post) x < index_of (pre @ x # post) (w_to w)"
    using topo_rank [OF assms(1,3)] assms(4) by auto
  moreover have "index_of (pre @ x # post) x = length pre"
    using assms(2) by (simp add: index_of_append)
  moreover have "index_of (pre @ x # post) (w_to w) \<le> length pre"
    using m assms(2) index_of_append(1) [of x pre post]
      index_of_append(2) [of "w_to w" pre "x # post"] by auto
  ultimately show False by simp
qed

lemma walk_inv_walk:
  assumes "topo (g_wires (rn_graph r)) {} (pre @ post)" and "distinct (pre @ post)"
    and "\<forall>x\<in>set post. graph_node (rn_graph r) x \<noteq> None"
    and "walk_inv (rn_graph r) (set pre) st"
    and "res_fold (execute_node C r) post st = Inr st'"
  shows "walk_inv (rn_graph r) (set (pre @ post)) st'"
  using assms
proof (induction post arbitrary: pre st)
  case (Cons x post)
  from Cons.prems(5) obtain st1 where
    s: "execute_node C r x st = Inr st1" "res_fold (execute_node C r) post st1 = Inr st'"
    by (auto simp: res_bind_Inr_conv)
  obtain n where n: "graph_node (rn_graph r) x = Some n" using Cons.prems(3) by auto
  have "walk_inv (rn_graph r) (insert x (set pre)) st1"
    using Cons.prems(2) topo_forward [OF Cons.prems(1,2)]
    by (intro walk_inv_node [OF Cons.prems(4) _ s(1) n]) auto
  then show ?case using Cons.IH [of "pre @ [x]" st1] Cons.prems s(2) by simp
qed simp

section \<open>Routing touches no counters\<close>

definition unstarted :: "'s run_state \<Rightarrow> bool" where
  "unstarted st \<longleftrightarrow> rs_runs st = [] \<and> (\<forall>d\<in>set (rs_discards st). d_node d = unrouted_node_id)"

lemma fold_preserves: "(\<And>x s. x \<in> set xs \<Longrightarrow> P s \<Longrightarrow> P (f x s)) \<Longrightarrow> P s \<Longrightarrow> P (fold f xs s)"
  by (induction xs arbitrary: s) auto

lemma unstarted_enqueue [simp]: "unstarted (enqueue n m st) = unstarted st"
  by (simp add: unstarted_def enqueue_def)

lemma unstarted_offer: "unstarted st \<Longrightarrow> unstarted (offer ns m st)"
  unfolding offer_def by (rule fold_preserves [of _ unstarted]) auto

lemma unstarted_declare: "unstarted st \<Longrightarrow> unstarted (declare_snapshot r sc st)"
  unfolding declare_snapshot_def
  by (rule fold_preserves [of _ unstarted]) (auto simp: declare_one_def unstarted_def Let_def)

lemma unstarted_deliver: "unstarted st \<Longrightarrow> unstarted (deliver r ns m st)"
  by (auto simp: deliver_def Let_def unstarted_offer unstarted_declare split: option.split
      intro!: fold_preserves [of _ unstarted])

lemma unstarted_route: "unstarted st \<Longrightarrow> unstarted (route r batch st)"
  unfolding route_def
  by (rule fold_preserves [of _ unstarted])
    (auto simp: route_one_def unstarted_deliver, auto simp: unstarted_def)

lemma unstarted_new [simp]: "unstarted (new_run_state r kv t pool)"
  by (simp add: unstarted_def new_run_state_def)

lemma walk_inv_unstarted: "unstarted st \<Longrightarrow> walk_inv g {} st"
  by (auto simp: unstarted_def walk_inv_def touched_def acc_of_def new_acc_def drops_def filter_empty_conv)

lemma execute_walk_inv:
  assumes "distinct (map n_id (f_nodes (rn_flow r)))" and "new_graph (rn_flow r) = Some (rn_graph r)"
    and "unstarted st" and "execute C r st = Inr st'"
  shows "walk_inv (rn_graph r) (n_id ` set (f_nodes (rn_flow r))) st'"
proof -
  have g: "distinct (g_order (rn_graph r))" "set (g_order (rn_graph r)) = n_id ` set (f_nodes (rn_flow r))"
    "topo (g_wires (rn_graph r)) {} (g_order (rn_graph r))"
    using kahn_order_facts [OF assms(1)] kahn_order_all [OF assms(1)] assms(2)
    by (auto simp: new_graph_Some)
  have "\<forall>x\<in>set (g_order (rn_graph r)). graph_node (rn_graph r) x \<noteq> None"
    using g(2) new_graph_known(1) [OF assms(2)] by (auto simp: graph_node_def node_by_id_None)
  from walk_inv_walk [of r "[]" "g_order (rn_graph r)" st C st'] g this walk_inv_unstarted [OF assms(3)] assms(4)
  show ?thesis by (simp add: execute_def)
qed

text \<open>
  Claim C6: nothing is lost between nodes. When a run ends, every node of the flow has received
  exactly the messages that routing and the nodes before it put on its input: the walk order
  never leaves a message behind a node that has already run.
\<close>

theorem run_delivers_everything:
  assumes "distinct (map n_id (f_nodes (rn_flow r)))" and "new_graph (rn_flow r) = Some (rn_graph r)"
    and "execute C r (route r batch (new_run_state r kv t pool)) = Inr st"
  shows "\<forall>x\<in>n_id ` set (f_nodes (rn_flow r)). ra_in (acc_of st x) = length (rs_pending st x)"
  using execute_walk_inv [OF assms(1,2) unstarted_route [OF unstarted_new] assms(3)]
  by (simp add: walk_inv_def)

lemma run_with_state:
  "run_with C r kv pool batch = Inr (b, r', pool') \<Longrightarrow>
   \<exists>st. execute C r (route r batch (new_run_state r kv None pool)) = Inr st \<and> b = batch_of r batch st \<and>
     r' = r\<lparr>rn_procs := rs_procs st\<rparr> \<and> pool' = rs_pool st"
  by (auto simp: run_with_def res_bind_Inr_conv)

lemma distinct_runs_map_acc: "distinct (map fst (rs_runs (map_acc n f st))) = distinct (map fst (rs_runs st))"
  by simp

text \<open>The walk enters each node's counters once.\<close>

lemma runs_distinct_execute:
  assumes "distinct (map fst (rs_runs st))" and "execute C r st = Inr st'"
  shows "distinct (map fst (rs_runs st'))"
  using assms(2) unfolding execute_def
proof (rule res_fold_invariant)
  show "distinct (map fst (rs_runs st))" by (rule assms(1))
  fix x s s' assume d: "distinct (map fst (rs_runs s))" and e: "execute_node C r x s = Inr s'"
  show "distinct (map fst (rs_runs s'))"
  proof (cases "rs_pending s x = [] \<or> graph_node (rn_graph r) x = None")
    case True
    with e d show ?thesis by (auto simp: execute_node_def split: if_splits)
  next
    case False
    then obtain n where n: "graph_node (rn_graph r) x = Some n" by auto
    have nid: "n_id n = x" using n node_by_id_mem by (auto simp: graph_node_def)
    have "res_fold (execute_message C r n) (rs_pending s x) (touch_acc x s) = Inr s'"
      using e False n by (simp add: execute_node_def)
    from acted_messages [OF this] nid touch_acc_facts(1) obtain k where
      "acted (g_wires (rn_graph r)) x (length (rs_pending s x)) k (touch_acc x s) s'" by metis
    then have "map fst (rs_runs s') = map fst (rs_runs (touch_acc x s))" by (simp add: acted_def acts_def)
    moreover have "distinct (map fst (rs_runs (touch_acc x s)))"
      using d by (auto simp: touch_acc_def map_of_None_iff split: option.split)
    ultimately show ?thesis by simp
  qed
qed

text \<open>
  Claim C7: the books of a run balance. In the batch a run returns, each node's run record
  counts no more messages in than it counts out or dropped, a node that does not transform
  (a source, a terminal, a disabled node) counts exactly as many, and the discards recorded
  against a node are as many as its drop counter says.
\<close>

theorem run_books_balance:
  assumes "distinct (map n_id (f_nodes (rn_flow r)))" and "new_graph (rn_flow r) = Some (rn_graph r)"
    and "run C now r pool batch = Inr (b, r', pool')"
  shows "\<forall>nr\<in>set (cb_node_runs b).
    nr_in nr \<le> nr_out nr + nr_drop nr \<and>
    (\<forall>n. graph_node (rn_graph r) (nr_node nr) = Some n \<and> plain_node n \<longrightarrow>
       nr_in nr = nr_out nr + nr_drop nr) \<and>
    (nr_node nr \<noteq> unrouted_node_id \<longrightarrow>
       nr_drop nr = length (filter (\<lambda>d. d_node d = nr_node nr) (cb_discards b)))"
proof
  fix nr assume nr: "nr \<in> set (cb_node_runs b)"
  obtain kv where "run_with C r kv pool batch = Inr (b, r', pool')" using assms(3) by (auto simp: run_def)
  from run_with_state [OF this] obtain st where
    st: "execute C r (route r batch (new_run_state r kv None pool)) = Inr st" "b = batch_of r batch st" by blast
  note inv = execute_walk_inv [OF assms(1,2) unstarted_route [OF unstarted_new] st(1)]
  have d: "distinct (map fst (rs_runs st))"
    using unstarted_route [OF unstarted_new, of r batch r kv None pool]
    by (intro runs_distinct_execute [OF _ st(1)]) (simp add: unstarted_def)
  from nr st(2) obtain x a where xa: "(x, a) \<in> set (rs_runs st)" "nr = node_run_of (f_id (rn_flow r)) (x, a)"
    by (auto simp: batch_of_def)
  have "map_of (rs_runs st) x = Some a" using d xa(1) by simp
  then have acc: "acc_of st x = a" and t: "touched st x" by (auto simp: acc_of_def touched_map_of)
  show "nr_in nr \<le> nr_out nr + nr_drop nr \<and>
    (\<forall>n. graph_node (rn_graph r) (nr_node nr) = Some n \<and> plain_node n \<longrightarrow>
       nr_in nr = nr_out nr + nr_drop nr) \<and>
    (nr_node nr \<noteq> unrouted_node_id \<longrightarrow>
       nr_drop nr = length (filter (\<lambda>d. d_node d = nr_node nr) (cb_discards b)))"
    using inv acc t st(2) xa(2)
    by (auto simp: walk_inv_def node_run_of_def spent_def drops_def batch_of_def)
qed

section \<open>A runner that was built can always run\<close>

definition can_run :: "graph \<Rightarrow> (string, 's proc) amap \<Rightarrow> bool" where
  "can_run g procs \<longleftrightarrow> (\<forall>x n. graph_node g x = Some n \<longrightarrow>
     bh_relay (behavior_of (n_type n)) \<or> bh_sinks (behavior_of (n_type n)) \<noteq> None \<or> map_of procs x \<noteq> None)"

lemma behaviors_complete:
  "map_of behaviors t = Some b \<Longrightarrow> bh_relay b \<or> bh_sinks b \<noteq> None \<or> bh_processor b \<noteq> None"
  by (drule map_of_SomeD)
    (auto simp: behaviors_def declared_behaviors_def source_types_def no_behavior_def)

lemma add_node_procs:
  assumes "add_node opts n r = Inr r'"
  shows "rn_flow r' = rn_flow r \<and> rn_graph r' = rn_graph r \<and>
    (\<forall>x. map_of (rn_procs r) x \<noteq> None \<longrightarrow> map_of (rn_procs r') x \<noteq> None) \<and>
    (bh_relay (behavior_of (n_type n)) \<or> bh_sinks (behavior_of (n_type n)) \<noteq> None \<or>
     map_of (rn_procs r') (n_id n) \<noteq> None)"
proof -
  obtain b where b: "map_of behaviors (n_type n) = Some b"
    using assms by (auto simp: add_node_def split: option.splits)
  then have bo: "behavior_of (n_type n) = b" by (simp add: behavior_of_def)
  show ?thesis
    using assms b behaviors_complete [OF b]
    by (auto simp: add_node_def bo update_conv' split: option.splits sum.splits)
qed

lemma add_nodes_procs:
  "res_fold (add_node opts) ns r = Inr r' \<Longrightarrow>
   rn_flow r' = rn_flow r \<and> rn_graph r' = rn_graph r \<and>
   (\<forall>x. map_of (rn_procs r) x \<noteq> None \<longrightarrow> map_of (rn_procs r') x \<noteq> None) \<and>
   (\<forall>n\<in>set ns. bh_relay (behavior_of (n_type n)) \<or> bh_sinks (behavior_of (n_type n)) \<noteq> None \<or>
     map_of (rn_procs r') (n_id n) \<noteq> None)"
proof (induction ns arbitrary: r)
  case (Cons n ns)
  then obtain r1 where r1: "add_node opts n r = Inr r1" "res_fold (add_node opts) ns r1 = Inr r'"
    by (auto simp: res_bind_Inr_conv)
  show ?case using add_node_procs [OF r1(1)] Cons.IH [OF r1(2)] by auto
qed simp

lemma new_runner_facts:
  assumes "new_runner f opts = Inr r"
  shows "rn_flow r = f" and "new_graph f = Some (rn_graph r)" and "can_run (rn_graph r) (rn_procs r)"
proof -
  obtain g where g: "new_graph f = Some g" "res_fold (add_node opts) (f_nodes f)
      \<lparr>rn_flow = f, rn_graph = g, rn_kv = op_kv opts, rn_procs = [], rn_timeouts = []\<rparr> = Inr r"
    using assms by (auto simp: new_runner_def split: option.splits)
  note procs = add_nodes_procs [OF g(2)]
  from procs show f: "rn_flow r = f" and gr: "new_graph f = Some (rn_graph r)" using g(1) by auto
  show "can_run (rn_graph r) (rn_procs r)"
    unfolding can_run_def
  proof (intro allI impI)
    fix x n assume "graph_node (rn_graph r) x = Some n"
    then have "n \<in> set (f_nodes f)" "n_id n = x"
      using node_by_id_mem [of "f_nodes f" x n] new_graph_known(1) [OF gr] by (auto simp: graph_node_def)
    with procs show "bh_relay (behavior_of (n_type n)) \<or> bh_sinks (behavior_of (n_type n)) \<noteq> None \<or>
        map_of (rn_procs r) x \<noteq> None" by auto
  qed
qed

text \<open>The processors a state has are never lost.\<close>

definition keeps_procs :: "'s run_state \<Rightarrow> 's run_state \<Rightarrow> bool" where
  "keeps_procs st st' \<longleftrightarrow> (\<forall>x. map_of (rs_procs st) x \<noteq> None \<longrightarrow> map_of (rs_procs st') x \<noteq> None)"

lemma procs_enqueue [simp]: "rs_procs (enqueue n m st) = rs_procs st"
  by (simp add: enqueue_def)

lemma procs_drop [simp]: "rs_procs (drop_msg n m st) = rs_procs st"
  by (simp add: drop_msg_def)

lemma procs_fold: "(\<And>x s. rs_procs (f x s) = rs_procs s) \<Longrightarrow> rs_procs (fold f xs st) = rs_procs st"
  by (induction xs arbitrary: st) auto

lemma procs_forward [simp]: "rs_procs (forward r n p m st) = rs_procs st"
  by (simp add: forward_def Let_def procs_fold)

lemma procs_forward_port [simp]: "rs_procs (forward_port r n m p st) = rs_procs st"
  by (cases p) (simp add: forward_port_def procs_fold)

lemma procs_commit_terminal [simp]: "rs_procs (commit_terminal r f n m st) = rs_procs st"
  by (simp add: commit_terminal_def Let_def)

lemma map_entry_dom: "map_of (AList.map_entry k f xs) x \<noteq> None \<longleftrightarrow> map_of xs x \<noteq> None"
  by (induction xs) auto

lemma process_total:
  assumes "map_of (rs_procs st) (n_id n) \<noteq> None"
  shows "\<exists>st'. process_node C r n m st = Inr st' \<and> keeps_procs st st'"
proof -
  obtain p where p: "map_of (rs_procs st) (n_id n) = Some p" using assms by auto
  obtain res p' pool sg t where e: "proc_process C (n_id n) (rs_kv st) (mg_msg m) p
      (rs_pool st, buffer_node (n_id n), rs_trace st) = (res, p', pool, sg, t)" by (metis prod_cases5)
  have upd: "map_of (AList.update (n_id n) p' (rs_procs st)) x \<noteq> None" if "map_of (rs_procs st) x \<noteq> None" for x
    using that by (simp add: update_conv')
  show ?thesis
  proof (cases res)
    case (Inl err)
    have "map_of (AList.map_entry (n_id n) proc_reset (AList.update (n_id n) p' (rs_procs st))) x \<noteq> None"
      if "map_of (rs_procs st) x \<noteq> None" for x
      unfolding map_entry_dom by (rule upd [OF that])
    with Inl p e upd show ?thesis
      by (simp add: process_node_def keeps_procs_def fail_message_def Let_def)
  next
    case (Inr ports)
    with p e upd show ?thesis
      by (simp add: process_node_def keeps_procs_def Let_def procs_fold)
  qed
qed

lemma execute_total:
  assumes "can_run (rn_graph r) (rs_procs st)"
  shows "\<exists>st'. execute C r st = Inr st' \<and> can_run (rn_graph r) (rs_procs st')"
  unfolding execute_def
proof (rule res_fold_total [where P = "\<lambda>s. can_run (rn_graph r) (rs_procs s)", OF _ assms])
  fix x and s :: "'a run_state" assume s: "can_run (rn_graph r) (rs_procs s)"
  show "\<exists>s'. execute_node C r x s = Inr s' \<and> can_run (rn_graph r) (rs_procs s')"
  proof (cases "rs_pending s x = [] \<or> graph_node (rn_graph r) x = None")
    case True
    with s show ?thesis by (auto simp: execute_node_def)
  next
    case False
    then obtain n where n: "graph_node (rn_graph r) x = Some n" by auto
    have nid: "n_id n = x" using n node_by_id_mem by (auto simp: graph_node_def)
    have msg: "\<exists>b. execute_message C r n m a = Inr b \<and> can_run (rn_graph r) (rs_procs b)"
      if a: "can_run (rn_graph r) (rs_procs a)" for m and a :: "'a run_state"
    proof -
      let ?a = "receive (n_id n) m a"
      have pa: "rs_procs ?a = rs_procs a" by (simp add: receive_def)
      show ?thesis
      proof (cases "plain_node n")
        case True
        with a show ?thesis by (auto simp: execute_message_def Let_def plain_node_def pa split: option.split)
      next
        case False
        then have "map_of (rs_procs ?a) (n_id n) \<noteq> None"
          using a [unfolded can_run_def, rule_format, OF n] nid by (auto simp: plain_node_def pa)
        from process_total [OF this] obtain b where
          b: "process_node C r n m ?a = Inr b" "keeps_procs ?a b" by blast
        with False a have "execute_message C r n m a = Inr b"
          by (auto simp: execute_message_def Let_def plain_node_def)
        moreover have "can_run (rn_graph r) (rs_procs b)"
          using a b(2) unfolding can_run_def keeps_procs_def pa by blast
        ultimately show ?thesis by blast
      qed
    qed
    have "rs_procs (touch_acc x s) = rs_procs s" by (simp add: touch_acc_def split: option.split)
    then have "can_run (rn_graph r) (rs_procs (touch_acc x s))" using s by simp
    from res_fold_total [of _ "\<lambda>s. can_run (rn_graph r) (rs_procs s)", OF msg this]
    show ?thesis using False n by (simp add: execute_node_def)
  qed
qed

lemma procs_route [simp]: "rs_procs (route r batch st) = rs_procs st"
proof -
  have off: "rs_procs (offer ns m s) = rs_procs s" for ns m and s :: "'a run_state"
    by (simp add: offer_def procs_fold)
  have decl: "rs_procs (declare_snapshot r sc s) = rs_procs s" for sc and s :: "'a run_state"
    unfolding declare_snapshot_def by (rule procs_fold) (simp add: declare_one_def Let_def)
  have "rs_procs (deliver r ns m s) = rs_procs s" for ns m and s :: "'a run_state"
    by (simp add: deliver_def Let_def off decl procs_fold split: option.split)
  then show ?thesis unfolding route_def by (intro procs_fold) (simp add: route_one_def)
qed

lemma run_with_total:
  assumes "can_run (rn_graph r) (rn_procs r)"
  shows "\<exists>b r' pool'. run_with C r kv pool batch = Inr (b, r', pool') \<and> rn_flow r' = rn_flow r \<and>
    rn_graph r' = rn_graph r \<and> can_run (rn_graph r') (rn_procs r')"
proof -
  have "can_run (rn_graph r) (rs_procs (route r batch (new_run_state r kv None pool)))"
    using assms by (simp add: new_run_state_def)
  from execute_total [OF this, of C] obtain st where
    "execute C r (route r batch (new_run_state r kv None pool)) = Inr st"
    "can_run (rn_graph r) (rs_procs st)" by blast
  then show ?thesis by (simp add: run_with_def)
qed

text \<open>
  Claim C5: a runner that \<open>NewRunner\<close> built never fails a run. Whatever its scripts do and
  whatever the batch holds, a run returns a batch to commit, and the runner it leaves is good
  for the next run: the one error \<open>Run\<close> can report, a node without a processor, never happens.
\<close>

theorem built_runner_always_runs:
  assumes "new_runner f opts = Inr r"
  shows "\<exists>b r' pool'. run C now r pool batch = Inr (b, r', pool') \<and> cb_consumer b = f_id f \<and>
    (\<exists>b' r'' pool''. run C now' r' pool' batch' = Inr (b', r'', pool''))"
proof -
  note f = new_runner_facts [OF assms]
  obtain b r' pool' where r: "run C now r pool batch = Inr (b, r', pool')" "can_run (rn_graph r') (rn_procs r')"
    using run_with_total [OF f(3)] unfolding run_def by metis
  moreover have "cb_consumer b = f_id f"
    using r(1) f(1) by (auto simp: run_def dest!: run_with_state) (simp add: batch_of_def)
  moreover have "\<exists>b' r'' pool''. run C now' r' pool' batch' = Inr (b', r'', pool'')"
    using run_with_total [OF r(2)] unfolding run_def by metis
  ultimately show ?thesis by blast
qed

end
