(* ===== verification/Run_Modes.thy ===== *)
theory Run_Modes
  imports Run_Props
begin

text \<open>
  The modes of a run: snapshots, which may only reconcile feeds; replays, which neither read
  nor write durable state; failures, which stay with their message; dry runs, which do what a
  live run does; and the offset a batch moves its consumer to.
\<close>

section \<open>Where messages come from\<close>

definition pending_all :: "(snapshot_context option \<Rightarrow> bool) \<Rightarrow> 's run_state \<Rightarrow> bool" where
  "pending_all P st \<longleftrightarrow> (\<forall>y. \<forall>m\<in>set (rs_pending st y). P (mg_snapshot m))"

definition outputs_all :: "(sink_output \<Rightarrow> bool) \<Rightarrow> 's run_state \<Rightarrow> bool" where
  "outputs_all Q st \<longleftrightarrow> (\<forall>out\<in>set (rs_outputs st). Q out)"

definition traced :: "(snapshot_context option \<Rightarrow> bool) \<Rightarrow> (sink_output \<Rightarrow> bool) \<Rightarrow> 's run_state \<Rightarrow> bool" where
  "traced P Q st \<longleftrightarrow> pending_all P st \<and> outputs_all Q st"

lemma traced_cong:
  "rs_pending st' = rs_pending st \<Longrightarrow> rs_outputs st' = rs_outputs st \<Longrightarrow> traced P Q st' = traced P Q st"
  by (simp add: traced_def pending_all_def outputs_all_def)

lemma traced_enqueue: "traced P Q st \<Longrightarrow> P (mg_snapshot m) \<Longrightarrow> traced P Q (enqueue n m st)"
  by (auto simp: traced_def pending_all_def outputs_all_def enqueue_def)

lemma snapshot_clone [simp]: "mg_snapshot (clone_message m) = mg_snapshot m"
  by (simp add: clone_message_def)

lemma traced_map_acc [simp]: "traced P Q (map_acc n f st) = traced P Q st"
  by (rule traced_cong) simp_all

lemma traced_drop [simp]: "traced P Q (drop_msg n m st) = traced P Q st"
  by (rule traced_cong) (simp_all add: drop_msg_def)

lemma traced_touch [simp]: "traced P Q (touch_acc n st) = traced P Q st"
  by (rule traced_cong) (simp_all add: touch_acc_def split: option.split)

lemma traced_forward:
  "traced P Q st \<Longrightarrow> P (mg_snapshot m) \<Longrightarrow> traced P Q (forward r n port m st)"
  by (auto simp: forward_def Let_def intro!: fold_preserves [of _ "traced P Q"] traced_enqueue)

lemma traced_forwards:
  assumes "traced P Q st" and "P (mg_snapshot m)"
  shows "traced P Q (fold (forward_port r n m) ports st)"
proof (rule fold_preserves [of _ "traced P Q", OF _ assms(1)])
  fix p :: "nat \<times> msg list" and s :: "'a run_state"
  assume s: "traced P Q s"
  obtain port outs where p: "p = (port, outs)" by fastforce
  show "traced P Q (forward_port r n m p s)"
    unfolding p forward_port_def prod.case
    by (rule fold_preserves [of _ "traced P Q", OF traced_forward s]) (simp_all add: assms(2))
qed

lemma traced_process:
  assumes "process_node C r n m st = Inr st'" and "traced P Q st" and "P (mg_snapshot m)"
  shows "traced P Q st'"
proof -
  obtain p where p: "map_of (rs_procs st) (n_id n) = Some p"
    using assms(1) by (auto simp: process_node_def split: option.splits)
  obtain res p' pool sg t where e: "proc_process C (n_id n) (rs_kv st) (mg_msg m) p
      (rs_pool st, buffer_node (n_id n), rs_trace st) = (res, p', pool, sg, t)" by (metis prod_cases5)
  have upd: "traced P Q (st\<lparr>rs_procs := a, rs_pool := b, rs_trace := c\<rparr>)" for a b c
    using assms(2) by (subst traced_cong [of _ st]) simp_all
  have kv: "traced P Q (st\<lparr>rs_procs := a, rs_pool := b, rs_trace := c, rs_kv := d\<rparr>)" for a b c d
    using assms(2) by (subst traced_cong [of _ st]) simp_all
  have procs: "traced P Q s \<Longrightarrow> traced P Q (s\<lparr>rs_procs := a\<rparr>)" for s :: "'a run_state" and a
    by (subst traced_cong [of _ s]) simp_all
  show ?thesis
    using assms(1) p e upd kv traced_forwards [OF kv assms(3)]
    by (auto simp: process_node_def Let_def fail_message_def procs split: sum.splits if_splits)
qed

lemma traced_execute:
  assumes "execute C r st = Inr st'" and "traced P Q st"
    and terminal: "\<And>f nid cfg m out. P (mg_snapshot m) \<Longrightarrow>
      out \<in> set (tag_snapshot m (sinks f (f_id (rn_flow r)) nid cfg (mg_msg m))) \<Longrightarrow> Q out"
  shows "traced P Q st'"
  using assms(1) unfolding execute_def
proof (rule res_fold_invariant [where P = "traced P Q"])
  show "traced P Q st" by (rule assms(2))
next
  fix x s s' assume s: "traced P Q s" and e: "execute_node C r x s = Inr s'"
  have msg: "traced P Q b" if "m \<in> set (rs_pending s x)" "traced P Q a" "execute_message C r n m a = Inr b"
    for m a b n
  proof -
    have P: "P (mg_snapshot m)" using s that(1) by (auto simp: traced_def pending_all_def)
    have rec: "traced P Q (receive (n_id n) m a)" using that(2) by (simp add: receive_def)
    have com: "traced P Q (commit_terminal r f n m (receive (n_id n) m a))" for f
      using rec terminal [OF P]
      by (auto simp: commit_terminal_def Let_def traced_def pending_all_def outputs_all_def drop_msg_def)
    show ?thesis
      using that(3) rec com traced_forward [OF rec P] traced_process [OF _ rec P]
      by (auto simp: execute_message_def Let_def split: if_splits option.splits)
  qed
  show "traced P Q s'"
    using e s by (auto simp: execute_node_def split: if_splits option.splits
        intro: res_fold_invariant [of _ _ _ _ "traced P Q", OF _ _ msg])
qed

lemma traced_offer: "traced P Q st \<Longrightarrow> P (mg_snapshot m) \<Longrightarrow> traced P Q (offer ns m st)"
  by (auto simp: offer_def intro!: fold_preserves [of _ "traced P Q"] traced_enqueue)

lemma traced_declare [simp]: "traced P Q (declare_snapshot r sc st) = traced P Q st"
proof -
  have one: "rs_pending (declare_one r sc n s) = rs_pending s \<and> rs_outputs (declare_one r sc n s) = rs_outputs s"
    for n and s :: "'a run_state" by (simp add: declare_one_def Let_def)
  have "rs_pending (fold (declare_one r sc) ns s) = rs_pending s \<and>
      rs_outputs (fold (declare_one r sc) ns s) = rs_outputs s" for ns and s :: "'a run_state"
    by (induction ns arbitrary: s) (simp_all add: one)
  then show ?thesis by (intro traced_cong) (simp_all add: declare_snapshot_def)
qed

lemma traced_deliver:
  assumes "traced P Q st" and "case m_snapshot m of None \<Rightarrow> P None
      | Some _ \<Rightarrow> P (Some \<lparr>sc_topic = m_topic m, sc_id = m_id m\<rparr>)"
  shows "traced P Q (deliver r ns m st)"
  using assms
  by (auto simp: deliver_def Let_def expand_item_def split: option.splits
      intro!: traced_offer fold_preserves [of _ "traced P Q"])

lemma traced_route:
  assumes "traced P Q st" and "\<forall>m\<in>set batch. case m_snapshot m of None \<Rightarrow> P None
      | Some _ \<Rightarrow> P (Some \<lparr>sc_topic = m_topic m, sc_id = m_id m\<rparr>)"
  shows "traced P Q (route r batch st)"
  unfolding route_def
proof (rule fold_preserves [of _ "traced P Q", OF _ assms(1)])
  fix m and s :: "'a run_state" assume m: "m \<in> set batch" and s: "traced P Q s"
  have "traced P Q (s\<lparr>rs_discards := d\<rparr>)" for d using s by (subst traced_cong [of _ s]) simp_all
  then show "traced P Q (route_one r m s)"
    using traced_deliver [OF s] assms(2) m by (auto simp: route_one_def)
qed

lemma traced_new [simp]: "traced P Q (new_run_state r kv t pool)"
  by (simp add: traced_def pending_all_def outputs_all_def new_run_state_def)

text \<open>
  Snapshots only reconcile. A batch made of source snapshots alone, as a replay's is,
  enqueues no action and raises no notification whatever the flow and its scripts do: every
  output is a feed membership tagged with the id of a snapshot of the batch.
\<close>

theorem snapshots_only_reconcile:
  assumes "run_with C r kv pool batch = Inr (b, r', pool')"
    and "\<forall>m\<in>set batch. m_snapshot m \<noteq> None"
  shows "\<forall>out\<in>set (cb_outputs b). o_kind out = SinkFeed \<and> o_snapshot_id out \<in> m_id ` set batch"
proof -
  let ?P = "\<lambda>sc. \<exists>m\<in>set batch. sc = Some \<lparr>sc_topic = m_topic m, sc_id = m_id m\<rparr>"
  let ?Q = "\<lambda>out. o_kind out = SinkFeed \<and> o_snapshot_id out \<in> m_id ` set batch"
  from run_with_state [OF assms(1)] obtain st where
    st: "execute C r (route r batch (new_run_state r kv None pool)) = Inr st" "b = batch_of r batch st" by blast
  have "traced ?P ?Q (route r batch (new_run_state r kv None pool))"
    using assms(2) by (intro traced_route) (auto split: option.split)
  then have "traced ?P ?Q st"
    by (rule traced_execute [OF st(1)]) (auto simp: tag_snapshot_def)
  then show ?thesis by (simp add: st(2) batch_of_def traced_def outputs_all_def)
qed

section \<open>Replay\<close>

lemma independent_of_kv_port [simp]:
  "forward (r\<lparr>rn_kv := k\<rparr>) = forward r"
  "commit_terminal (r\<lparr>rn_kv := k\<rparr>) = commit_terminal r"
  "accepts_entry (r\<lparr>rn_kv := k\<rparr>) = accepts_entry r"
  "declare_one (r\<lparr>rn_kv := k\<rparr>) = declare_one r"
  by (simp_all add: fun_eq_iff forward_def commit_terminal_def accepts_entry_def declare_one_def
      split: option.split)

lemma forward_port_independent [simp]: "forward_port (r\<lparr>rn_kv := k\<rparr>) = forward_port r"
  by (intro ext) (simp add: forward_port_def)

lemma execute_independent [simp]:
  "process_node C (r\<lparr>rn_kv := k\<rparr>) = process_node C r"
  "execute_message C (r\<lparr>rn_kv := k\<rparr>) = execute_message C r"
  "execute C (r\<lparr>rn_kv := k\<rparr>) = execute C r"
  "deliver (r\<lparr>rn_kv := k\<rparr>) = deliver r"
  "route (r\<lparr>rn_kv := k\<rparr>) = route r"
proof -
  show p: "process_node C (r\<lparr>rn_kv := k\<rparr>) = process_node C r"
    unfolding process_node_def fun_eq_iff forward_port_independent by simp
  show m: "execute_message C (r\<lparr>rn_kv := k\<rparr>) = execute_message C r"
    unfolding execute_message_def fun_eq_iff independent_of_kv_port p by simp
  have n: "execute_node C (r\<lparr>rn_kv := k\<rparr>) = execute_node C r"
    unfolding execute_node_def fun_eq_iff m by simp
  show "execute C (r\<lparr>rn_kv := k\<rparr>) = execute C r"
    by (rule ext) (simp add: execute_def n)
  show d: "deliver (r\<lparr>rn_kv := k\<rparr>) = deliver r"
  proof -
    have s: "declare_snapshot (r\<lparr>rn_kv := k\<rparr>) = declare_snapshot r"
      by (intro ext) (simp add: declare_snapshot_def)
    show ?thesis unfolding deliver_def fun_eq_iff s by simp
  qed
  have "route_one (r\<lparr>rn_kv := k\<rparr>) = route_one r"
    unfolding route_one_def matching_entries_def fun_eq_iff independent_of_kv_port d by simp
  then show "route (r\<lparr>rn_kv := k\<rparr>) = route r" by (intro ext) (simp add: route_def)
qed

definition inert_state :: "'s run_state \<Rightarrow> bool" where
  "inert_state st \<longleftrightarrow> kb_inert (rs_kv st)"

lemma inert_cong: "rs_kv st' = rs_kv st \<Longrightarrow> inert_state st' = inert_state st"
  by (simp add: inert_state_def)

lemma kv_enqueue [simp]: "rs_kv (enqueue n m st) = rs_kv st"
  by (simp add: enqueue_def)

lemma kv_fold: "(\<And>x s. rs_kv (f x s) = rs_kv s) \<Longrightarrow> rs_kv (fold f xs st) = rs_kv st"
  by (induction xs arbitrary: st) auto

lemma kv_drop [simp]: "rs_kv (drop_msg n m st) = rs_kv st"
  by (simp add: drop_msg_def)

lemma kv_forward [simp]: "rs_kv (forward r n p m st) = rs_kv st"
  by (simp add: forward_def Let_def kv_fold)

lemma kv_forward_port [simp]: "rs_kv (forward_port r n m p st) = rs_kv st"
  by (cases p) (simp add: forward_port_def kv_fold)

lemma kv_commit_terminal [simp]: "rs_kv (commit_terminal r f n m st) = rs_kv st"
  by (simp add: commit_terminal_def Let_def)

lemma kv_fail [simp]: "rs_kv (fail_message n m e st) = rs_kv st"
  by (simp add: fail_message_def Let_def)

lemma kv_process:
  assumes "process_node C r n m st = Inr st'" and "kb_inert (rs_kv st)"
  shows "rs_kv st' = rs_kv st"
  using assms
  by (auto simp: process_node_def Let_def kv_fold inert_kv(5)
      split: option.splits prod.splits sum.splits if_splits)

lemma kv_execute_message:
  assumes "execute_message C r n m st = Inr st'" and "kb_inert (rs_kv st)"
  shows "rs_kv st' = rs_kv st"
  using assms kv_process [of C r n m "receive (n_id n) m st" st']
  by (auto simp: execute_message_def receive_def Let_def split: if_splits option.splits)

lemma kv_execute:
  assumes "execute C r st = Inr st'" and "kb_inert (rs_kv st)"
  shows "rs_kv st' = rs_kv st"
proof -
  have node: "rs_kv b = rs_kv a" if "execute_node C r x a = Inr b" "kb_inert (rs_kv a)" for x a b
  proof -
    have touch: "rs_kv (touch_acc x a) = rs_kv a" by (simp add: touch_acc_def split: option.split)
    show ?thesis
    proof (cases "rs_pending a x = [] \<or> graph_node (rn_graph r) x = None")
      case True
      with that show ?thesis by (auto simp: execute_node_def split: if_splits)
    next
      case False
      then obtain n where n: "graph_node (rn_graph r) x = Some n" by auto
      have "res_fold (execute_message C r n) (rs_pending a x) (touch_acc x a) = Inr b"
        using that(1) False n by (simp add: execute_node_def)
      then have "rs_kv b = rs_kv a"
        by (rule res_fold_invariant [where P = "\<lambda>s. rs_kv s = rs_kv a"])
          (use that(2) touch in \<open>auto dest: kv_execute_message\<close>)
      then show ?thesis .
    qed
  qed
  from assms(1) show ?thesis unfolding execute_def
    by (rule res_fold_invariant [where P = "\<lambda>s. rs_kv s = rs_kv st"]) (use assms(2) node in auto)
qed

lemma kv_deliver [simp]: "rs_kv (deliver r ns m st) = rs_kv st"
proof -
  have off: "rs_kv (offer ns m s) = rs_kv s" for m and s :: "'a run_state"
    by (simp add: offer_def kv_fold)
  have decl: "rs_kv (declare_snapshot r sc s) = rs_kv s" for sc and s :: "'a run_state"
    unfolding declare_snapshot_def by (rule kv_fold) (simp add: declare_one_def Let_def)
  show ?thesis by (simp add: deliver_def Let_def off decl kv_fold split: option.split)
qed

lemma kv_route [simp]: "rs_kv (route r batch st) = rs_kv st"
  unfolding route_def by (rule kv_fold) (simp add: route_one_def)

text \<open>
  Claim C38: A replay is a pure function of its snapshots and the flow. Whatever durable store
  the runner is wired to, the replay computes the same batch, and the batch writes nothing to
  it; afterwards every function node starts from a fresh instance.
\<close>

theorem replay_is_inert:
  "(case run_replay C now (r\<lparr>rn_kv := k\<rparr>) pool batch of
      Inl e \<Rightarrow> run_replay C now r pool batch = Inl e
    | Inr (b, r', pool') \<Rightarrow>
        run_replay C now r pool batch = Inr (b, r'\<lparr>rn_kv := rn_kv r\<rparr>, pool') \<and> cb_mutations b = [] \<and>
        (\<forall>n p. (n, FunctionProc p) \<in> set (rn_procs r') \<longrightarrow> fp_instance p = None))"
proof -
  let ?kv = "new_inert_kv_buffer (f_id (rn_flow r)) now"
  let ?st = "route r batch (new_run_state r ?kv None pool)"
  have new: "new_run_state (r\<lparr>rn_kv := k\<rparr>) kv t p = new_run_state r kv t p" for kv t p
    by (simp add: new_run_state_def)
  show ?thesis
  proof (cases "execute C r ?st")
    case (Inl e)
    then show ?thesis by (simp add: run_replay_def run_with_def new)
  next
    case (Inr st)
    have inert: "kb_inert ?kv" by (simp add: new_inert_kv_buffer_def)
    then have "kb_inert (rs_kv ?st)" by (simp add: new_run_state_def)
    then have "mutations (rs_kv st) = []"
      using kv_execute [OF Inr] by (simp add: inert_kv(6))
    moreover have "fp_instance p = None" if "FunctionProc p = proc_reset q" for p :: "'a fn_proc" and q
      using that by (cases q) (auto simp: function_reset_def)
    ultimately show ?thesis
      using Inr by (auto simp: run_replay_def run_with_def new batch_of_def reset_processors_def)
  qed
qed

section \<open>Failures\<close>

text \<open>
  A failure stays with its message. When a node's processor fails on a message, the
  run goes on with the message discarded once against the node and the node marked not ok;
  nothing the message staged reaches the run's key-value writes, nothing is put on a wire and
  no output is added; and a node that timed out starts its next message with a fresh instance.
\<close>

theorem failed_message_contained:
  assumes "map_of (rs_procs st) (n_id n) = Some p"
    and "proc_process C (n_id n) (rs_kv st) (mg_msg m) p
           (rs_pool st, buffer_node (n_id n), rs_trace st) = (Inl e, p', pool, sg, t)"
    and "touched st (n_id n)"
  shows "\<exists>st'. process_node C r n m st = Inr st' \<and>
    rs_kv st' = rs_kv st \<and> rs_pending st' = rs_pending st \<and> rs_outputs st' = rs_outputs st \<and>
    rs_discards st' = rs_discards st @ [\<lparr>d_msg = m_id (mg_msg m), d_node = n_id n\<rparr>] \<and>
    \<not> ra_ok (acc_of st' (n_id n)) \<and>
    (se_kind e = ScriptTimeout \<longrightarrow> map_of (rs_procs st') (n_id n) = Some (proc_reset p'))"
proof -
  let ?st1 = "st\<lparr>rs_procs := AList.update (n_id n) p' (rs_procs st), rs_pool := pool, rs_trace := t\<rparr>"
  have run: "process_node C r n m st = Inr (fail_message (n_id n) m e ?st1)"
    using assms(1,2) by (simp add: process_node_def)
  have t1: "touched ?st1 (n_id n)" using assms(3) by (simp add: touched_def)
  let ?f = "\<lambda>a. a\<lparr>ra_ok := False, ra_err := Some e\<rparr>" and ?g = "\<lambda>a. a\<lparr>ra_drop := Suc (ra_drop a)\<rparr>"
  have runs: "rs_runs (fail_message (n_id n) m e ?st1) = rs_runs (map_acc (n_id n) ?g (map_acc (n_id n) ?f ?st1))"
    by (simp add: fail_message_def drop_msg_def Let_def map_acc_def)
  have t2: "touched (map_acc (n_id n) ?f ?st1) (n_id n)" using t1 by (simp add: touched_def)
  have "\<not> ra_ok (acc_of (fail_message (n_id n) m e ?st1) (n_id n))"
    by (simp add: acc_of_cong [OF runs] acc_of_map_acc [OF t2] acc_of_map_acc [OF t1])
  moreover have "map_of (AList.map_entry k h xs) k = map_option h (map_of xs k)" for k h and xs :: "(string \<times> 'a proc) list"
    by (induction xs) auto
  ultimately show ?thesis
    by (intro exI [of _ "fail_message (n_id n) m e ?st1"] conjI run)
      (simp_all add: fail_message_def drop_msg_def Let_def update_conv')
qed

section \<open>The offset of a batch\<close>

lemma up_to_fold:
  "fold (\<lambda>m hi. case parse_int64 (m_id m) of None \<Rightarrow> hi | Some n \<Rightarrow> if hi < n then n else hi) batch lo =
   Max (insert lo {n. \<exists>m\<in>set batch. parse_int64 (m_id m) = Some n})"
proof (induction batch arbitrary: lo)
  case (Cons m batch)
  let ?S = "{n. \<exists>m\<in>set batch. parse_int64 (m_id m) = Some n}"
  have "?S = (\<lambda>m. the (parse_int64 (m_id m))) ` {m \<in> set batch. parse_int64 (m_id m) \<noteq> None}" by force
  then have fin: "finite ?S" by simp
  show ?case
  proof (cases "parse_int64 (m_id m)")
    case None
    then have "{n. \<exists>x\<in>set (m # batch). parse_int64 (m_id x) = Some n} = ?S" by auto
    with None show ?thesis using Cons.IH by simp
  next
    case (Some k)
    then have "{n. \<exists>x\<in>set (m # batch). parse_int64 (m_id x) = Some n} = insert k ?S" by auto
    moreover have "Max (insert lo (insert k ?S)) = Max (insert (max lo k) ?S)"
      using fin by (cases "?S = {}") (auto simp: max.assoc max.left_commute)
    moreover have "(if lo < k then k else lo) = max lo k" by simp
    ultimately show ?thesis using Some Cons.IH [of "max lo k"] by (simp only: fold.simps comp_apply option.case)
  qed
qed simp

text \<open>
  The offset a run commits is the highest offset in its batch, whatever order the
  batch was assembled in; message ids that are not numbers do not count, and a batch with none
  leaves the offset at zero. In particular it is never below any message of the batch, so a
  committed page is never read again.
\<close>

theorem run_commits_highest_offset:
  assumes "run C now r pool batch = Inr (b, r', pool')"
  shows "cb_up_to b = Max (insert 0 {n. \<exists>m\<in>set batch. parse_int64 (m_id m) = Some n})"
proof -
  from assms obtain st where "b = batch_of r batch st"
    by (auto simp: run_def dest: run_with_state)
  then show ?thesis unfolding batch_of_def up_to_offset_def by (simp add: up_to_fold)
qed

section \<open>Dry runs\<close>

text \<open>What tracing adds to a state, taken away.\<close>

definition strip_acc :: "run_acc \<Rightarrow> run_acc" where
  "strip_acc a = a\<lparr>ra_received := [], ra_emitted := []\<rparr>"

definition strip :: "'s run_state \<Rightarrow> 's run_state" where
  "strip st = st\<lparr>rs_runs := map (\<lambda>(n, a). (n, strip_acc a)) (rs_runs st), rs_trace := None\<rparr>"

lemma strip_simps [simp]:
  "rs_pending (strip st) = rs_pending st" "rs_outputs (strip st) = rs_outputs st"
  "rs_discards (strip st) = rs_discards st" "rs_snapshots (strip st) = rs_snapshots st"
  "rs_seen (strip st) = rs_seen st" "rs_kv (strip st) = rs_kv st" "rs_trace (strip st) = None"
  "rs_procs (strip st) = rs_procs st" "rs_pool (strip st) = rs_pool st"
  by (simp_all add: strip_def)

lemma strip_map_acc:
  assumes "\<And>a. strip_acc (f a) = g (strip_acc a)"
  shows "strip (map_acc n f st) = map_acc n g (strip st)"
proof -
  have "map (\<lambda>(n, a). (n, strip_acc a)) (AList.map_entry n f xs) =
      AList.map_entry n g (map (\<lambda>(n, a). (n, strip_acc a)) xs)" for xs
    by (induction xs) (auto simp: assms)
  then show ?thesis by (simp add: strip_def map_acc_def)
qed

lemma strip_map_acc_id:
  assumes "\<And>a. strip_acc (f a) = strip_acc a"
  shows "strip (map_acc n f st) = strip st"
proof -
  have "AList.map_entry n (\<lambda>a. a) xs = xs" for xs :: "(string \<times> run_acc) list"
    by (induction xs) auto
  then have "map_acc n (\<lambda>a. a) (strip st) = strip st" by (simp add: map_acc_def)
  with strip_map_acc [of f "\<lambda>a. a" n st, OF assms] show ?thesis by simp
qed

lemma strip_count [simp]:
  "strip (map_acc n (\<lambda>a. a\<lparr>ra_out := Suc (ra_out a)\<rparr>) st) = map_acc n (\<lambda>a. a\<lparr>ra_out := Suc (ra_out a)\<rparr>) (strip st)"
  "strip (map_acc n (\<lambda>a. a\<lparr>ra_drop := Suc (ra_drop a)\<rparr>) st) = map_acc n (\<lambda>a. a\<lparr>ra_drop := Suc (ra_drop a)\<rparr>) (strip st)"
  "strip (map_acc n (\<lambda>a. a\<lparr>ra_ok := False, ra_err := e\<rparr>) st) = map_acc n (\<lambda>a. a\<lparr>ra_ok := False, ra_err := e\<rparr>) (strip st)"
  "strip (map_acc n (record_emitted p m) st) = strip st"
  by (rule strip_map_acc strip_map_acc_id, simp add: strip_acc_def record_emitted_def)+

lemma strip_fields [simp]:
  "strip (st\<lparr>rs_outputs := a\<rparr>) = (strip st)\<lparr>rs_outputs := a\<rparr>"
  "strip (st\<lparr>rs_discards := b\<rparr>) = (strip st)\<lparr>rs_discards := b\<rparr>"
  "strip (st\<lparr>rs_pending := c\<rparr>) = (strip st)\<lparr>rs_pending := c\<rparr>"
  "strip (st\<lparr>rs_kv := d\<rparr>) = (strip st)\<lparr>rs_kv := d\<rparr>"
  "strip (st\<lparr>rs_procs := e\<rparr>) = (strip st)\<lparr>rs_procs := e\<rparr>"
  by (simp_all add: strip_def)

lemma strip_enqueue [simp]: "strip (enqueue n m st) = enqueue n m (strip st)"
  by (simp add: enqueue_def)

lemma strip_drop [simp]: "strip (drop_msg n m st) = drop_msg n m (strip st)"
  by (simp add: drop_msg_def)

lemma strip_fold: "(\<And>x s. strip (f x s) = f x (strip s)) \<Longrightarrow> strip (fold f xs st) = fold f xs (strip st)"
  by (induction xs arbitrary: st) auto

lemma strip_forward [simp]: "strip (forward r n p m st) = forward r n p m (strip st)"
  by (simp add: forward_def Let_def strip_fold)

lemma strip_forward_port [simp]: "strip (forward_port r n m p st) = forward_port r n m p (strip st)"
  by (cases p) (simp add: forward_port_def strip_fold)

lemma strip_commit_terminal [simp]:
  "strip (commit_terminal r f n m st) = commit_terminal r f n m (strip st)"
  by (simp add: commit_terminal_def Let_def)

lemma strip_receive [simp]: "strip (receive n m st) = receive n m (strip st)"
  unfolding receive_def by (rule strip_map_acc) (simp add: strip_acc_def)

lemma strip_fail [simp]: "strip (fail_message n m e st) = fail_message n m e (strip st)"
  by (simp add: fail_message_def Let_def)

lemma strip_touch [simp]: "strip (touch_acc n st) = touch_acc n (strip st)"
proof -
  have "map_of (map (\<lambda>(n, a). (n, strip_acc a)) xs) n = map_option strip_acc (map_of xs n)" for xs
    by (induction xs) auto
  then show ?thesis
    by (cases "map_of (rs_runs st) n") (simp_all add: touch_acc_def strip_def strip_acc_def new_acc_def)
qed

lemma on_message_trace:
  assumes "on_message S C src n cfg b m i (pool, s, t) = (r, i', pool', s', t')"
  shows "on_message S C src n cfg b m i (pool, s, None) = (r, i', pool', s', None)"
proof -
  obtain fin s1 t1 where e: "js_exec (sc_eval S src (is_state i) m cfg) (jc_scan C) n b False s t = (fin, s1, t1)"
    by (metis prod_cases3)
  have e0: "js_exec (sc_eval S src (is_state i) m cfg) (jc_scan C) n b False s None = (fin, s1, None)"
    using js_exec_trace_irrelevant [of "sc_eval S src (is_state i) m cfg" "jc_scan C" n b False s t]
      js_exec_untraced [of "sc_eval S src (is_state i) m cfg" "jc_scan C" n b False s] e
    by (metis fst_conv snd_conv prod.collapse)
  show ?thesis
    using assms by (auto simp: on_message_def e e0 split: if_splits option.splits prod.splits)
qed

lemma proc_process_trace:
  assumes "proc_process C n b m p (pool, s, t) = (r, p', pool', s', t')"
  shows "proc_process C n b m p (pool, s, None) = (r, p', pool', s', None)"
proof (cases p)
  case (FilterProc q)
  with assms show ?thesis by auto
next
  case (FunctionProc q)
  show ?thesis
  proof (cases "function_instance q")
    case (Inl e)
    with assms FunctionProc show ?thesis by (auto simp: function_process_def)
  next
    case (Inr i)
    obtain r1 i1 pool1 s1 t1 where
      o: "on_message (fp_rt q) C (fp_src q) n (fp_config q) b m i (pool, s, t) = (r1, i1, pool1, s1, t1)"
      by (metis prod_cases5)
    show ?thesis using assms FunctionProc Inr o on_message_trace [OF o] by (auto simp: function_process_def)
  qed
qed

definition strip_result :: "('e, 's run_state) result \<Rightarrow> ('e, 's run_state) result" where
  "strip_result x = map_sum id strip x"

lemma strip_result_simps [simp]:
  "strip_result (Inl e) = Inl e" "strip_result (Inr s) = Inr (strip s)"
  by (simp_all add: strip_result_def)

lemma strip_process: "strip_result (process_node C r n m st) = process_node C r n m (strip st)"
proof (cases "map_of (rs_procs st) (n_id n)")
  case None
  then show ?thesis by (simp add: process_node_def)
next
  case (Some p)
  obtain res p' pool sg t where e: "proc_process C (n_id n) (rs_kv st) (mg_msg m) p
      (rs_pool st, buffer_node (n_id n), rs_trace st) = (res, p', pool, sg, t)" by (metis prod_cases5)
  have upd: "strip (st\<lparr>rs_procs := a, rs_pool := b, rs_trace := c\<rparr>) =
      (strip st)\<lparr>rs_procs := a, rs_pool := b, rs_trace := None\<rparr>" for a b c
    by (simp add: strip_def)
  have upd_kv: "strip (st\<lparr>rs_procs := a, rs_pool := b, rs_trace := c, rs_kv := d\<rparr>) =
      (strip st)\<lparr>rs_procs := a, rs_pool := b, rs_trace := None, rs_kv := d\<rparr>" for a b c d
    by (simp add: strip_def)
  show ?thesis
  proof (cases res)
    case (Inl err)
    with Some e proc_process_trace [OF e] show ?thesis by (simp add: process_node_def upd)
  next
    case (Inr ports)
    with Some e proc_process_trace [OF e] show ?thesis
      by (simp add: process_node_def upd upd_kv strip_fold Let_def)
  qed
qed

lemma strip_execute_message:
  "strip_result (execute_message C r n m st) = execute_message C r n m (strip st)"
  using strip_process [of C r n m "receive (n_id n) m st"]
  by (auto simp: execute_message_def Let_def split: option.split)

lemma strip_res_fold:
  assumes "\<And>x s. strip_result (f x s) = f x (strip s)"
  shows "strip_result (res_fold f xs st) = res_fold f xs (strip st)"
proof (induction xs arbitrary: st)
  case (Cons x xs)
  show ?case
  proof (cases "f x st")
    case (Inl e)
    then show ?thesis using assms [of x st] by (metis res_bind_simps(1) res_fold.simps(2) strip_result_simps(1))
  next
    case (Inr s)
    have "f x (strip st) = Inr (strip s)" using assms [of x st] Inr by simp
    then show ?thesis using Inr Cons.IH [of s] by simp
  qed
qed simp

lemma strip_execute: "strip_result (execute C r st) = execute C r (strip st)"
proof -
  have msgs: "strip_result (res_fold (execute_message C r n) ms s) =
      res_fold (execute_message C r n) ms (strip s)" for n ms s
    by (rule strip_res_fold) (rule strip_execute_message)
  have "strip_result (execute_node C r x s) = execute_node C r x (strip s)" for x s
    by (auto simp: execute_node_def msgs split: option.split)
  then show ?thesis unfolding execute_def by (rule strip_res_fold)
qed

lemma strip_deliver [simp]: "strip (deliver r ns m st) = deliver r ns m (strip st)"
proof -
  have off: "strip (offer ns m s) = offer ns m (strip s)" for m s
    unfolding offer_def by (rule strip_fold) simp
  have decl: "strip (declare_snapshot r sc s) = declare_snapshot r sc (strip s)" for sc s
    unfolding declare_snapshot_def by (rule strip_fold) (simp add: declare_one_def Let_def strip_def)
  show ?thesis by (simp add: deliver_def Let_def off decl strip_fold split: option.split)
qed

text \<open>
  Claim C39: a dry run tells the truth. Injecting a batch at a node that is the only entry to
  accept it computes exactly the outputs, reconciliation scopes and key-value writes a live run
  of the same batch would have committed, and its per-node counters are those the live run
  would have recorded; tracing changes nothing but the trace.
\<close>

theorem dry_run_faithful:
  assumes "\<forall>m\<in>set batch. matching_entries r m = [entry]"
    and "graph_node (rn_graph r) entry \<noteq> None"
    and "run C now r pool batch = Inr (b, r', pool')"
  shows "\<exists>d. dry_run C now r pool entry batch = Inr d \<and> dr_outputs d = cb_outputs b \<and>
    dr_snapshots d = cb_snapshots b \<and> dr_mutations d = cb_mutations b \<and>
    map (\<lambda>n. (nt_node n, nt_in n, nt_out n, nt_dropped n, nt_ok n)) (dr_nodes d) =
    map (\<lambda>n. (nr_node n, nr_in n, nr_out n, nr_drop n, nr_ok n)) (cb_node_runs b)"
proof -
  let ?kv = "new_kv_buffer (rn_kv r) (f_id (rn_flow r)) now"
  let ?t0 = "Some \<lparr>tr_lines = [], tr_dropped = False\<rparr>"
  from assms(3) obtain st where
    st: "execute C r (route r batch (new_run_state r ?kv None pool)) = Inr st" "b = batch_of r batch st"
    by (auto simp: run_def dest!: run_with_state)
  have route: "route r batch s = fold (deliver r [entry]) batch s" for s
    using assms(1) unfolding route_def by (induction batch arbitrary: s) (auto simp: route_one_def)
  have "strip (new_run_state r ?kv ?t0 pool) = new_run_state r ?kv None pool"
    by (simp add: strip_def new_run_state_def)
  then have start: "strip (fold (deliver r [entry]) batch (new_run_state r ?kv ?t0 pool)) =
      route r batch (new_run_state r ?kv None pool)"
    by (simp add: route strip_fold)
  have "strip_result (execute C r (fold (deliver r [entry]) batch (new_run_state r ?kv ?t0 pool))) = Inr st"
    unfolding strip_execute start by (rule st(1))
  then obtain st' where st': "st = strip st'"
    "execute C r (fold (deliver r [entry]) batch (new_run_state r ?kv ?t0 pool)) = Inr st'"
    by (cases "execute C r (fold (deliver r [entry]) batch (new_run_state r ?kv ?t0 pool))") auto
  have "rs_runs st = map (\<lambda>(n, a). (n, strip_acc a)) (rs_runs st')" by (simp add: st'(1) strip_def)
  then show ?thesis
    using assms(2) st'
    by (auto simp: dry_run_def Let_def st(2) batch_of_def node_trace_of_def node_run_of_def strip_acc_def)
qed

end
