(* ===== verification/Samples.thy ===== *)
theory Samples
  imports Run_Modes
begin

text \<open>
  Concrete flows, scripts and batches at which the properties of the flow runtime are applied:
  a flow with a source, a filter, a script node and two feeds, and the same flow with a loop.
\<close>

section \<open>A flow\<close>

definition no_refs :: refs where
  "no_refs = \<lparr>resolve_action = Some (\<lambda>i. i = ''notify-me''), action_headless = None,
     valid_glob = (\<lambda>_. True), connector_validate = (\<lambda>_ _. None)\<rparr>"

definition filter_cfg :: github_filter_config where
  "filter_cfg = \<lparr>gf_repos = [''acme/*''], gf_exclude_repos = [], gf_authors = [], gf_exclude_authors = [],
     gf_labels = [], gf_exclude_labels = [], gf_types = [], gf_reasons = [], gf_ci = [], gf_review = []\<rparr>"

definition script_cfg :: function_config where
  "script_cfg = \<lparr>fn_on_message = ''return msg'', fn_outputs_n = 1, fn_timeout = 0\<rparr>"

definition plain_feed :: node_config where
  "plain_feed = FeedConfig \<lparr>fd_icon = [], fd_description = []\<rparr>"

definition mk_node :: "string \<Rightarrow> string \<Rightarrow> node_config \<Rightarrow> node" where
  "mk_node i t c = \<lparr>n_id = i, n_type = t, n_name = i, n_disabled = False, n_config = Some c\<rparr>"

definition mk_wire :: "string \<Rightarrow> int \<Rightarrow> string \<Rightarrow> wire" where
  "mk_wire a p b = \<lparr>w_from = a, w_out = p, w_to = b\<rparr>"

definition sample_flow :: flow where
  "sample_flow = \<lparr>f_id = ''inbox'', f_name = ''Inbox'', f_enabled = True, f_resurface = PolicyUnset,
     f_image = [],
     f_nodes = [mk_node ''src'' ''sources.github'' (SourceConfig ''sources.github'' (Some [])),
                mk_node ''pick'' ''github-filter'' (GithubFilterConfig filter_cfg),
                mk_node ''work'' ''feed'' plain_feed,
                mk_node ''rest'' ''function'' (FunctionConfig script_cfg),
                mk_node ''other'' ''feed'' plain_feed],
     f_wires = [mk_wire ''src'' 0 ''pick'', mk_wire ''pick'' 0 ''work'', mk_wire ''pick'' 1 ''rest'',
                mk_wire ''rest'' 0 ''other'']\<rparr>"

definition looped_flow :: flow where
  "looped_flow = sample_flow\<lparr>f_wires := f_wires sample_flow @ [mk_wire ''rest'' 0 ''pick'']\<rparr>"

lemma sample_accepted: "validate_flow no_refs sample_flow = Inr []"
  by code_simp

text \<open>Witness of \<open>validate_flow_sound\<close>.\<close>

theorem validate_flow_sound_witness:
  "validate_flow no_refs sample_flow = Inr [] \<and> flow_wires_acyclic sample_flow"
  using validate_flow_sound [OF sample_accepted] sample_accepted by simp

text \<open>Witness of \<open>cycle_search_correct\<close>: the loop is found, and is a loop.\<close>

theorem cycle_search_witness:
  "is_cycle (adjacency (f_wires looped_flow)) [''pick'', ''rest'', ''pick'']"
proof -
  have ok: "\<forall>w\<in>set (f_wires looped_flow). wire_ok (f_nodes looped_flow) w"
    by (simp add: looped_flow_def sample_flow_def wire_ok_def node_by_id_def mk_node_def mk_wire_def
        node_outputs_def node_inputs_def function_outputs_def script_cfg_def plain_feed_def)
  have "find_cycle (map n_id (f_nodes looped_flow)) (adjacency (f_wires looped_flow)) =
      DfsCycle [''pick'', ''rest'', ''pick'']"
    by code_simp
  with cycle_search_correct [OF ok] show ?thesis by simp
qed

section \<open>Its graph\<close>

lemma sample_distinct: "distinct (map n_id (f_nodes sample_flow))"
  by code_simp

lemma sample_distinct_looped: "distinct (map n_id (f_nodes looped_flow))"
  by code_simp

definition sample_graph :: graph where
  "sample_graph = \<lparr>g_order = [''src'', ''pick'', ''work'', ''rest'', ''other''], g_nodes = f_nodes sample_flow,
     g_wires = f_wires sample_flow, g_entries = [''src'']\<rparr>"

lemma sample_new_graph: "new_graph sample_flow = Some sample_graph"
  by code_simp

theorem new_graph_order_witness:
  "new_graph sample_flow = Some sample_graph \<and> topo (g_wires sample_graph) {} (g_order sample_graph) \<and>
   set (g_order sample_graph) = n_id ` set (f_nodes sample_flow)"
  using new_graph_order [OF sample_distinct sample_new_graph] sample_new_graph by simp

theorem new_graph_iff_acyclic_witness:
  "\<not> acyclic {(w_from w, w_to w) | w. w \<in> set (known_wires looped_flow)}"
proof -
  have "new_graph looped_flow = None" by code_simp
  with new_graph_iff_acyclic [OF sample_distinct_looped] show ?thesis by simp
qed

theorem accepted_flow_executes_witness:
  "validate_flow no_refs sample_flow = Inr [] \<and> (\<exists>g. new_graph sample_flow = Some g \<and> g_wires g = f_wires sample_flow)"
  using accepted_flow_executes [OF sample_accepted] sample_accepted by simp

section \<open>Key-value state\<close>

definition sample_table :: kv_table where
  "sample_table =
     [\<lparr>kr_flow = ''inbox'', kr_node = ''rest'', kr_scope = ''node'', kr_key = ''seen:1'', kr_value = ''true'',
       kr_expires = None, kr_updated = 0\<rparr>,
      \<lparr>kr_flow = ''inbox'', kr_node = ''rest'', kr_scope = ''node'', kr_key = ''seen:2'', kr_value = ''true'',
       kr_expires = Some 5, kr_updated = 0\<rparr>]"

definition sample_buffer :: kv_buffer where
  "sample_buffer = new_kv_buffer (Some (node_kv_reader sample_table)) ''inbox'' 10"

definition sample_staging :: staging where
  "sample_staging = \<lparr>sg_node = ''rest'', sg_staged =
     [(''seen:3'', \<lparr>op_deleted = False, op_value = ''1'', op_expires = 0\<rparr>),
      (''seen:1'', \<lparr>op_deleted = True, op_value = [], op_expires = 0\<rparr>)]\<rparr>"

lemma sample_table_unique: "unique_on kr_pk sample_table"
  by (simp add: unique_on_def sample_table_def kr_pk_def)

lemma sample_buffer_facts:
  "kb_reader sample_buffer = node_kv_reader sample_table" "\<not> kb_inert sample_buffer"
  "buffer_wf sample_buffer" "staging_wf sample_staging" "kb_now sample_buffer = 10"
  by (simp_all add: sample_buffer_def staging_wf_def sample_staging_def) (simp_all add: new_kv_buffer_def)

theorem kv_run_refines_table_witness:
  "node_kv_get (apply_kv_mutations (kb_flow sample_buffer) 10
      (mutations (staging_commit sample_staging sample_buffer)) sample_table)
      (kb_flow sample_buffer) (sg_node sample_staging) ''seen:3'' (kb_now sample_buffer) = Some ''1''"
proof -
  have "staging_get False sample_buffer sample_staging ''seen:3'' = Inr (Some ''1'')" by code_simp
  with kv_run_refines_table [OF sample_table_unique sample_buffer_facts(1,2), of sample_staging "''seen:3''" 10]
  show ?thesis by simp
qed

theorem kv_keys_agree_with_get_witness:
  "\<exists>ks. staging_keys False sample_buffer sample_staging ''seen'' = Inr ks \<and> sorted ks \<and> ''seen:3'' \<in> set ks"
proof -
  have "staging_get False sample_buffer sample_staging ''seen:3'' = Inr (Some ''1'')" by code_simp
  with kv_keys_agree_with_get [OF sample_buffer_facts(1,3,4), of "''seen''"]
  show ?thesis by (auto simp: has_prefix_def)
qed

theorem kv_set_exact_witness:
  "\<exists>s' ttl. js_kv_set False sample_buffer sample_staging (Some ''k'') (Inr (Some ''1''))
      (OptionsTtl (TtlWhole 60)) = Inr s' \<and> kv_ttl (OptionsTtl (TtlWhole 60)) = Inr ttl \<and>
      staging_get False sample_buffer s' ''k'' = Inr (Some ''1'')"
proof -
  have "\<not> isl (js_kv_set False sample_buffer sample_staging (Some ''k'') (Inr (Some ''1'')) (OptionsTtl (TtlWhole 60)))"
    by code_simp
  then obtain s' where s': "js_kv_set False sample_buffer sample_staging (Some ''k'') (Inr (Some ''1''))
      (OptionsTtl (TtlWhole 60)) = Inr s'" by (auto dest: not_isl_Inr)
  from kv_set_exact [OF s' sample_buffer_facts(2)] s' show ?thesis by (auto simp: sample_buffer_facts(5))
qed

section \<open>Scripts\<close>

definition sample_json :: json where
  "sample_json = JObj [(''ID'', JStr ''7''), (''Key'', JStr ''acme/x#1'')]"

definition sample_codec :: js_codec where
  "sample_codec = \<lparr>jc_scan = (\<lambda>s. if s = ''P'' then Some (JObj [(''repo'', JStr ''acme/x'')]) else None),
     jc_raw = (\<lambda>_. ''P''), jc_why = (\<lambda>_. [])\<rparr>"

theorem from_js_ports_witness:
  "\<exists>ports. from_js sample_codec 2 (Some (JArr [JNull, sample_json, sample_json])) = Inr ports \<and> length ports = 3"
proof -
  have "\<not> isl (from_js sample_codec 2 (Some (JArr [JNull, sample_json, sample_json])))" by code_simp
  then obtain ports where p: "from_js sample_codec 2 (Some (JArr [JNull, sample_json, sample_json])) = Inr ports"
    by (auto dest: not_isl_Inr)
  from from_js_ports [OF p] p show ?thesis by simp
qed

text \<open>The script counts its messages, remembers each id, and returns a message with that id,
  or throws when there is no key.\<close>

definition sample_engine :: "nat script_engine" where
  "sample_engine = \<lparr>sc_check = (\<lambda>_. None), sc_new = (\<lambda>_. Inr 0),
     sc_eval = (\<lambda>_ st m _. JSet (Some (m_id m)) (Inr (Some ''true'')) OptionsAbsent (\<lambda>_.
        if m_key m = [] then JThrow (plain_error ScriptTimeout ''no key'') st
        else JReturn (Inr (Some (JObj [(''ID'', JStr (m_id m)), (''Key'', JStr (m_key m))]))) (st + 1)))\<rparr>"

definition sample_options :: "nat options" where
  "sample_options = \<lparr>op_scripts = Some [(''javascript'', sample_engine)],
     op_kv = Some (node_kv_reader sample_table)\<rparr>"

definition sample_runner :: "nat runner" where
  "sample_runner = (case new_runner sample_flow sample_options of Inr r \<Rightarrow> r)"

lemma sample_runner_built: "new_runner sample_flow sample_options = Inr sample_runner"
proof -
  have "\<not> isl (new_runner sample_flow sample_options)" by code_simp
  then show ?thesis by (auto simp: sample_runner_def dest!: not_isl_Inr)
qed

definition sample_msg :: "string \<Rightarrow> string \<Rightarrow> msg" where
  "sample_msg i payload = empty_msg\<lparr>m_id := i, m_key := ''acme/x#1'', m_topic := ''source:inbox/src'', m_payload := payload\<rparr>"

definition sample_batch :: "msg list" where
  "sample_batch = [sample_msg ''7'' ''P'', sample_msg ''8'' [],
     (sample_msg ''9'' ''P'')\<lparr>m_topic := ''source:elsewhere''\<rparr>]"

definition snapshot_msg :: msg where
  "snapshot_msg = (sample_msg ''9'' [])\<lparr>m_snapshot := Some [\<lparr>si_key = ''acme/x#1'', si_payload = ''P''\<rparr>]\<rparr>"

section \<open>Runs\<close>

lemma sample_runner_facts:
  "rn_flow sample_runner = sample_flow" "rn_graph sample_runner = sample_graph"
  using new_runner_facts(1,2) [OF sample_runner_built] sample_new_graph by simp_all

lemma sample_runner_graph:
  "distinct (map n_id (f_nodes (rn_flow sample_runner)))"
  "new_graph (rn_flow sample_runner) = Some (rn_graph sample_runner)"
  by (simp_all only: sample_runner_facts sample_distinct sample_new_graph)

theorem built_runner_always_runs_witness:
  "new_runner sample_flow sample_options = Inr sample_runner \<and>
   (\<exists>b r' p'. run sample_codec 10 sample_runner 32 sample_batch = Inr (b, r', p'))"
  using built_runner_always_runs [OF sample_runner_built, of sample_codec 10 32 sample_batch 10 "[]"]
    sample_runner_built by blast

lemma sample_can_run: "can_run (rn_graph sample_runner) (rn_procs sample_runner)"
  by (rule new_runner_facts(3) [OF sample_runner_built])

lemma sample_run: "\<exists>b r' p'. run sample_codec 10 sample_runner 32 batch = Inr (b, r', p')"
  using run_with_total [OF sample_can_run] unfolding run_def by metis

lemma sample_snapshot_run:
  "\<exists>b r' p'. run_with sample_codec sample_runner sample_buffer 32 [snapshot_msg] = Inr (b, r', p')"
  using run_with_total [OF sample_can_run] by metis

theorem run_delivers_everything_witness:
  "\<exists>st. execute sample_codec sample_runner
      (route sample_runner sample_batch (new_run_state sample_runner sample_buffer None 32)) = Inr st \<and>
    ra_in (acc_of st ''work'') = length (rs_pending st ''work'')"
proof -
  have "can_run (rn_graph sample_runner)
      (rs_procs (route sample_runner sample_batch (new_run_state sample_runner sample_buffer None 32)))"
    using sample_can_run by (simp add: new_run_state_def)
  then obtain st where st: "execute sample_codec sample_runner
      (route sample_runner sample_batch (new_run_state sample_runner sample_buffer None 32)) = Inr st"
    using execute_total by blast
  have "''work'' \<in> n_id ` set (f_nodes (rn_flow sample_runner))"
    by (simp add: sample_runner_facts sample_flow_def mk_node_def)
  with run_delivers_everything [OF sample_runner_graph st] st show ?thesis by blast
qed

theorem run_books_balance_witness:
  "\<exists>b r' p'. run sample_codec 10 sample_runner 32 sample_batch = Inr (b, r', p') \<and>
     list_all (\<lambda>nr. nr_in nr \<le> nr_out nr + nr_drop nr) (cb_node_runs b)"
proof -
  obtain b r' p' where r: "run sample_codec 10 sample_runner 32 sample_batch = Inr (b, r', p')"
    using sample_run by blast
  with run_books_balance [OF sample_runner_graph r] show ?thesis by (auto simp: list_all_iff)
qed

theorem snapshots_only_reconcile_witness:
  "\<exists>b r' p'. run_with sample_codec sample_runner sample_buffer 32 [snapshot_msg] = Inr (b, r', p') \<and>
     list_all (\<lambda>out. o_kind out = SinkFeed \<and> o_snapshot_id out = ''9'') (cb_outputs b)"
proof -
  obtain b r' p' where r: "run_with sample_codec sample_runner sample_buffer 32 [snapshot_msg] = Inr (b, r', p')"
    using sample_snapshot_run by blast
  have "\<forall>m\<in>set [snapshot_msg]. m_snapshot m \<noteq> None" "m_id snapshot_msg = ''9''"
    by (simp_all add: snapshot_msg_def sample_msg_def)
  with snapshots_only_reconcile [OF r] r show ?thesis by (auto simp: list_all_iff)
qed

theorem replay_is_inert_witness:
  "\<exists>b r' p'. run_replay sample_codec 10 (sample_runner\<lparr>rn_kv := None\<rparr>) 32 [snapshot_msg] = Inr (b, r', p') \<and>
     run_replay sample_codec 10 sample_runner 32 [snapshot_msg] = Inr (b, r'\<lparr>rn_kv := rn_kv sample_runner\<rparr>, p') \<and>
     cb_mutations b = []"
proof -
  have "can_run (rn_graph (sample_runner\<lparr>rn_kv := None\<rparr>)) (rn_procs (sample_runner\<lparr>rn_kv := None\<rparr>))"
    using sample_can_run by simp
  then obtain b r' p' where
    r: "run_replay sample_codec 10 (sample_runner\<lparr>rn_kv := None\<rparr>) 32 [snapshot_msg] = Inr (b, r', p')"
    using run_with_total unfolding run_replay_def by (metis (mono_tags, lifting) case_prod_conv res_bind_simps(2))
  from replay_is_inert [where C = sample_codec and now = 10 and r = sample_runner and k = None
      and pool = 32 and batch = "[snapshot_msg]"] r show ?thesis by auto
qed

definition failing_message :: message where
  "failing_message = \<lparr>mg_msg = (sample_msg ''7'' ''P'')\<lparr>m_key := []\<rparr>, mg_snapshot = None\<rparr>"

definition script_node :: node where
  "script_node = mk_node ''rest'' ''function'' (FunctionConfig script_cfg)"

definition sample_proc :: "nat proc" where
  "sample_proc = FunctionProc \<lparr>fp_rt = sample_engine, fp_src = ''return msg'', fp_config = script_cfg,
     fp_outputs = 1, fp_instance = None\<rparr>"

definition sample_state :: "nat run_state" where
  "sample_state = touch_acc ''rest''
     ((new_run_state sample_runner sample_buffer None 32)\<lparr>rs_procs := [(''rest'', sample_proc)]\<rparr>)"

theorem failed_message_contained_witness:
  "\<exists>st'. process_node sample_codec sample_runner script_node failing_message sample_state = Inr st' \<and>
     rs_kv st' = rs_kv sample_state \<and> \<not> ra_ok (acc_of st' ''rest'')"
proof -
  have nid: "n_id script_node = ''rest''" by (simp add: script_node_def mk_node_def)
  have st: "rs_procs sample_state = [(''rest'', sample_proc)]" "rs_pool sample_state = 32"
    "rs_trace sample_state = None" "rs_kv sample_state = sample_buffer" "touched sample_state ''rest''"
    by (simp_all add: sample_state_def touch_acc_facts) (simp_all add: touch_acc_def new_run_state_def)
  have p: "map_of (rs_procs sample_state) (n_id script_node) = Some sample_proc"
    by (simp add: st nid)
  have "isl (fst (proc_process sample_codec ''rest'' sample_buffer (mg_msg failing_message) sample_proc
      (32, buffer_node ''rest'', None)))" by code_simp
  then obtain e p' pool sg t where e: "proc_process sample_codec (n_id script_node) (rs_kv sample_state)
      (mg_msg failing_message) sample_proc
      (rs_pool sample_state, buffer_node (n_id script_node), rs_trace sample_state) = (Inl e, p', pool, sg, t)"
    unfolding st nid by (metis fst_conv isl_def prod_cases5)
  from failed_message_contained [OF p e, of sample_runner] st(5) show ?thesis by (auto simp: nid)
qed

theorem run_commits_highest_offset_witness:
  "\<exists>b r' p'. run sample_codec 10 sample_runner 32 sample_batch = Inr (b, r', p') \<and> cb_up_to b = 9"
proof -
  obtain b r' p' where r: "run sample_codec 10 sample_runner 32 sample_batch = Inr (b, r', p')"
    using sample_run by blast
  have ids: "parse_int64 ''7'' = Some 7" "parse_int64 ''8'' = Some 8" "parse_int64 ''9'' = Some 9"
    by code_simp+
  have "{n. \<exists>m\<in>set sample_batch. parse_int64 (m_id m) = Some n} = {7, 8, 9}"
    by (auto simp: sample_batch_def sample_msg_def ids)
  with run_commits_highest_offset [OF r] r show ?thesis by auto
qed

theorem dry_run_faithful_witness:
  "\<exists>b r' p' d. run sample_codec 10 sample_runner 32 (take 2 sample_batch) = Inr (b, r', p') \<and>
     dry_run sample_codec 10 sample_runner 32 ''src'' (take 2 sample_batch) = Inr d \<and> dr_outputs d = cb_outputs b"
proof -
  obtain b r' p' where r: "run sample_codec 10 sample_runner 32 (take 2 sample_batch) = Inr (b, r', p')"
    using sample_run by blast
  have m: "\<forall>m\<in>set (take 2 sample_batch). matching_entries sample_runner m = [''src'']"
    by code_simp
  have g: "graph_node (rn_graph sample_runner) ''src'' \<noteq> None" by code_simp
  from dry_run_faithful [OF m g r] r show ?thesis by blast
qed

end
