(* ===== verification/Database.thy ===== *)
theory Database
  imports Models Flow
begin

text \<open>
  The SQLite database as the stores see it: one row type per table of
  \<open>internal/app/data/queries/migrations\<close>, the AUTOINCREMENT counters, and the schema's
  constraints (keys, checks, foreign keys) as the predicate \<open>db_ok\<close>. A statement that
  would violate a constraint fails in the code and is an error of the model (an empty payload
  stands for Go's nil slice, which \<open>database/sql\<close> binds as NULL), so \<open>db_ok\<close> is
  an invariant every store operation keeps. Failures of the disk are outside the model.
\<close>

section \<open>Vocabulary of the classifiers\<close>

datatype lifecycle = LifecycleActive | LifecycleTerminal | LifecycleUnknown
datatype transition = TransitionNone | EnteredTerminal | LeftTerminal
datatype attention = AttentionActivity | AttentionTrivial
datatype archived_actor = ActorManual | ActorSystem

record observation =
  ob_external :: string
  ob_title :: string
  ob_url :: string
  ob_kind :: string
  ob_scope :: string
  ob_observed :: int
  ob_payload :: bytes

text \<open>A classifier may leave transition, attention and lifecycle empty.\<close>

record classification =
  ck_kind :: string
  ck_transition :: "transition option"
  ck_attention :: "attention option"
  ck_lifecycle :: "lifecycle option"
  ck_state :: string
  ck_reason :: string
  ck_occurrence :: string
  ck_summary :: string
  ck_detail :: bytes

section \<open>Tables\<close>

record event_row =
  er_offset :: int
  er_topic :: string
  er_key :: string
  er_payload :: bytes
  er_snapshot :: bool
  er_kind :: string
  er_scope :: string
  er_occurrence :: "string option"
  er_created :: int

record head_row =
  hd_topic :: string
  hd_key :: string
  hd_payload :: bytes

record item_row =
  it_id :: int
  it_profile :: string
  it_kind :: string
  it_scope :: string
  it_external :: string
  it_title :: string
  it_url :: string
  it_payload :: bytes
  it_revision :: int
  it_unread :: bool
  it_archived :: "int option"
  it_actor :: "archived_actor option"
  it_reason :: "string option"
  it_lifecycle :: lifecycle
  it_state :: "string option"
  it_first_seen :: int
  it_last_event :: int
  it_ignored :: "int option"

record inbox_event_row =
  ie_id :: int
  ie_item :: int
  ie_kind :: string
  ie_transition :: transition
  ie_attention :: attention
  ie_occurrence :: "string option"
  ie_summary :: "string option"
  ie_detail :: bytes
  ie_created :: int

datatype command_status = CmdPending | CmdRunning | CmdDone | CmdFailed

record command_row =
  oc_id :: int
  oc_action :: string
  oc_key :: string
  oc_payload :: bytes
  oc_status :: command_status
  oc_attempts :: int
  oc_error :: "string option"
  oc_result :: "string option"
  oc_stdout :: "string option"
  oc_stderr :: "string option"
  oc_created :: int
  oc_rerun :: bool
  oc_ref :: item_ref

record session_row =
  sr_session :: string
  sr_ref :: item_ref
  sr_created :: int

record node_run_row =
  rr_run :: node_run
  rr_ended :: int

datatype job_status = JobQueued | JobRunning | JobDone | JobFailed

record job_row =
  jb_id :: int
  jb_created :: int
  jb_updated :: int
  jb_status :: job_status
  jb_label :: string
  jb_step :: string
  jb_action :: string
  jb_target :: string
  jb_error :: string
  jb_command :: "int option"

record activity_row =
  av_id :: int
  av_created :: int
  av_category :: string
  av_severity :: string
  av_title :: string
  av_body :: string
  av_source :: string
  av_metadata :: "(string \<times> string) list"

record db =
  db_events :: "event_row list"
  db_event_seq :: int
  db_offsets :: "(string \<times> int) list"
  db_heads :: "head_row list"
  db_items :: "item_row list"
  db_item_seq :: int
  db_inbox_events :: "inbox_event_row list"
  db_inbox_event_seq :: int
  db_claims :: "feed_claim list"
  db_commands :: "command_row list"
  db_command_seq :: int
  db_kv :: kv_table
  db_runs :: "node_run_row list"
  db_sessions :: "session_row list"
  db_jobs :: "job_row list"
  db_job_seq :: int
  db_activity :: "activity_row list"
  db_activity_seq :: int

definition empty_db :: db where
  "empty_db = \<lparr>db_events = [], db_event_seq = 0, db_offsets = [], db_heads = [], db_items = [],
     db_item_seq = 0, db_inbox_events = [], db_inbox_event_seq = 0, db_claims = [], db_commands = [],
     db_command_seq = 0, db_kv = [], db_runs = [], db_sessions = [],
     db_jobs = [], db_job_seq = 0, db_activity = [], db_activity_seq = 0\<rparr>"

datatype store_error =
    NotFound string
  | StaleRevision
  | BadArgument string
  | UniqueViolation string
  | NullViolation string
  | ForeignKeyViolation string
  | CodecFailed string

definition null_str :: "string \<Rightarrow> string option" where
  "null_str v = (if v = [] then None else Some v)"

section \<open>Constraints\<close>

definition item_identity :: "item_row \<Rightarrow> string \<times> string \<times> string \<times> string" where
  "item_identity r = (it_profile r, it_kind r, it_scope r, it_external r)"

definition archive_check :: "item_row \<Rightarrow> bool" where
  "archive_check r \<longleftrightarrow> (it_archived r = None) = (it_actor r = None)"

definition command_key :: "command_row \<Rightarrow> string \<times> string" where
  "command_key r = (oc_action r, oc_key r)"

definition event_key :: "inbox_event_row \<Rightarrow> int \<times> string option" where
  "event_key r = (ie_item r, ie_occurrence r)"

text \<open>Each predicate takes the tables it constrains, so that a statement on other tables
  leaves it alone by rewriting.\<close>

definition events_ok :: "event_row list \<Rightarrow> int \<Rightarrow> (string \<times> int) list \<Rightarrow> bool" where
  "events_ok evs sq offs \<longleftrightarrow> unique_on er_offset evs \<and>
     (\<forall>r\<in>set evs. 0 < er_offset r \<and> er_offset r \<le> sq) \<and> 0 \<le> sq \<and> unique_on fst offs"

definition heads_ok :: "head_row list \<Rightarrow> bool" where
  "heads_ok hs \<longleftrightarrow> unique_on (\<lambda>r. (hd_topic r, hd_key r)) hs"

definition items_ok :: "item_row list \<Rightarrow> int \<Rightarrow> bool" where
  "items_ok its sq \<longleftrightarrow> unique_on it_id its \<and> unique_on item_identity its \<and>
     (\<forall>r\<in>set its. 0 < it_id r \<and> it_id r \<le> sq \<and> archive_check r) \<and> 0 \<le> sq"

definition inbox_events_ok :: "inbox_event_row list \<Rightarrow> int \<Rightarrow> item_row list \<Rightarrow> bool" where
  "inbox_events_ok ies sq its \<longleftrightarrow> unique_on ie_id ies \<and>
     unique_on event_key (filter (\<lambda>r. ie_occurrence r \<noteq> None) ies) \<and>
     (\<forall>r\<in>set ies. ie_id r \<le> sq \<and> ie_occurrence r \<noteq> Some []) \<and>
     ie_item ` set ies \<subseteq> it_id ` set its"

definition claims_ok :: "feed_claim list \<Rightarrow> item_row list \<Rightarrow> bool" where
  "claims_ok cs its \<longleftrightarrow> distinct cs \<and> fc_item ` set cs \<subseteq> it_id ` set its"

definition commands_ok :: "command_row list \<Rightarrow> int \<Rightarrow> bool" where
  "commands_ok cs sq \<longleftrightarrow> unique_on oc_id cs \<and>
     unique_on command_key (filter (\<lambda>r. \<not> oc_rerun r) cs) \<and>
     (\<forall>r\<in>set cs. 0 < oc_id r \<and> oc_id r \<le> sq) \<and> 0 \<le> sq"

definition sessions_ok :: "session_row list \<Rightarrow> bool" where
  "sessions_ok ss \<longleftrightarrow> unique_on (\<lambda>r. (sr_session r, sr_ref r)) ss"

definition ids_ok :: "('r \<Rightarrow> int) \<Rightarrow> 'r list \<Rightarrow> int \<Rightarrow> bool" where
  "ids_ok i rows sq \<longleftrightarrow> unique_on i rows \<and> (\<forall>r\<in>set rows. 0 < i r \<and> i r \<le> sq) \<and> 0 \<le> sq"

definition db_ok :: "db \<Rightarrow> bool" where
  "db_ok d \<longleftrightarrow> events_ok (db_events d) (db_event_seq d) (db_offsets d) \<and> heads_ok (db_heads d) \<and>
     items_ok (db_items d) (db_item_seq d) \<and>
     inbox_events_ok (db_inbox_events d) (db_inbox_event_seq d) (db_items d) \<and>
     claims_ok (db_claims d) (db_items d) \<and> commands_ok (db_commands d) (db_command_seq d) \<and>
     unique_on kr_pk (db_kv d) \<and> sessions_ok (db_sessions d) \<and>
     ids_ok jb_id (db_jobs d) (db_job_seq d) \<and> ids_ok av_id (db_activity d) (db_activity_seq d)"

lemma empty_db_ok: "db_ok empty_db"
  by (simp add: db_ok_def events_ok_def heads_ok_def items_ok_def inbox_events_ok_def claims_ok_def
      commands_ok_def sessions_ok_def ids_ok_def empty_db_def)

lemmas ok_defs = events_ok_def heads_ok_def items_ok_def inbox_events_ok_def claims_ok_def
  commands_ok_def sessions_ok_def ids_ok_def

end
