(* ===== verification/Event_Log.thy ===== *)
theory Event_Log
  imports Database
begin

text \<open>
  The log half of \<open>internal/app/data/stores/store_event_log.go\<close>: appends, pages, consumer
  offsets, the tail and the newest snapshot of each source. How a snapshot is written into a
  row's payload and read back is \<open>encoding/json\<close>'s business and enters through the codec.
\<close>

record notify_command =
  nc_profile :: string
  nc_external :: string
  nc_kind :: string
  nc_scope :: string
  nc_item :: bytes

record store_codec =
  sk_enc_snapshot :: "snapshot_item list option \<Rightarrow> bytes option"
  sk_dec_snapshot :: "bytes \<Rightarrow> snapshot_item list option option"
  sk_notify :: "notify_command \<Rightarrow> bytes option"
  sk_digest :: "bytes \<Rightarrow> string"
  sk_scan :: json_scanner

section \<open>Appending\<close>

definition append_event ::
  "string \<Rightarrow> string \<Rightarrow> bytes \<Rightarrow> bool \<Rightarrow> string \<Rightarrow> string \<Rightarrow> string option \<Rightarrow> int \<Rightarrow> db \<Rightarrow>
   (store_error, int \<times> db) result" where
  "append_event topic key payload snap kind scope occ now d =
     (if payload = [] then Inl (NullViolation ''event_log.payload'')
      else
        let off = db_event_seq d + 1
        in Inr (off, d\<lparr>db_events := db_events d @
              [\<lparr>er_offset = off, er_topic = topic, er_key = key, er_payload = payload,
                er_snapshot = snap, er_kind = kind, er_scope = scope, er_occurrence = occ,
                er_created = now\<rparr>],
            db_event_seq := off\<rparr>))"

definition append :: "string \<Rightarrow> string \<Rightarrow> bytes \<Rightarrow> int \<Rightarrow> db \<Rightarrow> (store_error, int \<times> db) result" where
  "append topic key payload now d = append_event topic key payload False [] [] None now d"

definition append_snapshot ::
  "store_codec \<Rightarrow> string \<Rightarrow> string \<Rightarrow> string \<Rightarrow> snapshot_item list option \<Rightarrow> int \<Rightarrow> db \<Rightarrow>
   (store_error, int \<times> db) result" where
  "append_snapshot K topic kind scope items now d =
     (case sk_enc_snapshot K items of
        None \<Rightarrow> Inl (CodecFailed ''snapshot'')
      | Some payload \<Rightarrow> append_event topic [] payload True kind scope None now d)"

definition append_observation ::
  "string \<Rightarrow> string \<Rightarrow> bytes \<Rightarrow> string \<Rightarrow> string \<Rightarrow> string \<Rightarrow> int \<Rightarrow> db \<Rightarrow>
   (store_error, int \<times> db) result" where
  "append_observation topic key payload kind scope occ now d =
     append_event topic key payload False kind scope (null_str occ) now d"

definition backfill_occurrence_key :: "int \<Rightarrow> string \<Rightarrow> db \<Rightarrow> db" where
  "backfill_occurrence_key off occ d =
     d\<lparr>db_events := sql_update (\<lambda>r. er_offset r = off) (\<lambda>r. r\<lparr>er_occurrence := null_str occ\<rparr>) (db_events d)\<rparr>"

section \<open>Reading\<close>

definition event_msg :: "store_codec \<Rightarrow> event_row \<Rightarrow> (store_error, msg) result" where
  "event_msg K r =
     (let m = \<lparr>m_id = format_int (er_offset r), m_key = er_key r, m_topic = er_topic r,
               m_ts = er_created r, m_payload = er_payload r, m_snapshot = None,
               m_source_kind = er_kind r, m_source_scope = er_scope r,
               m_occurrence = (case er_occurrence r of None \<Rightarrow> [] | Some s \<Rightarrow> s)\<rparr>
      in if \<not> er_snapshot r then Inr m
         else case sk_dec_snapshot K (er_payload r) of
                None \<Rightarrow> Inl (CodecFailed ''snapshot'')
              | Some items \<Rightarrow> Inr (m\<lparr>m_snapshot := items\<rparr>))"

fun res_map :: "('a \<Rightarrow> ('e, 'b) result) \<Rightarrow> 'a list \<Rightarrow> ('e, 'b list) result" where
  "res_map f [] = Inr []"
| "res_map f (x # xs) = res_bind (f x) (\<lambda>y. res_bind (res_map f xs) (\<lambda>ys. Inr (y # ys)))"

definition read_rows :: "int \<Rightarrow> nat \<Rightarrow> db \<Rightarrow> event_row list" where
  "read_rows off limit d =
     take limit (sort_key er_offset (filter (\<lambda>r. off < er_offset r) (db_events d)))"

definition read_from :: "store_codec \<Rightarrow> int \<Rightarrow> nat \<Rightarrow> db \<Rightarrow> (store_error, msg list \<times> int) result" where
  "read_from K off limit d =
     (let rows = read_rows off limit d
      in res_bind (res_map (event_msg K) rows) (\<lambda>ms.
           Inr (ms, if rows = [] then off else er_offset (last rows))))"

definition consumer_offset :: "string \<Rightarrow> db \<Rightarrow> int" where
  "consumer_offset c d = (case map_of (db_offsets d) c of None \<Rightarrow> 0 | Some n \<Rightarrow> n)"

definition read_for_consumer :: "store_codec \<Rightarrow> string \<Rightarrow> nat \<Rightarrow> db \<Rightarrow> (store_error, msg list) result" where
  "read_for_consumer K c limit d =
     res_bind (read_from K (consumer_offset c d) limit d) (\<lambda>(ms, _). Inr ms)"

definition tail_offset :: "db \<Rightarrow> int" where
  "tail_offset d = db_event_seq d"

definition latest_snapshot_rows :: "string \<Rightarrow> int \<Rightarrow> db \<Rightarrow> event_row list" where
  "latest_snapshot_rows prefix through d =
     (let snaps = filter (\<lambda>r. er_snapshot r \<and> er_offset r \<le> through \<and> has_prefix prefix (er_topic r)) (db_events d)
      in sort_key er_topic (filter (\<lambda>r. r \<in> set snaps \<and>
           (\<forall>s\<in>set snaps. er_topic s = er_topic r \<longrightarrow> er_offset s \<le> er_offset r)) (db_events d)))"

definition snapshot_msg_of :: "store_codec \<Rightarrow> event_row \<Rightarrow> (store_error, msg) result" where
  "snapshot_msg_of K r =
     (case sk_dec_snapshot K (er_payload r) of
        None \<Rightarrow> Inl (CodecFailed ''replay snapshot'')
      | Some items \<Rightarrow>
          Inr \<lparr>m_id = format_int (er_offset r), m_key = [], m_topic = er_topic r, m_ts = er_created r,
               m_payload = er_payload r, m_snapshot = items, m_source_kind = er_kind r,
               m_source_scope = er_scope r, m_occurrence = []\<rparr>)"

definition list_latest_snapshots ::
  "store_codec \<Rightarrow> string \<Rightarrow> int \<Rightarrow> db \<Rightarrow> (store_error, msg list) result" where
  "list_latest_snapshots K profile through d =
     (if through < 0 then Inl (BadArgument ''negative offset'')
      else res_map (snapshot_msg_of K) (latest_snapshot_rows (''source:'' @ profile @ ''/'') through d))"

section \<open>Offsets and deletion\<close>

definition commit_consumer_offset :: "string \<Rightarrow> int \<Rightarrow> db \<Rightarrow> db" where
  "commit_consumer_offset c n d =
     d\<lparr>db_offsets := sql_upsert fst (c, n) (\<lambda>(c', old). (c', if old < n then n else old)) (db_offsets d)\<rparr>"

definition delete_consumer_offset :: "string \<Rightarrow> db \<Rightarrow> db" where
  "delete_consumer_offset c d = d\<lparr>db_offsets := sql_delete (\<lambda>r. fst r = c) (db_offsets d)\<rparr>"

text \<open>SQLite's \<open>LIKE\<close> folds ASCII case; the pattern is the escaped prefix with a trailing
  wildcard, so it matches that prefix up to case and nothing wider.\<close>

definition like_prefix_match :: "string \<Rightarrow> string \<Rightarrow> bool" where
  "like_prefix_match prefix s = has_prefix (to_lower prefix) (to_lower s)"

definition delete_by_topic_prefix :: "string \<Rightarrow> db \<Rightarrow> db" where
  "delete_by_topic_prefix prefix d =
     d\<lparr>db_events := sql_delete (\<lambda>r. like_prefix_match prefix (er_topic r)) (db_events d)\<rparr>"

section \<open>Facts\<close>

lemma seq_fresh:
  fixes f :: "'r \<Rightarrow> int"
  assumes "\<forall>r\<in>set rows. f r \<le> n"
  shows "\<forall>r\<in>set rows. f r \<noteq> n + 1 \<and> f r \<le> n + 1"
proof
  fix r assume "r \<in> set rows"
  with assms have "f r \<le> n" by blast
  then show "f r \<noteq> n + 1 \<and> f r \<le> n + 1" by simp
qed

lemma events_ok_append:
  "events_ok evs n offs \<Longrightarrow> er_offset r = n + 1 \<Longrightarrow> events_ok (evs @ [r]) (n + 1) offs"
  using seq_fresh [of evs er_offset n] by (simp add: events_ok_def unique_on_insert)

lemma append_event_ok [preserves]:
  "db_ok d \<Longrightarrow> append_event t k p s kd sc occ now d = Inr (off, d') \<Longrightarrow> db_ok d'"
  by (auto simp: append_event_def Let_def db_ok_def intro!: events_ok_append split: if_splits)

lemma backfill_ok [preserves]: "db_ok d \<Longrightarrow> db_ok (backfill_occurrence_key off occ d)"
  by (auto simp: backfill_occurrence_key_def db_ok_def events_ok_def sql_update_def
      intro!: unique_on_update [unfolded sql_update_def])

lemma commit_consumer_offset_ok [preserves]: "db_ok d \<Longrightarrow> db_ok (commit_consumer_offset c n d)"
  by (auto simp: commit_consumer_offset_def db_ok_def events_ok_def intro!: unique_on_upsert)

lemma map_of_find: "map_of xs k = map_option snd (find (\<lambda>x. fst x = k) xs)"
  by (induction xs) auto

lemma consumer_offset_commit:
  "consumer_offset c' (commit_consumer_offset c n d) =
   (if c' = c then (case map_of (db_offsets d) c of None \<Rightarrow> n | Some old \<Rightarrow> max old n)
    else consumer_offset c' d)"
proof -
  have "find (\<lambda>x. fst x = c') (sql_upsert fst (c, n) (\<lambda>(c', old). (c', if old < n then n else old)) (db_offsets d)) =
      (if c' = fst (c, n) then Some (case find (\<lambda>x. fst x = c') (db_offsets d) of None \<Rightarrow> (c, n)
         | Some r \<Rightarrow> (\<lambda>(c', old). (c', if old < n then n else old)) r)
       else find (\<lambda>x. fst x = c') (db_offsets d))"
    by (rule find_key_upsert) auto
  then show ?thesis
    by (auto simp: consumer_offset_def commit_consumer_offset_def map_of_find max_def
        split: option.split prod.split)
qed

lemma consumer_offset_mono: "consumer_offset c d \<le> n \<Longrightarrow> consumer_offset c (commit_consumer_offset c n d) = n"
  unfolding consumer_offset_commit by (simp add: consumer_offset_def max_def split: option.splits)

lemma res_map_Inr: "res_map f xs = Inr ys \<longleftrightarrow> list_all2 (\<lambda>x y. f x = Inr y) xs ys"
  by (induction xs arbitrary: ys) (auto simp: res_bind_Inr_conv list_all2_Cons1)

lemma event_msg_id: "event_msg K r = Inr m \<Longrightarrow> m_id m = format_int (er_offset r)"
  by (auto simp: event_msg_def Let_def split: if_splits option.splits)

lemma read_rows_spec:
  assumes "unique_on er_offset (db_events d)"
  shows "sorted_wrt (\<lambda>a b. er_offset a < er_offset b) (read_rows off limit d)"
    and "\<forall>r\<in>set (read_rows off limit d). off < er_offset r \<and> r \<in> set (db_events d)"
    and "\<forall>r\<in>set (read_rows off limit d). \<forall>s\<in>set (db_events d).
      off < er_offset s \<and> er_offset s < er_offset r \<longrightarrow> s \<in> set (read_rows off limit d)"
proof -
  let ?all = "sort_key er_offset (filter (\<lambda>r. off < er_offset r) (db_events d))"
  have d: "distinct (map er_offset ?all)"
    using unique_on_filter [OF assms, of "\<lambda>r. off < er_offset r"]
    by (simp add: unique_on_def distinct_map)
  have "sorted (map er_offset ?all)" by (rule sorted_sort_key)
  then have all: "sorted_wrt (<) (map er_offset ?all)" using d by (simp add: strict_sorted_iff)
  then have sw: "sorted_wrt (\<lambda>a b. er_offset a < er_offset b) ?all" by (simp add: sorted_wrt_map)
  then show "sorted_wrt (\<lambda>a b. er_offset a < er_offset b) (read_rows off limit d)"
    unfolding read_rows_def by (rule sorted_wrt_take)
  show "\<forall>r\<in>set (read_rows off limit d). off < er_offset r \<and> r \<in> set (db_events d)"
    unfolding read_rows_def by (auto dest!: in_set_takeD)
  show "\<forall>r\<in>set (read_rows off limit d). \<forall>s\<in>set (db_events d).
      off < er_offset s \<and> er_offset s < er_offset r \<longrightarrow> s \<in> set (read_rows off limit d)"
  proof (intro ballI impI)
    fix r s assume r: "r \<in> set (read_rows off limit d)" and s: "s \<in> set (db_events d)"
      and lt: "off < er_offset s \<and> er_offset s < er_offset r"
    have "s \<in> set (take limit ?all @ drop limit ?all)" using s lt by simp
    then have "s \<in> set (take limit ?all) \<or> s \<in> set (drop limit ?all)" by (simp only: set_append Un_iff)
    moreover have "s \<notin> set (drop limit ?all)"
    proof
      assume "s \<in> set (drop limit ?all)"
      moreover have "sorted_wrt (\<lambda>a b. er_offset a < er_offset b) (take limit ?all @ drop limit ?all)"
        using sw by simp
      ultimately have "er_offset r < er_offset s"
        using r unfolding read_rows_def sorted_wrt_append by blast
      then show False using lt by simp
    qed
    ultimately show "s \<in> set (read_rows off limit d)" by (simp add: read_rows_def)
  qed
qed

lemma read_page:
  assumes "db_ok d" and "read_from K off limit d = Inr (ms, nxt)"
  shows "\<exists>rows. list_all2 (\<lambda>r m. event_msg K r = Inr m) rows ms \<and> length ms \<le> limit \<and>
    sorted_wrt (\<lambda>a b. er_offset a < er_offset b) rows \<and>
    set rows = {r \<in> set (db_events d). off < er_offset r \<and> er_offset r \<le> nxt} \<and>
    nxt = (if rows = [] then off else er_offset (last rows))"
proof -
  let ?rows = "read_rows off limit d"
  have u: "unique_on er_offset (db_events d)" using assms(1) by (simp add: db_ok_def events_ok_def)
  note spec = read_rows_spec [OF u, where off = off and limit = limit]
  have ms: "list_all2 (\<lambda>r m. event_msg K r = Inr m) ?rows ms"
    and nxt: "nxt = (if ?rows = [] then off else er_offset (last ?rows))"
    using assms(2) by (auto simp: read_from_def Let_def res_bind_Inr_conv res_map_Inr)
  have len: "length ms \<le> limit"
    using list_all2_lengthD [OF ms] by (simp add: read_rows_def)
  have "set ?rows = {r \<in> set (db_events d). off < er_offset r \<and> er_offset r \<le> nxt}"
  proof (cases "?rows = []")
    case True
    then show ?thesis using nxt by auto
  next
    case False
    let ?l = "last ?rows"
    have l: "?l \<in> set ?rows" using False by simp
    have max: "er_offset r \<le> er_offset ?l" if "r \<in> set ?rows" for r
    proof -
      have split: "?rows = butlast ?rows @ [?l]" using False by simp
      then have "sorted_wrt (\<lambda>a b. er_offset a < er_offset b) (butlast ?rows @ [?l])" using spec(1) by simp
      moreover have "r \<in> set (butlast ?rows @ [?l])" using that split by simp
      ultimately show ?thesis by (auto simp: sorted_wrt_append)
    qed
    have "r \<in> set ?rows" if r: "r \<in> set (db_events d)" "off < er_offset r" "er_offset r \<le> er_offset ?l" for r
    proof (cases "er_offset r = er_offset ?l")
      case True
      have "r = ?l" by (rule unique_on_eq [OF u r(1)]) (use spec(2) l True in auto)
      then show ?thesis using l by simp
    next
      case False
      then show ?thesis using spec(3) l r by fastforce
    qed
    then show ?thesis using nxt False max spec(2) by auto
  qed
  then show ?thesis using ms len spec(1) nxt by blast
qed

text \<open>
  A page of the log. Reading from an offset returns messages in strictly increasing
  offset order, all after the offset, and skips nothing: every logged event between the offset
  and the last one returned is in the page; the next offset is that of the last message, so
  reading on from it resumes exactly behind the page.
\<close>

theorem read_from_page:
  assumes "db_ok d" and "read_from K off limit d = Inr (ms, nxt)"
  shows "\<exists>rows. list_all2 (\<lambda>r m. event_msg K r = Inr m) rows ms \<and> length ms \<le> limit \<and>
    sorted_wrt (\<lambda>a b. er_offset a < er_offset b) rows \<and>
    set rows = {r \<in> set (db_events d). off < er_offset r \<and> er_offset r \<le> nxt} \<and>
    nxt = (if rows = [] then off else er_offset (last rows))"
  by (rule read_page [OF assms])

end
