(* ===== verification/Claims.thy ===== *)
theory Claims
  imports Event_Log
begin

text \<open>
  The small stores next to the inbox: feed membership claims (\<open>store_feed_claim.go\<close>), source
  heads (\<open>store_source_head.go\<close>), item sessions (\<open>store_item_session.go\<close>) and node runs
  (\<open>store_node_run.go\<close>), each operation the statement of \<open>queries/queries/*.sql\<close> it runs.
\<close>

section \<open>Feed membership claims\<close>

definition item_exists :: "int \<Rightarrow> db \<Rightarrow> bool" where
  "item_exists i d \<longleftrightarrow> list_ex (\<lambda>r. it_id r = i) (db_items d)"

definition item_unarchived :: "db \<Rightarrow> int \<Rightarrow> bool" where
  "item_unarchived d i \<longleftrightarrow> list_ex (\<lambda>r. it_id r = i \<and> it_archived r = None) (db_items d)"

definition claim_upsert :: "feed_claim \<Rightarrow> db \<Rightarrow> (store_error, db) result" where
  "claim_upsert c d =
     (if c \<in> set (db_claims d) then Inr d
      else if \<not> item_exists (fc_item c) d then Inl (ForeignKeyViolation ''feed_membership_claim.item_id'')
      else Inr (d\<lparr>db_claims := db_claims d @ [c]\<rparr>))"

definition claims_delete :: "(feed_claim \<Rightarrow> bool) \<Rightarrow> db \<Rightarrow> db" where
  "claims_delete P d = d\<lparr>db_claims := sql_delete P (db_claims d)\<rparr>"

definition claims_delete_not_in_snapshot :: "string \<Rightarrow> string \<Rightarrow> int list \<Rightarrow> db \<Rightarrow> db" where
  "claims_delete_not_in_snapshot feed src ids d =
     claims_delete (\<lambda>c. fc_feed c = feed \<and> fc_source c = src \<and> fc_item c \<notin> set ids) d"

definition claims_delete_for_source_all :: "string \<Rightarrow> string \<Rightarrow> db \<Rightarrow> db" where
  "claims_delete_for_source_all feed src d =
     claims_delete (\<lambda>c. fc_feed c = feed \<and> fc_source c = src) d"

definition claims_delete_for_feeds :: "string \<Rightarrow> string list \<Rightarrow> db \<Rightarrow> db" where
  "claims_delete_for_feeds profile keep d =
     (if keep = [] then claims_delete (\<lambda>c. fc_profile c = profile) d
      else claims_delete (\<lambda>c. fc_profile c = profile \<and> fc_feed c \<notin> set keep) d)"

definition claims_delete_for_removed_sources :: "string \<Rightarrow> string list \<Rightarrow> db \<Rightarrow> db" where
  "claims_delete_for_removed_sources profile keep d =
     (if keep = [] then claims_delete (\<lambda>c. fc_profile c = profile \<and> item_unarchived d (fc_item c)) d
      else claims_delete (\<lambda>c. fc_profile c = profile \<and> fc_source c \<notin> set keep \<and>
             item_unarchived d (fc_item c)) d)"

definition claims_delete_unarchived :: "string \<Rightarrow> db \<Rightarrow> db" where
  "claims_delete_unarchived profile d =
     claims_delete (\<lambda>c. fc_profile c = profile \<and> item_unarchived d (fc_item c)) d"

definition claims_delete_by_profile :: "string \<Rightarrow> db \<Rightarrow> db" where
  "claims_delete_by_profile profile d = claims_delete (\<lambda>c. fc_profile c = profile) d"

section \<open>Source heads\<close>

definition head_payload :: "string \<Rightarrow> string \<Rightarrow> db \<Rightarrow> bytes option" where
  "head_payload topic key d =
     map_option hd_payload (find (\<lambda>r. (hd_topic r, hd_key r) = (topic, key)) (db_heads d))"

definition head_upsert :: "string \<Rightarrow> string \<Rightarrow> bytes \<Rightarrow> db \<Rightarrow> (store_error, db) result" where
  "head_upsert topic key payload d =
     (if payload = [] then Inl (NullViolation ''source_head.payload'')
      else Inr (d\<lparr>db_heads := sql_upsert (\<lambda>r. (hd_topic r, hd_key r))
             \<lparr>hd_topic = topic, hd_key = key, hd_payload = payload\<rparr>
             (\<lambda>r. r\<lparr>hd_payload := payload\<rparr>) (db_heads d)\<rparr>))"

definition head_delete :: "string \<Rightarrow> string \<Rightarrow> db \<Rightarrow> db" where
  "head_delete topic key d =
     d\<lparr>db_heads := sql_delete (\<lambda>r. (hd_topic r, hd_key r) = (topic, key)) (db_heads d)\<rparr>"

definition head_delete_by_topic_prefix :: "string \<Rightarrow> db \<Rightarrow> db" where
  "head_delete_by_topic_prefix prefix d =
     d\<lparr>db_heads := sql_delete (\<lambda>r. like_prefix_match prefix (hd_topic r)) (db_heads d)\<rparr>"

definition list_active_keys :: "string \<Rightarrow> string \<Rightarrow> string \<Rightarrow> string \<Rightarrow> db \<Rightarrow> string list" where
  "list_active_keys topic profile kind scope d =
     map hd_key (filter (\<lambda>h. hd_topic h = topic \<and>
       list_ex (\<lambda>r. item_identity r = (profile, kind, scope, hd_key h) \<and> it_archived r = None)
         (db_items d)) (db_heads d))"

section \<open>Item sessions\<close>

definition session_link :: "string \<Rightarrow> item_ref \<Rightarrow> int \<Rightarrow> db \<Rightarrow> db" where
  "session_link sid ref now d =
     (if sid = [] \<or> \<not> item_ref_known ref then d
      else d\<lparr>db_sessions := sql_insert_ignore (\<lambda>r. (sr_session r, sr_ref r))
             \<lparr>sr_session = sid, sr_ref = ref, sr_created = now\<rparr> (db_sessions d)\<rparr>)"

definition session_list :: "item_ref \<Rightarrow> db \<Rightarrow> session_row list" where
  "session_list ref d =
     (if \<not> item_ref_known ref then []
      else rev (sort_key sr_created (sort_key sr_session (filter (\<lambda>r. sr_ref r = ref) (db_sessions d)))))"

definition session_unlink :: "string list \<Rightarrow> db \<Rightarrow> db" where
  "session_unlink sids d =
     fold (\<lambda>sid d. d\<lparr>db_sessions := sql_delete (\<lambda>r. sr_session r = sid) (db_sessions d)\<rparr>) sids d"

definition sessions_delete_by_profile :: "string \<Rightarrow> db \<Rightarrow> db" where
  "sessions_delete_by_profile profile d =
     d\<lparr>db_sessions := sql_delete (\<lambda>r. ir_profile (sr_ref r) = profile) (db_sessions d)\<rparr>"

text \<open>\<open>UPDATE OR IGNORE\<close> moves the rows one at a time and leaves a row whose target exists.\<close>

definition unscoped_link :: "string \<Rightarrow> string \<Rightarrow> string \<Rightarrow> session_row \<Rightarrow> bool" where
  "unscoped_link profile kind ext r \<longleftrightarrow>
     sr_ref r = \<lparr>ir_profile = profile, ir_kind = kind, ir_scope = [], ir_external = ext\<rparr>"

fun rescope_rows :: "string \<Rightarrow> string \<Rightarrow> string \<Rightarrow> string \<Rightarrow> session_row list \<Rightarrow> session_row list \<Rightarrow> session_row list" where
  "rescope_rows profile kind ext scope before [] = before"
| "rescope_rows profile kind ext scope before (r # rest) =
     (let moved = r\<lparr>sr_ref := (sr_ref r)\<lparr>ir_scope := scope\<rparr>\<rparr>;
          r' = (if unscoped_link profile kind ext r \<and>
                   \<not> list_ex (\<lambda>s. (sr_session s, sr_ref s) = (sr_session moved, sr_ref moved)) (before @ rest)
                then moved else r)
      in rescope_rows profile kind ext scope (before @ [r']) rest)"

definition session_rescope :: "string \<Rightarrow> string \<Rightarrow> string \<Rightarrow> string \<Rightarrow> db \<Rightarrow> db" where
  "session_rescope profile kind ext scope d =
     d\<lparr>db_sessions := sql_delete (unscoped_link profile kind ext)
         (rescope_rows profile kind ext scope [] (db_sessions d))\<rparr>"

section \<open>Node runs\<close>

definition node_run_insert :: "node_run \<Rightarrow> int \<Rightarrow> db \<Rightarrow> db" where
  "node_run_insert nr ended d = d\<lparr>db_runs := db_runs d @ [\<lparr>rr_run = nr, rr_ended = ended\<rparr>]\<rparr>"

definition node_run_list :: "string \<Rightarrow> nat \<Rightarrow> db \<Rightarrow> node_run_row list" where
  "node_run_list flow limit d =
     take limit (sort_key (\<lambda>r. - rr_ended r) (filter (\<lambda>r. nr_flow (rr_run r) = flow) (db_runs d)))"

section \<open>The constraints survive\<close>

lemma claims_ok_delete [preserves]:
  "db_ok d \<Longrightarrow> db_ok (claims_delete P d)"
  by (auto simp: claims_delete_def db_ok_def claims_ok_def sql_delete_def)

lemmas claim_deletes = claims_delete_not_in_snapshot_def claims_delete_for_source_all_def
  claims_delete_for_feeds_def claims_delete_for_removed_sources_def claims_delete_unarchived_def
  claims_delete_by_profile_def

lemma claim_deletes_ok [preserves]:
  assumes "db_ok d"
  shows "db_ok (claims_delete_not_in_snapshot feed src ids d)"
    and "db_ok (claims_delete_for_source_all feed src d)"
    and "db_ok (claims_delete_for_feeds profile keep d)"
    and "db_ok (claims_delete_for_removed_sources profile keep d)"
    and "db_ok (claims_delete_unarchived profile d)"
    and "db_ok (claims_delete_by_profile profile d)"
  using claims_ok_delete [OF assms] by (simp_all add: claim_deletes)

lemma item_exists_mem: "item_exists i d \<longleftrightarrow> i \<in> it_id ` set (db_items d)"
  unfolding item_exists_def list_ex_iff by blast

lemma claims_ok_insert:
  "claims_ok cs its \<Longrightarrow> c \<notin> set cs \<Longrightarrow> fc_item c \<in> it_id ` set its \<Longrightarrow> claims_ok (cs @ [c]) its"
  by (simp add: claims_ok_def)

lemma claim_upsert_ok [preserves]: "db_ok d \<Longrightarrow> claim_upsert c d = Inr d' \<Longrightarrow> db_ok d'"
  using claims_ok_insert [of "db_claims d" "db_items d" c]
  by (simp add: claim_upsert_def db_ok_def item_exists_mem split: if_splits) force

lemma claim_upsert_known: "item_exists (fc_item c) d \<Longrightarrow> \<exists>d'. claim_upsert c d = Inr d'"
  by (simp add: claim_upsert_def)

lemma claim_upsert_set: "claim_upsert c d = Inr d' \<Longrightarrow> set (db_claims d') = insert c (set (db_claims d))"
  by (auto simp: claim_upsert_def split: if_splits)

lemma head_upsert_ok [preserves]: "db_ok d \<Longrightarrow> head_upsert t k p d = Inr d' \<Longrightarrow> db_ok d'"
  by (auto simp: head_upsert_def db_ok_def heads_ok_def split: if_splits intro!: unique_on_upsert)

lemma head_payload_upsert:
  assumes "head_upsert t k p d = Inr d'"
  shows "head_payload t' k' d' = (if (t', k') = (t, k) then Some p else head_payload t' k' d)"
proof -
  have "find (\<lambda>r. (hd_topic r, hd_key r) = (t', k')) (sql_upsert (\<lambda>r. (hd_topic r, hd_key r))
      \<lparr>hd_topic = t, hd_key = k, hd_payload = p\<rparr> (\<lambda>r. r\<lparr>hd_payload := p\<rparr>) (db_heads d)) =
    (if (t', k') = (t, k) then Some (case find (\<lambda>r. (hd_topic r, hd_key r) = (t', k')) (db_heads d) of
        None \<Rightarrow> \<lparr>hd_topic = t, hd_key = k, hd_payload = p\<rparr> | Some r \<Rightarrow> r\<lparr>hd_payload := p\<rparr>)
     else find (\<lambda>r. (hd_topic r, hd_key r) = (t', k')) (db_heads d))"
    by (subst find_key_upsert) auto
  moreover have "d' = d\<lparr>db_heads := sql_upsert (\<lambda>r. (hd_topic r, hd_key r))
      \<lparr>hd_topic = t, hd_key = k, hd_payload = p\<rparr> (\<lambda>r. r\<lparr>hd_payload := p\<rparr>) (db_heads d)\<rparr>"
    using assms by (auto simp: head_upsert_def split: if_splits)
  ultimately show ?thesis by (auto simp: head_payload_def split: option.split)
qed

lemma session_link_ok [preserves]: "db_ok d \<Longrightarrow> db_ok (session_link sid ref now d)"
  by (auto simp: session_link_def db_ok_def sessions_ok_def intro!: unique_on_insert_ignore)

lemma unique_on_swap:
  assumes "unique_on key (before @ r # rest)" and "key r' = key r \<or> (\<forall>s\<in>set (before @ rest). key s \<noteq> key r')"
  shows "unique_on key (before @ r' # rest)"
  using assms by (auto simp: unique_on_def image_iff)

lemma rescope_rows_unique:
  "unique_on (\<lambda>r. (sr_session r, sr_ref r)) (before @ rows) \<Longrightarrow>
   unique_on (\<lambda>r. (sr_session r, sr_ref r)) (rescope_rows profile kind ext scope before rows)"
proof (induction rows arbitrary: before)
  case (Cons r rows)
  let ?k = "\<lambda>r. (sr_session r, sr_ref r)"
  let ?m = "r\<lparr>sr_ref := (sr_ref r)\<lparr>ir_scope := scope\<rparr>\<rparr>"
  let ?r' = "if unscoped_link profile kind ext r \<and> \<not> list_ex (\<lambda>s. ?k s = ?k ?m) (before @ rows) then ?m else r"
  have "unique_on ?k (before @ ?r' # rows)"
    by (rule unique_on_swap [OF Cons.prems]) (auto simp: list_ex_iff)
  then have "unique_on ?k ((before @ [?r']) @ rows)" by simp
  from Cons.IH [OF this] show ?case by (simp add: Let_def)
qed simp

lemma session_rescope_ok [preserves]: "db_ok d \<Longrightarrow> db_ok (session_rescope profile kind ext scope d)"
  using rescope_rows_unique [of "[]"]
  by (auto simp: session_rescope_def db_ok_def sessions_ok_def intro!: unique_on_delete)

lemma node_run_insert_ok [preserves]: "db_ok d \<Longrightarrow> db_ok (node_run_insert nr ended d)"
  by (simp add: node_run_insert_def db_ok_def)

end
