(* ===== verification/Commands.thy ===== *)
theory Commands
  imports Claims
begin

text \<open>
  Queued output commands (\<open>store_output_command.go\<close>), the jobs that show them to the user
  (\<open>store_job.go\<close>, \<open>job_service.go\<close>), and the recovery of both at startup
  (\<open>queries/output_command.go\<close>).
\<close>

section \<open>The command store\<close>

definition max_stream_bytes :: nat where
  "max_stream_bytes = 64 * 1024"

definition stream_marker :: string where
  "stream_marker = CHR 0x0A # ''... (truncated)''"

definition bound_stream :: "string \<Rightarrow> string" where
  "bound_stream s =
     (if length s \<le> max_stream_bytes then s
      else take (max_stream_bytes - length stream_marker) s @ stream_marker)"

definition no_ref :: item_ref where
  "no_ref = \<lparr>ir_profile = [], ir_kind = [], ir_scope = [], ir_external = []\<rparr>"

definition list_runnable_after :: "int \<Rightarrow> nat \<Rightarrow> db \<Rightarrow> command_row list" where
  "list_runnable_after after limit d =
     take limit (sort_key oc_id (filter (\<lambda>r. oc_status r = CmdPending \<and> after < oc_id r) (db_commands d)))"

definition new_command ::
  "int \<Rightarrow> string \<Rightarrow> string \<Rightarrow> bytes \<Rightarrow> command_status \<Rightarrow> int \<Rightarrow> bool \<Rightarrow> item_ref \<Rightarrow> command_row" where
  "new_command i action key payload status created rerun ref =
     \<lparr>oc_id = i, oc_action = action, oc_key = key, oc_payload = payload, oc_status = status,
      oc_attempts = 0, oc_error = None, oc_result = None, oc_stdout = None, oc_stderr = None,
      oc_created = created, oc_rerun = rerun, oc_ref = ref\<rparr>"

definition add_command ::
  "string \<Rightarrow> string \<Rightarrow> bytes \<Rightarrow> command_status \<Rightarrow> int \<Rightarrow> bool \<Rightarrow> item_ref \<Rightarrow> db \<Rightarrow> command_row \<times> db" where
  "add_command action key payload status created rerun ref d =
     (let i = db_command_seq d + 1; r = new_command i action key payload status created rerun ref
      in (r, d\<lparr>db_commands := db_commands d @ [r], db_command_seq := i\<rparr>))"

definition original_command :: "string \<Rightarrow> string \<Rightarrow> db \<Rightarrow> command_row option" where
  "original_command action key d =
     find (\<lambda>r. command_key r = (action, key) \<and> \<not> oc_rerun r) (db_commands d)"

definition enqueue_command ::
  "string \<Rightarrow> string \<Rightarrow> bytes \<Rightarrow> int \<Rightarrow> item_ref \<Rightarrow> db \<Rightarrow> (store_error, db) result" where
  "enqueue_command action key payload created ref d =
     (if payload = [] then Inl (NullViolation ''output_command.payload'')
      else if original_command action key d \<noteq> None then Inr d
      else Inr (snd (add_command action key payload CmdPending created False ref d)))"

definition latest_for_action :: "string \<Rightarrow> string \<Rightarrow> db \<Rightarrow> command_row option" where
  "latest_for_action action key d =
     (case rev (sort_key oc_id (filter (\<lambda>r. command_key r = (action, key)) (db_commands d))) of
        [] \<Rightarrow> None | r # _ \<Rightarrow> Some r)"

definition claim_command :: "item_ref \<Rightarrow> command_row \<Rightarrow> command_row" where
  "claim_command ref r =
     r\<lparr>oc_status := CmdRunning, oc_ref := (if item_ref_known (oc_ref r) then oc_ref r else ref)\<rparr>"

definition confirm_command ::
  "string \<Rightarrow> string \<Rightarrow> bytes \<Rightarrow> item_ref \<Rightarrow> int \<Rightarrow> db \<Rightarrow> (store_error, (command_row \<times> bool) \<times> db) result" where
  "confirm_command action key payload ref now d =
     (if payload = [] then Inl (NullViolation ''output_command.payload'')
      else case original_command action key d of
        None \<Rightarrow>
          (case add_command action key payload CmdRunning now False ref d of
             (r, d') \<Rightarrow> Inr ((r, True), d'))
      | Some r \<Rightarrow>
          if oc_status r = CmdPending then
            Inr ((claim_command ref r, True),
                 d\<lparr>db_commands := sql_update (\<lambda>x. oc_id x = oc_id r) (claim_command ref) (db_commands d)\<rparr>)
          else
            case latest_for_action action key d of
              None \<Rightarrow> Inl (NotFound ''output_command'')
            | Some x \<Rightarrow> Inr ((x, False), d))"

definition rerun_command ::
  "string \<Rightarrow> string \<Rightarrow> bytes \<Rightarrow> item_ref \<Rightarrow> int \<Rightarrow> db \<Rightarrow> (store_error, command_row \<times> db) result" where
  "rerun_command action key payload ref now d =
     (let same = filter (\<lambda>r. command_key r = (action, key)) (db_commands d)
      in if list_ex (\<lambda>r. oc_status r \<in> {CmdDone, CmdFailed}) same \<and>
            \<not> list_ex (\<lambda>r. oc_status r \<in> {CmdPending, CmdRunning}) same
         then (if payload = [] then Inl (NullViolation ''output_command.payload'')
               else Inr (add_command action key payload CmdRunning now True ref d))
         else Inl (NotFound ''output_command''))"

definition get_command :: "int \<Rightarrow> db \<Rightarrow> (store_error, command_row) result" where
  "get_command i d =
     (case find (\<lambda>r. oc_id r = i) (db_commands d) of
        None \<Rightarrow> Inl (NotFound ''output_command'') | Some r \<Rightarrow> Inr r)"

definition update_command :: "int \<Rightarrow> (command_row \<Rightarrow> command_row) \<Rightarrow> db \<Rightarrow> db" where
  "update_command i f d = d\<lparr>db_commands := sql_update (\<lambda>r. oc_id r = i) f (db_commands d)\<rparr>"

definition mark_done :: "int \<Rightarrow> string \<Rightarrow> string \<Rightarrow> string \<Rightarrow> db \<Rightarrow> db" where
  "mark_done i result out err d =
     update_command i (\<lambda>r. r\<lparr>oc_status := CmdDone, oc_error := None, oc_result := null_str result,
       oc_stdout := null_str (bound_stream out), oc_stderr := null_str (bound_stream err)\<rparr>) d"

definition mark_failed :: "int \<Rightarrow> string \<Rightarrow> string \<Rightarrow> string \<Rightarrow> db \<Rightarrow> db" where
  "mark_failed i e out err d =
     update_command i (\<lambda>r. r\<lparr>oc_status := CmdFailed, oc_attempts := oc_attempts r + 1, oc_error := null_str e,
       oc_stdout := null_str (bound_stream out), oc_stderr := null_str (bound_stream err)\<rparr>) d"

definition retry_command :: "int \<Rightarrow> string \<Rightarrow> string \<Rightarrow> string \<Rightarrow> db \<Rightarrow> db" where
  "retry_command i e out err d =
     update_command i (\<lambda>r. r\<lparr>oc_attempts := oc_attempts r + 1, oc_error := null_str e,
       oc_stdout := null_str (bound_stream out), oc_stderr := null_str (bound_stream err)\<rparr>) d"

definition count_nonterminal :: "string \<Rightarrow> db \<Rightarrow> int" where
  "count_nonterminal action d =
     changes (\<lambda>r. oc_action r = action \<and> oc_status r \<in> {CmdPending, CmdRunning}) (db_commands d)"

section \<open>Jobs\<close>

fun step_for :: "job_status \<Rightarrow> string" where
  "step_for JobQueued = ''Queued''"
| "step_for JobRunning = ''Running'' @ [CHR 0xE2, CHR 0x80, CHR 0xA6]"
| "step_for JobDone = ''Completed''"
| "step_for JobFailed = ''Failed''"

definition job_insert :: "job_status \<Rightarrow> string \<Rightarrow> string \<Rightarrow> string \<Rightarrow> string \<Rightarrow> string \<Rightarrow> int \<Rightarrow> db \<Rightarrow> int \<times> db" where
  "job_insert status label step action target err now d =
     (let i = db_job_seq d + 1
      in (i, d\<lparr>db_jobs := db_jobs d @
               [\<lparr>jb_id = i, jb_created = now, jb_updated = now, jb_status = status, jb_label = label,
                 jb_step = step, jb_action = action, jb_target = target, jb_error = err,
                 jb_command = None\<rparr>],
             db_job_seq := i\<rparr>))"

definition job_begin :: "string \<Rightarrow> string \<Rightarrow> string \<Rightarrow> int \<Rightarrow> db \<Rightarrow> int \<times> db" where
  "job_begin label action target now d =
     job_insert JobQueued label (step_for JobQueued) action target [] now d"

definition job_update :: "int \<Rightarrow> (job_row \<Rightarrow> job_row) \<Rightarrow> db \<Rightarrow> db" where
  "job_update i f d = d\<lparr>db_jobs := sql_update (\<lambda>r. jb_id r = i) f (db_jobs d)\<rparr>"

definition job_running :: "int \<Rightarrow> int \<Rightarrow> int \<Rightarrow> db \<Rightarrow> db" where
  "job_running i command now d =
     (if i = 0 then d
      else job_update i (\<lambda>r. r\<lparr>jb_updated := now, jb_status := JobRunning,
             jb_step := step_for JobRunning, jb_command := Some command\<rparr>) d)"

definition job_set_status :: "int \<Rightarrow> job_status \<Rightarrow> string \<Rightarrow> int \<Rightarrow> db \<Rightarrow> db" where
  "job_set_status i status err now d =
     (if i = 0 then d
      else job_update i (\<lambda>r. r\<lparr>jb_updated := now, jb_status := status, jb_step := step_for status,
             jb_error := err\<rparr>) d)"

definition job_done :: "int \<Rightarrow> int \<Rightarrow> db \<Rightarrow> db" where
  "job_done i now d = job_set_status i JobDone [] now d"

definition job_fail :: "int \<Rightarrow> string \<Rightarrow> int \<Rightarrow> db \<Rightarrow> db" where
  "job_fail i reason now d = job_set_status i JobFailed reason now d"

definition job_resume :: "int \<Rightarrow> db \<Rightarrow> int" where
  "job_resume command d =
     (case rev (sort_key jb_id (filter (\<lambda>r. jb_command r = Some command \<and> jb_status r = JobRunning) (db_jobs d))) of
        [] \<Rightarrow> 0 | r # _ \<Rightarrow> jb_id r)"

text \<open>\<open>Track\<close> up to the point where the tracked function starts.\<close>

definition job_track_start :: "string \<Rightarrow> string \<Rightarrow> string \<Rightarrow> int \<Rightarrow> db \<Rightarrow> int \<times> db" where
  "job_track_start label action target now d =
     (case job_begin label action target now d of (i, d') \<Rightarrow> (i, job_set_status i JobRunning [] now d'))"

definition job_list :: "int \<Rightarrow> int \<Rightarrow> db \<Rightarrow> job_row list" where
  "job_list before limit d =
     (let n = (if limit \<le> 0 \<or> 1000 < limit then 200 else limit);
          upper = (if before \<le> 0 then 2 ^ 63 - 1 else before)
      in take (nat n) (rev (sort_key jb_id (filter (\<lambda>r. jb_id r < upper) (db_jobs d)))))"

definition linger_window :: int where
  "linger_window = 4000"

definition job_list_active :: "int \<Rightarrow> db \<Rightarrow> job_row list" where
  "job_list_active now d =
     rev (sort_key jb_id (filter (\<lambda>r. jb_status r \<in> {JobQueued, JobRunning} \<or>
        jb_updated r \<ge> now - linger_window) (db_jobs d)))"

section \<open>Recovery at startup\<close>

definition interrupted_error :: string where
  "interrupted_error = ''interrupted: application stopped while action was running''"

definition interrupted_job :: "db \<Rightarrow> job_row \<Rightarrow> bool" where
  "interrupted_job d r \<longleftrightarrow>
     (jb_status r = JobQueued \<and> jb_command r = None) \<or>
     (jb_status r = JobRunning \<and>
      list_ex (\<lambda>c. jb_command r = Some (oc_id c) \<and> oc_status c = CmdRunning) (db_commands d))"

definition recover_interrupted :: "int \<Rightarrow> db \<Rightarrow> db" where
  "recover_interrupted now d =
     (let d1 = d\<lparr>db_jobs := sql_update (interrupted_job d)
            (\<lambda>r. r\<lparr>jb_status := JobFailed, jb_step := ''Failed'', jb_error := interrupted_error,
                   jb_updated := now\<rparr>) (db_jobs d)\<rparr>
      in d1\<lparr>db_commands := sql_update (\<lambda>r. oc_status r = CmdRunning)
            (\<lambda>r. r\<lparr>oc_status := CmdFailed, oc_attempts := oc_attempts r + 1,
                   oc_error := Some interrupted_error\<rparr>) (db_commands d1)\<rparr>)"

section \<open>The constraints survive\<close>

lemma find_original_unique:
  assumes "db_ok d" and "r \<in> set (db_commands d)" and "\<not> oc_rerun r"
  shows "original_command (oc_action r) (oc_key r) d = Some r"
proof -
  have u: "unique_on command_key (filter (\<lambda>r. \<not> oc_rerun r) (db_commands d))"
    using assms(1) by (simp add: db_ok_def commands_ok_def)
  have "find (\<lambda>x. command_key x = command_key r) (filter (\<lambda>r. \<not> oc_rerun r) (db_commands d)) = Some r"
    by (rule find_key_mem [OF u]) (use assms in simp)
  moreover have "find P (filter Q xs) = find (\<lambda>x. P x \<and> Q x) xs" for P Q and xs :: "command_row list"
    by (induction xs) auto
  ultimately show ?thesis by (simp add: original_command_def command_key_def [of r])
qed

lemma original_command_mem:
  "original_command a k d = Some r \<Longrightarrow> r \<in> set (db_commands d) \<and> command_key r = (a, k) \<and> \<not> oc_rerun r"
  unfolding original_command_def by (rule find_Some_mem)

lemma add_command_ok:
  assumes "db_ok d" and "add_command a k p st c rr ref d = (r, d')"
    and "\<not> rr \<Longrightarrow> original_command a k d = None"
  shows "db_ok d'"
proof -
  let ?n = "db_command_seq d" and ?cs = "db_commands d"
  have cs: "commands_ok ?cs ?n" using assms(1) by (simp add: db_ok_def)
  then have "\<forall>x\<in>set ?cs. oc_id x \<noteq> ?n + 1 \<and> oc_id x \<le> ?n + 1"
    by (intro seq_fresh) (simp add: commands_ok_def)
  moreover have "\<forall>x\<in>set ?cs. \<not> oc_rerun x \<longrightarrow> command_key x \<noteq> (a, k)" if "\<not> rr"
    using assms(3) [OF that] by (auto simp: original_command_def find_None_conv)
  ultimately have "commands_ok (?cs @ [new_command (?n + 1) a k p st c rr ref]) (?n + 1)"
    using cs by (auto simp: commands_ok_def unique_on_insert new_command_def command_key_def)
  then show ?thesis using assms(1,2) by (auto simp: add_command_def Let_def db_ok_def)
qed

lemma enqueue_ok [preserves]: "db_ok d \<Longrightarrow> enqueue_command a k p c ref d = Inr d' \<Longrightarrow> db_ok d'"
  by (cases "add_command a k p CmdPending c False ref d")
    (auto simp: enqueue_command_def split: if_splits elim: add_command_ok)

lemma commands_ok_update:
  assumes "commands_ok cs n"
    and "\<And>r. oc_id (f r) = oc_id r" "\<And>r. command_key (f r) = command_key r" "\<And>r. oc_rerun (f r) = oc_rerun r"
  shows "commands_ok (sql_update P f cs) n"
proof -
  have "filter (\<lambda>r. \<not> oc_rerun r) (sql_update P f cs) = sql_update P f (filter (\<lambda>r. \<not> oc_rerun r) cs)"
    by (induction cs) (auto simp: sql_update_def assms(4))
  then show ?thesis
    using assms by (auto simp: commands_ok_def sql_update_def intro!: unique_on_update [unfolded sql_update_def])
qed

lemma db_ok_commands_update:
  assumes "db_ok d"
    and "\<And>r. oc_id (f r) = oc_id r" "\<And>r. command_key (f r) = command_key r" "\<And>r. oc_rerun (f r) = oc_rerun r"
  shows "db_ok (d\<lparr>db_commands := sql_update P f (db_commands d)\<rparr>)"
  using assms commands_ok_update [of "db_commands d" "db_command_seq d" f P] by (simp add: db_ok_def)

lemma command_updates_ok [preserves]:
  assumes "db_ok d"
  shows "db_ok (mark_done i res out err d)" and "db_ok (mark_failed i e out err d)"
    and "db_ok (retry_command i e out err d)"
  unfolding mark_done_def mark_failed_def retry_command_def update_command_def
  by (rule db_ok_commands_update [OF assms]; simp add: command_key_def)+

lemma confirm_ok [preserves]:
  assumes "db_ok d" and "confirm_command a k p ref now d = Inr ((r, b), d')"
  shows "db_ok d'"
proof (cases "original_command a k d")
  case None
  then show ?thesis using assms
    by (cases "add_command a k p CmdRunning now False ref d")
      (auto simp: confirm_command_def split: if_splits elim: add_command_ok)
next
  case (Some x)
  have "db_ok (d\<lparr>db_commands := sql_update (\<lambda>y. oc_id y = oc_id x) (claim_command ref) (db_commands d)\<rparr>)"
    by (rule db_ok_commands_update [OF assms(1)]) (simp_all add: claim_command_def command_key_def)
  then show ?thesis using assms Some by (auto simp: confirm_command_def split: if_splits option.splits)
qed

lemma rerun_ok [preserves]: "db_ok d \<Longrightarrow> rerun_command a k p ref now d = Inr (r, d') \<Longrightarrow> db_ok d'"
  by (auto simp: rerun_command_def Let_def split: if_splits elim: add_command_ok)

lemma jobs_ok_update:
  assumes "db_ok d" and "\<And>r. jb_id (f r) = jb_id r"
  shows "db_ok (d\<lparr>db_jobs := sql_update P f (db_jobs d)\<rparr>)"
proof -
  have "unique_on jb_id (sql_update P f (db_jobs d))"
    by (rule unique_on_update) (use assms in \<open>simp_all add: db_ok_def ids_ok_def\<close>)
  then show ?thesis using assms by (auto simp: db_ok_def ids_ok_def sql_update_def)
qed

lemma job_ops_ok [preserves]:
  assumes "db_ok d"
  shows "db_ok (job_running i c now d)" and "db_ok (job_set_status i st e now d)"
    and "db_ok (job_done i now d)" and "db_ok (job_fail i e now d)"
  using assms by (simp_all add: job_running_def job_done_def job_fail_def job_set_status_def job_update_def jobs_ok_update)

lemma job_begin_ok [preserves]:
  assumes "db_ok d" and "job_begin l a t now d = (i, d')"
  shows "db_ok d'"
proof -
  have "\<forall>r\<in>set (db_jobs d). jb_id r \<noteq> db_job_seq d + 1 \<and> jb_id r \<le> db_job_seq d + 1"
    using assms(1) by (intro seq_fresh) (simp add: db_ok_def ids_ok_def)
  then show ?thesis using assms
    by (auto simp: job_begin_def job_insert_def Let_def db_ok_def ids_ok_def unique_on_insert)
qed

lemma recover_ok [preserves]: "db_ok d \<Longrightarrow> db_ok (recover_interrupted now d)"
  unfolding recover_interrupted_def Let_def
  by (intro db_ok_commands_update jobs_ok_update) (simp_all add: command_key_def)

end
