(* ===== verification/Inbox.thy ===== *)
theory Inbox
  imports Claims "HOL-Library.Product_Lexorder"
begin

text \<open>
  \<open>InboxItemStore\<close> (\<open>internal/app/data/stores/store_inbox_item.go\<close>): scoped resolution with the
  repair of rows written before items had a scope, synthesized items, the ingest of one
  observation, the triage writes guarded by a revision, and the views of the inbox. An
  operation that fails returns its error; the transaction around it leaves the database the
  caller already has. Row ids grow by one per inserted row.
\<close>

section \<open>Lookup and resolution\<close>

definition item_by_identity :: "string \<Rightarrow> string \<Rightarrow> string \<Rightarrow> string \<Rightarrow> db \<Rightarrow> item_row option" where
  "item_by_identity p k s e d = find (\<lambda>r. item_identity r = (p, k, s, e)) (db_items d)"

definition item_by_id :: "int \<Rightarrow> db \<Rightarrow> item_row option" where
  "item_by_id i d = find (\<lambda>r. it_id r = i) (db_items d)"

definition get_by_id :: "int \<Rightarrow> db \<Rightarrow> (store_error, item_row) result" where
  "get_by_id i d = (case item_by_id i d of None \<Rightarrow> Inl (NotFound ''inbox_item'') | Some r \<Rightarrow> Inr r)"

definition ref_by_id :: "int \<Rightarrow> db \<Rightarrow> (store_error, item_ref) result" where
  "ref_by_id i d =
     (case item_by_id i d of
        None \<Rightarrow> Inl (NotFound ''inbox_item'')
      | Some r \<Rightarrow> Inr \<lparr>ir_profile = it_profile r, ir_kind = it_kind r, ir_scope = it_scope r,
                       ir_external = it_external r\<rparr>)"

definition get_unarchived_by_id :: "int \<Rightarrow> string \<Rightarrow> db \<Rightarrow> (store_error, item_row) result" where
  "get_unarchived_by_id i profile d =
     (case find (\<lambda>r. it_id r = i \<and> it_profile r = profile \<and> it_archived r = None) (db_items d) of
        None \<Rightarrow> Inl (NotFound ''inbox_item'')
      | Some r \<Rightarrow> Inr r)"

definition rescope_item :: "string \<Rightarrow> int \<Rightarrow> db \<Rightarrow> db" where
  "rescope_item scope i d =
     d\<lparr>db_items := sql_update (\<lambda>r. it_id r = i) (\<lambda>r. r\<lparr>it_scope := scope\<rparr>) (db_items d)\<rparr>"

definition resolve_scoped :: "string \<Rightarrow> string \<Rightarrow> string \<Rightarrow> string \<Rightarrow> db \<Rightarrow> item_row option \<times> db" where
  "resolve_scoped p k s e d =
     (case item_by_identity p k s e d of
        Some r \<Rightarrow> (Some r, d)
      | None \<Rightarrow>
          if s = [] then (None, d)
          else case item_by_identity p k [] e d of
                 None \<Rightarrow> (None, d)
               | Some legacy \<Rightarrow>
                   (Some (legacy\<lparr>it_scope := s\<rparr>),
                    session_rescope p k e s (rescope_item s (it_id legacy) d)))"

definition resolve_scoped_id :: "string \<Rightarrow> string \<Rightarrow> string \<Rightarrow> string \<Rightarrow> db \<Rightarrow> int option \<times> db" where
  "resolve_scoped_id p k s e d =
     (case item_by_identity p k s e d of
        Some r \<Rightarrow> (Some (it_id r), d)
      | None \<Rightarrow>
          if s = [] then (None, d)
          else (case resolve_scoped p k s e d of (r, d') \<Rightarrow> (map_option it_id r, d')))"

definition id_by_external_id :: "string \<Rightarrow> string \<Rightarrow> string \<Rightarrow> string \<Rightarrow> db \<Rightarrow> int" where
  "id_by_external_id p k s e d =
     (if e = [] then 0
      else case item_by_identity p k s e d of None \<Rightarrow> 0 | Some r \<Rightarrow> it_id r)"

definition feed_id_for_item :: "string \<Rightarrow> int \<Rightarrow> db \<Rightarrow> string" where
  "feed_id_for_item profile i d =
     (case sort (map fc_feed (filter (\<lambda>c. fc_profile c = profile \<and> fc_item c = i) (db_claims d))) of
        [] \<Rightarrow> [] | f # _ \<Rightarrow> f)"

definition feed_ids_for_items :: "int list \<Rightarrow> db \<Rightarrow> (int, string) amap" where
  "feed_ids_for_items ids d =
     List.map_filter (\<lambda>i. case sort (map fc_feed (filter (\<lambda>c. fc_item c = i) (db_claims d))) of
         [] \<Rightarrow> None | f # _ \<Rightarrow> Some (i, f)) (remdups ids)"

section \<open>Synthesized items\<close>

definition insert_item :: "item_row \<Rightarrow> db \<Rightarrow> (store_error, item_row \<times> db) result" where
  "insert_item r d =
     (if list_ex (\<lambda>x. item_identity x = item_identity r) (db_items d)
      then Inl (UniqueViolation ''inbox_item'')
      else
        let i = db_item_seq d + 1; r' = r\<lparr>it_id := i\<rparr>
        in Inr (r', d\<lparr>db_items := db_items d @ [r'], db_item_seq := i\<rparr>))"

definition create_synthesized ::
  "json_scanner \<Rightarrow> string \<Rightarrow> string \<Rightarrow> string \<Rightarrow> string \<Rightarrow> bytes \<Rightarrow> int \<Rightarrow> db \<Rightarrow>
   (store_error, item_row \<times> db) result" where
  "create_synthesized J p k s e payload now d =
     (case feed_fields J payload of
        (title, url, updated) \<Rightarrow>
          insert_item \<lparr>it_id = 0, it_profile = p, it_kind = k, it_scope = s, it_external = e,
            it_title = (if title = [] then e else title), it_url = url, it_payload = payload,
            it_revision = 1, it_unread = True, it_archived = None, it_actor = None, it_reason = None,
            it_lifecycle = LifecycleActive, it_state = None, it_first_seen = now,
            it_last_event = (if updated = 0 then now else updated), it_ignored = None\<rparr> d)"

section \<open>Triage on a transition\<close>

record triage =
  tg_unread :: bool
  tg_archived :: "int option"
  tg_actor :: "archived_actor option"
  tg_reason :: string

definition apply_transition ::
  "int \<Rightarrow> triage \<Rightarrow> classification \<Rightarrow> resurface_policy \<Rightarrow> triage" where
  "apply_transition wall prev c policy =
     (if ck_transition c = Some EnteredTerminal then
        (if tg_actor prev = Some ActorManual \<and> tg_archived prev \<noteq> None then prev
         else prev\<lparr>tg_archived := Some wall, tg_actor := Some ActorSystem, tg_unread := False\<rparr>)
      else if tg_archived prev = None then
        (if ck_attention c = Some AttentionActivity \<or> ck_transition c = Some LeftTerminal
         then prev\<lparr>tg_unread := True\<rparr> else prev)
      else
        let resurface =
              (ck_transition c = Some LeftTerminal \<or>
               (tg_actor prev = Some ActorManual \<and> policy = PolicyAll \<and>
                ck_attention c = Some AttentionActivity));
            resurface =
              (if tg_actor prev = Some ActorSystem \<and> ck_transition c = Some LeftTerminal
               then True else resurface);
            resurface =
              (if tg_actor prev = Some ActorManual \<and> policy = PolicyNever then False else resurface)
        in if resurface then prev\<lparr>tg_archived := None, tg_actor := None, tg_unread := True\<rparr> else prev)"

definition archived_reason :: "triage \<Rightarrow> triage \<Rightarrow> classification \<Rightarrow> string" where
  "archived_reason prev nxt c =
     (if tg_archived nxt = None then []
      else if tg_archived prev \<noteq> None then
        (if tg_reason prev \<noteq> [] then tg_reason prev
         else if tg_actor nxt = Some ActorManual then ''manual'' else [])
      else if tg_actor nxt = Some ActorManual then ''manual''
      else ck_reason c)"

section \<open>Ingest\<close>

definition max_event_detail :: nat where
  "max_event_detail = 4096"

definition bound_event_detail :: "bytes \<Rightarrow> bytes" where
  "bound_event_detail detail =
     (if length detail \<le> max_event_detail then detail else take max_event_detail detail)"

definition observation_of :: "item_row \<Rightarrow> observation" where
  "observation_of r = \<lparr>ob_external = it_external r, ob_title = it_title r, ob_url = it_url r,
     ob_kind = it_kind r, ob_scope = it_scope r, ob_observed = it_last_event r, ob_payload = it_payload r\<rparr>"

definition or_default :: "'a option \<Rightarrow> 'a \<Rightarrow> 'a option" where
  "or_default v z = (case v of None \<Rightarrow> Some z | Some x \<Rightarrow> Some x)"

definition complete_classification :: "classification \<Rightarrow> classification" where
  "complete_classification c =
     c\<lparr>ck_transition := or_default (ck_transition c) TransitionNone,
       ck_attention := or_default (ck_attention c) AttentionTrivial,
       ck_lifecycle := or_default (ck_lifecycle c) LifecycleUnknown,
       ck_detail := bound_event_detail (ck_detail c)\<rparr>"

definition triage_of :: "item_row option \<Rightarrow> triage" where
  "triage_of prev =
     (case prev of
        None \<Rightarrow> \<lparr>tg_unread = False, tg_archived = None, tg_actor = None, tg_reason = []\<rparr>
      | Some r \<Rightarrow> \<lparr>tg_unread = it_unread r, tg_archived = it_archived r, tg_actor = it_actor r,
                   tg_reason = (case it_reason r of None \<Rightarrow> [] | Some s \<Rightarrow> s)\<rparr>)"

definition upsert_item :: "item_row \<Rightarrow> db \<Rightarrow> item_row \<times> db" where
  "upsert_item r d =
     (case find (\<lambda>x. item_identity x = item_identity r) (db_items d) of
        None \<Rightarrow>
          (let i = db_item_seq d + 1; r' = r\<lparr>it_id := i, it_revision := 1\<rparr>
           in (r', d\<lparr>db_items := db_items d @ [r'], db_item_seq := i\<rparr>))
      | Some old \<Rightarrow>
          (let upd = (\<lambda>x. x\<lparr>it_title := it_title r, it_url := it_url r, it_payload := it_payload r,
                 it_revision := it_revision x + 1, it_unread := it_unread r,
                 it_archived := it_archived r, it_actor := it_actor r, it_reason := it_reason r,
                 it_lifecycle := it_lifecycle r, it_state := it_state r,
                 it_last_event := it_last_event r\<rparr>)
           in (upd old, d\<lparr>db_items :=
                 sql_update (\<lambda>x. item_identity x = item_identity r) upd (db_items d)\<rparr>)))"

definition insert_inbox_event ::
  "int \<Rightarrow> string \<Rightarrow> transition \<Rightarrow> attention \<Rightarrow> string option \<Rightarrow> string option \<Rightarrow> bytes \<Rightarrow> int \<Rightarrow> db \<Rightarrow> db" where
  "insert_inbox_event item kind tr att occ summary detail now d =
     (if occ \<noteq> None \<and> list_ex (\<lambda>r. event_key r = (item, occ)) (db_inbox_events d) then d
      else
        let i = db_inbox_event_seq d + 1
        in d\<lparr>db_inbox_events := db_inbox_events d @
               [\<lparr>ie_id = i, ie_item = item, ie_kind = kind, ie_transition = tr, ie_attention = att,
                 ie_occurrence = occ, ie_summary = summary, ie_detail = detail, ie_created = now\<rparr>],
             db_inbox_event_seq := i\<rparr>)"

type_synonym classifier = "observation option \<Rightarrow> observation \<Rightarrow> classification"

record ingest_result =
  ig_item :: int
  ig_revision :: int
  ig_class :: "classification option"
  ig_wrote :: bool
  ig_offset :: int

definition ingested_row ::
  "string \<Rightarrow> observation \<Rightarrow> classification \<Rightarrow> triage \<Rightarrow> string \<Rightarrow> int \<Rightarrow> item_row" where
  "ingested_row profile cur c tg reason now =
     \<lparr>it_id = 0, it_profile = profile, it_kind = ob_kind cur, it_scope = ob_scope cur,
      it_external = ob_external cur, it_title = ob_title cur, it_url = ob_url cur,
      it_payload = ob_payload cur, it_revision = 1, it_unread = tg_unread tg,
      it_archived = tg_archived tg, it_actor = tg_actor tg, it_reason = null_str reason,
      it_lifecycle = the (ck_lifecycle c), it_state = null_str (ck_state c),
      it_first_seen = now, it_last_event = ob_observed cur, it_ignored = None\<rparr>"

definition note_transition :: "int \<Rightarrow> classification \<Rightarrow> int \<Rightarrow> db \<Rightarrow> db" where
  "note_transition item c now d =
     (if ck_transition c \<noteq> Some TransitionNone \<or> ck_attention c \<noteq> Some AttentionTrivial
      then insert_inbox_event item (ck_kind c) (the (ck_transition c)) (the (ck_attention c))
             (null_str (ck_occurrence c)) (null_str (ck_summary c)) (ck_detail c) now d
      else d)"

definition log_observation ::
  "string \<Rightarrow> observation \<Rightarrow> string \<Rightarrow> int \<Rightarrow> db \<Rightarrow> (store_error, int \<times> db) result" where
  "log_observation topic cur occ now d =
     res_bind (append_observation topic (ob_external cur) (ob_payload cur) (ob_kind cur) (ob_scope cur) occ now d)
       (\<lambda>(off, d4).
          res_bind (head_upsert topic (ob_external cur) (ob_payload cur)
                     (if occ = [] then backfill_occurrence_key off (format_int off) d4 else d4))
            (\<lambda>d6. Inr (off, d6)))"

text \<open>\<open>now\<close> is the store's clock, \<open>wall\<close> the \<open>time.Now\<close> that \<open>applyTransition\<close> reads.\<close>

definition ingest_observation ::
  "int \<Rightarrow> int \<Rightarrow> classifier option \<Rightarrow> string \<Rightarrow> string \<Rightarrow> resurface_policy \<Rightarrow> observation \<Rightarrow> db \<Rightarrow>
   (store_error, ingest_result \<times> db) result" where
  "ingest_observation now wall classify profile topic policy cur d =
     (case classify of
        None \<Rightarrow> Inl (BadArgument ''nil classifier'')
      | Some cl \<Rightarrow>
        if ob_external cur = [] then Inl (BadArgument ''external id is required'')
        else if head_payload topic (ob_external cur) d = Some (ob_payload cur) then
          Inr (\<lparr>ig_item = 0, ig_revision = 0, ig_class = None, ig_wrote = False, ig_offset = 0\<rparr>, d)
        else
          (case resolve_scoped profile (ob_kind cur) (ob_scope cur) (ob_external cur) d of
            (prev, d1) \<Rightarrow>
              let c = complete_classification (cl (map_option observation_of prev) cur);
                  prev_tg = triage_of prev;
                  tg = apply_transition wall prev_tg c (if policy = PolicyUnset then PolicyStateChanges else policy)
              in case upsert_item (ingested_row profile cur c tg (archived_reason prev_tg tg c) now) d1 of
                   (item, d2) \<Rightarrow>
                     res_bind (log_observation topic cur (ck_occurrence c) now
                                 (note_transition (it_id item) c now d2)) (\<lambda>(off, d').
                       Inr (\<lparr>ig_item = it_id item, ig_revision = it_revision item, ig_class = Some c,
                            ig_wrote = True, ig_offset = off\<rparr>, d'))))"

section \<open>Triage writes\<close>

definition guarded_update ::
  "int \<Rightarrow> int \<Rightarrow> (item_row \<Rightarrow> item_row) \<Rightarrow> db \<Rightarrow> (store_error, item_row \<times> db) result" where
  "guarded_update i rv f d =
     (let hit = (\<lambda>r. it_id r = i \<and> it_revision r = rv);
          g = (\<lambda>r. (f r)\<lparr>it_revision := it_revision r + 1\<rparr>)
      in case find hit (db_items d) of
           None \<Rightarrow> Inl StaleRevision
         | Some r \<Rightarrow> Inr (g r, d\<lparr>db_items := sql_update hit g (db_items d)\<rparr>))"

definition set_unread :: "int \<Rightarrow> int \<Rightarrow> bool \<Rightarrow> db \<Rightarrow> (store_error, item_row \<times> db) result" where
  "set_unread i rv b d = guarded_update i rv (\<lambda>r. r\<lparr>it_unread := b\<rparr>) d"

definition toggle_archived_row :: "int \<Rightarrow> item_row \<Rightarrow> item_row" where
  "toggle_archived_row now r =
     (if it_archived r = None
      then r\<lparr>it_ignored := None, it_archived := Some now, it_actor := Some ActorManual,
             it_reason := Some ''manual''\<rparr>
      else r\<lparr>it_archived := None, it_actor := None, it_reason := None\<rparr>)"

definition toggle_archived :: "int \<Rightarrow> int \<Rightarrow> int \<Rightarrow> db \<Rightarrow> (store_error, item_row \<times> db) result" where
  "toggle_archived now i rv d = guarded_update i rv (toggle_archived_row now) d"

definition toggle_ignored_row :: "int \<Rightarrow> item_row \<Rightarrow> item_row" where
  "toggle_ignored_row now r =
     (if it_ignored r = None
      then r\<lparr>it_ignored := Some now, it_unread := False, it_archived := None, it_actor := None,
             it_reason := None\<rparr>
      else r\<lparr>it_ignored := None, it_unread := True\<rparr>)"

definition toggle_ignored :: "int \<Rightarrow> int \<Rightarrow> int \<Rightarrow> db \<Rightarrow> (store_error, item_row \<times> db) result" where
  "toggle_ignored now i rv d = guarded_update i rv (toggle_ignored_row now) d"

definition claimed :: "(feed_claim \<Rightarrow> bool) \<Rightarrow> db \<Rightarrow> int \<Rightarrow> bool" where
  "claimed P d i \<longleftrightarrow> list_ex (\<lambda>c. fc_item c = i \<and> P c) (db_claims d)"

definition in_feed :: "string \<Rightarrow> string \<Rightarrow> feed_claim \<Rightarrow> bool" where
  "in_feed profile feed c \<longleftrightarrow> fc_profile c = profile \<and> (feed = [] \<or> fc_feed c = feed)"

definition mark_read :: "string \<Rightarrow> string \<Rightarrow> db \<Rightarrow> (store_error, int \<times> db) result" where
  "mark_read profile feed d =
     (if profile = [] then Inl (BadArgument ''profile id is required'')
      else
        let hit = (\<lambda>r. it_unread r \<and> it_archived r = None \<and> it_ignored r = None \<and>
                       claimed (in_feed profile feed) d (it_id r))
        in Inr (changes hit (db_items d),
                d\<lparr>db_items := sql_update hit
                    (\<lambda>r. r\<lparr>it_unread := False, it_revision := it_revision r + 1\<rparr>) (db_items d)\<rparr>))"

definition delete_items :: "(item_row \<Rightarrow> bool) \<Rightarrow> db \<Rightarrow> db" where
  "delete_items P d =
     (let keep = sql_delete P (db_items d); alive = (\<lambda>i. list_ex (\<lambda>r. it_id r = i) keep)
      in d\<lparr>db_items := keep,
           db_inbox_events := sql_delete (\<lambda>e. \<not> alive (ie_item e)) (db_inbox_events d),
           db_claims := sql_delete (\<lambda>c. \<not> alive (fc_item c)) (db_claims d)\<rparr>)"

definition delete_items_by_profile :: "string \<Rightarrow> db \<Rightarrow> db" where
  "delete_items_by_profile profile d = delete_items (\<lambda>r. it_profile r = profile) d"

section \<open>Views\<close>

definition newest_first :: "(item_row \<Rightarrow> int) \<Rightarrow> item_row list \<Rightarrow> item_row list" where
  "newest_first stamp rows = sort_key (\<lambda>r. (- stamp r, - it_id r)) rows"

definition list_by_feed :: "string \<Rightarrow> string \<Rightarrow> int \<Rightarrow> db \<Rightarrow> item_row list" where
  "list_by_feed profile feed limit d =
     take (nat limit) (newest_first it_last_event (filter (\<lambda>r. it_archived r = None \<and> it_ignored r = None \<and>
       claimed (\<lambda>c. fc_profile c = profile \<and> fc_feed c = feed) d (it_id r)) (db_items d)))"

definition list_archived_by_feed :: "string \<Rightarrow> string \<Rightarrow> int \<Rightarrow> db \<Rightarrow> item_row list" where
  "list_archived_by_feed profile feed limit d =
     take (nat limit) (newest_first (\<lambda>r. the (it_archived r)) (filter (\<lambda>r. it_archived r \<noteq> None \<and>
       it_ignored r = None \<and>
       claimed (\<lambda>c. fc_profile c = profile \<and> fc_feed c = feed) d (it_id r)) (db_items d)))"

definition list_trash :: "string \<Rightarrow> int \<Rightarrow> db \<Rightarrow> item_row list" where
  "list_trash profile limit d =
     take (nat limit) (newest_first it_last_event (filter (\<lambda>r. it_profile r = profile \<and>
       (it_ignored r \<noteq> None \<or> \<not> claimed (\<lambda>c. fc_profile c = it_profile r) d (it_id r))) (db_items d)))"

definition list_all :: "string \<Rightarrow> int \<Rightarrow> db \<Rightarrow> item_row list" where
  "list_all profile limit d =
     take (nat limit) (newest_first it_last_event
       (filter (\<lambda>r. profile = [] \<or> it_profile r = profile) (db_items d)))"

definition list_unarchived :: "string \<Rightarrow> db \<Rightarrow> item_row list" where
  "list_unarchived profile d = filter (\<lambda>r. it_profile r = profile \<and> it_archived r = None) (db_items d)"

definition list_unarchived_by_source :: "string \<Rightarrow> string \<Rightarrow> string \<Rightarrow> db \<Rightarrow> item_row list" where
  "list_unarchived_by_source profile kind scope d =
     sort_key (\<lambda>r. (it_last_event r, it_id r))
       (filter (\<lambda>r. it_profile r = profile \<and> it_kind r = kind \<and> it_scope r = scope \<and>
          it_archived r = None) (db_items d))"

definition find_by_external_id :: "string \<Rightarrow> string \<Rightarrow> db \<Rightarrow> item_row list" where
  "find_by_external_id profile ext d =
     sort_key (\<lambda>r. (it_profile r, it_kind r, it_scope r))
       (filter (\<lambda>r. it_external r = ext \<and> (profile = [] \<or> it_profile r = profile)) (db_items d))"

definition item_events :: "int \<Rightarrow> int \<Rightarrow> db \<Rightarrow> inbox_event_row list" where
  "item_events item limit d =
     take (nat limit) (sort_key (\<lambda>e. - ie_id e) (filter (\<lambda>e. ie_item e = item) (db_inbox_events d)))"

record feed_count =
  ct_feed :: string
  ct_total :: int
  ct_unread :: int
  ct_archived :: int

definition counted_feeds :: "string \<Rightarrow> db \<Rightarrow> string list" where
  "counted_feeds profile d =
     sort (remdups (map fc_feed (filter (\<lambda>c. fc_profile c = profile \<and>
       list_ex (\<lambda>r. it_id r = fc_item c \<and> it_ignored r = None) (db_items d)) (db_claims d))))"

definition count_in_feed :: "string \<Rightarrow> string \<Rightarrow> (item_row \<Rightarrow> bool) \<Rightarrow> db \<Rightarrow> int" where
  "count_in_feed profile feed P d =
     changes (\<lambda>r. it_ignored r = None \<and> P r \<and>
       claimed (\<lambda>c. fc_profile c = profile \<and> fc_feed c = feed) d (it_id r)) (db_items d)"

definition feed_counts :: "string \<Rightarrow> db \<Rightarrow> feed_count list" where
  "feed_counts profile d =
     map (\<lambda>f. \<lparr>ct_feed = f, ct_total = count_in_feed profile f (\<lambda>r. it_archived r = None) d,
               ct_unread = count_in_feed profile f (\<lambda>r. it_archived r = None \<and> it_unread r) d,
               ct_archived = count_in_feed profile f (\<lambda>r. it_archived r \<noteq> None) d\<rparr>)
       (counted_feeds profile d)"

end
