(* ===== verification/Inbox_Props.thy ===== *)
theory Inbox_Props
  imports Inbox
begin

text \<open>
  What the inbox guarantees: every write keeps the schema's constraints, an ingest is total
  and idempotent per payload, the triage policy, optimistic revisions, the repair of unscoped
  rows, and how the views split the inbox.
\<close>

section \<open>Constraints under updates of the item table\<close>

lemma inbox_events_ok_grow:
  "inbox_events_ok ies n its \<Longrightarrow> it_id ` set its \<subseteq> it_id ` set its' \<Longrightarrow> inbox_events_ok ies n its'"
  unfolding inbox_events_ok_def by blast

lemma claims_ok_grow:
  "claims_ok cs its \<Longrightarrow> it_id ` set its \<subseteq> it_id ` set its' \<Longrightarrow> claims_ok cs its'"
  unfolding claims_ok_def by blast

lemma items_ok_append:
  assumes "items_ok its n" and "it_id r = n + 1" and "archive_check r"
    and "\<forall>x\<in>set its. item_identity x \<noteq> item_identity r"
  shows "items_ok (its @ [r]) (n + 1)"
  using assms seq_fresh [of its it_id n] by (simp add: items_ok_def unique_on_insert)

lemma items_ok_update:
  assumes "items_ok its n"
    and f: "\<And>r. r \<in> set its \<Longrightarrow> P r \<Longrightarrow>
      it_id (f r) = it_id r \<and> item_identity (f r) = item_identity r \<and> archive_check (f r)"
  shows "items_ok (sql_update P f its) n"
proof -
  have "unique_on it_id (sql_update P f its)" "unique_on item_identity (sql_update P f its)"
    using assms(1) f by (auto simp: items_ok_def intro!: unique_on_update)
  then show ?thesis using assms(1) f by (auto simp: items_ok_def sql_update_def)
qed

lemma ids_update:
  assumes "\<And>r. P r \<Longrightarrow> it_id (f r) = it_id r"
  shows "it_id ` set (sql_update P f its) = it_id ` set its"
  using arg_cong [OF map_key_update [of its P it_id f], of set] assms by simp

lemma db_ok_items:
  assumes "db_ok d" and "items_ok its n" and "it_id ` set (db_items d) \<subseteq> it_id ` set its"
  shows "db_ok (d\<lparr>db_items := its, db_item_seq := n\<rparr>)"
  using assms inbox_events_ok_grow [OF _ assms(3), of "db_inbox_events d" "db_inbox_event_seq d"]
    claims_ok_grow [OF _ assms(3), of "db_claims d"]
  by (simp add: db_ok_def)

lemma db_ok_items_update:
  assumes "db_ok d"
    and "\<And>r. it_id (f r) = it_id r" and "\<And>r. item_identity (f r) = item_identity r"
    and "\<And>r. r \<in> set (db_items d) \<Longrightarrow> P r \<Longrightarrow> archive_check (f r)"
  shows "db_ok (d\<lparr>db_items := sql_update P f (db_items d)\<rparr>)"
proof -
  have "items_ok (sql_update P f (db_items d)) (db_item_seq d)"
    by (rule items_ok_update) (use assms in \<open>simp_all add: db_ok_def\<close>)
  moreover have "it_id ` set (db_items d) \<subseteq> it_id ` set (sql_update P f (db_items d))"
    using assms(2) by (simp add: ids_update)
  ultimately have "db_ok (d\<lparr>db_items := sql_update P f (db_items d), db_item_seq := db_item_seq d\<rparr>)"
    by (rule db_ok_items [OF assms(1)])
  then show ?thesis by simp
qed

lemma db_ok_items_append:
  assumes "db_ok d" and "it_id r = db_item_seq d + 1" and "archive_check r"
    and "\<forall>x\<in>set (db_items d). item_identity x \<noteq> item_identity r"
  shows "db_ok (d\<lparr>db_items := db_items d @ [r], db_item_seq := db_item_seq d + 1\<rparr>)"
  by (rule db_ok_items [OF assms(1)], rule items_ok_append)
    (use assms in \<open>simp_all add: db_ok_def subset_insertI\<close>)

lemma item_identity_simps [simp]:
  "item_identity (r\<lparr>it_id := i\<rparr>) = item_identity r"
  "item_identity (r\<lparr>it_revision := v\<rparr>) = item_identity r"
  "item_identity (r\<lparr>it_unread := b\<rparr>) = item_identity r"
  "item_identity (r\<lparr>it_archived := a\<rparr>) = item_identity r"
  "item_identity (r\<lparr>it_actor := ac\<rparr>) = item_identity r"
  "item_identity (r\<lparr>it_reason := rs\<rparr>) = item_identity r"
  "item_identity (r\<lparr>it_ignored := ig\<rparr>) = item_identity r"
  "item_identity (r\<lparr>it_title := tt\<rparr>) = item_identity r"
  "item_identity (r\<lparr>it_url := u\<rparr>) = item_identity r"
  "item_identity (r\<lparr>it_payload := p\<rparr>) = item_identity r"
  "item_identity (r\<lparr>it_lifecycle := l\<rparr>) = item_identity r"
  "item_identity (r\<lparr>it_state := st\<rparr>) = item_identity r"
  "item_identity (r\<lparr>it_last_event := t\<rparr>) = item_identity r"
  by (simp_all add: item_identity_def)

lemma items_archive_check: "db_ok d \<Longrightarrow> r \<in> set (db_items d) \<Longrightarrow> archive_check r"
  by (simp add: db_ok_def items_ok_def)

section \<open>Every write keeps the constraints\<close>

lemma guarded_update_ok:
  assumes "db_ok d" and "guarded_update i rv f d = Inr (r, d')"
    and "\<And>r. it_id (f r) = it_id r" and "\<And>r. item_identity (f r) = item_identity r"
    and "\<And>r. archive_check r \<Longrightarrow> archive_check (f r)"
  shows "db_ok d'"
proof -
  have d': "d' = d\<lparr>db_items := sql_update (\<lambda>r. it_id r = i \<and> it_revision r = rv)
      (\<lambda>r. (f r)\<lparr>it_revision := it_revision r + 1\<rparr>) (db_items d)\<rparr>"
    using assms(2) by (auto simp: guarded_update_def Let_def split: option.splits)
  show ?thesis unfolding d'
    by (rule db_ok_items_update [OF assms(1)])
      (use assms(3-5) items_archive_check [OF assms(1)] in \<open>auto simp: archive_check_def\<close>)
qed

lemma set_unread_ok [preserves]: "db_ok d \<Longrightarrow> set_unread i rv b d = Inr (r, d') \<Longrightarrow> db_ok d'"
  unfolding set_unread_def
  by (erule guarded_update_ok [where f = "it_unread_update (\<lambda>_. b)"]) (auto simp: archive_check_def)

lemma toggle_archived_ok [preserves]: "db_ok d \<Longrightarrow> toggle_archived now i rv d = Inr (r, d') \<Longrightarrow> db_ok d'"
  unfolding toggle_archived_def
  by (erule guarded_update_ok [where f = "toggle_archived_row now"]) (auto simp: archive_check_def toggle_archived_row_def)

lemma toggle_ignored_ok [preserves]: "db_ok d \<Longrightarrow> toggle_ignored now i rv d = Inr (r, d') \<Longrightarrow> db_ok d'"
  unfolding toggle_ignored_def
  by (erule guarded_update_ok [where f = "toggle_ignored_row now"]) (auto simp: archive_check_def toggle_ignored_row_def)

lemma mark_read_ok [preserves]: "db_ok d \<Longrightarrow> mark_read p f d = Inr (n, d') \<Longrightarrow> db_ok d'"
  using items_archive_check
  by (auto simp: mark_read_def Let_def archive_check_def split: if_splits intro!: db_ok_items_update)

lemma insert_item_ok [preserves]:
  assumes "db_ok d" and "insert_item r d = Inr (r', d')" and "archive_check r"
  shows "db_ok d'"
proof -
  let ?r = "r\<lparr>it_id := db_item_seq d + 1\<rparr>"
  have "db_ok (d\<lparr>db_items := db_items d @ [?r], db_item_seq := db_item_seq d + 1\<rparr>)"
    by (rule db_ok_items_append [OF assms(1)])
      (use assms(2,3) in \<open>auto simp: insert_item_def list_ex_iff archive_check_def split: if_splits\<close>)
  then show ?thesis using assms(2) by (auto simp: insert_item_def Let_def split: if_splits)
qed

lemma create_synthesized_ok [preserves]:
  "db_ok d \<Longrightarrow> create_synthesized J p k s e payload now d = Inr (r, d') \<Longrightarrow> db_ok d'"
  by (cases "feed_fields J payload")
    (auto simp: create_synthesized_def archive_check_def elim!: insert_item_ok)

lemma upsert_item_ok [preserves]:
  assumes "db_ok d" and "upsert_item r d = (r', d')" and "archive_check r"
  shows "db_ok d'"
proof (cases "find (\<lambda>x. item_identity x = item_identity r) (db_items d)")
  case None
  let ?r = "r\<lparr>it_id := db_item_seq d + 1, it_revision := 1\<rparr>"
  have "db_ok (d\<lparr>db_items := db_items d @ [?r], db_item_seq := db_item_seq d + 1\<rparr>)"
    by (rule db_ok_items_append [OF assms(1)])
      (use None assms(3) in \<open>auto simp: find_None_conv archive_check_def\<close>)
  then show ?thesis using assms(2) None by (auto simp: upsert_item_def Let_def)
next
  case (Some old)
  then show ?thesis using assms
    by (auto simp: upsert_item_def Let_def archive_check_def intro!: db_ok_items_update)
qed

lemma insert_inbox_event_ok [preserves]:
  assumes "db_ok d" and "item_exists item d" and "occ \<noteq> Some []"
  shows "db_ok (insert_inbox_event item kind tr att occ summary detail now d)"
proof (cases "occ \<noteq> None \<and> list_ex (\<lambda>r. event_key r = (item, occ)) (db_inbox_events d)")
  case True
  then show ?thesis using assms(1) unfolding insert_inbox_event_def by simp
next
  case False
  let ?n = "db_inbox_event_seq d" and ?ies = "db_inbox_events d"
  let ?e = "\<lparr>ie_id = ?n + 1, ie_item = item, ie_kind = kind, ie_transition = tr, ie_attention = att,
    ie_occurrence = occ, ie_summary = summary, ie_detail = detail, ie_created = now\<rparr>"
  have ok: "inbox_events_ok ?ies ?n (db_items d)" using assms(1) by (simp add: db_ok_def)
  then have "\<forall>r\<in>set ?ies. ie_id r \<noteq> ?n + 1 \<and> ie_id r \<le> ?n + 1"
    by (intro seq_fresh) (simp add: inbox_events_ok_def)
  moreover have "unique_on event_key (filter (\<lambda>r. ie_occurrence r \<noteq> None) (?ies @ [?e]))"
    using ok False by (auto simp: inbox_events_ok_def unique_on_insert event_key_def list_ex_iff)
  ultimately have "inbox_events_ok (?ies @ [?e]) (?n + 1) (db_items d)"
    using ok assms(2,3) by (simp add: inbox_events_ok_def unique_on_insert item_exists_mem)
  then show ?thesis using assms(1) False by (simp add: insert_inbox_event_def Let_def db_ok_def del: list_ex_iff)
qed

lemma find_item_mem: "item_by_identity p k s e d = Some r \<Longrightarrow> r \<in> set (db_items d) \<and> item_identity r = (p, k, s, e)"
  unfolding item_by_identity_def by (rule find_Some_mem)

lemma rescope_item_ok:
  assumes ok: "db_ok d" and r: "r \<in> set (db_items d)"
    and free: "\<forall>x\<in>set (db_items d). item_identity x \<noteq> item_identity (r\<lparr>it_scope := s\<rparr>)"
  shows "db_ok (rescope_item s (it_id r) d)"
proof -
  let ?P = "\<lambda>x. it_id x = it_id r" and ?f = "\<lambda>x. x\<lparr>it_scope := s\<rparr>"
  let ?its = "sql_update ?P ?f (db_items d)"
  have uid: "unique_on it_id (db_items d)" and uident: "unique_on item_identity (db_items d)"
    using ok by (simp_all add: db_ok_def items_ok_def)
  have only: "x = r" if "x \<in> set (db_items d)" "it_id x = it_id r" for x
    by (rule unique_on_eq [OF uid that(1) r that(2)])
  have "inj_on item_identity (set ?its)"
  proof (rule inj_onI)
    fix a b assume a: "a \<in> set ?its" and b: "b \<in> set ?its" and eq: "item_identity a = item_identity b"
    have cases: "(x \<in> set (db_items d) \<and> it_id x \<noteq> it_id r) \<or> x = r\<lparr>it_scope := s\<rparr>" if "x \<in> set ?its" for x
      using that only by (auto simp: sql_update_def)
    show "a = b"
      using cases [OF a] cases [OF b] eq free unique_on_eq [OF uident _ _ eq] by metis
  qed
  moreover have "distinct ?its"
    using unique_on_update [OF uid, of ?P ?f] by (simp add: unique_on_def distinct_map)
  ultimately have "unique_on item_identity ?its" by (simp add: unique_on_def distinct_map)
  moreover have "unique_on it_id ?its" by (rule unique_on_update [OF uid]) simp
  ultimately have "items_ok ?its (db_item_seq d)"
    using ok by (auto simp: db_ok_def items_ok_def sql_update_def archive_check_def)
  moreover have "it_id ` set (db_items d) \<subseteq> it_id ` set ?its" by (simp add: ids_update)
  ultimately have "db_ok (d\<lparr>db_items := ?its, db_item_seq := db_item_seq d\<rparr>)"
    by (rule db_ok_items [OF ok])
  then show ?thesis by (simp add: rescope_item_def)
qed

lemma resolve_scoped_ok [preserves]:
  assumes "db_ok d" and "resolve_scoped p k s e d = (r, d')"
  shows "db_ok d'"
proof (cases "item_by_identity p k s e d")
  case None
  show ?thesis
  proof (cases "s \<noteq> [] \<and> item_by_identity p k [] e d \<noteq> None")
    case True
    then obtain l where l: "item_by_identity p k [] e d = Some l" by blast
    have "db_ok (rescope_item s (it_id l) d)"
      by (rule rescope_item_ok [OF assms(1)])
        (use find_item_mem [OF l] None in \<open>auto simp: item_by_identity_def find_None_conv item_identity_def\<close>)
    then show ?thesis using assms(2) None True l by (auto simp: resolve_scoped_def intro: session_rescope_ok)
  next
    case False
    then show ?thesis using assms None by (auto simp: resolve_scoped_def split: if_splits option.splits)
  qed
qed (use assms in \<open>auto simp: resolve_scoped_def\<close>)

section \<open>One observation\<close>

lemma resolve_scoped_found:
  assumes "resolve_scoped p k s e d = (Some r, d')"
  shows "r \<in> set (db_items d')" and "item_identity r = (p, k, s, e)"
proof -
  have "r \<in> set (db_items d') \<and> item_identity r = (p, k, s, e)"
  proof (cases "item_by_identity p k s e d")
    case None
    with assms obtain l where l: "item_by_identity p k [] e d = Some l" "r = l\<lparr>it_scope := s\<rparr>"
      "db_items d' = sql_update (\<lambda>x. it_id x = it_id l) (\<lambda>x. x\<lparr>it_scope := s\<rparr>) (db_items d)"
      by (auto simp: resolve_scoped_def session_rescope_def rescope_item_def split: if_splits option.splits)
    then show ?thesis using find_item_mem [OF l(1)]
      by (auto simp: sql_update_def item_identity_def intro!: rev_image_eqI [of l])
  next
    case (Some r')
    then show ?thesis using assms find_item_mem [OF Some] by (auto simp: resolve_scoped_def)
  qed
  then show "r \<in> set (db_items d')" "item_identity r = (p, k, s, e)" by simp_all
qed

lemma resolve_scoped_missing:
  "resolve_scoped p k s e d = (None, d') \<Longrightarrow> d' = d \<and> item_by_identity p k s e d = None"
  by (auto simp: resolve_scoped_def split: if_splits option.splits)

lemma upsert_item_result:
  assumes "upsert_item r d = (r', d')"
  shows "r' \<in> set (db_items d')" and "item_identity r' = item_identity r"
    and "it_payload r' = it_payload r" and "it_unread r' = it_unread r"
    and "it_archived r' = it_archived r" and "it_actor r' = it_actor r"
    and "db_events d' = db_events d" and "db_event_seq d' = db_event_seq d" and "db_heads d' = db_heads d"
    and "it_revision r' = (case item_by_identity (it_profile r) (it_kind r) (it_scope r) (it_external r) d of
      None \<Rightarrow> 1 | Some old \<Rightarrow> it_revision old + 1)"
proof -
  let ?f = "find (\<lambda>x. item_identity x = item_identity r) (db_items d)"
  have eq: "item_by_identity (it_profile r) (it_kind r) (it_scope r) (it_external r) d = ?f"
    by (simp add: item_by_identity_def item_identity_def)
  have "r' \<in> set (db_items d') \<and> item_identity r' = item_identity r \<and> it_payload r' = it_payload r \<and>
    it_unread r' = it_unread r \<and> it_archived r' = it_archived r \<and> it_actor r' = it_actor r \<and>
    db_events d' = db_events d \<and> db_event_seq d' = db_event_seq d \<and> db_heads d' = db_heads d \<and>
    it_revision r' = (case ?f of None \<Rightarrow> 1 | Some old \<Rightarrow> it_revision old + 1)"
  proof (cases ?f)
    case None
    then show ?thesis using assms by (auto simp: upsert_item_def Let_def)
  next
    case (Some old)
    with find_Some_mem [OF Some] show ?thesis using assms
      by (auto simp: upsert_item_def Let_def sql_update_def intro!: rev_image_eqI [of old])
  qed
  then show "r' \<in> set (db_items d')" "item_identity r' = item_identity r"
    "it_payload r' = it_payload r" "it_unread r' = it_unread r"
    "it_archived r' = it_archived r" "it_actor r' = it_actor r"
    "db_events d' = db_events d" "db_event_seq d' = db_event_seq d" "db_heads d' = db_heads d"
    "it_revision r' = (case item_by_identity (it_profile r) (it_kind r) (it_scope r) (it_external r) d of
      None \<Rightarrow> 1 | Some old \<Rightarrow> it_revision old + 1)"
    by (simp_all only: eq)
qed

lemma insert_inbox_event_frame [simp]:
  "db_items (insert_inbox_event i kind tr att occ sm dt now d) = db_items d"
  "db_events (insert_inbox_event i kind tr att occ sm dt now d) = db_events d"
  "db_event_seq (insert_inbox_event i kind tr att occ sm dt now d) = db_event_seq d"
  "db_heads (insert_inbox_event i kind tr att occ sm dt now d) = db_heads d"
  by (simp_all add: insert_inbox_event_def Let_def)

lemma session_rescope_frame [simp]:
  "db_items (session_rescope p k e s d) = db_items d"
  "db_events (session_rescope p k e s d) = db_events d"
  "db_event_seq (session_rescope p k e s d) = db_event_seq d"
  "db_heads (session_rescope p k e s d) = db_heads d"
  by (simp_all add: session_rescope_def)

lemma resolve_scoped_frame:
  "resolve_scoped p k s e d = (r, d') \<Longrightarrow>
   db_events d' = db_events d \<and> db_event_seq d' = db_event_seq d \<and> db_heads d' = db_heads d"
  by (auto simp: resolve_scoped_def rescope_item_def split: option.splits if_splits)

lemma head_payload_heads: "db_heads d' = db_heads d \<Longrightarrow> head_payload t k d' = head_payload t k d"
  by (simp add: head_payload_def)

text \<open>What one ingest that is not a repetition does to the database, in terms of the row it
  resolved.\<close>

definition ingest_row_of ::
  "int \<Rightarrow> int \<Rightarrow> classifier \<Rightarrow> string \<Rightarrow> resurface_policy \<Rightarrow> observation \<Rightarrow> item_row option \<Rightarrow> item_row" where
  "ingest_row_of now wall cl profile policy cur prev =
     (let c = complete_classification (cl (map_option observation_of prev) cur);
          tg = apply_transition wall (triage_of prev) c
                 (if policy = PolicyUnset then PolicyStateChanges else policy)
      in ingested_row profile cur c tg (archived_reason (triage_of prev) tg c) now)"

lemma apply_transition_archive:
  "(tg_archived tg = None) = (tg_actor tg = None) \<Longrightarrow>
   (tg_archived (apply_transition w tg c p) = None) = (tg_actor (apply_transition w tg c p) = None)"
  by (auto simp: apply_transition_def Let_def)

lemma ingest_row_archive_check:
  assumes "\<And>r. prev = Some r \<Longrightarrow> archive_check r"
  shows "archive_check (ingest_row_of now wall cl profile policy cur prev)"
proof -
  have "(tg_archived (triage_of prev) = None) = (tg_actor (triage_of prev) = None)"
    using assms by (cases prev) (auto simp: triage_of_def archive_check_def)
  then show ?thesis
    by (simp add: ingest_row_of_def Let_def archive_check_def ingested_row_def apply_transition_archive)
qed

lemma ingest_row_fields [simp]:
  "item_identity (ingest_row_of now wall cl profile policy cur prev) =
     (profile, ob_kind cur, ob_scope cur, ob_external cur)"
  "it_payload (ingest_row_of now wall cl profile policy cur prev) = ob_payload cur"
  "it_profile (ingest_row_of now wall cl profile policy cur prev) = profile"
  "it_kind (ingest_row_of now wall cl profile policy cur prev) = ob_kind cur"
  "it_scope (ingest_row_of now wall cl profile policy cur prev) = ob_scope cur"
  "it_external (ingest_row_of now wall cl profile policy cur prev) = ob_external cur"
  by (simp_all add: ingest_row_of_def Let_def ingested_row_def item_identity_def)

lemma complete_classification_some:
  "\<exists>t. ck_transition (complete_classification c) = Some t"
  "\<exists>a. ck_attention (complete_classification c) = Some a"
  by (auto simp: complete_classification_def or_default_def split: option.split)

lemma null_str_nonempty [simp]: "null_str s \<noteq> Some []"
  by (simp add: null_str_def)

lemma format_int_nonempty [simp]: "format_int n \<noteq> []"
proof
  assume "format_int n = []"
  then have "parse_signed [] = Some n" using parse_signed_format_int [of n] by simp
  then show False by (simp add: parse_signed_def parse_nat_def)
qed

lemma append_observation_step:
  assumes "db_ok d" and "payload \<noteq> []"
  shows "\<exists>d'. append_observation topic key payload kind scope occ now d = Inr (db_event_seq d + 1, d') \<and>
    db_ok d' \<and> db_items d' = db_items d \<and> db_heads d' = db_heads d \<and> db_event_seq d' = db_event_seq d + 1 \<and>
    (\<exists>r. r \<in> set (db_events d') \<and> er_offset r = db_event_seq d + 1 \<and> er_key r = key \<and> er_topic r = topic \<and>
       er_payload r = payload \<and> \<not> er_snapshot r \<and> er_occurrence r = null_str occ)"
proof -
  obtain d' where d': "append_observation topic key payload kind scope occ now d = Inr (db_event_seq d + 1, d')"
    using assms(2) by (simp add: append_observation_def append_event_def Let_def)
  have "db_ok d'" using append_event_ok [OF assms(1)] d' by (simp add: append_observation_def)
  with d' assms(2) show ?thesis by (auto simp: append_observation_def append_event_def Let_def)
qed

lemma log_observation_step:
  assumes ok: "db_ok d" and ne: "ob_payload cur \<noteq> []"
  shows "\<exists>d'. log_observation topic cur occ now d = Inr (db_event_seq d + 1, d') \<and> db_ok d' \<and>
    db_items d' = db_items d \<and> db_event_seq d' = db_event_seq d + 1 \<and>
    head_payload topic (ob_external cur) d' = Some (ob_payload cur) \<and>
    (\<exists>r\<in>set (db_events d'). er_offset r = db_event_seq d + 1 \<and> er_key r = ob_external cur \<and>
       er_topic r = topic \<and> er_payload r = ob_payload cur \<and> \<not> er_snapshot r \<and> er_occurrence r \<noteq> None)"
proof -
  define off where "off = db_event_seq d + 1"
  obtain d4 r where d4: "append_observation topic (ob_external cur) (ob_payload cur) (ob_kind cur) (ob_scope cur)
        occ now d = Inr (off, d4)"
    and ok4: "db_ok d4" and items4: "db_items d4 = db_items d" and seq4: "db_event_seq d4 = off"
    and r: "r \<in> set (db_events d4)" "er_offset r = off" "er_key r = ob_external cur"
      "er_topic r = topic" "er_payload r = ob_payload cur" "\<not> er_snapshot r" "er_occurrence r = null_str occ"
    using append_observation_step [OF ok ne, of topic "ob_external cur" "ob_kind cur" "ob_scope cur" occ now]
    unfolding off_def by blast
  define d5 where "d5 = (if occ = [] then backfill_occurrence_key off (format_int off) d4 else d4)"
  have ok5: "db_ok d5" using ok4 by (simp add: d5_def backfill_ok)
  have frame5: "db_items d5 = db_items d" "db_event_seq d5 = off"
    using items4 seq4 by (simp_all add: d5_def backfill_occurrence_key_def)
  have ev5: "\<exists>r\<in>set (db_events d5). er_offset r = off \<and> er_key r = ob_external cur \<and>
      er_topic r = topic \<and> er_payload r = ob_payload cur \<and> \<not> er_snapshot r \<and> er_occurrence r \<noteq> None"
  proof (cases "occ = []")
    case True
    let ?r = "r\<lparr>er_occurrence := null_str (format_int off)\<rparr>"
    have "?r \<in> set (db_events d5)"
      using True r by (auto simp: d5_def backfill_occurrence_key_def sql_update_def intro!: rev_image_eqI [of r])
    then show ?thesis using r by (intro bexI [of _ ?r]) (simp_all add: null_str_def)
  next
    case False
    then show ?thesis using r by (intro bexI [of _ r]) (simp_all add: null_str_def d5_def)
  qed
  obtain d6 where d6: "head_upsert topic (ob_external cur) (ob_payload cur) d5 = Inr d6"
    using ne by (simp add: head_upsert_def)
  have frame6: "db_items d6 = db_items d" "db_event_seq d6 = off" "db_events d6 = db_events d5"
    using d6 ne frame5 by (auto simp: head_upsert_def)
  have "log_observation topic cur occ now d = Inr (off, d6)"
    using d6 by (simp add: log_observation_def d4 d5_def)
  then show ?thesis
    using head_upsert_ok [OF ok5 d6] frame6 ev5 head_payload_upsert [OF d6]
    unfolding off_def by (intro exI [of _ d6]) simp
qed

lemma note_transition_ok:
  assumes "db_ok d" and "item_exists i d"
  shows "db_ok (note_transition i c now d)" and "db_items (note_transition i c now d) = db_items d"
    and "db_event_seq (note_transition i c now d) = db_event_seq d"
  using assms by (simp_all add: note_transition_def insert_inbox_event_ok)

lemma ingest_writes:
  assumes ok: "db_ok d" and ne: "ob_external cur \<noteq> []" "ob_payload cur \<noteq> []"
    and new: "head_payload topic (ob_external cur) d \<noteq> Some (ob_payload cur)"
    and res: "resolve_scoped profile (ob_kind cur) (ob_scope cur) (ob_external cur) d = (prev, d1)"
    and up: "upsert_item (ingest_row_of now wall cl profile policy cur prev) d1 = (item, d2)"
  shows "\<exists>c d'. ingest_observation now wall (Some cl) profile topic policy cur d =
      Inr (\<lparr>ig_item = it_id item, ig_revision = it_revision item, ig_class = Some c, ig_wrote = True,
            ig_offset = db_event_seq d + 1\<rparr>, d') \<and>
    db_ok d' \<and> db_items d' = db_items d2 \<and> db_event_seq d' = db_event_seq d + 1 \<and>
    head_payload topic (ob_external cur) d' = Some (ob_payload cur) \<and>
    (\<exists>r\<in>set (db_events d'). er_offset r = db_event_seq d + 1 \<and> er_key r = ob_external cur \<and>
       er_topic r = topic \<and> er_payload r = ob_payload cur \<and> \<not> er_snapshot r \<and> er_occurrence r \<noteq> None)"
proof -
  define c where "c = complete_classification (cl (map_option observation_of prev) cur)"
  have ok1: "db_ok d1" by (rule resolve_scoped_ok [OF ok res])
  have "archive_check r" if "prev = Some r" for r
    using items_archive_check [OF ok1] resolve_scoped_found(1) res that by blast
  then have ok2: "db_ok d2" by (intro upsert_item_ok [OF ok1 up] ingest_row_archive_check)
  have exists: "item_exists (it_id item) d2"
    using upsert_item_result(1) [OF up] by (auto simp: item_exists_mem)
  define d3 where "d3 = note_transition (it_id item) c now d2"
  have ok3: "db_ok d3" and frame3: "db_items d3 = db_items d2" "db_event_seq d3 = db_event_seq d"
    using note_transition_ok [OF ok2 exists] resolve_scoped_frame [OF res] upsert_item_result(8) [OF up]
    by (simp_all add: d3_def)
  obtain d' where log: "log_observation topic cur (ck_occurrence c) now d3 = Inr (db_event_seq d + 1, d')"
    and facts: "db_ok d'" "db_items d' = db_items d2" "db_event_seq d' = db_event_seq d + 1"
      "head_payload topic (ob_external cur) d' = Some (ob_payload cur)"
      "\<exists>r\<in>set (db_events d'). er_offset r = db_event_seq d + 1 \<and> er_key r = ob_external cur \<and>
       er_topic r = topic \<and> er_payload r = ob_payload cur \<and> \<not> er_snapshot r \<and> er_occurrence r \<noteq> None"
    using log_observation_step [OF ok3 ne(2), of topic "ck_occurrence c" now] unfolding frame3 by blast
  have "ingest_observation now wall (Some cl) profile topic policy cur d =
      Inr (\<lparr>ig_item = it_id item, ig_revision = it_revision item, ig_class = Some c, ig_wrote = True,
            ig_offset = db_event_seq d + 1\<rparr>, d')"
    using ne(1) new log unfolding d3_def c_def
    by (simp add: ingest_observation_def res Let_def up [unfolded ingest_row_of_def Let_def])
  with facts show ?thesis by blast
qed

end
