(* ===== verification/Inbox_Laws.thy ===== *)
theory Inbox_Laws
  imports Inbox_Props
begin

text \<open>
  The contracts of the inbox: ingest is total, keeps the schema and is idempotent per payload;
  the resurface policy; optimistic triage; bulk read; healing of unscoped rows; the views.
\<close>

section \<open>Ingest\<close>

lemma find_identity:
  assumes "db_ok d" and "r \<in> set (db_items d)"
  shows "item_by_identity (it_profile r) (it_kind r) (it_scope r) (it_external r) d = Some r"
  using find_key_mem [of item_identity "db_items d" r] assms
  by (simp add: item_by_identity_def db_ok_def items_ok_def item_identity_def [of r])

lemma find_identity_eq:
  "db_ok d \<Longrightarrow> r \<in> set (db_items d) \<Longrightarrow> item_identity r = (p, k, s, e) \<Longrightarrow> item_by_identity p k s e d = Some r"
  using find_identity [of d r] by (simp add: item_identity_def)

lemma find_id_eq: "db_ok d \<Longrightarrow> r \<in> set (db_items d) \<Longrightarrow> item_by_id (it_id r) d = Some r"
  using find_key_mem [of it_id "db_items d" r] by (simp add: item_by_id_def db_ok_def items_ok_def)

definition next_revision :: "item_row option \<Rightarrow> int" where
  "next_revision prev = (case prev of None \<Rightarrow> 1 | Some r \<Rightarrow> it_revision r + 1)"

text \<open>
  Claim C17: ingest. On a database that satisfies the schema's constraints, an observation with
  an external id and a payload is always accepted and the constraints hold afterwards. When the
  source head already carries that payload nothing changes; otherwise the head becomes the
  payload, the observed item carries it at the next revision, and exactly one event is appended,
  with an occurrence key.
\<close>

theorem ingest_total:
  assumes ok: "db_ok d" and ne: "ob_external cur \<noteq> []" "ob_payload cur \<noteq> []"
  shows "\<exists>res d'. ingest_observation now wall (Some cl) profile topic policy cur d = Inr (res, d') \<and> db_ok d' \<and>
    head_payload topic (ob_external cur) d' = Some (ob_payload cur) \<and>
    (if head_payload topic (ob_external cur) d = Some (ob_payload cur)
     then d' = d \<and> \<not> ig_wrote res
     else ig_wrote res \<and> ig_offset res = db_event_seq d + 1 \<and> db_event_seq d' = db_event_seq d + 1 \<and>
       (\<exists>r. item_by_identity profile (ob_kind cur) (ob_scope cur) (ob_external cur) d' = Some r \<and>
          it_id r = ig_item res \<and> it_payload r = ob_payload cur \<and>
          it_revision r = next_revision (fst (resolve_scoped profile (ob_kind cur) (ob_scope cur) (ob_external cur) d))) \<and>
       (\<exists>r\<in>set (db_events d'). er_offset r = ig_offset res \<and> er_topic r = topic \<and>
          er_key r = ob_external cur \<and> er_payload r = ob_payload cur \<and> er_occurrence r \<noteq> None))"
proof (cases "head_payload topic (ob_external cur) d = Some (ob_payload cur)")
  case True
  then show ?thesis using ok ne by (simp add: ingest_observation_def)
next
  case False
  obtain prev d1 where res: "resolve_scoped profile (ob_kind cur) (ob_scope cur) (ob_external cur) d = (prev, d1)"
    by fastforce
  obtain item d2 where up: "upsert_item (ingest_row_of now wall cl profile policy cur prev) d1 = (item, d2)"
    by fastforce
  obtain c d' where run: "ingest_observation now wall (Some cl) profile topic policy cur d =
      Inr (\<lparr>ig_item = it_id item, ig_revision = it_revision item, ig_class = Some c, ig_wrote = True,
            ig_offset = db_event_seq d + 1\<rparr>, d')"
    and d': "db_ok d'" "db_items d' = db_items d2" "db_event_seq d' = db_event_seq d + 1"
      "head_payload topic (ob_external cur) d' = Some (ob_payload cur)"
    and ev: "\<exists>r\<in>set (db_events d'). er_offset r = db_event_seq d + 1 \<and> er_key r = ob_external cur \<and>
       er_topic r = topic \<and> er_payload r = ob_payload cur \<and> \<not> er_snapshot r \<and> er_occurrence r \<noteq> None"
    using ingest_writes [OF ok ne False res up] by blast
  note facts = upsert_item_result [OF up, simplified]
  have found: "item_by_identity profile (ob_kind cur) (ob_scope cur) (ob_external cur) d' = Some item"
    by (rule find_identity_eq [OF d'(1)]) (use facts d'(2) in auto)
  have "item_by_identity profile (ob_kind cur) (ob_scope cur) (ob_external cur) d1 = prev"
  proof (cases prev)
    case None
    then show ?thesis using resolve_scoped_missing res by fastforce
  next
    case (Some r)
    with res have res': "resolve_scoped profile (ob_kind cur) (ob_scope cur) (ob_external cur) d = (Some r, d1)"
      by simp
    show ?thesis unfolding Some
      by (rule find_identity_eq [OF resolve_scoped_ok [OF ok res'] resolve_scoped_found(1) [OF res']])
        (rule resolve_scoped_found(2) [OF res'])
  qed
  then have "it_revision item = next_revision (fst (resolve_scoped profile (ob_kind cur) (ob_scope cur) (ob_external cur) d))"
    using facts by (simp add: res next_revision_def)
  then show ?thesis using run d' ev found facts False by auto
qed

text \<open>
  Ingest is idempotent per payload. Once an observation has been ingested, observing the
  same payload of the same item on the topic again, whatever the clock, the classifier and the
  policy, writes nothing and reports so.
\<close>

theorem ingest_idempotent:
  assumes "db_ok d" and "ob_external cur \<noteq> []" and "ob_payload cur \<noteq> []"
    and "ingest_observation now wall (Some cl) profile topic policy cur d = Inr (res, d')"
    and "ob_external again = ob_external cur" and "ob_payload again = ob_payload cur"
  shows "\<exists>res'. ingest_observation now' wall' (Some cl') profile' topic policy' again d' = Inr (res', d') \<and>
    \<not> ig_wrote res'"
proof -
  have "head_payload topic (ob_external cur) d' = Some (ob_payload cur)"
  proof (cases "head_payload topic (ob_external cur) d = Some (ob_payload cur)")
    case True
    then show ?thesis using assms by (simp add: ingest_observation_def)
  next
    case False
    obtain prev d1 where res: "resolve_scoped profile (ob_kind cur) (ob_scope cur) (ob_external cur) d = (prev, d1)"
      by fastforce
    obtain item d2 where up: "upsert_item (ingest_row_of now wall cl profile policy cur prev) d1 = (item, d2)"
      by fastforce
    show ?thesis using ingest_writes [OF assms(1-3) False res up] assms(4) by auto
  qed
  then show ?thesis using assms by (simp add: ingest_observation_def)
qed

section \<open>The resurface policy\<close>

text \<open>When an archived item comes back: a system archive on leaving its terminal state; a
  manual one on that too unless the policy is never, and on any activity when it is all.\<close>

definition effective_policy :: "resurface_policy \<Rightarrow> resurface_policy" where
  "effective_policy p = (if p = PolicyUnset then PolicyStateChanges else p)"

definition resurfaces :: "archived_actor option \<Rightarrow> resurface_policy \<Rightarrow> classification \<Rightarrow> bool" where
  "resurfaces actor policy c \<longleftrightarrow>
     (if actor = Some ActorManual
      then policy \<noteq> PolicyNever \<and> (ck_transition c = Some LeftTerminal \<or>
             policy = PolicyAll \<and> ck_attention c = Some AttentionActivity)
      else ck_transition c = Some LeftTerminal)"

lemma apply_transition_table:
  assumes "(tg_archived tg = None) = (tg_actor tg = None)"
  shows "tg_archived (apply_transition w tg c p) = None \<longleftrightarrow>
      ck_transition c \<noteq> Some EnteredTerminal \<and> (tg_archived tg = None \<or> resurfaces (tg_actor tg) p c)"
    and "tg_actor tg = Some ActorManual \<Longrightarrow> tg_archived (apply_transition w tg c p) \<noteq> None \<Longrightarrow>
      apply_transition w tg c p = tg"
  using assms by (auto simp: apply_transition_def Let_def resurfaces_def)

text \<open>
  Claim C18: the archive policy of an ingest that writes. The item is left unarchived exactly
  when the change does not enter a terminal state and the item was unarchived or resurfaces by
  the policy; an archive the user made keeps its time and its actor for as long as the item stays
  archived, even against a terminal change.
\<close>

theorem ingest_archive_policy:
  assumes ok: "db_ok d" and ne: "ob_external cur \<noteq> []" "ob_payload cur \<noteq> []"
    and r: "item_by_identity profile (ob_kind cur) (ob_scope cur) (ob_external cur) d = Some r"
    and new: "head_payload topic (ob_external cur) d \<noteq> Some (ob_payload cur)"
    and run: "ingest_observation now wall (Some cl) profile topic policy cur d = Inr (res, d')"
  shows "\<exists>r'. item_by_identity profile (ob_kind cur) (ob_scope cur) (ob_external cur) d' = Some r' \<and>
    (it_archived r' = None \<longleftrightarrow>
       ck_transition (complete_classification (cl (Some (observation_of r)) cur)) \<noteq> Some EnteredTerminal \<and>
       (it_archived r = None \<or>
        resurfaces (it_actor r) (effective_policy policy) (complete_classification (cl (Some (observation_of r)) cur)))) \<and>
    (it_actor r = Some ActorManual \<and> it_archived r' \<noteq> None \<longrightarrow>
       it_archived r' = it_archived r \<and> it_actor r' = Some ActorManual)"
proof -
  let ?c = "complete_classification (cl (Some (observation_of r)) cur)"
  let ?tg = "apply_transition wall (triage_of (Some r)) ?c (effective_policy policy)"
  have res: "resolve_scoped profile (ob_kind cur) (ob_scope cur) (ob_external cur) d = (Some r, d)"
    using r by (simp add: resolve_scoped_def)
  obtain item d2 where up: "upsert_item (ingest_row_of now wall cl profile policy cur (Some r)) d = (item, d2)"
    by fastforce
  have d': "db_ok d'" "db_items d' = db_items d2"
    using ingest_writes [OF ok ne new res up] run by auto
  note facts = upsert_item_result [OF up, simplified]
  have found: "item_by_identity profile (ob_kind cur) (ob_scope cur) (ob_external cur) d' = Some item"
    by (rule find_identity_eq [OF d'(1)]) (use facts d'(2) in auto)
  have tg: "it_archived item = tg_archived ?tg" "it_actor item = tg_actor ?tg"
    using facts(5,6) by (simp_all add: ingest_row_of_def Let_def ingested_row_def effective_policy_def)
  have "(tg_archived (triage_of (Some r)) = None) = (tg_actor (triage_of (Some r)) = None)"
    using items_archive_check [OF ok] find_item_mem [OF r] by (simp add: triage_of_def archive_check_def)
  note table = apply_transition_table [OF this, of wall ?c "effective_policy policy"]
  have old: "tg_archived (triage_of (Some r)) = it_archived r" "tg_actor (triage_of (Some r)) = it_actor r"
    by (simp_all add: triage_of_def)
  show ?thesis
    using found table unfolding old by (intro exI [of _ item]) (auto simp: tg old)
qed

section \<open>Optimistic triage\<close>

datatype triage_op = SetUnread bool | ToggleArchived int | ToggleIgnored int

fun triage_row :: "triage_op \<Rightarrow> item_row \<Rightarrow> item_row" where
  "triage_row (SetUnread b) r = r\<lparr>it_unread := b\<rparr>"
| "triage_row (ToggleArchived now) r = toggle_archived_row now r"
| "triage_row (ToggleIgnored now) r = toggle_ignored_row now r"

fun triage_write :: "triage_op \<Rightarrow> int \<Rightarrow> int \<Rightarrow> db \<Rightarrow> (store_error, item_row \<times> db) result" where
  "triage_write (SetUnread b) i rv d = set_unread i rv b d"
| "triage_write (ToggleArchived now) i rv d = toggle_archived now i rv d"
| "triage_write (ToggleIgnored now) i rv d = toggle_ignored now i rv d"

lemma triage_write_guarded: "triage_write op i rv d = guarded_update i rv (triage_row op) d"
proof (cases op)
  case (SetUnread b)
  have "triage_row op = it_unread_update (\<lambda>_. b)" by (rule ext) (simp add: SetUnread)
  then show ?thesis by (simp add: SetUnread set_unread_def)
next
  case (ToggleArchived now)
  have "triage_row op = toggle_archived_row now" by (rule ext) (simp add: ToggleArchived)
  then show ?thesis by (simp add: ToggleArchived toggle_archived_def)
next
  case (ToggleIgnored now)
  have "triage_row op = toggle_ignored_row now" by (rule ext) (simp add: ToggleIgnored)
  then show ?thesis by (simp add: ToggleIgnored toggle_ignored_def)
qed

lemma triage_row_id [simp]: "it_id (triage_row op r) = it_id r"
  by (cases op) (simp_all add: toggle_archived_row_def toggle_ignored_row_def)

lemma find_id_revision:
  assumes "db_ok d"
  shows "find (\<lambda>r. it_id r = i \<and> it_revision r = rv) (db_items d) =
    (case item_by_id i d of None \<Rightarrow> None | Some r \<Rightarrow> if it_revision r = rv then Some r else None)"
  using find_unique [of it_id "db_items d" i "\<lambda>r. it_revision r = rv"] assms
  by (simp add: db_ok_def items_ok_def item_by_id_def)

lemma find_item_id: "item_by_id i d = Some r \<Longrightarrow> r \<in> set (db_items d) \<and> it_id r = i"
  unfolding item_by_id_def by (rule find_Some_mem)

lemma guarded_update_lookup:
  assumes "db_ok d" and "guarded_update i rv f d = Inr (r, d')" and "\<And>x. it_id (f x) = it_id x"
  shows "item_by_id i d' = Some r" and "it_revision r = rv + 1"
    and "j \<noteq> i \<Longrightarrow> item_by_id j d' = item_by_id j d"
    and "\<exists>old. item_by_id i d = Some old \<and> it_revision old = rv \<and> r = (f old)\<lparr>it_revision := rv + 1\<rparr>"
proof -
  let ?hit = "\<lambda>r. it_id r = i \<and> it_revision r = rv" and ?g = "\<lambda>r. (f r)\<lparr>it_revision := it_revision r + 1\<rparr>"
  obtain old where old: "item_by_id i d = Some old" "it_revision old = rv" "r = ?g old"
    and d': "db_items d' = sql_update ?hit ?g (db_items d)"
    using assms(2) by (auto simp: guarded_update_def Let_def find_id_revision [OF assms(1)]
        split: option.splits if_splits)
  have upd: "item_by_id k d' = map_option (\<lambda>r. if ?hit r then ?g r else r) (item_by_id k d)" for k
    unfolding item_by_id_def d' by (rule find_update) (simp add: assms(3))
  have "it_id old = i" using find_item_id [OF old(1)] by simp
  then show "item_by_id i d' = Some r" using upd [of i] old by simp
  show "it_revision r = rv + 1" using old by simp
  show "\<exists>old. item_by_id i d = Some old \<and> it_revision old = rv \<and> r = (f old)\<lparr>it_revision := rv + 1\<rparr>"
    using old by auto
  show "item_by_id j d' = item_by_id j d" if "j \<noteq> i"
  proof (cases "item_by_id j d")
    case (Some x)
    then have "it_id x = j" using find_item_id [OF Some] by simp
    with Some that show ?thesis using upd [of j] by simp
  qed (use upd [of j] in simp)
qed

text \<open>
  Claim C19: optimistic triage. A triage write (unread, archive, ignore) succeeds exactly when it
  names the item's current revision; the returned row is the stored one at the next revision, no
  other item changes, and every second write that still holds the old revision is refused as stale.
\<close>

theorem triage_optimistic:
  assumes ok: "db_ok d"
  shows "((\<exists>r d'. triage_write op i rv d = Inr (r, d')) \<longleftrightarrow>
      (\<exists>old. item_by_id i d = Some old \<and> it_revision old = rv)) \<and>
    (\<forall>r d'. triage_write op i rv d = Inr (r, d') \<longrightarrow>
      item_by_id i d' = Some r \<and> it_revision r = rv + 1 \<and>
      (\<forall>j. j \<noteq> i \<longrightarrow> item_by_id j d' = item_by_id j d) \<and>
      (\<forall>op'. triage_write op' i rv d' = Inl StaleRevision))"
proof (intro conjI allI impI)
  show "(\<exists>r d'. triage_write op i rv d = Inr (r, d')) \<longleftrightarrow>
      (\<exists>old. item_by_id i d = Some old \<and> it_revision old = rv)"
    by (auto simp: triage_write_guarded guarded_update_def Let_def find_id_revision [OF ok]
        split: option.splits if_splits)
next
  fix r d' assume "triage_write op i rv d = Inr (r, d')"
  then have g: "guarded_update i rv (triage_row op) d = Inr (r, d')" by (simp add: triage_write_guarded)
  have ok': "db_ok d'"
    using \<open>triage_write op i rv d = Inr (r, d')\<close> ok
    by (cases op) (auto intro: set_unread_ok toggle_archived_ok toggle_ignored_ok)
  show at: "item_by_id i d' = Some r" "it_revision r = rv + 1"
    using guarded_update_lookup(1,2) [OF ok g] by simp_all
  show "item_by_id j d' = item_by_id j d" if "j \<noteq> i" for j
    using guarded_update_lookup(3) [OF ok g _ that] by simp
  show "triage_write op' i rv d' = Inl StaleRevision" for op'
    using at by (simp add: triage_write_guarded guarded_update_def Let_def find_id_revision [OF ok'])
qed

section \<open>Marking a feed read\<close>

lemma changes_update:
  "(\<And>r. r \<in> set rows \<Longrightarrow> Q (if P r then f r else r) = Q' r) \<Longrightarrow>
   changes Q (sql_update P f rows) = changes Q' rows"
  by (induction rows) (auto simp: changes_def sql_update_def)

lemma list_ex_update:
  "(\<And>r. Q (f r) = Q r) \<Longrightarrow> list_ex Q (sql_update P f rows) = list_ex Q rows"
  by (induction rows) (auto simp: sql_update_def)

lemma claimed_items [simp]: "claimed P (d\<lparr>db_items := its\<rparr>) i = claimed P d i"
  by (simp add: claimed_def)

lemma mark_read_items:
  assumes "mark_read profile feed d = Inr (n, d')" and "feed \<noteq> []"
  shows "n = count_in_feed profile feed (\<lambda>r. it_archived r = None \<and> it_unread r) d"
    and "counted_feeds p d' = counted_feeds p d"
    and "(\<And>r. Q (r\<lparr>it_unread := False, it_revision := it_revision r + 1\<rparr>) = Q r) \<Longrightarrow>
      count_in_feed p f Q d' = count_in_feed p f Q d"
    and "count_in_feed profile feed (\<lambda>r. it_archived r = None \<and> it_unread r) d' = 0"
proof -
  let ?hit = "\<lambda>r. it_unread r \<and> it_archived r = None \<and> it_ignored r = None \<and>
    claimed (in_feed profile feed) d (it_id r)"
  let ?g = "\<lambda>r. r\<lparr>it_unread := False, it_revision := it_revision r + 1\<rparr>"
  have d': "d' = d\<lparr>db_items := sql_update ?hit ?g (db_items d)\<rparr>" and n: "n = changes ?hit (db_items d)"
    using assms(1) by (auto simp: mark_read_def Let_def split: if_splits)
  have feed: "in_feed profile feed = (\<lambda>c. fc_profile c = profile \<and> fc_feed c = feed)"
    using assms(2) by (simp add: in_feed_def fun_eq_iff)
  show "n = count_in_feed profile feed (\<lambda>r. it_archived r = None \<and> it_unread r) d"
    unfolding n count_in_feed_def feed by (rule arg_cong [of _ _ "\<lambda>P. changes P (db_items d)"]) auto
  have "list_ex (\<lambda>r. it_id r = i \<and> it_ignored r = None) (db_items d') =
      list_ex (\<lambda>r. it_id r = i \<and> it_ignored r = None) (db_items d)" for i
    unfolding d' by (simp add: list_ex_update)
  then show "counted_feeds p d' = counted_feeds p d" by (simp add: counted_feeds_def) (simp add: d')
  show "count_in_feed p f Q d' = count_in_feed p f Q d"
    if "\<And>r. Q (?g r) = Q r"
  proof -
    have "changes (\<lambda>r. it_ignored r = None \<and> Q r \<and> claimed (\<lambda>c. fc_profile c = p \<and> fc_feed c = f) d (it_id r))
        (sql_update ?hit ?g (db_items d)) =
      changes (\<lambda>r. it_ignored r = None \<and> Q r \<and> claimed (\<lambda>c. fc_profile c = p \<and> fc_feed c = f) d (it_id r))
        (db_items d)"
      by (rule changes_update) (use that in auto)
    then show ?thesis by (simp add: count_in_feed_def d')
  qed
  have "filter (\<lambda>r. it_ignored r = None \<and> (it_archived r = None \<and> it_unread r) \<and>
      claimed (\<lambda>c. fc_profile c = profile \<and> fc_feed c = feed) d (it_id r)) (sql_update ?hit ?g (db_items d)) = []"
    unfolding feed by (auto simp: filter_empty_conv sql_update_def)
  then show "count_in_feed profile feed (\<lambda>r. it_archived r = None \<and> it_unread r) d' = 0"
    by (simp add: count_in_feed_def d' changes_def)
qed

text \<open>
  Marking a feed read. It needs a profile; it reports as many items as the sidebar
  counted unread in that feed, after it the feed counts none unread, and the totals of every
  feed, active and archived, stay as they were.
\<close>

theorem mark_read_clears:
  assumes "feed \<noteq> []"
  shows "(mark_read [] feed d = Inl (BadArgument ''profile id is required'')) \<and>
    (\<forall>n d'. profile \<noteq> [] \<and> mark_read profile feed d = Inr (n, d') \<longrightarrow>
     (\<forall>ct\<in>set (feed_counts profile d). ct_feed ct = feed \<longrightarrow> ct_unread ct = n) \<and>
     (\<forall>ct\<in>set (feed_counts profile d'). ct_feed ct = feed \<longrightarrow> ct_unread ct = 0) \<and>
     map (\<lambda>ct. (ct_feed ct, ct_total ct, ct_archived ct)) (feed_counts profile d') =
     map (\<lambda>ct. (ct_feed ct, ct_total ct, ct_archived ct)) (feed_counts profile d))"
proof (intro conjI allI impI)
  show "mark_read [] feed d = Inl (BadArgument ''profile id is required'')" by (simp add: mark_read_def)
next
  fix n d' assume "profile \<noteq> [] \<and> mark_read profile feed d = Inr (n, d')"
  then have run: "mark_read profile feed d = Inr (n, d')" by simp
  note facts = mark_read_items [OF run assms]
  show "\<forall>ct\<in>set (feed_counts profile d). ct_feed ct = feed \<longrightarrow> ct_unread ct = n"
    by (auto simp: feed_counts_def facts(1))
  show "\<forall>ct\<in>set (feed_counts profile d'). ct_feed ct = feed \<longrightarrow> ct_unread ct = 0"
    by (auto simp: feed_counts_def facts(4))
  show "map (\<lambda>ct. (ct_feed ct, ct_total ct, ct_archived ct)) (feed_counts profile d') =
     map (\<lambda>ct. (ct_feed ct, ct_total ct, ct_archived ct)) (feed_counts profile d)"
    by (simp add: feed_counts_def facts(2,3))
qed

section \<open>Healing a row written without a scope\<close>

definition session_key :: "session_row \<Rightarrow> string \<times> item_ref" where
  "session_key r = (sr_session r, sr_ref r)"

lemma rescope_rows_keys:
  fixes p k e scope :: string
  assumes "scope \<noteq> []"
  defines "u \<equiv> unscoped_link p k e"
  defines "new \<equiv> \<lparr>ir_profile = p, ir_kind = k, ir_scope = scope, ir_external = e\<rparr>"
  shows "session_key ` {x \<in> set (rescope_rows p k e scope before rows). \<not> u x} =
    session_key ` {x \<in> set before \<union> set rows. \<not> u x} \<union> (\<lambda>x. (sr_session x, new)) ` {x \<in> set rows. u x}"
proof (induction rows arbitrary: before)
  case Nil
  then show ?case by simp
next
  case (Cons r rows)
  let ?m = "r\<lparr>sr_ref := (sr_ref r)\<lparr>ir_scope := scope\<rparr>\<rparr>"
  have m: "session_key ?m = (sr_session r, new)" "\<not> u ?m" if "u r"
    using that assms(1) by (auto simp: u_def new_def unscoped_link_def session_key_def)
  show ?case
  proof (cases "u r")
    case False
    then have "rescope_rows p k e scope before (r # rows) = rescope_rows p k e scope (before @ [r]) rows"
      by (simp add: u_def Let_def)
    then show ?thesis using Cons.IH [of "before @ [r]"] False by auto
  next
    case True
    show ?thesis
    proof (cases "list_ex (\<lambda>s. (sr_session s, sr_ref s) = (sr_session ?m, sr_ref ?m)) (before @ rows)")
      case dup: True
      then obtain s where s: "s \<in> set before \<union> set rows" "session_key s = session_key ?m"
        by (auto simp: list_ex_iff session_key_def)
      then have "\<not> u s" "session_key s = (sr_session r, new)"
        using m True assms(1) by (auto simp: u_def unscoped_link_def session_key_def)
      then have mem: "(sr_session r, new) \<in> session_key ` {x \<in> set before \<union> set rows. \<not> u x}"
        using s by force
      have "rescope_rows p k e scope before (r # rows) = rescope_rows p k e scope (before @ [r]) rows"
        using dup by (auto simp: Let_def)
      then show ?thesis using Cons.IH [of "before @ [r]"] True mem by auto
    next
      case False
      then have "rescope_rows p k e scope before (r # rows) = rescope_rows p k e scope (before @ [?m]) rows"
        using True by (simp add: u_def Let_def)
      moreover have "{x \<in> set (before @ [?m]) \<union> set rows. \<not> u x} = insert ?m {x \<in> set before \<union> set rows. \<not> u x}"
        using m True by auto
      moreover have "{x \<in> set before \<union> set (r # rows). \<not> u x} = {x \<in> set before \<union> set rows. \<not> u x}"
        "{x \<in> set (r # rows). u x} = insert r {x \<in> set rows. u x}"
        using True by auto
      ultimately show ?thesis using Cons.IH [of "before @ [?m]"] m True by (simp only: image_insert) auto
    qed
  qed
qed

lemma session_rescope_keys:
  assumes "scope \<noteq> []"
  shows "session_key ` set (db_sessions (session_rescope p k e scope d)) =
    (\<lambda>r. if unscoped_link p k e r
         then (sr_session r, \<lparr>ir_profile = p, ir_kind = k, ir_scope = scope, ir_external = e\<rparr>)
         else session_key r) ` set (db_sessions d)"
proof -
  have "set (db_sessions (session_rescope p k e scope d)) =
      {x \<in> set (rescope_rows p k e scope [] (db_sessions d)). \<not> unscoped_link p k e x}"
    by (auto simp: session_rescope_def sql_delete_def)
  then show ?thesis using rescope_rows_keys [OF assms, of p k e "[]" "db_sessions d"] by auto
qed

text \<open>
  Healing. Resolving an item under its scope is stable: a second resolution finds the
  same row and changes nothing. When only a row without a scope exists, it is that row, by id and
  payload, that moves to the scoped identity, the unscoped identity is gone, and every session
  linked to the unscoped item is linked to the scoped one, no other link changing.
\<close>

theorem resolve_scoped_heals:
  assumes ok: "db_ok d" and run: "resolve_scoped p k s e d = (Some r, d')"
  shows "db_ok d' \<and> item_identity r = (p, k, s, e) \<and> resolve_scoped p k s e d' = (Some r, d') \<and>
    (item_by_identity p k s e d = None \<longrightarrow>
      (\<exists>l. item_by_identity p k [] e d = Some l \<and> it_id r = it_id l \<and> it_payload r = it_payload l) \<and>
      item_by_identity p k [] e d' = None \<and>
      session_key ` set (db_sessions d') =
        (\<lambda>x. if unscoped_link p k e x
             then (sr_session x, \<lparr>ir_profile = p, ir_kind = k, ir_scope = s, ir_external = e\<rparr>)
             else session_key x) ` set (db_sessions d))"
proof (intro conjI impI)
  show ok': "db_ok d'" by (rule resolve_scoped_ok [OF ok run])
  show ident: "item_identity r = (p, k, s, e)" by (rule resolve_scoped_found(2) [OF run])
  have found: "item_by_identity p k s e d' = Some r"
    by (rule find_identity_eq [OF ok' resolve_scoped_found(1) [OF run] ident])
  then show "resolve_scoped p k s e d' = (Some r, d')" by (simp add: resolve_scoped_def)
  assume none: "item_by_identity p k s e d = None"
  obtain l where s: "s \<noteq> []" and l: "item_by_identity p k [] e d = Some l" and r: "r = l\<lparr>it_scope := s\<rparr>"
    and d': "d' = session_rescope p k e s (rescope_item s (it_id l) d)"
    using run none by (auto simp: resolve_scoped_def split: if_splits option.splits)
  show "\<exists>l. item_by_identity p k [] e d = Some l \<and> it_id r = it_id l \<and> it_payload r = it_payload l"
    using l r by auto
  have lm: "l \<in> set (db_items d)" "item_identity l = (p, k, [], e)" using find_item_mem [OF l] by auto
  have uid: "unique_on item_identity (db_items d)" using ok by (simp add: db_ok_def items_ok_def)
  have "item_identity x \<noteq> (p, k, [], e)" if "x \<in> set (db_items d')" for x
  proof
    assume x: "item_identity x = (p, k, [], e)"
    obtain y where y: "y \<in> set (db_items d)" "x = (if it_id y = it_id l then y\<lparr>it_scope := s\<rparr> else y)"
      using \<open>x \<in> set (db_items d')\<close> by (auto simp: d' rescope_item_def sql_update_def)
    then have "it_id y \<noteq> it_id l" using x s by (auto simp: item_identity_def)
    moreover have "y = l" by (rule unique_on_eq [OF uid y(1) lm(1)]) (use y x \<open>it_id y \<noteq> it_id l\<close> lm in simp)
    ultimately show False by simp
  qed
  then show "item_by_identity p k [] e d' = None" by (simp add: item_by_identity_def find_None_conv)
  show "session_key ` set (db_sessions d') =
      (\<lambda>x. if unscoped_link p k e x
           then (sr_session x, \<lparr>ir_profile = p, ir_kind = k, ir_scope = s, ir_external = e\<rparr>)
           else session_key x) ` set (db_sessions d)"
    using session_rescope_keys [OF s, of p k e "rescope_item s (it_id l) d"]
    by (simp add: d' rescope_item_def)
qed

section \<open>The views split the inbox\<close>

lemma set_newest_first [simp]: "set (newest_first f rows) = set rows"
  by (simp add: newest_first_def)

lemma length_newest_first [simp]: "length (newest_first f rows) = length rows"
  by (simp add: newest_first_def)

text \<open>
  No item is lost from view. With a large enough limit, an item of a profile is in the
  trash exactly when it is ignored or no feed of the profile claims it; otherwise it is listed by
  some feed, among the active items or among the archived ones according to its state, and never
  in both.
\<close>

theorem views_partition:
  assumes "r \<in> set (db_items d)" and "it_profile r = profile" and "int (length (db_items d)) \<le> limit"
  shows "((r \<in> set (list_trash profile limit d)) \<noteq>
      (\<exists>feed. r \<in> set (list_by_feed profile feed limit d) \<or> r \<in> set (list_archived_by_feed profile feed limit d))) \<and>
    \<not> (\<exists>f f'. r \<in> set (list_by_feed profile f limit d) \<and> r \<in> set (list_archived_by_feed profile f' limit d))"
proof -
  have take: "set (take (nat limit) (newest_first g (filter P (db_items d)))) = set (filter P (db_items d))" for g P
  proof -
    have "length (filter P (db_items d)) \<le> nat limit"
      using assms(3) length_filter_le [of P "db_items d"] by linarith
    then show ?thesis by simp
  qed
  have "claimed (\<lambda>c. fc_profile c = profile) d (it_id r) \<longleftrightarrow>
      (\<exists>feed. claimed (\<lambda>c. fc_profile c = profile \<and> fc_feed c = feed) d (it_id r))"
    by (auto simp: claimed_def list_ex_iff)
  then show ?thesis
    using assms(1,2) unfolding list_trash_def list_by_feed_def list_archived_by_feed_def take by auto
qed

end
