(* ===== verification/Commit.thy ===== *)
theory Commit
  imports Commands Inbox_Laws
begin

text \<open>
  \<open>EventLogStore.Commit\<close> and \<open>ActivateReplay\<close> (\<open>store_event_log.go\<close>): the two transactions in
  which a flow run takes effect. \<open>Commit\<close> claims feed memberships, enqueues commands, reconciles
  snapshots, applies key-value mutations, records node runs and advances the consumer, in that
  order; any error leaves the database as it was, since the caller keeps the state it had.
\<close>

section \<open>Commit\<close>

definition notify_dedup_key :: "store_codec \<Rightarrow> sink_output \<Rightarrow> string" where
  "notify_dedup_key K out =
     (if o_occurrence out \<noteq> [] then o_occurrence out
      else o_key out @ ''@'' @ sk_digest K (o_payload out))"

definition output_ref :: "string \<Rightarrow> sink_output \<Rightarrow> item_ref" where
  "output_ref consumer out = \<lparr>ir_profile = consumer, ir_kind = o_source_kind out,
     ir_scope = o_source_scope out, ir_external = o_key out\<rparr>"

definition output_claim :: "string \<Rightarrow> sink_output \<Rightarrow> int \<Rightarrow> feed_claim" where
  "output_claim consumer out item = \<lparr>fc_profile = consumer, fc_feed = o_target out, fc_item = item,
     fc_source = o_source_topic out\<rparr>"

definition commit_feed :: "store_codec \<Rightarrow> string \<Rightarrow> int \<Rightarrow> sink_output \<Rightarrow> db \<Rightarrow> (store_error, db) result" where
  "commit_feed K consumer now out d =
     (case resolve_scoped_id consumer (o_source_kind out) (o_source_scope out) (o_key out) d of
        (Some i, d1) \<Rightarrow> claim_upsert (output_claim consumer out i) d1
      | (None, d1) \<Rightarrow>
          if o_key out = [] then Inr d1
          else res_bind (create_synthesized (sk_scan K) consumer (o_source_kind out) (o_source_scope out)
                           (o_key out) (o_payload out) now d1)
                 (\<lambda>(r, d2). claim_upsert (output_claim consumer out (it_id r)) d2))"

definition commit_output :: "store_codec \<Rightarrow> string \<Rightarrow> int \<Rightarrow> sink_output \<Rightarrow> db \<Rightarrow> (store_error, db) result" where
  "commit_output K consumer now out d =
     (case o_kind out of
        SinkFeed \<Rightarrow> commit_feed K consumer now out d
      | SinkAction \<Rightarrow>
          enqueue_command (o_target out) (o_occurrence out) (o_payload out) now (output_ref consumer out) d
      | SinkNotify \<Rightarrow>
          (case sk_notify K \<lparr>nc_profile = consumer, nc_external = o_key out, nc_kind = o_source_kind out,
                  nc_scope = o_source_scope out, nc_item = o_payload out\<rparr> of
             None \<Rightarrow> Inl (CodecFailed ''notify command'')
           | Some payload \<Rightarrow>
               enqueue_command (notify_action_id (o_target out)) (notify_dedup_key K out) payload now no_ref d))"

definition in_snapshot :: "feed_snapshot \<Rightarrow> sink_output \<Rightarrow> bool" where
  "in_snapshot fs out \<longleftrightarrow> o_kind out = SinkFeed \<and> o_target out = fs_feed fs \<and>
     o_source_topic out = fs_topic fs \<and> o_snapshot_id out = fs_snapshot fs"

fun snapshot_ids :: "string \<Rightarrow> sink_output list \<Rightarrow> db \<Rightarrow> int list \<times> db" where
  "snapshot_ids consumer [] d = ([], d)"
| "snapshot_ids consumer (out # outs) d =
     (case resolve_scoped_id consumer (o_source_kind out) (o_source_scope out) (o_key out) d of
        (i, d1) \<Rightarrow>
          (case snapshot_ids consumer outs d1 of
             (ids, d2) \<Rightarrow> ((case i of None \<Rightarrow> ids | Some n \<Rightarrow> n # ids), d2)))"

definition reconcile_snapshot :: "string \<Rightarrow> sink_output list \<Rightarrow> feed_snapshot \<Rightarrow> db \<Rightarrow> db" where
  "reconcile_snapshot consumer outs fs d =
     (case snapshot_ids consumer (filter (in_snapshot fs) outs) d of
        (ids, d1) \<Rightarrow>
          if ids = [] then claims_delete_for_source_all (fs_feed fs) (fs_topic fs) d1
          else claims_delete_not_in_snapshot (fs_feed fs) (fs_topic fs) ids d1)"

definition commit_tail :: "int \<Rightarrow> int \<Rightarrow> commit_batch \<Rightarrow> db \<Rightarrow> db" where
  "commit_tail now clock b d =
     (let d2 = fold (reconcile_snapshot (cb_consumer b) (cb_outputs b)) (cb_snapshots b) d;
          d3 = d2\<lparr>db_kv := apply_kv_mutations (cb_consumer b) clock (cb_mutations b) (db_kv d2)\<rparr>;
          d4 = fold (\<lambda>nr. node_run_insert nr now) (cb_node_runs b) d3
      in commit_consumer_offset (cb_consumer b) (cb_up_to b) d4)"

definition commit :: "store_codec \<Rightarrow> int \<Rightarrow> int \<Rightarrow> commit_batch \<Rightarrow> db \<Rightarrow> (store_error, db) result" where
  "commit K now clock b d =
     (if cb_up_to b < 0 then Inl (BadArgument ''commit offset must not be negative'')
      else if cb_up_to b \<le> consumer_offset (cb_consumer b) d then Inr d
      else res_bind (res_fold (commit_output K (cb_consumer b) now) (cb_outputs b) d) (\<lambda>d1.
             Inr (commit_tail now clock b d1)))"

section \<open>Replay activation\<close>

definition activate_claim :: "string \<Rightarrow> feed_claim \<Rightarrow> db \<Rightarrow> (store_error, db) result" where
  "activate_claim profile c d =
     (if fc_profile c \<noteq> [] \<and> fc_profile c \<noteq> profile then Inl (BadArgument ''claim profile'')
      else res_bind (get_unarchived_by_id (fc_item c) profile d) (\<lambda>_.
             claim_upsert (c\<lparr>fc_profile := profile\<rparr>) d))"

definition activate_replay ::
  "string \<Rightarrow> int \<Rightarrow> feed_claim list \<Rightarrow> string list \<Rightarrow> string list \<Rightarrow> string list \<Rightarrow> db \<Rightarrow> (store_error, db) result" where
  "activate_replay profile tail claims feeds sources nodes d =
     (if tail < 0 then Inl (BadArgument ''negative tail'')
      else if tail_offset d < tail then Inl (BadArgument ''supplied tail exceeds current event log tail'')
      else res_bind (res_fold (activate_claim profile) claims (claims_delete_unarchived profile d)) (\<lambda>d1.
        let d2 = claims_delete_for_removed_sources profile sources (claims_delete_for_feeds profile feeds d1);
            d3 = commit_consumer_offset profile tail d2
        in Inr (d3\<lparr>db_kv := (if nodes = [] then node_kv_delete_by_flow profile (db_kv d3)
                           else node_kv_delete_except profile nodes (db_kv d3))\<rparr>)))"

section \<open>Frames\<close>

lemma claims_delete_frame [simp]:
  "db_items (claims_delete P d) = db_items d" "db_commands (claims_delete P d) = db_commands d"
  "db_events (claims_delete P d) = db_events d" "db_event_seq (claims_delete P d) = db_event_seq d"
  "db_offsets (claims_delete P d) = db_offsets d" "db_kv (claims_delete P d) = db_kv d"
  "db_runs (claims_delete P d) = db_runs d"
  by (simp_all add: claims_delete_def)

lemma resolve_scoped_id_snd: "resolve_scoped_id p k s e d = map_prod (map_option it_id) id (resolve_scoped p k s e d)"
  by (auto simp: resolve_scoped_id_def resolve_scoped_def split: option.split)

lemma resolve_frame:
  assumes "resolve_scoped p k s e d = (r, d')"
  shows "db_offsets d' = db_offsets d" "db_claims d' = db_claims d" "db_commands d' = db_commands d"
    "db_event_seq d' = db_event_seq d" "db_events d' = db_events d" "db_kv d' = db_kv d" "db_runs d' = db_runs d"
  using assms by (auto simp: resolve_scoped_def rescope_item_def session_rescope_def split: option.splits if_splits)

lemma create_synthesized_frame:
  assumes "create_synthesized J p k s e payload now d = Inr (r, d')"
  shows "db_offsets d' = db_offsets d" "db_claims d' = db_claims d" "db_commands d' = db_commands d"
    "db_event_seq d' = db_event_seq d" "db_events d' = db_events d" "db_kv d' = db_kv d" "db_runs d' = db_runs d"
    "db_items d' = db_items d @ [r]" "item_identity r = (p, k, s, e)" "it_id r = db_item_seq d + 1"
  using assms
  by (auto simp: create_synthesized_def insert_item_def Let_def item_identity_def split: prod.splits if_splits)

end
