(* ===== verification/Commit_Laws.thy ===== *)
theory Commit_Laws
  imports Commit
begin

text \<open>
  What a commit promises: it fails only on a negative offset or on an output the command table
  refuses, keeps the schema, moves exactly one consumer forward, is idempotent, enqueues each
  action once, and leaves each snapshotted feed with exactly the snapshot's items.
\<close>

section \<open>Item ids are stable\<close>

definition id_of :: "string \<Rightarrow> string \<Rightarrow> string \<Rightarrow> string \<Rightarrow> db \<Rightarrow> int option" where
  "id_of p k s e d = map_option it_id (item_by_identity p k s e d)"

definition output_id :: "string \<Rightarrow> sink_output \<Rightarrow> db \<Rightarrow> int option" where
  "output_id consumer out d = id_of consumer (o_source_kind out) (o_source_scope out) (o_key out) d"

lemma id_of_items: "db_items d' = db_items d \<Longrightarrow> id_of p k s e d' = id_of p k s e d"
  by (simp add: id_of_def item_by_identity_def)

lemma resolve_scoped_id_of:
  assumes "db_ok d" and "resolve_scoped p k s e d = (r, d')"
  shows "id_of p k s e d' = map_option it_id r"
proof (cases r)
  case None
  then show ?thesis using resolve_scoped_missing [of p k s e d d'] assms(2) by (simp add: id_of_def)
next
  case (Some x)
  have "item_by_identity p k s e d' = Some x"
    using find_identity_eq [OF resolve_scoped_ok [OF assms]] resolve_scoped_found assms(2) Some by blast
  then show ?thesis using Some by (simp add: id_of_def)
qed

text \<open>A resolution moves at most the unscoped row of its own identity.\<close>

definition moves :: "string \<Rightarrow> string \<Rightarrow> string \<Rightarrow> string \<Rightarrow> string \<Rightarrow> string \<Rightarrow> bool" where
  "moves k s e k' s' e' \<longleftrightarrow> k' = k \<and> e' = e \<and> s' = [] \<and> s \<noteq> []"

lemma resolve_scoped_stable:
  assumes ok: "db_ok d" and run: "resolve_scoped p k s e d = (r, d')"
    and i: "id_of p k' s' e' d = Some i" and "\<not> moves k s e k' s' e'"
  shows "id_of p k' s' e' d' = Some i"
proof (cases "d' = d")
  case False
  then obtain l where l: "item_by_identity p k [] e d = Some l" and s: "s \<noteq> []"
    and d': "d' = session_rescope p k e s (rescope_item s (it_id l) d)"
    using run by (auto simp: resolve_scoped_def split: option.splits if_splits)
  obtain x where x: "item_by_identity p k' s' e' d = Some x" "it_id x = i" using i by (auto simp: id_of_def)
  have mem: "x \<in> set (db_items d)" "item_identity x = (p, k', s', e')" using find_item_mem [OF x(1)] by auto
  have uid: "unique_on it_id (db_items d)" using ok by (simp add: db_ok_def items_ok_def)
  have "it_id x \<noteq> it_id l"
  proof
    assume "it_id x = it_id l"
    then have "x = l" using unique_on_eq [OF uid mem(1)] find_item_mem [OF l] by blast
    then show False using mem(2) find_item_mem [OF l] assms(4) s by (auto simp: moves_def)
  qed
  then have "x \<in> set (db_items d')" using mem by (auto simp: d' rescope_item_def sql_update_def)
  then have "item_by_identity p k' s' e' d' = Some x"
    by (rule find_identity_eq [OF resolve_scoped_ok [OF ok run] _ mem(2)])
  then show ?thesis using x by (simp add: id_of_def)
qed (use i in simp)

lemma id_of_append:
  "db_items d' = db_items d @ [r] \<Longrightarrow> id_of p k s e d = Some i \<Longrightarrow> id_of p k s e d' = Some i"
  by (auto simp: id_of_def item_by_identity_def find_append)

section \<open>One output\<close>

lemma create_synthesized_total:
  assumes "db_ok d" and "item_by_identity p k s e d = None"
  shows "\<exists>r d'. create_synthesized J p k s e payload now d = Inr (r, d') \<and> db_ok d'"
proof -
  obtain r d' where run: "create_synthesized J p k s e payload now d = Inr (r, d')"
    using assms(2)
    by (cases "feed_fields J payload")
      (auto simp: create_synthesized_def insert_item_def Let_def item_by_identity_def item_identity_def
        find_None_conv list_ex_iff)
  then show ?thesis using create_synthesized_ok [OF assms(1)] by blast
qed

lemma claim_upsert_frame:
  "claim_upsert c d = Inr d' \<Longrightarrow> db_items d' = db_items d \<and> db_offsets d' = db_offsets d \<and>
   db_commands d' = db_commands d \<and> db_event_seq d' = db_event_seq d \<and> db_events d' = db_events d \<and>
   db_kv d' = db_kv d \<and> db_runs d' = db_runs d"
  by (auto simp: claim_upsert_def split: if_splits)

text \<open>The effect of one feed output: its claim, and item ids that do not move.\<close>

lemma commit_feed_effect:
  assumes ok: "db_ok d"
  shows "\<exists>d'. commit_feed K c now out d = Inr d' \<and> db_ok d' \<and> db_offsets d' = db_offsets d \<and>
    db_commands d' = db_commands d \<and> db_event_seq d' = db_event_seq d \<and> db_events d' = db_events d \<and>
    db_kv d' = db_kv d \<and> db_runs d' = db_runs d \<and>
    (o_key out \<noteq> [] \<longrightarrow> output_id c out d' \<noteq> None) \<and>
    set (db_claims d') = set (db_claims d) \<union> (output_claim c out ` set_option (output_id c out d')) \<and>
    (\<forall>k s e i. id_of c k s e d = Some i \<and> \<not> moves (o_source_kind out) (o_source_scope out) (o_key out) k s e \<longrightarrow>
       id_of c k s e d' = Some i)"
proof -
  let ?k = "o_source_kind out" and ?s = "o_source_scope out" and ?e = "o_key out"
  obtain r d1 where res: "resolve_scoped c ?k ?s ?e d = (r, d1)" by fastforce
  have ok1: "db_ok d1" by (rule resolve_scoped_ok [OF ok res])
  note fr = resolve_frame [OF res] and stable = resolve_scoped_stable [OF ok res]
  show ?thesis
  proof (cases r)
    case (Some x)
    have ex: "item_exists (it_id x) d1"
      using resolve_scoped_found(1) [of c ?k ?s ?e d x d1] res Some by (simp add: item_exists_mem)
    obtain d' where up: "claim_upsert (output_claim c out (it_id x)) d1 = Inr d'"
      using claim_upsert_known [of "output_claim c out (it_id x)" d1] ex by (auto simp: output_claim_def)
    have run: "commit_feed K c now out d = Inr d'"
      using up Some by (simp add: commit_feed_def resolve_scoped_id_snd res)
    note up' = claim_upsert_frame [OF up]
    have id': "id_of c k s e d' = id_of c k s e d1" for k s e by (rule id_of_items) (use up' in simp)
    have "output_id c out d' = Some (it_id x)"
      using resolve_scoped_id_of [OF ok res] Some by (simp add: output_id_def id')
    then show ?thesis
      using run claim_upsert_ok [OF ok1 up] up' fr claim_upsert_set [OF up] stable id' by auto
  next
    case None
    have d1: "d1 = d" and none: "item_by_identity c ?k ?s ?e d = None"
      using resolve_scoped_missing res None by blast+
    show ?thesis
    proof (cases "?e = []")
      case True
      then have "commit_feed K c now out d = Inr d"
        using None d1 res by (simp add: commit_feed_def resolve_scoped_id_snd)
      moreover have "output_id c out d = None" using none by (simp add: output_id_def id_of_def)
      ultimately show ?thesis using ok True by auto
    next
      case False
      obtain y d2 where mk: "create_synthesized (sk_scan K) c ?k ?s ?e (o_payload out) now d = Inr (y, d2)"
        and ok2: "db_ok d2"
        using create_synthesized_total [OF ok none] by blast
      note cf = create_synthesized_frame [OF mk]
      have ex: "item_exists (it_id y) d2" by (simp add: item_exists_mem cf(8))
      obtain d' where up: "claim_upsert (output_claim c out (it_id y)) d2 = Inr d'"
        using claim_upsert_known [of "output_claim c out (it_id y)" d2] ex by (auto simp: output_claim_def)
      have run: "commit_feed K c now out d = Inr d'"
        using up None d1 False mk by (simp add: commit_feed_def resolve_scoped_id_snd res)
      note up' = claim_upsert_frame [OF up]
      have id': "id_of c k s e d' = id_of c k s e d2" for k s e by (rule id_of_items) (use up' in simp)
      have "item_by_identity c ?k ?s ?e d2 = Some y"
        by (rule find_identity_eq [OF ok2]) (simp_all add: cf)
      then have "output_id c out d' = Some (it_id y)" by (simp add: output_id_def id') (simp add: id_of_def)
      then show ?thesis
        using run claim_upsert_ok [OF ok2 up] up' cf claim_upsert_set [OF up] id' id_of_append [OF cf(8)]
        by auto
    qed
  qed
qed

lemma enqueue_frame:
  "enqueue_command a k p c ref d = Inr d' \<Longrightarrow> db_items d' = db_items d \<and> db_offsets d' = db_offsets d \<and>
   db_claims d' = db_claims d \<and> db_event_seq d' = db_event_seq d \<and> db_events d' = db_events d \<and>
   db_kv d' = db_kv d \<and> db_runs d' = db_runs d"
  by (auto simp: enqueue_command_def add_command_def Let_def split: if_splits)

text \<open>An output the command table accepts: an action needs a payload, a notification one its
  command encodes to.\<close>

definition committable :: "store_codec \<Rightarrow> string \<Rightarrow> sink_output \<Rightarrow> bool" where
  "committable K c out \<longleftrightarrow>
     (case o_kind out of
        SinkFeed \<Rightarrow> True
      | SinkAction \<Rightarrow> o_payload out \<noteq> []
      | SinkNotify \<Rightarrow>
          (case sk_notify K \<lparr>nc_profile = c, nc_external = o_key out, nc_kind = o_source_kind out,
                  nc_scope = o_source_scope out, nc_item = o_payload out\<rparr> of
             None \<Rightarrow> False | Some p \<Rightarrow> p \<noteq> []))"

definition output_claims :: "string \<Rightarrow> db \<Rightarrow> sink_output \<Rightarrow> feed_claim set" where
  "output_claims c d out =
     (if o_kind out = SinkFeed then output_claim c out ` set_option (output_id c out d) else {})"

definition moved_by :: "sink_output \<Rightarrow> string \<Rightarrow> string \<Rightarrow> string \<Rightarrow> bool" where
  "moved_by out k s e \<longleftrightarrow> o_kind out = SinkFeed \<and> moves (o_source_kind out) (o_source_scope out) (o_key out) k s e"

lemma commit_output_effect:
  assumes ok: "db_ok d" and "committable K c out"
  shows "\<exists>d'. commit_output K c now out d = Inr d' \<and> db_ok d' \<and> db_offsets d' = db_offsets d \<and>
    db_event_seq d' = db_event_seq d \<and> db_events d' = db_events d \<and>
    db_kv d' = db_kv d \<and> db_runs d' = db_runs d \<and>
    (o_kind out = SinkFeed \<and> o_key out \<noteq> [] \<longrightarrow> output_id c out d' \<noteq> None) \<and>
    set (db_claims d') = set (db_claims d) \<union> output_claims c d' out \<and>
    (\<forall>k s e i. id_of c k s e d = Some i \<and> \<not> moved_by out k s e \<longrightarrow> id_of c k s e d' = Some i)"
proof -
  have cmd: ?thesis if enq: "commit_output K c now out d = enqueue_command a k p now ref d"
    and p: "p \<noteq> []" and kind: "o_kind out \<noteq> SinkFeed" for a k p ref
  proof -
    obtain d' where run: "enqueue_command a k p now ref d = Inr d'"
      using p that by (cases "original_command a k d") (simp_all add: enqueue_command_def)
    have "id_of c k s e d' = id_of c k s e d" for k s e
      by (rule id_of_items) (use enqueue_frame [OF run] in simp)
    then show ?thesis using run enq enqueue_ok [OF ok run] enqueue_frame [OF run] kind
      by (simp add: output_claims_def)
  qed
  show ?thesis
  proof (cases "o_kind out")
    case SinkFeed
    then show ?thesis using commit_feed_effect [OF ok, of K c now out]
      by (simp add: commit_output_def output_claims_def moved_by_def) blast
  next
    case SinkAction
    then show ?thesis using assms(2) by (intro cmd) (simp_all add: commit_output_def committable_def)
  next
    case SinkNotify
    then obtain p where p: "sk_notify K \<lparr>nc_profile = c, nc_external = o_key out, nc_kind = o_source_kind out,
        nc_scope = o_source_scope out, nc_item = o_payload out\<rparr> = Some p" "p \<noteq> []"
      using assms(2) by (auto simp: committable_def split: option.splits)
    show ?thesis by (rule cmd [OF _ p(2)]) (use SinkNotify p(1) in \<open>simp_all add: commit_output_def\<close>)
  qed
qed

section \<open>All outputs of a batch\<close>

definition named_items :: "db \<Rightarrow> bool" where
  "named_items d \<longleftrightarrow> (\<forall>r\<in>set (db_items d). it_external r \<noteq> [])"

lemma named_none: "named_items d \<Longrightarrow> id_of p k s [] d = None"
  by (auto simp: named_items_def id_of_def item_by_identity_def item_identity_def find_None_conv)

lemma commit_output_named:
  assumes "named_items d" and "commit_output K c now out d = Inr d'"
  shows "named_items d'"
proof (cases "o_kind out")
  case SinkFeed
  have feed: "commit_feed K c now out d = Inr d'" using assms(2) SinkFeed by (simp add: commit_output_def)
  obtain r d1 where res: "resolve_scoped c (o_source_kind out) (o_source_scope out) (o_key out) d = (r, d1)" by fastforce
  have n1: "named_items d1" using res assms(1)
    by (auto simp: resolve_scoped_def rescope_item_def named_items_def sql_update_def split: option.splits if_splits)
  show ?thesis
  proof (cases "r = None \<and> o_key out \<noteq> []")
    case True
    then obtain y d2 where mk: "create_synthesized (sk_scan K) c (o_source_kind out) (o_source_scope out)
        (o_key out) (o_payload out) now d1 = Inr (y, d2)" and up: "claim_upsert (output_claim c out (it_id y)) d2 = Inr d'"
      using feed by (auto simp: commit_feed_def resolve_scoped_id_snd res res_bind_Inr_conv)
    have "it_external y = o_key out" using create_synthesized_frame(9) [OF mk] by (simp add: item_identity_def)
    then show ?thesis using True n1 create_synthesized_frame(8) [OF mk] claim_upsert_frame [OF up]
      by (simp add: named_items_def)
  next
    case False
    then show ?thesis using feed n1 res
      by (cases r) (auto simp: commit_feed_def resolve_scoped_id_snd named_items_def dest!: claim_upsert_frame)
  qed
qed (use assms in \<open>auto simp: commit_output_def named_items_def split: option.splits dest!: enqueue_frame\<close>)

definition scopes_agree :: "sink_output list \<Rightarrow> bool" where
  "scopes_agree outs \<longleftrightarrow> (\<forall>a\<in>set outs. \<forall>b\<in>set outs.
     \<not> moved_by a (o_source_kind b) (o_source_scope b) (o_key b))"

lemma commit_outputs_effect:
  assumes "db_ok d" and "named_items d" and "\<forall>out\<in>set outs. committable K c out" and "scopes_agree outs"
  shows "\<exists>d1. res_fold (commit_output K c now) outs d = Inr d1 \<and> db_ok d1 \<and> named_items d1 \<and>
    db_offsets d1 = db_offsets d \<and> db_event_seq d1 = db_event_seq d \<and> db_events d1 = db_events d \<and>
    db_kv d1 = db_kv d \<and> db_runs d1 = db_runs d \<and>
    (\<forall>out\<in>set outs. o_kind out = SinkFeed \<and> o_key out \<noteq> [] \<longrightarrow> output_id c out d1 \<noteq> None) \<and>
    set (db_claims d1) = set (db_claims d) \<union> (\<Union>out\<in>set outs. output_claims c d1 out) \<and>
    (\<forall>k s e i. id_of c k s e d = Some i \<and> (\<forall>out\<in>set outs. \<not> moved_by out k s e) \<longrightarrow> id_of c k s e d1 = Some i)"
  using assms
proof (induction outs arbitrary: d)
  case (Cons out outs)
  have head: "committable K c out" and rest: "\<forall>x\<in>set outs. committable K c x" using Cons.prems(3) by simp_all
  obtain d' where d': "commit_output K c now out d = Inr d'" and ok': "db_ok d'"
    and fr: "db_offsets d' = db_offsets d" "db_event_seq d' = db_event_seq d" "db_events d' = db_events d"
      "db_kv d' = db_kv d" "db_runs d' = db_runs d"
    and known: "o_kind out = SinkFeed \<and> o_key out \<noteq> [] \<longrightarrow> output_id c out d' \<noteq> None"
    and cl: "set (db_claims d') = set (db_claims d) \<union> output_claims c d' out"
    and st: "\<forall>k s e i. id_of c k s e d = Some i \<and> \<not> moved_by out k s e \<longrightarrow> id_of c k s e d' = Some i"
    using commit_output_effect [OF Cons.prems(1) head, of now] by (elim exE conjE) (rule that; assumption)
  have n': "named_items d'" by (rule commit_output_named [OF Cons.prems(2) d'])
  have agree: "scopes_agree outs" using Cons.prems(4) by (simp add: scopes_agree_def)
  obtain d1 where d1: "res_fold (commit_output K c now) outs d' = Inr d1" and ok1: "db_ok d1" and n1: "named_items d1"
    and fr1: "db_offsets d1 = db_offsets d'" "db_event_seq d1 = db_event_seq d'" "db_events d1 = db_events d'"
      "db_kv d1 = db_kv d'" "db_runs d1 = db_runs d'"
    and known1: "\<forall>out\<in>set outs. o_kind out = SinkFeed \<and> o_key out \<noteq> [] \<longrightarrow> output_id c out d1 \<noteq> None"
    and cl1: "set (db_claims d1) = set (db_claims d') \<union> (\<Union>out\<in>set outs. output_claims c d1 out)"
    and st1: "\<forall>k s e i. id_of c k s e d' = Some i \<and> (\<forall>out\<in>set outs. \<not> moved_by out k s e) \<longrightarrow> id_of c k s e d1 = Some i"
    using Cons.IH [OF ok' n' rest agree] by (elim exE conjE) (rule that; assumption)
  have own: "\<forall>x\<in>set outs. \<not> moved_by x (o_source_kind out) (o_source_scope out) (o_key out)"
    using Cons.prems(4) by (simp add: scopes_agree_def)
  have keep: "output_id c out d1 = output_id c out d'" if "o_kind out = SinkFeed"
  proof (cases "output_id c out d'")
    case None
    then have "o_key out = []" using known that by blast
    then show ?thesis using named_none [OF n1] None by (simp add: output_id_def)
  next
    case (Some i)
    then show ?thesis using st1 own by (simp add: output_id_def)
  qed
  then have claims: "output_claims c d1 out = output_claims c d' out" by (simp add: output_claims_def)
  have "res_fold (commit_output K c now) (out # outs) d = Inr d1" using d' d1 by simp
  moreover have "\<forall>x\<in>set (out # outs). o_kind x = SinkFeed \<and> o_key x \<noteq> [] \<longrightarrow> output_id c x d1 \<noteq> None"
    using known1 known keep by auto
  moreover have "set (db_claims d1) = set (db_claims d) \<union> (\<Union>out\<in>set (out # outs). output_claims c d1 out)"
    using cl cl1 claims by auto
  moreover have "\<forall>k s e i. id_of c k s e d = Some i \<and> (\<forall>x\<in>set (out # outs). \<not> moved_by x k s e) \<longrightarrow>
      id_of c k s e d1 = Some i"
    using st st1 by simp
  ultimately show ?case using ok1 n1 fr fr1 by (intro exI [of _ d1]) simp
qed simp

section \<open>Reconciling snapshots\<close>

lemma resolve_id_known:
  assumes "named_items d" and "e \<noteq> [] \<Longrightarrow> id_of p k s e d \<noteq> None"
  shows "resolve_scoped_id p k s e d = (id_of p k s e d, d)"
proof (cases "e = []")
  case True
  have "item_by_identity p k s' [] d = None" for s' using named_none [OF assms(1), of p k s'] by (simp add: id_of_def)
  then show ?thesis using True by (simp add: resolve_scoped_id_def resolve_scoped_def id_of_def)
next
  case False
  then obtain r where "item_by_identity p k s e d = Some r" using assms(2) by (auto simp: id_of_def)
  then show ?thesis by (simp add: resolve_scoped_id_def id_of_def)
qed

lemma snapshot_ids_known:
  assumes "named_items d" and "\<forall>out\<in>set outs. o_key out \<noteq> [] \<longrightarrow> output_id c out d \<noteq> None"
  shows "snapshot_ids c outs d = (List.map_filter (\<lambda>out. output_id c out d) outs, d)"
  using assms(2)
proof (induction outs)
  case (Cons out outs)
  have "resolve_scoped_id c (o_source_kind out) (o_source_scope out) (o_key out) d = (output_id c out d, d)"
    unfolding output_id_def by (rule resolve_id_known [OF assms(1)]) (use Cons.prems in \<open>simp add: output_id_def\<close>)
  then show ?case using Cons by (simp add: List.map_filter_simps split: option.split)
qed (simp add: List.map_filter_simps)

text \<open>A claim survives the snapshots when each snapshot of its feed and source holds its item.\<close>

definition snapshot_items :: "string \<Rightarrow> db \<Rightarrow> sink_output list \<Rightarrow> feed_snapshot \<Rightarrow> int set" where
  "snapshot_items c d outs fs = {i. \<exists>out\<in>set outs. in_snapshot fs out \<and> output_id c out d = Some i}"

definition survives :: "string \<Rightarrow> db \<Rightarrow> sink_output list \<Rightarrow> feed_snapshot list \<Rightarrow> feed_claim \<Rightarrow> bool" where
  "survives c d outs snaps cl \<longleftrightarrow> (\<forall>fs\<in>set snaps.
     fc_feed cl = fs_feed fs \<and> fc_source cl = fs_topic fs \<longrightarrow> fc_item cl \<in> snapshot_items c d outs fs)"

lemma set_map_filter_ids:
  "set (List.map_filter (\<lambda>out. output_id c out d) (filter (in_snapshot fs) outs)) = snapshot_items c d outs fs"
  by (induction outs) (auto simp: List.map_filter_simps snapshot_items_def split: option.split)

lemma reconcile_snapshot_known:
  assumes "named_items d" and "\<forall>out\<in>set outs. o_kind out = SinkFeed \<and> o_key out \<noteq> [] \<longrightarrow> output_id c out d \<noteq> None"
  shows "\<exists>P. reconcile_snapshot c outs fs d = claims_delete P d \<and>
    (\<forall>cl. P cl \<longleftrightarrow> fc_feed cl = fs_feed fs \<and> fc_source cl = fs_topic fs \<and> fc_item cl \<notin> snapshot_items c d outs fs)"
proof -
  let ?ids = "List.map_filter (\<lambda>out. output_id c out d) (filter (in_snapshot fs) outs)"
  have "snapshot_ids c (filter (in_snapshot fs) outs) d = (?ids, d)"
    by (rule snapshot_ids_known [OF assms(1)]) (use assms(2) in \<open>auto simp: in_snapshot_def\<close>)
  moreover note set_map_filter_ids [of c d fs outs, symmetric]
  ultimately show ?thesis
    by (auto simp: reconcile_snapshot_def claims_delete_for_source_all_def claims_delete_not_in_snapshot_def)
qed

lemma reconcile_all:
  assumes "named_items d" and "\<forall>out\<in>set outs. o_kind out = SinkFeed \<and> o_key out \<noteq> [] \<longrightarrow> output_id c out d \<noteq> None"
    and "db_ok d"
  shows "\<exists>cs. fold (reconcile_snapshot c outs) snaps d = d\<lparr>db_claims := cs\<rparr> \<and> db_ok (d\<lparr>db_claims := cs\<rparr>) \<and>
    set cs = {cl \<in> set (db_claims d). survives c d outs snaps cl}"
  using assms
proof (induction snaps arbitrary: d)
  case Nil
  then show ?case by (intro exI [of _ "db_claims d"]) (simp add: survives_def)
next
  case (Cons fs snaps)
  obtain P where P: "reconcile_snapshot c outs fs d = claims_delete P d"
    and P_iff: "\<And>cl. P cl \<longleftrightarrow> fc_feed cl = fs_feed fs \<and> fc_source cl = fs_topic fs \<and> fc_item cl \<notin> snapshot_items c d outs fs"
    using reconcile_snapshot_known [OF Cons.prems(1,2)] by blast
  let ?d1 = "claims_delete P d"
  have same: "output_id c out ?d1 = output_id c out d" for out
    unfolding output_id_def by (rule id_of_items) simp
  obtain cs where cs: "fold (reconcile_snapshot c outs) snaps ?d1 = ?d1\<lparr>db_claims := cs\<rparr>" "db_ok (?d1\<lparr>db_claims := cs\<rparr>)"
    "set cs = {cl \<in> set (db_claims ?d1). survives c ?d1 outs snaps cl}"
    using Cons.IH [of ?d1] Cons.prems same claims_ok_delete [OF Cons.prems(3)] by (auto simp: named_items_def)
  have "survives c ?d1 outs snaps = survives c d outs snaps"
    by (simp add: survives_def snapshot_items_def same fun_eq_iff)
  moreover have "set (db_claims ?d1) = {cl \<in> set (db_claims d). \<not> P cl}" by (auto simp: claims_delete_def sql_delete_def)
  ultimately have "set cs = {cl \<in> set (db_claims d). survives c d outs (fs # snaps) cl}"
    using cs(3) P_iff by (auto simp: survives_def)
  then show ?case using cs P by (intro exI [of _ cs]) (simp add: claims_delete_def)
qed

section \<open>The commit\<close>

lemma fold_node_runs:
  "fold (\<lambda>nr. node_run_insert nr now) nrs d = d\<lparr>db_runs := db_runs d @ map (\<lambda>nr. \<lparr>rr_run = nr, rr_ended = now\<rparr>) nrs\<rparr>"
  by (induction nrs arbitrary: d) (simp_all add: node_run_insert_def)

lemma apply_kv_mutations_unique: "unique_on kr_pk t \<Longrightarrow> unique_on kr_pk (apply_kv_mutations c k ms t)"
  unfolding apply_kv_mutations_def by (induction ms arbitrary: t) (simp_all add: apply_kv_unique)

lemma commit_offset_frame [simp]:
  "db_claims (commit_consumer_offset c n d) = db_claims d" "db_items (commit_consumer_offset c n d) = db_items d"
  "db_kv (commit_consumer_offset c n d) = db_kv d" "db_runs (commit_consumer_offset c n d) = db_runs d"
  "db_events (commit_consumer_offset c n d) = db_events d" "db_event_seq (commit_consumer_offset c n d) = db_event_seq d"
  "db_commands (commit_consumer_offset c n d) = db_commands d"
  by (simp_all add: commit_consumer_offset_def)

lemma consumer_offset_cong: "db_offsets d' = db_offsets d \<Longrightarrow> consumer_offset c d' = consumer_offset c d"
  by (simp add: consumer_offset_def)

lemma consumer_offset_other: "c' \<noteq> c \<Longrightarrow> consumer_offset c' (commit_consumer_offset c n d) = consumer_offset c' d"
  by (simp add: consumer_offset_commit)

lemma commit_step:
  assumes "db_ok d" and "named_items d" and "0 \<le> cb_up_to b" and "consumer_offset (cb_consumer b) d < cb_up_to b"
    and "\<forall>out\<in>set (cb_outputs b). committable K (cb_consumer b) out" and "scopes_agree (cb_outputs b)"
  shows "\<exists>d'. commit K now clock b d = Inr d' \<and> db_ok d' \<and> named_items d' \<and>
    consumer_offset (cb_consumer b) d' = cb_up_to b \<and>
    (\<forall>c. c \<noteq> cb_consumer b \<longrightarrow> consumer_offset c d' = consumer_offset c d) \<and>
    db_events d' = db_events d \<and> db_event_seq d' = db_event_seq d \<and>
    db_kv d' = apply_kv_mutations (cb_consumer b) clock (cb_mutations b) (db_kv d) \<and>
    db_runs d' = db_runs d @ map (\<lambda>nr. \<lparr>rr_run = nr, rr_ended = now\<rparr>) (cb_node_runs b) \<and>
    set (db_claims d') =
      {cl \<in> set (db_claims d) \<union> (\<Union>out\<in>set (cb_outputs b). output_claims (cb_consumer b) d' out).
         survives (cb_consumer b) d' (cb_outputs b) (cb_snapshots b) cl} \<and>
    (\<forall>out\<in>set (cb_outputs b). o_kind out = SinkFeed \<and> o_key out \<noteq> [] \<longrightarrow> output_id (cb_consumer b) out d' \<noteq> None)"
proof -
  let ?c = "cb_consumer b" and ?outs = "cb_outputs b"
  obtain d1 where d1: "res_fold (commit_output K ?c now) ?outs d = Inr d1" and ok1: "db_ok d1" and n1: "named_items d1"
    and fr: "db_offsets d1 = db_offsets d" "db_event_seq d1 = db_event_seq d" "db_events d1 = db_events d"
      "db_kv d1 = db_kv d" "db_runs d1 = db_runs d"
    and known: "\<forall>out\<in>set ?outs. o_kind out = SinkFeed \<and> o_key out \<noteq> [] \<longrightarrow> output_id ?c out d1 \<noteq> None"
    and cl: "set (db_claims d1) = set (db_claims d) \<union> (\<Union>out\<in>set ?outs. output_claims ?c d1 out)"
    using commit_outputs_effect [OF assms(1,2,5,6), of now] by (elim exE conjE) (rule that; assumption)
  obtain cs where cs: "fold (reconcile_snapshot ?c ?outs) (cb_snapshots b) d1 = d1\<lparr>db_claims := cs\<rparr>"
    and ok2: "db_ok (d1\<lparr>db_claims := cs\<rparr>)"
    and set_cs: "set cs = {cl \<in> set (db_claims d1). survives ?c d1 ?outs (cb_snapshots b) cl}"
    using reconcile_all [OF n1 known ok1] by blast
  define d4 where "d4 = d1\<lparr>db_claims := cs, db_kv := apply_kv_mutations ?c clock (cb_mutations b) (db_kv d),
    db_runs := db_runs d @ map (\<lambda>nr. \<lparr>rr_run = nr, rr_ended = now\<rparr>) (cb_node_runs b)\<rparr>"
  define d' where "d' = commit_consumer_offset ?c (cb_up_to b) d4"
  have "commit_tail now clock b d1 = d'"
    by (simp add: commit_tail_def Let_def cs fold_node_runs d'_def d4_def fr)
  then have run: "commit K now clock b d = Inr d'" using assms(3,4) d1 by (simp add: commit_def)
  have "unique_on kr_pk (apply_kv_mutations ?c clock (cb_mutations b) (db_kv d))"
    by (rule apply_kv_mutations_unique) (use assms(1) in \<open>simp add: db_ok_def\<close>)
  then have "db_ok d4" using ok2 by (simp add: d4_def db_ok_def)
  then have ok': "db_ok d'" unfolding d'_def by (rule commit_consumer_offset_ok)
  have offs: "consumer_offset c d4 = consumer_offset c d" for c
    by (rule consumer_offset_cong) (simp add: d4_def fr)
  have own: "consumer_offset ?c d' = cb_up_to b"
    unfolding d'_def by (rule consumer_offset_mono) (use assms(4) offs in simp)
  have other: "consumer_offset c d' = consumer_offset c d" if "c \<noteq> ?c" for c
    unfolding d'_def using consumer_offset_other [OF that] offs by simp
  have items: "db_items d' = db_items d1" by (simp add: d'_def d4_def)
  have ids: "output_id ?c out d' = output_id ?c out d1" for out
    unfolding output_id_def by (rule id_of_items [OF items])
  have surv: "survives ?c d' ?outs (cb_snapshots b) = survives ?c d1 ?outs (cb_snapshots b)"
    by (simp add: survives_def snapshot_items_def ids fun_eq_iff)
  have oc: "output_claims ?c d' = output_claims ?c d1" by (simp add: output_claims_def ids fun_eq_iff)
  have "db_claims d' = cs" by (simp add: d'_def d4_def)
  then have claims: "set (db_claims d') = {x \<in> set (db_claims d) \<union> (\<Union>out\<in>set ?outs. output_claims ?c d' out).
      survives ?c d' ?outs (cb_snapshots b) x}"
    using set_cs cl by (simp add: surv oc)
  show ?thesis
    by (rule exI [of _ d']) (use run ok' own other claims n1 known in
      \<open>simp add: named_items_def items ids, simp add: d'_def d4_def fr\<close>)
qed

text \<open>
  Claim C8: what a commit does. On a sound database, a batch past the consumer's offset whose
  outputs the command table accepts always commits, and the result is sound. The consumer
  stands at the batch's offset and no other consumer moves; the log is untouched; the key-value
  table has the mutations applied and the node runs are recorded; the memberships are the old
  ones and one per feed output whose item exists, less those a snapshot of the batch for their
  feed and source does not contain.
\<close>

theorem commit_effect:
  assumes "db_ok d" and "named_items d" and "0 \<le> cb_up_to b" and "consumer_offset (cb_consumer b) d < cb_up_to b"
    and "\<forall>out\<in>set (cb_outputs b). committable K (cb_consumer b) out" and "scopes_agree (cb_outputs b)"
  shows "\<exists>d'. commit K now clock b d = Inr d' \<and> db_ok d' \<and> named_items d' \<and>
    consumer_offset (cb_consumer b) d' = cb_up_to b \<and>
    (\<forall>c. c \<noteq> cb_consumer b \<longrightarrow> consumer_offset c d' = consumer_offset c d) \<and>
    db_events d' = db_events d \<and> db_event_seq d' = db_event_seq d \<and>
    db_kv d' = apply_kv_mutations (cb_consumer b) clock (cb_mutations b) (db_kv d) \<and>
    db_runs d' = db_runs d @ map (\<lambda>nr. \<lparr>rr_run = nr, rr_ended = now\<rparr>) (cb_node_runs b) \<and>
    set (db_claims d') =
      {cl \<in> set (db_claims d) \<union> (\<Union>out\<in>set (cb_outputs b). output_claims (cb_consumer b) d' out).
         survives (cb_consumer b) d' (cb_outputs b) (cb_snapshots b) cl} \<and>
    (\<forall>out\<in>set (cb_outputs b). o_kind out = SinkFeed \<and> o_key out \<noteq> [] \<longrightarrow> output_id (cb_consumer b) out d' \<noteq> None)"
  by (rule commit_step [OF assms])

text \<open>
  Claim C9: commits are idempotent. Once a batch has committed, committing it or any other batch
  of that consumer up to the same or a lower offset changes nothing.
\<close>

theorem commit_idempotent:
  assumes "commit K now clock b d = Inr d'"
    and "cb_consumer b' = cb_consumer b" and "0 \<le> cb_up_to b'" and "cb_up_to b' \<le> cb_up_to b"
  shows "commit K now' clock' b' d' = Inr d'"
proof -
  have "cb_up_to b \<le> consumer_offset (cb_consumer b) d'"
  proof (cases "cb_up_to b \<le> consumer_offset (cb_consumer b) d")
    case True
    then show ?thesis using assms(1) by (simp add: commit_def split: if_splits)
  next
    case False
    then obtain d4 where "d' = commit_consumer_offset (cb_consumer b) (cb_up_to b) d4"
      using assms(1) by (auto simp: commit_def commit_tail_def Let_def res_bind_Inr_conv split: if_splits)
    then show ?thesis by (simp add: consumer_offset_commit split: option.split)
  qed
  then show ?thesis using assms(2-4) by (simp add: commit_def)
qed

text \<open>
  Claim C10: a snapshot is authoritative. After a commit, the items a feed holds from a source
  whose snapshot the batch declares are exactly those of the batch's outputs to that feed that
  carry this snapshot: nothing is missing and nothing older is left.
\<close>

theorem snapshot_exact:
  assumes "db_ok d" and "named_items d" and "0 \<le> cb_up_to b" and "consumer_offset (cb_consumer b) d < cb_up_to b"
    and "\<forall>out\<in>set (cb_outputs b). committable K (cb_consumer b) out" and "scopes_agree (cb_outputs b)"
    and "fs \<in> set (cb_snapshots b)" and "distinct (map (\<lambda>fs. (fs_feed fs, fs_topic fs)) (cb_snapshots b))"
  shows "\<exists>d'. commit K now clock b d = Inr d' \<and>
    fc_item ` {cl \<in> set (db_claims d'). fc_feed cl = fs_feed fs \<and> fc_source cl = fs_topic fs} =
    {i. \<exists>out\<in>set (cb_outputs b). in_snapshot fs out \<and> output_id (cb_consumer b) out d' = Some i}"
proof -
  let ?c = "cb_consumer b" and ?outs = "cb_outputs b"
  obtain d' where run: "commit K now clock b d = Inr d'"
    and claims: "set (db_claims d') = {x \<in> set (db_claims d) \<union> (\<Union>out\<in>set ?outs. output_claims ?c d' out).
      survives ?c d' ?outs (cb_snapshots b) x}"
    using commit_step [OF assms(1-6)] by blast
  have only: "fs' = fs" if "fs' \<in> set (cb_snapshots b)" "fs_feed fs' = fs_feed fs" "fs_topic fs' = fs_topic fs" for fs'
    using assms(7,8) that by (auto simp: distinct_map dest: inj_onD)
  have "i \<in> snapshot_items ?c d' ?outs fs" if "cl \<in> set (db_claims d')" "fc_feed cl = fs_feed fs"
    "fc_source cl = fs_topic fs" "i = fc_item cl" for cl i
    using that claims assms(7) by (auto simp: survives_def)
  moreover have "\<exists>cl\<in>set (db_claims d'). fc_feed cl = fs_feed fs \<and> fc_source cl = fs_topic fs \<and> fc_item cl = i"
    if "out \<in> set ?outs" "in_snapshot fs out" "output_id ?c out d' = Some i" for out i
  proof -
    have "survives ?c d' ?outs (cb_snapshots b) (output_claim ?c out i)"
      unfolding survives_def using that only by (auto simp: output_claim_def in_snapshot_def snapshot_items_def)
    then have "output_claim ?c out i \<in> set (db_claims d')"
      using that unfolding claims by (auto simp: output_claims_def in_snapshot_def)
    then show ?thesis using that(2) by (intro bexI [of _ "output_claim ?c out i"]) (simp_all add: output_claim_def in_snapshot_def)
  qed
  ultimately have "fc_item ` {cl \<in> set (db_claims d'). fc_feed cl = fs_feed fs \<and> fc_source cl = fs_topic fs} =
      snapshot_items ?c d' ?outs fs"
    by (fastforce simp: snapshot_items_def)
  then show ?thesis using run by (auto simp: snapshot_items_def)
qed

text \<open>
  A message without a payload that reaches an action blocks its flow. Whatever else the
  batch holds, no commit past it ever succeeds, so the consumer never moves beyond it.
\<close>

theorem payloadless_action_blocks:
  assumes "out \<in> set (cb_outputs b)" and "o_kind out = SinkAction" and "o_payload out = []"
    and "consumer_offset (cb_consumer b) d < cb_up_to b"
  shows "\<exists>e. commit K now clock b d = Inl e"
proof -
  have "\<exists>e. res_fold (commit_output K (cb_consumer b) now) outs d = Inl e" if "out \<in> set outs" for outs d
    using that
  proof (induction outs arbitrary: d)
    case (Cons x outs)
    show ?case
    proof (cases "x = out")
      case True
      then show ?thesis using assms(2,3) by (simp add: commit_output_def enqueue_command_def)
    next
      case False
      then have "out \<in> set outs" using Cons.prems by simp
      from Cons.IH [OF this] show ?thesis by (cases "commit_output K (cb_consumer b) now x d") auto
    qed
  qed simp
  from this [OF assms(1), of d] show ?thesis using assms(4) by (auto simp: commit_def)
qed

end
