(* ===== verification/Engine.thy ===== *)
theory Engine
  imports Run_Modes Commit_Laws
begin

text \<open>
  The engine (\<open>internal/app/runtime/engine.go\<close>): pumping pages of the log through an installed
  runner, draining, and installing flows with the replay protocol. A runner's key-value reads go
  to the database as it stands when the run starts. The order in which Go ranges over the map of
  runners is an argument. Clocks are arguments; logging, metrics and event publication are left
  out.
\<close>

record 's engine_env =
  en_codec :: js_codec
  en_store :: store_codec
  en_options :: "'s options"
  en_page :: nat

datatype engine_error = LogFailed store_error | RunFailed run_error | CommitFailed store_error
  | BuildFailed runner_error

type_synonym 's runners = "(string, 's runner) amap"

definition default_page_size :: nat where
  "default_page_size = 500"

definition page_size :: "int \<Rightarrow> nat" where
  "page_size n = (if n \<le> 0 then default_page_size else nat n)"

section \<open>Draining\<close>

datatype pump_result = PumpFailed engine_error | PumpIdle | PumpDid

definition live_runner :: "db \<Rightarrow> 's runner \<Rightarrow> 's runner" where
  "live_runner d r = r\<lparr>rn_kv := Some (node_kv_reader (db_kv d))\<rparr>"

text \<open>What a run did to the script instances stays even when its commit fails.\<close>

definition pump ::
  "'s engine_env \<Rightarrow> int \<Rightarrow> string \<Rightarrow> 's runner \<Rightarrow> nat \<Rightarrow> db \<Rightarrow> pump_result \<times> 's runner \<times> nat \<times> db" where
  "pump E now fid r pool d =
     (case read_for_consumer (en_store E) fid (en_page E) d of
        Inl e \<Rightarrow> (PumpFailed (LogFailed e), r, pool, d)
      | Inr batch \<Rightarrow>
          if batch = [] then (PumpIdle, r, pool, d)
          else case run (en_codec E) now (live_runner d r) pool batch of
                 Inl e \<Rightarrow> (PumpFailed (RunFailed e), r, pool, d)
               | Inr (b, r', pool') \<Rightarrow>
                   (case commit (en_store E) now now b d of
                      Inl e \<Rightarrow> (PumpFailed (CommitFailed e), r', pool', d)
                    | Inr d' \<Rightarrow> (PumpDid, r', pool', d')))"

fun drain_flow ::
  "nat \<Rightarrow> 's engine_env \<Rightarrow> (nat \<Rightarrow> int) \<Rightarrow> string \<Rightarrow> 's runner \<Rightarrow> nat \<Rightarrow> db \<Rightarrow>
   (pump_result \<times> bool \<times> 's runner \<times> nat \<times> db) option" where
  "drain_flow 0 E clk fid r pool d = None"
| "drain_flow (Suc n) E clk fid r pool d =
     (case pump E (clk n) fid r pool d of
        (PumpDid, r', pool', d') \<Rightarrow>
          map_option (\<lambda>(res, _, rest). (res, True, rest)) (drain_flow n E clk fid r' pool' d')
      | (res, r', pool', d') \<Rightarrow> Some (res, False, r', pool', d'))"

fun drain ::
  "nat \<Rightarrow> 's engine_env \<Rightarrow> (nat \<Rightarrow> int) \<Rightarrow> string list \<Rightarrow> 's runners \<Rightarrow> nat \<Rightarrow> db \<Rightarrow>
   (bool \<times> 's runners \<times> nat \<times> db) option" where
  "drain n E clk [] rs pool d = Some (False, rs, pool, d)"
| "drain n E clk (fid # order) rs pool d =
     (case map_of rs fid of
        None \<Rightarrow> drain n E clk order rs pool d
      | Some r \<Rightarrow>
          (case drain_flow n E clk fid r pool d of
             None \<Rightarrow> None
           | Some (_, did, r', pool', d') \<Rightarrow>
               map_option (\<lambda>(c, rest). (did \<or> c, rest))
                 (drain n E clk order (AList.update fid r' rs) pool' d')))"

section \<open>Installing a flow\<close>

definition flow_feed_ids :: "flow \<Rightarrow> string list" where
  "flow_feed_ids f = map (\<lambda>n. f_id f @ ''/'' @ n_id n) (filter (\<lambda>n. bh_reconciled (behavior_of (n_type n))) (f_nodes f))"

definition flow_source_ids :: "flow \<Rightarrow> string list" where
  "flow_source_ids f = map (\<lambda>n. ''source:'' @ f_id f @ ''/'' @ n_id n)
     (filter (\<lambda>n. \<not> bh_reconciled (behavior_of (n_type n)) \<and> bh_relay (behavior_of (n_type n)) \<and> \<not> n_disabled n)
        (f_nodes f))"

definition flow_targets :: "flow \<Rightarrow> string list \<times> string list" where
  "flow_targets f = (flow_feed_ids f, flow_source_ids f)"

definition flow_kv_node_ids :: "flow \<Rightarrow> string list" where
  "flow_kv_node_ids f = map n_id (filter (\<lambda>n. bh_kv (behavior_of (n_type n))) (f_nodes f))"

definition identity_key :: "string \<Rightarrow> string \<Rightarrow> string \<Rightarrow> string" where
  "identity_key kind scope ext = kind @ NUL @ scope @ NUL @ ext"

definition by_identity :: "item_row list \<Rightarrow> (string, int) amap" where
  "by_identity items = rev (map (\<lambda>r. (identity_key (it_kind r) (it_scope r) (it_external r), it_id r)) items)"

definition replay_claims :: "string \<Rightarrow> (string, int) amap \<Rightarrow> sink_output list \<Rightarrow> feed_claim list" where
  "replay_claims fid ids outs =
     List.map_filter (\<lambda>out.
       if o_kind out \<noteq> SinkFeed then None
       else map_option (\<lambda>i. \<lparr>fc_profile = fid, fc_feed = o_target out, fc_item = i, fc_source = o_source_topic out\<rparr>)
              (map_of ids (identity_key (o_source_kind out) (o_source_scope out) (o_key out)))) outs"

definition replay ::
  "'s engine_env \<Rightarrow> int \<Rightarrow> flow \<Rightarrow> 's runner \<Rightarrow> nat \<Rightarrow> db \<Rightarrow> (engine_error, 's runner \<times> nat \<times> db) result" where
  "replay E now f r pool d =
     (let tail = tail_offset d;
          (feeds, sources) = flow_targets f;
          ids = by_identity (list_unarchived (f_id f) d)
      in case list_latest_snapshots (en_store E) (f_id f) tail d of
           Inl e \<Rightarrow> Inl (LogFailed e)
         | Inr snaps \<Rightarrow>
             (case run_replay (en_codec E) now r pool (filter (\<lambda>m. m_topic m \<in> set sources) snaps) of
                Inl e \<Rightarrow> Inl (RunFailed e)
              | Inr (b, r', pool') \<Rightarrow>
                  (case activate_replay (f_id f) tail (replay_claims (f_id f) ids (cb_outputs b)) feeds sources
                          (flow_kv_node_ids f) d of
                     Inl e \<Rightarrow> Inl (CommitFailed e)
                   | Inr d' \<Rightarrow> Inr (r', pool', d'))))"

definition install_flow ::
  "'s engine_env \<Rightarrow> int \<Rightarrow> flow \<Rightarrow> 's runners \<Rightarrow> nat \<Rightarrow> db \<Rightarrow> engine_error option \<times> 's runners \<times> nat \<times> db" where
  "install_flow E now f rs pool d =
     (case new_runner f (en_options E) of
        Inl e \<Rightarrow> (Some (BuildFailed e), rs, pool, d)
      | Inr r \<Rightarrow>
          (case replay E now f r pool d of
             Inl e \<Rightarrow> (Some e, rs, pool, d)
           | Inr (r', pool', d') \<Rightarrow> (None, AList.update (f_id f) r' rs, pool', d')))"

definition enabled_flows :: "flow list \<Rightarrow> (string, flow) amap" where
  "enabled_flows fs = fold (\<lambda>f m. if f_enabled f then AList.update (f_id f) f m else m) fs []"

definition drop_removed :: "(string, flow) amap \<Rightarrow> 's runners \<Rightarrow> 's runners" where
  "drop_removed enabled rs = filter (\<lambda>(i, _). map_of enabled i \<noteq> None) rs"

fun install_all ::
  "'s engine_env \<Rightarrow> int \<Rightarrow> flow list \<Rightarrow> 's runners \<Rightarrow> nat \<Rightarrow> db \<Rightarrow> (string \<times> engine_error) list \<times> 's runners \<times> nat \<times> db" where
  "install_all E now [] rs pool d = ([], rs, pool, d)"
| "install_all E now (f # fs) rs pool d =
     (case install_flow E now f rs pool d of
        (err, rs', pool', d') \<Rightarrow>
          (case install_all E now fs rs' pool' d' of
             (errs, rest) \<Rightarrow> ((case err of None \<Rightarrow> errs | Some e \<Rightarrow> (f_id f, e) # errs), rest)))"

definition install ::
  "'s engine_env \<Rightarrow> int \<Rightarrow> string list \<Rightarrow> flow list \<Rightarrow> 's runners \<Rightarrow> nat \<Rightarrow> db \<Rightarrow>
   (string \<times> engine_error) list \<times> 's runners \<times> nat \<times> db" where
  "install E now order fs rs pool d =
     (let enabled = enabled_flows fs
      in install_all E now (List.map_filter (map_of enabled) order) (drop_removed enabled rs) pool d)"

section \<open>What a successful commit leaves alone\<close>

lemma create_log:
  "create_synthesized J p k s e payload now d = Inr (r, d') \<Longrightarrow>
   db_events d' = db_events d \<and> db_event_seq d' = db_event_seq d \<and> db_offsets d' = db_offsets d"
  by (simp add: create_synthesized_frame(1,4,5))

lemma commit_output_log:
  assumes "commit_output K c now out d = Inr d'"
  shows "db_events d' = db_events d \<and> db_event_seq d' = db_event_seq d \<and> db_offsets d' = db_offsets d"
proof (cases "o_kind out")
  case SinkFeed
  obtain r d1 where res: "resolve_scoped c (o_source_kind out) (o_source_scope out) (o_key out) d = (r, d1)" by fastforce
  then show ?thesis using assms SinkFeed resolve_frame [OF res]
    by (cases r) (auto simp: commit_output_def commit_feed_def resolve_scoped_id_snd res_bind_Inr_conv
        split: if_splits dest!: claim_upsert_frame create_log)
qed (use assms in \<open>auto simp: commit_output_def split: option.splits dest!: enqueue_frame\<close>)

lemma resolve_id_log:
  "resolve_scoped_id p k s e d = (i, d') \<Longrightarrow>
   db_events d' = db_events d \<and> db_event_seq d' = db_event_seq d \<and> db_offsets d' = db_offsets d"
  by (cases "resolve_scoped p k s e d") (auto simp: resolve_scoped_id_snd resolve_frame)

lemma snapshot_ids_log:
  "snapshot_ids c outs d = (ids, d') \<Longrightarrow>
   db_events d' = db_events d \<and> db_event_seq d' = db_event_seq d \<and> db_offsets d' = db_offsets d"
proof (induction outs arbitrary: d ids d')
  case (Cons out outs)
  obtain i d1 where r: "resolve_scoped_id c (o_source_kind out) (o_source_scope out) (o_key out) d = (i, d1)" by fastforce
  obtain ids2 d2 where s: "snapshot_ids c outs d1 = (ids2, d2)" by fastforce
  then show ?case using Cons.prems r Cons.IH [OF s] resolve_id_log [OF r] by auto
qed simp

lemma reconcile_log:
  "db_events (reconcile_snapshot c outs fs d) = db_events d \<and>
   db_event_seq (reconcile_snapshot c outs fs d) = db_event_seq d \<and>
   db_offsets (reconcile_snapshot c outs fs d) = db_offsets d"
  by (cases "snapshot_ids c (filter (in_snapshot fs) outs) d")
    (auto simp: reconcile_snapshot_def claims_delete_for_source_all_def claims_delete_not_in_snapshot_def
      dest!: snapshot_ids_log)

lemma fold_reconcile_log:
  "db_events (fold (reconcile_snapshot c outs) fss d) = db_events d \<and>
   db_event_seq (fold (reconcile_snapshot c outs) fss d) = db_event_seq d \<and>
   db_offsets (fold (reconcile_snapshot c outs) fss d) = db_offsets d"
  by (induction fss arbitrary: d) (simp_all add: reconcile_log)

lemma commit_log:
  assumes "commit K now clock b d = Inr d'"
  shows "db_events d' = db_events d" and "db_event_seq d' = db_event_seq d"
    and "consumer_offset (cb_consumer b) d' = max (consumer_offset (cb_consumer b) d) (cb_up_to b)"
    and "c \<noteq> cb_consumer b \<Longrightarrow> consumer_offset c d' = consumer_offset c d"
proof -
  have "db_events d' = db_events d \<and> db_event_seq d' = db_event_seq d \<and>
    consumer_offset (cb_consumer b) d' = max (consumer_offset (cb_consumer b) d) (cb_up_to b) \<and>
    (c \<noteq> cb_consumer b \<longrightarrow> consumer_offset c d' = consumer_offset c d)"
  proof (cases "cb_up_to b \<le> consumer_offset (cb_consumer b) d")
    case True
    then show ?thesis using assms by (auto simp: commit_def split: if_splits)
  next
    case False
    then obtain d1 where d1: "res_fold (commit_output K (cb_consumer b) now) (cb_outputs b) d = Inr d1"
      and d': "d' = commit_tail now clock b d1"
      using assms by (auto simp: commit_def res_bind_Inr_conv split: if_splits)
    have log1: "db_events d1 = db_events d \<and> db_event_seq d1 = db_event_seq d \<and> db_offsets d1 = db_offsets d"
      using res_fold_relate [OF d1, of "\<lambda>a b. db_events b = db_events a \<and> db_event_seq b = db_event_seq a \<and> db_offsets b = db_offsets a"]
        commit_output_log by fastforce
    obtain d4 where d4: "d' = commit_consumer_offset (cb_consumer b) (cb_up_to b) d4"
      "db_events d4 = db_events d" "db_event_seq d4 = db_event_seq d" "db_offsets d4 = db_offsets d"
      unfolding d' commit_tail_def Let_def fold_node_runs using log1 fold_reconcile_log by simp
    have offs: "consumer_offset x d4 = consumer_offset x d" for x by (rule consumer_offset_cong) (rule d4(4))
    show ?thesis using False d4 offs consumer_offset_mono [of "cb_consumer b" d4 "cb_up_to b"]
      by (auto simp: consumer_offset_other max_def)
  qed
  then show "db_events d' = db_events d" "db_event_seq d' = db_event_seq d"
    "consumer_offset (cb_consumer b) d' = max (consumer_offset (cb_consumer b) d) (cb_up_to b)"
    "c \<noteq> cb_consumer b \<Longrightarrow> consumer_offset c d' = consumer_offset c d" by simp_all
qed

end
