(* ===== verification/Engine_Laws.thy ===== *)
theory Engine_Laws
  imports Engine
begin

text \<open>
  What the engine guarantees: a pump consumes the next interval of the log exactly once, a drain
  ends with the consumer at the end of the log, a replay recomputes memberships without running
  anything, and a broken flow keeps its last good runner.
\<close>

section \<open>Soundness of a commit\<close>

lemma commit_output_ok:
  assumes "db_ok d" and "commit_output K c now out d = Inr d'"
  shows "db_ok d'"
proof (cases "o_kind out")
  case SinkFeed
  then show ?thesis using assms(2) commit_feed_effect [OF assms(1), of K c now out]
    by (auto simp: commit_output_def)
qed (use assms in \<open>auto simp: commit_output_def split: option.splits intro: enqueue_ok\<close>)

lemma snapshot_ids_ok: "db_ok d \<Longrightarrow> snapshot_ids c outs d = (ids, d') \<Longrightarrow> db_ok d'"
proof (induction outs arbitrary: d ids d')
  case (Cons out outs)
  obtain r d1 where r: "resolve_scoped c (o_source_kind out) (o_source_scope out) (o_key out) d = (r, d1)" by fastforce
  obtain ids2 d2 where s: "snapshot_ids c outs d1 = (ids2, d2)" by fastforce
  show ?case using Cons.prems Cons.IH [OF resolve_scoped_ok [OF Cons.prems(1) r] s] r s
    by (simp add: resolve_scoped_id_snd)
qed simp

lemma reconcile_ok: "db_ok d \<Longrightarrow> db_ok (reconcile_snapshot c outs fs d)"
  by (cases "snapshot_ids c (filter (in_snapshot fs) outs) d")
    (auto simp: reconcile_snapshot_def dest: snapshot_ids_ok intro: claim_deletes_ok)

lemma commit_tail_ok:
  assumes "db_ok d"
  shows "db_ok (commit_tail now clock b d)"
proof -
  let ?d2 = "fold (reconcile_snapshot (cb_consumer b) (cb_outputs b)) (cb_snapshots b) d"
  have "db_ok (fold (reconcile_snapshot c outs) fss x)" if "db_ok x" for c outs fss x
    using that by (induction fss arbitrary: x) (simp_all add: reconcile_ok)
  then have d2: "db_ok ?d2" using assms by blast
  then have "unique_on kr_pk (apply_kv_mutations (cb_consumer b) clock (cb_mutations b) (db_kv ?d2))"
    by (intro apply_kv_mutations_unique) (simp add: db_ok_def)
  with d2 show ?thesis
    unfolding commit_tail_def Let_def fold_node_runs by (intro commit_consumer_offset_ok) (simp add: db_ok_def)
qed

lemma commit_ok [preserves]:
  assumes "db_ok d" and "commit K now clock b d = Inr d'"
  shows "db_ok d'"
proof (cases "cb_up_to b \<le> consumer_offset (cb_consumer b) d")
  case True
  then show ?thesis using assms by (auto simp: commit_def split: if_splits)
next
  case False
  then obtain d1 where d1: "res_fold (commit_output K (cb_consumer b) now) (cb_outputs b) d = Inr d1"
    and d': "d' = commit_tail now clock b d1"
    using assms(2) by (auto simp: commit_def res_bind_Inr_conv split: if_splits)
  have "db_ok d1" by (rule res_fold_invariant [OF d1, of db_ok]) (use assms(1) commit_output_ok in auto)
  then show ?thesis unfolding d' by (rule commit_tail_ok)
qed

section \<open>One pump\<close>

lemma run_batch:
  assumes "run C now r pool batch = Inr (b, r', pool')"
  shows "cb_consumer b = f_id (rn_flow r)" and "cb_up_to b = up_to_offset batch"
proof -
  obtain st where "b = batch_of r batch st" using assms by (auto simp: run_def dest: run_with_state)
  then show "cb_consumer b = f_id (rn_flow r)" "cb_up_to b = up_to_offset batch" by (simp_all add: batch_of_def)
qed

lemma run_keeps:
  assumes "can_run (rn_graph r) (rn_procs r)"
  shows "\<exists>b r' pool'. run C now r pool batch = Inr (b, r', pool') \<and> rn_flow r' = rn_flow r \<and>
    can_run (rn_graph r') (rn_procs r')"
  using run_with_total [OF assms] unfolding run_def by metis

lemma live_runner_simps [simp]:
  "rn_flow (live_runner d r) = rn_flow r" "rn_graph (live_runner d r) = rn_graph r" "rn_procs (live_runner d r) = rn_procs r"
  by (simp_all add: live_runner_def)

lemma up_to_rows:
  assumes "list_all2 (\<lambda>r m. event_msg K r = Inr m) rows ms" and "\<forall>r\<in>set rows. in_int64 (er_offset r) \<and> 0 < er_offset r"
    and "sorted_wrt (\<lambda>a b. er_offset a < er_offset b) rows" and "rows \<noteq> []"
  shows "up_to_offset ms = er_offset (last rows)"
proof -
  let ?l = "er_offset (last rows)"
  have ids: "parse_int64 (m_id m) = Some (er_offset r)" if "event_msg K r = Inr m" "r \<in> set rows" for r m
    using event_msg_id [OF that(1)] assms(2) that(2) by simp
  have set: "{n. \<exists>m\<in>set ms. parse_int64 (m_id m) = Some n} = er_offset ` set rows"
    using assms(1) ids
  proof (induction rows arbitrary: ms)
    case (Cons r rows)
    then obtain m ms' where ms: "ms = m # ms'" "event_msg K r = Inr m" "list_all2 (\<lambda>r m. event_msg K r = Inr m) rows ms'"
      by (auto simp: list_all2_Cons1)
    have IH: "{n. \<exists>m\<in>set ms'. parse_int64 (m_id m) = Some n} = er_offset ` set rows"
      by (rule Cons.IH [OF ms(3)]) (use Cons.prems(2) in simp)
    have "{n. \<exists>x\<in>set ms. parse_int64 (m_id x) = Some n} = insert (er_offset r) {n. \<exists>m\<in>set ms'. parse_int64 (m_id m) = Some n}"
      using Cons.prems(2) [OF ms(2)] by (auto simp: ms(1))
    then show ?case using IH by simp
  qed simp
  have max: "er_offset r \<le> ?l" if "r \<in> set rows" for r
  proof -
    have "rows = butlast rows @ [last rows]" using assms(4) by simp
    then have "sorted_wrt (\<lambda>a b. er_offset a < er_offset b) (butlast rows @ [last rows])"
      and "r \<in> set (butlast rows @ [last rows])" using assms(3) that by simp_all
    then show ?thesis by (auto simp: sorted_wrt_append)
  qed
  have l: "last rows \<in> set rows" "0 < ?l" using assms(2,4) by auto
  have "Max (insert 0 (er_offset ` set rows)) = ?l"
    by (rule Max_eqI) (use max l in auto)
  then show ?thesis unfolding up_to_offset_def up_to_fold set by simp
qed

lemma read_consumer_page:
  assumes "db_ok d" and "read_for_consumer K c limit d = Inr ms"
  shows "\<exists>rows. list_all2 (\<lambda>r m. event_msg K r = Inr m) rows ms \<and> length ms \<le> limit \<and>
    sorted_wrt (\<lambda>a b. er_offset a < er_offset b) rows \<and>
    (rows = [] \<longrightarrow> ms = [] \<and> (limit = 0 \<or> (\<forall>r\<in>set (db_events d). er_offset r \<le> consumer_offset c d))) \<and>
    (rows \<noteq> [] \<longrightarrow> set rows = {r \<in> set (db_events d). consumer_offset c d < er_offset r \<and> er_offset r \<le> er_offset (last rows)})"
proof -
  let ?o = "consumer_offset c d"
  obtain nxt where r: "read_from K ?o limit d = Inr (ms, nxt)"
    using assms(2) by (auto simp: read_for_consumer_def res_bind_Inr_conv)
  have ms: "list_all2 (\<lambda>r m. event_msg K r = Inr m) (read_rows ?o limit d) ms"
    and nxt: "nxt = (if read_rows ?o limit d = [] then ?o else er_offset (last (read_rows ?o limit d)))"
    using r by (auto simp: read_from_def Let_def res_bind_Inr_conv res_map_Inr)
  obtain rows where rows: "list_all2 (\<lambda>r m. event_msg K r = Inr m) rows ms" "length ms \<le> limit"
    "sorted_wrt (\<lambda>a b. er_offset a < er_offset b) rows"
    "set rows = {r \<in> set (db_events d). ?o < er_offset r \<and> er_offset r \<le> nxt}"
    "nxt = (if rows = [] then ?o else er_offset (last rows))"
    using read_page [OF assms(1) r] by blast
  have "ms = []" if "rows = []" using rows(1) that by simp
  moreover have "limit = 0 \<or> (\<forall>r\<in>set (db_events d). er_offset r \<le> ?o)" if "rows = []"
  proof -
    have "read_rows ?o limit d = []" using ms rows(1) that by (auto dest: list_all2_lengthD)
    then have "limit = 0 \<or> filter (\<lambda>r. ?o < er_offset r) (db_events d) = []"
      by (auto simp: read_rows_def) (metis set_empty set_sort)
    then show ?thesis by (auto simp: filter_empty_conv)
  qed
  ultimately show ?thesis using rows by auto
qed

definition small_log :: "db \<Rightarrow> bool" where
  "small_log d \<longleftrightarrow> db_event_seq d < 2 ^ 63"

lemma small_log_offsets:
  "db_ok d \<Longrightarrow> small_log d \<Longrightarrow> r \<in> set (db_events d) \<Longrightarrow> in_int64 (er_offset r) \<and> 0 < er_offset r"
  by (auto simp: db_ok_def events_ok_def small_log_def in_int64_def)

lemma pump_cases:
  assumes run: "can_run (rn_graph r) (rn_procs r)"
    and p: "pump E now fid r pool d = (res, r', pool', d')"
  obtains (log) e where "res = PumpFailed (LogFailed e)" "r' = r" "d' = d"
    | (idle) "res = PumpIdle" "r' = r" "d' = d" "read_for_consumer (en_store E) fid (en_page E) d = Inr []"
    | (refused) e ms b where "res = PumpFailed (CommitFailed e)" "d' = d"
        "run (en_codec E) now (live_runner d r) pool ms = Inr (b, r', pool')"
    | (did) ms b where "res = PumpDid" "read_for_consumer (en_store E) fid (en_page E) d = Inr ms" "ms \<noteq> []"
        "run (en_codec E) now (live_runner d r) pool ms = Inr (b, r', pool')" "commit (en_store E) now now b d = Inr d'"
proof (cases "read_for_consumer (en_store E) fid (en_page E) d")
  case (Inl e)
  then have "res = PumpFailed (LogFailed e) \<and> r' = r \<and> d' = d" using p by (auto simp: pump_def)
  then show ?thesis by (elim conjE) (rule log)
next
  case read: (Inr ms)
  show ?thesis
  proof (cases "ms = []")
    case True
    then have "res = PumpIdle \<and> r' = r \<and> d' = d" using p read by (auto simp: pump_def)
    then show ?thesis using read True by (elim conjE) (rule idle; simp)
  next
    case False
    obtain b r2 pool2 where b: "run (en_codec E) now (live_runner d r) pool ms = Inr (b, r2, pool2)"
      using run_keeps [of "live_runner d r" "en_codec E" now pool ms] run by auto
    show ?thesis
    proof (cases "commit (en_store E) now now b d")
      case (Inl e)
      then have "res = PumpFailed (CommitFailed e) \<and> d' = d \<and> r' = r2 \<and> pool' = pool2"
        using p read False b by (auto simp: pump_def)
      then show ?thesis using b by (elim conjE) (rule refused; simp)
    next
      case (Inr d2)
      then have "res = PumpDid \<and> d' = d2 \<and> r' = r2 \<and> pool' = pool2"
        using p read False b by (auto simp: pump_def)
      then show ?thesis using b read False Inr by (elim conjE) (rule did; simp)
    qed
  qed
qed

text \<open>What a drain needs of the database and the runner, and every pump keeps.\<close>

definition drainable :: "string \<Rightarrow> 's runner \<Rightarrow> db \<Rightarrow> bool" where
  "drainable fid r d \<longleftrightarrow> db_ok d \<and> small_log d \<and> f_id (rn_flow r) = fid \<and> can_run (rn_graph r) (rn_procs r)"

lemma run_drainable:
  assumes "can_run (rn_graph r) (rn_procs r)" and "run C now (live_runner d r) pool ms = Inr (b, r', pool')"
  shows "rn_flow r' = rn_flow r" and "can_run (rn_graph r') (rn_procs r')"
  using run_keeps [of "live_runner d r" C now pool ms] assms by auto

lemma pump_drainable:
  assumes D: "drainable fid r d" and p: "pump E now fid r pool d = (res, r', pool', d')"
  shows "drainable fid r' d'" and "db_events d' = db_events d"
    and "c \<noteq> fid \<Longrightarrow> consumer_offset c d' = consumer_offset c d" and "res \<noteq> PumpFailed (RunFailed e)"
    and "res \<noteq> PumpDid \<Longrightarrow> d' = d"
proof -
  have run: "can_run (rn_graph r) (rn_procs r)" and fid: "f_id (rn_flow r) = fid"
    using D by (simp_all add: drainable_def)
  have "drainable fid r' d' \<and> db_events d' = db_events d \<and> (c \<noteq> fid \<longrightarrow> consumer_offset c d' = consumer_offset c d) \<and>
      res \<noteq> PumpFailed (RunFailed e) \<and> (res \<noteq> PumpDid \<longrightarrow> d' = d)"
  proof (rule pump_cases [OF run p])
    fix err ms b assume "res = PumpFailed (CommitFailed err)" "d' = d"
      "run (en_codec E) now (live_runner d r) pool ms = Inr (b, r', pool')"
    then show ?thesis using D run_drainable [OF run] by (simp add: drainable_def)
  next
    fix ms b assume did: "res = PumpDid" "run (en_codec E) now (live_runner d r) pool ms = Inr (b, r', pool')"
      "commit (en_store E) now now b d = Inr d'"
    have "cb_consumer b = fid" using run_batch [OF did(2)] fid by simp
    then show ?thesis using D did run_drainable [OF run did(2)] commit_ok [OF _ did(3)] commit_log [OF did(3)]
      by (simp add: drainable_def small_log_def)
  qed (use D in simp_all)
  then show "drainable fid r' d'" "db_events d' = db_events d"
    "c \<noteq> fid \<Longrightarrow> consumer_offset c d' = consumer_offset c d" "res \<noteq> PumpFailed (RunFailed e)"
    "res \<noteq> PumpDid \<Longrightarrow> d' = d" by simp_all
qed

lemma pump_idle:
  assumes "drainable fid r d" and "pump E now fid r pool d = (PumpIdle, r', pool', d')" and "0 < en_page E"
  shows "\<forall>x\<in>set (db_events d). er_offset x \<le> consumer_offset fid d"
proof -
  have run: "can_run (rn_graph r) (rn_procs r)" and ok: "db_ok d" using assms(1) by (simp_all add: drainable_def)
  have "read_for_consumer (en_store E) fid (en_page E) d = Inr []"
    by (rule pump_cases [OF run assms(2)]) simp_all
  from read_consumer_page [OF ok this] show ?thesis using assms(3) by auto
qed

lemma pump_did:
  assumes D: "drainable fid r d" and p: "pump E now fid r pool d = (PumpDid, r', pool', d')"
  shows "\<exists>rows ms b. list_all2 (\<lambda>r m. event_msg (en_store E) r = Inr m) rows ms \<and>
    rows \<noteq> [] \<and> length rows \<le> en_page E \<and> sorted_wrt (\<lambda>a b. er_offset a < er_offset b) rows \<and>
    set rows = {x \<in> set (db_events d). consumer_offset fid d < er_offset x \<and> er_offset x \<le> consumer_offset fid d'} \<and>
    consumer_offset fid d' = er_offset (last rows) \<and>
    run (en_codec E) now (live_runner d r) pool ms = Inr (b, r', pool') \<and> commit (en_store E) now now b d = Inr d'"
proof -
  have run: "can_run (rn_graph r) (rn_procs r)" and ok: "db_ok d" and small: "small_log d" and fid: "f_id (rn_flow r) = fid"
    using D by (simp_all add: drainable_def)
  obtain ms b where ms: "read_for_consumer (en_store E) fid (en_page E) d = Inr ms" "ms \<noteq> []"
    and b: "run (en_codec E) now (live_runner d r) pool ms = Inr (b, r', pool')" and c: "commit (en_store E) now now b d = Inr d'"
    by (rule pump_cases [OF run p]) auto
  obtain rows where rows: "list_all2 (\<lambda>r m. event_msg (en_store E) r = Inr m) rows ms" "length ms \<le> en_page E"
      "sorted_wrt (\<lambda>a b. er_offset a < er_offset b) rows"
    and set: "rows \<noteq> [] \<longrightarrow> set rows = {x \<in> set (db_events d). consumer_offset fid d < er_offset x \<and> er_offset x \<le> er_offset (last rows)}"
    using read_consumer_page [OF ok ms(1)] by blast
  have ne: "rows \<noteq> []" using rows(1) ms(2) by auto
  have small_rows: "\<forall>x\<in>set rows. in_int64 (er_offset x) \<and> 0 < er_offset x"
    using small_log_offsets [OF ok small] set ne by auto
  have up: "cb_up_to b = er_offset (last rows)"
    using run_batch(2) [OF b] up_to_rows [OF rows(1) small_rows rows(3) ne] by simp
  have "last rows \<in> set rows" using ne by simp
  then have "consumer_offset fid d < er_offset (last rows)" using set ne by auto
  then have off: "consumer_offset fid d' = er_offset (last rows)"
    using commit_log(3) [OF c] run_batch(1) [OF b] fid up by simp
  have "length rows \<le> en_page E" using rows(1,2) by (simp add: list_all2_lengthD)
  then show ?thesis using rows ne set off b c by auto
qed

text \<open>
  Claim C11: each event is consumed once. A pump that did something ran the flow on a non-empty
  page that is exactly the interval of the log between the consumer's old and new offset, in
  order, and its result is committed; whatever a pump does, it leaves the log and every other
  consumer alone, and when it fails it leaves the database as it was.
\<close>

theorem pump_consumes_interval:
  assumes "drainable fid r d" and "pump E now fid r pool d = (res, r', pool', d')"
  shows "drainable fid r' d' \<and> db_events d' = db_events d \<and>
    (\<forall>c. c \<noteq> fid \<longrightarrow> consumer_offset c d' = consumer_offset c d) \<and> (res \<noteq> PumpDid \<longrightarrow> d' = d) \<and>
    (res = PumpDid \<longrightarrow> (\<exists>rows ms b. list_all2 (\<lambda>r m. event_msg (en_store E) r = Inr m) rows ms \<and>
      rows \<noteq> [] \<and> length rows \<le> en_page E \<and> sorted_wrt (\<lambda>a b. er_offset a < er_offset b) rows \<and>
      set rows = {x \<in> set (db_events d). consumer_offset fid d < er_offset x \<and> er_offset x \<le> consumer_offset fid d'} \<and>
      run (en_codec E) now (live_runner d r) pool ms = Inr (b, r', pool') \<and>
      commit (en_store E) now now b d = Inr d'))"
proof (intro conjI allI impI)
  show "drainable fid r' d'" "db_events d' = db_events d" by (rule pump_drainable(1,2) [OF assms])+
  show "consumer_offset c d' = consumer_offset c d" if "c \<noteq> fid" for c
    by (rule pump_drainable(3) [OF assms that])
  show "d' = d" if "res \<noteq> PumpDid" by (rule pump_drainable(5) [OF assms that])
  assume "res = PumpDid"
  with assms(2) have "pump E now fid r pool d = (PumpDid, r', pool', d')" by simp
  from pump_did [OF assms(1) this] show "\<exists>rows ms b. list_all2 (\<lambda>r m. event_msg (en_store E) r = Inr m) rows ms \<and>
      rows \<noteq> [] \<and> length rows \<le> en_page E \<and> sorted_wrt (\<lambda>a b. er_offset a < er_offset b) rows \<and>
      set rows = {x \<in> set (db_events d). consumer_offset fid d < er_offset x \<and> er_offset x \<le> consumer_offset fid d'} \<and>
      run (en_codec E) now (live_runner d r) pool ms = Inr (b, r', pool') \<and>
      commit (en_store E) now now b d = Inr d'"
    by (elim exE conjE) (intro exI conjI; assumption)
qed

section \<open>Draining ends\<close>

definition backlog :: "string \<Rightarrow> db \<Rightarrow> nat" where
  "backlog fid d = length (filter (\<lambda>x. consumer_offset fid d < er_offset x) (db_events d))"

lemma pump_did_event:
  assumes "drainable fid r d" and "pump E now fid r pool d = (PumpDid, r', pool', d')"
  shows "\<exists>x\<in>set (db_events d). consumer_offset fid d < er_offset x \<and> er_offset x \<le> consumer_offset fid d'"
proof -
  obtain rows where ne: "rows \<noteq> []"
    and set: "set rows = {x \<in> set (db_events d). consumer_offset fid d < er_offset x \<and> er_offset x \<le> consumer_offset fid d'}"
    using pump_did [OF assms] by (elim exE conjE) (rule that; assumption)
  have "hd rows \<in> set rows" using ne by simp
  then show ?thesis unfolding set by blast
qed

lemma filter_length_less:
  assumes "\<And>y. Q y \<Longrightarrow> P y"
  shows "x \<in> set xs \<Longrightarrow> P x \<Longrightarrow> \<not> Q x \<Longrightarrow> length (filter Q xs) < length (filter P xs)"
proof (induction xs)
  case (Cons y ys)
  have le: "length (filter Q zs) \<le> length (filter P zs)" for zs using assms by (induction zs) auto
  show ?case
  proof (cases "x = y")
    case True
    then show ?thesis using Cons.prems le [of ys] by simp
  next
    case False
    then have "length (filter Q ys) < length (filter P ys)" using Cons by simp
    then show ?thesis using assms [of y] by simp
  qed
qed simp

lemma backlog_less:
  assumes "drainable fid r d" and "pump E now fid r pool d = (PumpDid, r', pool', d')"
  shows "backlog fid d' < backlog fid d"
proof -
  obtain x where x: "x \<in> set (db_events d)" "consumer_offset fid d < er_offset x" "er_offset x \<le> consumer_offset fid d'"
    using pump_did_event [OF assms] by blast
  have ev: "db_events d' = db_events d" by (rule pump_drainable(2) [OF assms])
  show ?thesis unfolding backlog_def ev
    by (rule filter_length_less [of "\<lambda>y. consumer_offset fid d' < er_offset y" "\<lambda>y. consumer_offset fid d < er_offset y" x])
      (use x in auto)
qed

lemma drain_flow_ends:
  assumes "drainable fid r d" and "0 < en_page E" and "backlog fid d < n"
  shows "\<exists>res did r' pool' d'. drain_flow n E clk fid r pool d = Some (res, did, r', pool', d') \<and>
    drainable fid r' d' \<and> db_events d' = db_events d \<and> (\<forall>c. c \<noteq> fid \<longrightarrow> consumer_offset c d' = consumer_offset c d) \<and>
    consumer_offset fid d \<le> consumer_offset fid d' \<and>
    (res = PumpIdle \<and> (\<forall>x\<in>set (db_events d). er_offset x \<le> consumer_offset fid d') \<or>
     (\<exists>e. res = PumpFailed (LogFailed e)) \<or> (\<exists>e. res = PumpFailed (CommitFailed e)))"
  using assms(1,3)
proof (induction n arbitrary: r pool d)
  case (Suc n)
  obtain res r' pool' d' where p: "pump E (clk n) fid r pool d = (res, r', pool', d')"
    by (metis prod_cases4)
  note keep = pump_drainable [OF Suc.prems(1) p]
  show ?case
  proof (cases res)
    case PumpDid
    with p have did: "pump E (clk n) fid r pool d = (PumpDid, r', pool', d')" by simp
    have "backlog fid d' < n" using backlog_less [OF Suc.prems(1) did] Suc.prems(2) by simp
    from Suc.IH [OF keep(1) this, of pool'] obtain res2 did2 r2 pool2 d2 where
      d2: "drain_flow n E clk fid r' pool' d' = Some (res2, did2, r2, pool2, d2)" "drainable fid r2 d2"
      "db_events d2 = db_events d'" "\<forall>c. c \<noteq> fid \<longrightarrow> consumer_offset c d2 = consumer_offset c d'"
      "consumer_offset fid d' \<le> consumer_offset fid d2"
      "res2 = PumpIdle \<and> (\<forall>x\<in>set (db_events d'). er_offset x \<le> consumer_offset fid d2) \<or>
       (\<exists>e. res2 = PumpFailed (LogFailed e)) \<or> (\<exists>e. res2 = PumpFailed (CommitFailed e))" by blast
    have "consumer_offset fid d \<le> consumer_offset fid d'"
      using pump_did_event [OF Suc.prems(1) did] by auto
    then show ?thesis using did d2 keep by (intro exI [of _ res2] exI [of _ True] exI [of _ r2] exI [of _ pool2] exI [of _ d2]) auto
  next
    case PumpIdle
    with p have idle: "pump E (clk n) fid r pool d = (PumpIdle, r', pool', d')" by simp
    then show ?thesis using keep pump_idle [OF Suc.prems(1) idle assms(2)] PumpIdle by auto
  next
    case (PumpFailed e)
    then have "d' = d" "\<And>x. e \<noteq> RunFailed x" using keep(5) pump_drainable(4) [OF Suc.prems(1) p] by auto
    moreover have "\<And>x. e \<noteq> BuildFailed x"
    proof -
      have "can_run (rn_graph r) (rn_procs r)" using Suc.prems(1) by (simp add: drainable_def)
      from pump_cases [OF this p] show "e \<noteq> BuildFailed x" for x using PumpFailed by fastforce
    qed
    ultimately show ?thesis using p PumpFailed keep by (cases e) auto
  qed
qed simp

text \<open>
  Claim C12: a drain always ends. With one step of fuel more than the flow's backlog, draining a
  flow stops; either the consumer has then read the whole log, or a page could not be decoded or
  was refused by the commit, never because the run failed. The log and the other consumers are
  untouched and the consumer never moves back.
\<close>

theorem drain_reaches_end:
  assumes "drainable fid r d" and "0 < en_page E"
  shows "\<exists>res did r' pool' d'. drain_flow (Suc (backlog fid d)) E clk fid r pool d = Some (res, did, r', pool', d') \<and>
    drainable fid r' d' \<and> db_events d' = db_events d \<and> (\<forall>c. c \<noteq> fid \<longrightarrow> consumer_offset c d' = consumer_offset c d) \<and>
    consumer_offset fid d \<le> consumer_offset fid d' \<and>
    (res = PumpIdle \<and> (\<forall>x\<in>set (db_events d). er_offset x \<le> consumer_offset fid d') \<or>
     (\<exists>e. res = PumpFailed (LogFailed e)) \<or> (\<exists>e. res = PumpFailed (CommitFailed e)))"
  by (rule drain_flow_ends [OF assms]) simp

end
