(* ===== verification/Replay_Laws.thy ===== *)
theory Replay_Laws
  imports Engine_Laws
begin

text \<open>
  Installing a flow: a replay recomputes the memberships of the unarchived items from the newest
  snapshots of the flow's sources, cannot be refused by the store, and touches nothing else; and
  a failed installation leaves the runner that worked before in charge.
\<close>

section \<open>Activating the recomputed claims\<close>

definition unarchived_of :: "string \<Rightarrow> db \<Rightarrow> int \<Rightarrow> bool" where
  "unarchived_of p d i \<longleftrightarrow> (\<exists>r\<in>set (db_items d). it_id r = i \<and> it_profile r = p \<and> it_archived r = None)"

lemma get_unarchived_known: "unarchived_of p d i \<Longrightarrow> \<exists>r. get_unarchived_by_id i p d = Inr r"
  by (auto simp: unarchived_of_def get_unarchived_by_id_def find_None_conv split: option.split)

lemma unarchived_of_exists: "unarchived_of p d i \<Longrightarrow> item_exists i d"
  by (auto simp: unarchived_of_def item_exists_mem)

lemma claim_upsert_total:
  assumes "db_ok d" and "item_exists (fc_item c) d"
  shows "\<exists>cs. claim_upsert c d = Inr (d\<lparr>db_claims := cs\<rparr>) \<and> db_ok (d\<lparr>db_claims := cs\<rparr>) \<and>
    set cs = insert c (set (db_claims d))"
proof (cases "c \<in> set (db_claims d)")
  case True
  then show ?thesis using assms by (intro exI [of _ "db_claims d"]) (auto simp: claim_upsert_def)
next
  case False
  then have up: "claim_upsert c d = Inr (d\<lparr>db_claims := db_claims d @ [c]\<rparr>)" using assms(2) by (simp add: claim_upsert_def)
  then show ?thesis using claim_upsert_ok [OF assms(1) up] by (intro exI [of _ "db_claims d @ [c]"]) simp
qed

lemma activate_claims:
  assumes "db_ok d" and "\<forall>c\<in>set cs. fc_profile c = p \<and> unarchived_of p d (fc_item c)"
  shows "\<exists>cs'. res_fold (activate_claim p) cs d = Inr (d\<lparr>db_claims := cs'\<rparr>) \<and> db_ok (d\<lparr>db_claims := cs'\<rparr>) \<and>
    set cs' = set (db_claims d) \<union> set cs"
  using assms
proof (induction cs arbitrary: d)
  case Nil
  then show ?case by (intro exI [of _ "db_claims d"]) simp
next
  case (Cons c cs)
  have c: "fc_profile c = p" "unarchived_of p d (fc_item c)" using Cons.prems(2) by simp_all
  obtain x where x: "get_unarchived_by_id (fc_item c) p d = Inr x" using get_unarchived_known [OF c(2)] by blast
  obtain cs1 where up: "claim_upsert c d = Inr (d\<lparr>db_claims := cs1\<rparr>)" "db_ok (d\<lparr>db_claims := cs1\<rparr>)"
    "set cs1 = insert c (set (db_claims d))"
    using claim_upsert_total [OF Cons.prems(1) unarchived_of_exists [OF c(2)]] by blast
  have same: "c\<lparr>fc_profile := p\<rparr> = c" using c(1) by (cases c) simp
  have step: "activate_claim p c d = Inr (d\<lparr>db_claims := cs1\<rparr>)"
    unfolding activate_claim_def same x up(1) by (simp add: c(1))
  have "\<forall>c\<in>set cs. fc_profile c = p \<and> unarchived_of p (d\<lparr>db_claims := cs1\<rparr>) (fc_item c)"
    using Cons.prems(2) by (simp add: unarchived_of_def)
  from Cons.IH [OF up(2) this] obtain cs' where
    "res_fold (activate_claim p) cs (d\<lparr>db_claims := cs1\<rparr>) = Inr (d\<lparr>db_claims := cs'\<rparr>)"
    "db_ok (d\<lparr>db_claims := cs'\<rparr>)" "set cs' = set cs1 \<union> set cs" by auto
  then show ?case using step up(3) by (intro exI [of _ cs']) simp
qed

text \<open>The claims a replay keeps: other profiles' whole, this profile's archived items and the
  recomputed ones, within the flow's feeds, and for unarchived items within its sources.\<close>

definition replay_keeps :: "string \<Rightarrow> string list \<Rightarrow> string list \<Rightarrow> db \<Rightarrow> feed_claim \<Rightarrow> bool" where
  "replay_keeps p feeds sources d c \<longleftrightarrow> fc_profile c = p \<longrightarrow>
     fc_feed c \<in> set feeds \<and> (item_unarchived d (fc_item c) \<longrightarrow> fc_source c \<in> set sources)"

lemma claims_for_flow:
  "db_claims (claims_delete_for_removed_sources p sources (claims_delete_for_feeds p feeds d)) =
   filter (replay_keeps p feeds sources d) (db_claims d)"
  by (cases "feeds = []"; cases "sources = []")
    (auto simp: claims_delete_for_removed_sources_def claims_delete_for_feeds_def claims_delete_def sql_delete_def
      replay_keeps_def item_unarchived_def filter_filter intro!: filter_cong)

lemma claims_for_flow_frame:
  "claims_delete_for_removed_sources p sources (claims_delete_for_feeds p feeds d) =
   d\<lparr>db_claims := filter (replay_keeps p feeds sources d) (db_claims d)\<rparr>"
proof -
  have feeds: "claims_delete_for_feeds p feeds d = claims_delete (\<lambda>c. fc_profile c = p \<and> fc_feed c \<notin> set feeds) d" for d
    by (simp add: claims_delete_for_feeds_def)
  have sources: "claims_delete_for_removed_sources p sources d =
    claims_delete (\<lambda>c. fc_profile c = p \<and> fc_source c \<notin> set sources \<and> item_unarchived d (fc_item c)) d" for d
    by (simp add: claims_delete_for_removed_sources_def)
  have "\<exists>cs. claims_delete_for_removed_sources p sources (claims_delete_for_feeds p feeds d) = d\<lparr>db_claims := cs\<rparr>"
    unfolding feeds sources claims_delete_def by simp blast
  then show ?thesis using claims_for_flow [of p sources feeds d] by auto
qed

lemma node_kv_clear_unique:
  "unique_on kr_pk t \<Longrightarrow> unique_on kr_pk (node_kv_delete_by_flow p t) \<and> unique_on kr_pk (node_kv_delete_except p keep t)"
  by (simp add: node_kv_delete_by_flow_def node_kv_delete_except_def unique_on_delete)

lemma consumer_offset_max:
  "0 \<le> n \<Longrightarrow> consumer_offset c' (commit_consumer_offset c n d) =
     (if c' = c then max (consumer_offset c d) n else consumer_offset c' d)"
  unfolding consumer_offset_commit by (simp add: consumer_offset_def max_def split: option.splits)

lemma activate_replay_step:
  assumes ok: "db_ok d" and "\<forall>c\<in>set claims. fc_profile c = p \<and> unarchived_of p d (fc_item c)"
    and "0 \<le> tail" and "tail \<le> tail_offset d"
  shows "\<exists>d'. activate_replay p tail claims feeds sources nodes d = Inr d' \<and> db_ok d' \<and>
    set (db_claims d') = {c \<in> {c \<in> set (db_claims d). \<not> (fc_profile c = p \<and> item_unarchived d (fc_item c))} \<union> set claims.
      replay_keeps p feeds sources d c} \<and>
    db_kv d' = filter (\<lambda>r. kr_flow r = p \<longrightarrow> kr_node r \<in> set nodes) (db_kv d) \<and>
    (\<forall>c. consumer_offset c d' = (if c = p then max (consumer_offset p d) tail else consumer_offset c d)) \<and>
    db_items d' = db_items d \<and> db_commands d' = db_commands d \<and> db_events d' = db_events d \<and>
    db_event_seq d' = db_event_seq d \<and> db_runs d' = db_runs d"
proof -
  let ?d0 = "claims_delete_unarchived p d"
  have d0: "db_ok ?d0" by (rule claim_deletes_ok(5) [OF ok])
  have "\<forall>c\<in>set claims. fc_profile c = p \<and> unarchived_of p ?d0 (fc_item c)"
    using assms(2) by (simp add: claims_delete_unarchived_def unarchived_of_def)
  from activate_claims [OF d0 this] obtain cs where
    run: "res_fold (activate_claim p) claims ?d0 = Inr (?d0\<lparr>db_claims := cs\<rparr>)" "db_ok (?d0\<lparr>db_claims := cs\<rparr>)"
    and cs: "set cs = set (db_claims ?d0) \<union> set claims" by blast
  let ?d1 = "?d0\<lparr>db_claims := cs\<rparr>"
  let ?d2 = "claims_delete_for_removed_sources p sources (claims_delete_for_feeds p feeds ?d1)"
  let ?d3 = "commit_consumer_offset p tail ?d2"
  let ?kv = "if nodes = [] then node_kv_delete_by_flow p (db_kv ?d3) else node_kv_delete_except p nodes (db_kv ?d3)"
  have res: "activate_replay p tail claims feeds sources nodes d = Inr (?d3\<lparr>db_kv := ?kv\<rparr>)"
    using assms(3,4) run(1) by (simp add: activate_replay_def Let_def)
  have ok3: "db_ok ?d3" by (intro commit_consumer_offset_ok claim_deletes_ok run(2))
  then have "unique_on kr_pk ?kv" using node_kv_clear_unique by (simp add: db_ok_def)
  then have okr: "db_ok (?d3\<lparr>db_kv := ?kv\<rparr>)" using ok3 by (simp add: db_ok_def)
  have d2: "?d2 = d\<lparr>db_claims := filter (replay_keeps p feeds sources d) cs\<rparr>"
    unfolding claims_for_flow_frame [of p sources feeds ?d1]
    by (simp add: replay_keeps_def [abs_def] item_unarchived_def claims_delete_unarchived_def claims_delete_def)
  have claims: "set (db_claims ?d3) = {c \<in> {c \<in> set (db_claims d). \<not> (fc_profile c = p \<and> item_unarchived d (fc_item c))} \<union> set claims.
      replay_keeps p feeds sources d c}"
    unfolding d2 using cs by (auto simp: claims_delete_unarchived_def claims_delete_def sql_delete_def)
  have kv: "?kv = filter (\<lambda>r. kr_flow r = p \<longrightarrow> kr_node r \<in> set nodes) (db_kv d)"
    unfolding d2 by (auto simp: node_kv_delete_by_flow_def node_kv_delete_except_def sql_delete_def
      claims_delete_unarchived_def intro!: filter_cong)
  have offs: "consumer_offset c (?d3\<lparr>db_kv := ?kv\<rparr>) = (if c = p then max (consumer_offset p d) tail else consumer_offset c d)" for c
  proof -
    have same: "consumer_offset x ?d2 = consumer_offset x d" for x
      unfolding d2 by (simp add: consumer_offset_def claims_delete_unarchived_def)
    have "consumer_offset c (?d3\<lparr>db_kv := ?kv\<rparr>) = consumer_offset c ?d3" by (simp add: consumer_offset_def)
    then show ?thesis unfolding consumer_offset_max [OF assms(3)] same .
  qed
  show ?thesis
  proof (intro exI [of _ "?d3\<lparr>db_kv := ?kv\<rparr>"] conjI allI)
    show "activate_replay p tail claims feeds sources nodes d = Inr (?d3\<lparr>db_kv := ?kv\<rparr>)" by (rule res)
    show "db_ok (?d3\<lparr>db_kv := ?kv\<rparr>)" by (rule okr)
    show "set (db_claims (?d3\<lparr>db_kv := ?kv\<rparr>)) =
        {c \<in> {c \<in> set (db_claims d). \<not> (fc_profile c = p \<and> item_unarchived d (fc_item c))} \<union> set claims.
         replay_keeps p feeds sources d c}" using claims by simp
    show "db_kv (?d3\<lparr>db_kv := ?kv\<rparr>) = filter (\<lambda>r. kr_flow r = p \<longrightarrow> kr_node r \<in> set nodes) (db_kv d)" using kv by simp
    show "consumer_offset c (?d3\<lparr>db_kv := ?kv\<rparr>) = (if c = p then max (consumer_offset p d) tail else consumer_offset c d)" for c
      by (rule offs)
  qed (unfold d2, simp_all)
qed

section \<open>Replays\<close>

lemma replay_claims_known:
  "\<forall>c\<in>set (replay_claims p (by_identity (list_unarchived p d)) outs). fc_profile c = p \<and> unarchived_of p d (fc_item c)"
proof
  fix c assume "c \<in> set (replay_claims p (by_identity (list_unarchived p d)) outs)"
  then obtain out :: sink_output and i where i: "map_of (by_identity (list_unarchived p d))
      (identity_key (o_source_kind out) (o_source_scope out) (o_key out)) = Some i"
    and c: "fc_profile c = p" "fc_item c = i"
    by (clarsimp simp: replay_claims_def List.map_filter_def split: if_splits)
  from map_of_SomeD [OF i] have "unarchived_of p d i"
    by (auto simp: by_identity_def list_unarchived_def unarchived_of_def)
  with c show "fc_profile c = p \<and> unarchived_of p d (fc_item c)" by simp
qed

lemma can_run_reset: "can_run g (rn_procs (reset_processors r)) = can_run g (rn_procs r)"
  by (simp add: can_run_def reset_processors_def map_of_map)

lemma run_replay_total:
  assumes "can_run (rn_graph r) (rn_procs r)"
  shows "\<exists>b r' pool'. run_replay C now r pool ms = Inr (b, r', pool') \<and> rn_flow r' = rn_flow r \<and>
    can_run (rn_graph r') (rn_procs r')"
proof -
  obtain b r1 pool1 where "run_with C r (new_inert_kv_buffer (f_id (rn_flow r)) now) pool ms = Inr (b, r1, pool1)"
    "rn_flow r1 = rn_flow r" "can_run (rn_graph r1) (rn_procs r1)"
    using run_with_total [OF assms] by blast
  moreover have "rn_graph (reset_processors r1) = rn_graph r1" "rn_flow (reset_processors r1) = rn_flow r1"
    by (simp_all add: reset_processors_def)
  ultimately show ?thesis by (simp add: run_replay_def can_run_reset)
qed

text \<open>What a replay of a flow leaves in the database it found.\<close>

definition replayed :: "flow \<Rightarrow> feed_claim list \<Rightarrow> db \<Rightarrow> db \<Rightarrow> bool" where
  "replayed f claims d d' \<longleftrightarrow>
     set (db_claims d') = {c \<in> {c \<in> set (db_claims d). \<not> (fc_profile c = f_id f \<and> item_unarchived d (fc_item c))} \<union>
       set claims. replay_keeps (f_id f) (flow_feed_ids f) (flow_source_ids f) d c} \<and>
     db_kv d' = filter (\<lambda>r. kr_flow r = f_id f \<longrightarrow> kr_node r \<in> set (flow_kv_node_ids f)) (db_kv d) \<and>
     (\<forall>c. consumer_offset c d' = (if c = f_id f then max (consumer_offset c d) (tail_offset d) else consumer_offset c d)) \<and>
     db_items d' = db_items d \<and> db_commands d' = db_commands d \<and> db_events d' = db_events d \<and>
     db_event_seq d' = db_event_seq d \<and> db_runs d' = db_runs d"

lemma replay_step:
  assumes ok: "db_ok d" and run: "can_run (rn_graph r) (rn_procs r)"
  shows "(\<exists>e. replay E now f r pool d = Inl (LogFailed e)) \<or>
    (\<exists>r' pool' d' snaps b. replay E now f r pool d = Inr (r', pool', d') \<and>
      list_latest_snapshots (en_store E) (f_id f) (tail_offset d) d = Inr snaps \<and>
      run_replay (en_codec E) now r pool (filter (\<lambda>m. m_topic m \<in> set (flow_source_ids f)) snaps) = Inr (b, r', pool') \<and>
      rn_flow r' = rn_flow r \<and> can_run (rn_graph r') (rn_procs r') \<and> db_ok d' \<and>
      replayed f (replay_claims (f_id f) (by_identity (list_unarchived (f_id f) d)) (cb_outputs b)) d d')"
proof (cases "list_latest_snapshots (en_store E) (f_id f) (tail_offset d) d")
  case (Inl e)
  then show ?thesis by (simp add: replay_def flow_targets_def)
next
  case (Inr snaps)
  obtain b r' pool' where b: "run_replay (en_codec E) now r pool (filter (\<lambda>m. m_topic m \<in> set (flow_source_ids f)) snaps) = Inr (b, r', pool')"
    and keep: "rn_flow r' = rn_flow r" "can_run (rn_graph r') (rn_procs r')"
    using run_replay_total [OF run] by blast
  let ?cs = "replay_claims (f_id f) (by_identity (list_unarchived (f_id f) d)) (cb_outputs b)"
  have tail: "0 \<le> tail_offset d" using ok by (simp add: db_ok_def events_ok_def tail_offset_def)
  obtain d' where d': "activate_replay (f_id f) (tail_offset d) ?cs (flow_feed_ids f) (flow_source_ids f) (flow_kv_node_ids f) d = Inr d'"
      "db_ok d'" "replayed f ?cs d d'"
    using activate_replay_step [OF ok replay_claims_known [of "f_id f" d "cb_outputs b"] tail order_refl,
        where feeds = "flow_feed_ids f" and sources = "flow_source_ids f" and nodes = "flow_kv_node_ids f"] unfolding replayed_def by auto
  have "replay E now f r pool d = Inr (r', pool', d')"
    using Inr b d'(1) by (simp add: replay_def flow_targets_def)
  then show ?thesis using Inr b keep d'(2,3) by blast
qed

section \<open>Installing\<close>

lemma install_flow_step:
  assumes ok: "db_ok d" and "install_flow E now f rs pool d = (err, rs', pool', d')"
  shows "case err of
    Some e \<Rightarrow> rs' = rs \<and> pool' = pool \<and> d' = d \<and> ((\<exists>x. e = BuildFailed x) \<or> (\<exists>x. e = LogFailed x))
  | None \<Rightarrow> \<exists>r r' snaps b. new_runner f (en_options E) = Inr r \<and>
      list_latest_snapshots (en_store E) (f_id f) (tail_offset d) d = Inr snaps \<and>
      run_replay (en_codec E) now r pool (filter (\<lambda>m. m_topic m \<in> set (flow_source_ids f)) snaps) = Inr (b, r', pool') \<and>
      rs' = AList.update (f_id f) r' rs \<and> rn_flow r' = f \<and> can_run (rn_graph r') (rn_procs r') \<and> db_ok d' \<and>
      replayed f (replay_claims (f_id f) (by_identity (list_unarchived (f_id f) d)) (cb_outputs b)) d d'"
proof (cases "new_runner f (en_options E)")
  case (Inl e)
  then show ?thesis using assms(2) by (auto simp: install_flow_def)
next
  case (Inr r)
  note built = new_runner_facts [OF Inr]
  from replay_step [OF ok built(3), of E now f pool] show ?thesis
  proof
    assume "\<exists>e. replay E now f r pool d = Inl (LogFailed e)"
    then show ?thesis using assms(2) Inr by (auto simp: install_flow_def)
  next
    assume "\<exists>r' pool' d' snaps b. replay E now f r pool d = Inr (r', pool', d') \<and>
      list_latest_snapshots (en_store E) (f_id f) (tail_offset d) d = Inr snaps \<and>
      run_replay (en_codec E) now r pool (filter (\<lambda>m. m_topic m \<in> set (flow_source_ids f)) snaps) = Inr (b, r', pool') \<and>
      rn_flow r' = rn_flow r \<and> can_run (rn_graph r') (rn_procs r') \<and> db_ok d' \<and>
      replayed f (replay_claims (f_id f) (by_identity (list_unarchived (f_id f) d)) (cb_outputs b)) d d'"
    then show ?thesis using assms(2) Inr built(1) by (auto simp: install_flow_def)
  qed
qed

text \<open>
  Claim C13: installing a flow recomputes its memberships and runs nothing. When it succeeds, the
  flow's new runner is ready to drain, and the claims in the store are exactly other profiles'
  claims, those of the flow's archived items in feeds it still has, and the ones the newest
  source snapshots give; the items, the log and the command queue are untouched and only this
  consumer moves, to the end of the log. It fails only when the flow does not build or a stored
  snapshot does not decode, and then nothing changes.
\<close>

theorem install_recomputes:
  assumes "db_ok d" and "small_log d" and "install_flow E now f rs pool d = (err, rs', pool', d')"
  shows "case err of
    Some e \<Rightarrow> rs' = rs \<and> pool' = pool \<and> d' = d \<and> ((\<exists>x. e = BuildFailed x) \<or> (\<exists>x. e = LogFailed x))
  | None \<Rightarrow> \<exists>r r' snaps b. new_runner f (en_options E) = Inr r \<and>
      list_latest_snapshots (en_store E) (f_id f) (tail_offset d) d = Inr snaps \<and>
      run_replay (en_codec E) now r pool (filter (\<lambda>m. m_topic m \<in> set (flow_source_ids f)) snaps) = Inr (b, r', pool') \<and>
      map_of rs' (f_id f) = Some r' \<and> rn_flow r' = f \<and> drainable (f_id f) r' d' \<and>
      replayed f (replay_claims (f_id f) (by_identity (list_unarchived (f_id f) d)) (cb_outputs b)) d d'"
proof (cases err)
  case (Some e)
  then show ?thesis using install_flow_step [OF assms(1,3)] by simp
next
  case None
  from install_flow_step [OF assms(1,3)] obtain r r' snaps b where
    "new_runner f (en_options E) = Inr r" "list_latest_snapshots (en_store E) (f_id f) (tail_offset d) d = Inr snaps"
    "run_replay (en_codec E) now r pool (filter (\<lambda>m. m_topic m \<in> set (flow_source_ids f)) snaps) = Inr (b, r', pool')"
    "rs' = AList.update (f_id f) r' rs" "rn_flow r' = f" "can_run (rn_graph r') (rn_procs r')" "db_ok d'"
    "replayed f (replay_claims (f_id f) (by_identity (list_unarchived (f_id f) d)) (cb_outputs b)) d d'"
    by (simp only: None option.case) (elim exE conjE, rule that; assumption)
  moreover from this(8) have "small_log d'" using assms(2) by (simp add: replayed_def small_log_def)
  ultimately show ?thesis using None by (simp add: drainable_def update_conv)
qed

lemma enabled_flows_mem:
  assumes "map_of (enabled_flows fs) i = Some f"
  shows "f \<in> set fs \<and> f_enabled f \<and> f_id f = i"
proof -
  have "map_of (fold (\<lambda>f m. if f_enabled f then AList.update (f_id f) f m else m) fs m) i = Some f \<Longrightarrow>
    (f \<in> set fs \<and> f_enabled f \<and> f_id f = i) \<or> map_of m i = Some f" for m
    by (induction fs arbitrary: m) (fastforce simp: update_conv split: if_splits)+
  from this [of "[]"] show ?thesis using assms by (simp add: enabled_flows_def)
qed

lemma install_all_runners:
  assumes "db_ok d" and "install_all E now fs rs pool d = (errs, rs', pool', d')" and "distinct (map f_id fs)"
  shows "(\<forall>i. i \<notin> f_id ` set fs \<longrightarrow> map_of rs' i = map_of rs i \<and> i \<notin> fst ` set errs) \<and>
    (\<forall>f\<in>set fs. if f_id f \<in> fst ` set errs then map_of rs' (f_id f) = map_of rs (f_id f)
       else \<exists>r. map_of rs' (f_id f) = Some r \<and> rn_flow r = f) \<and> db_ok d'"
  using assms
proof (induction fs arbitrary: rs pool d errs rs' pool' d')
  case (Cons f fs)
  obtain err rs1 pool1 d1 where i: "install_flow E now f rs pool d = (err, rs1, pool1, d1)" by (metis prod_cases4)
  obtain errs1 rs2 pool2 d2 where a: "install_all E now fs rs1 pool1 d1 = (errs1, rs2, pool2, d2)" by (metis prod_cases4)
  have res: "rs' = rs2" "d' = d2" "errs = (case err of None \<Rightarrow> errs1 | Some e \<Rightarrow> (f_id f, e) # errs1)"
    using Cons.prems(2) i a by simp_all
  have step: "db_ok d1 \<and> (\<forall>i. i \<noteq> f_id f \<longrightarrow> map_of rs1 i = map_of rs i) \<and>
      (if err = None then \<exists>r. map_of rs1 (f_id f) = Some r \<and> rn_flow r = f else map_of rs1 (f_id f) = map_of rs (f_id f))"
    using install_flow_step [OF Cons.prems(1) i] Cons.prems(1) by (cases err) (auto simp: update_conv)
  then have "db_ok d1" by simp
  note IH = Cons.IH [OF this a]
  have new: "f_id f \<notin> f_id ` set fs" using Cons.prems(3) by simp
  then have "\<forall>g\<in>set fs. f_id g \<noteq> f_id f" by (metis imageI)
  then show ?case using new IH step Cons.prems(3) unfolding res by (cases err) (auto split: if_splits)
qed auto

text \<open>
  Claim C14: a broken flow keeps its last good runner. After installing a set of flows, in
  whatever order the map of enabled flows is walked, a flow that is not enabled has no runner, an
  enabled flow whose installation failed is reported and still has the runner it had, and every
  other enabled flow has a runner of its new definition.
\<close>

theorem install_keeps_last_good:
  assumes "db_ok d" and "install E now order fs rs pool d = (errs, rs', pool', d')"
    and "distinct order" and "set order = fst ` set (enabled_flows fs)"
  shows "map_of rs' i =
    (case map_of (enabled_flows fs) i of None \<Rightarrow> None
     | Some f \<Rightarrow> if i \<in> fst ` set errs then map_of rs i else map_of rs' i) \<and>
    (case map_of (enabled_flows fs) i of None \<Rightarrow> True
     | Some f \<Rightarrow> i \<in> fst ` set errs \<or> (\<exists>r. map_of rs' i = Some r \<and> rn_flow r = f)) \<and> db_ok d'"
proof -
  let ?en = "enabled_flows fs"
  let ?fs = "List.map_filter (map_of ?en) order"
  have all: "install_all E now ?fs (drop_removed ?en rs) pool d = (errs, rs', pool', d')"
    using assms(2) by (simp add: install_def Let_def)
  have ids: "map f_id (List.map_filter (map_of ?en) xs) = filter (\<lambda>i. map_of ?en i \<noteq> None) xs" for xs
    by (induction xs) (auto simp: List.map_filter_simps dest: enabled_flows_mem split: option.split)
  then have dist: "distinct (map f_id ?fs)" using assms(3) by simp
  have dom: "f_id ` set ?fs = fst ` set ?en"
    using arg_cong [OF ids [of order], of set] assms(4) by (auto simp: map_of_eq_None_iff)
  have drop: "map_of (drop_removed ?en rs) i = (if map_of ?en i = None then None else map_of rs i)"
    by (induction rs) (auto simp: drop_removed_def)
  note out = install_all_runners [OF assms(1) all dist]
  show ?thesis
  proof (cases "map_of ?en i")
    case None
    then have "i \<notin> f_id ` set ?fs" unfolding dom by (simp add: map_of_eq_None_iff)
    then show ?thesis using out drop None by simp
  next
    case (Some f)
    then have "i \<in> set order" using assms(4) by (metis map_of_eq_None_iff option.distinct(1))
    then have f: "f \<in> set ?fs" "f_id f = i" using Some enabled_flows_mem [OF Some]
      by (auto simp: List.map_filter_def image_iff intro!: bexI [of _ i])
    have "if i \<in> fst ` set errs then map_of rs' i = map_of rs i else \<exists>r. map_of rs' i = Some r \<and> rn_flow r = f"
      using bspec [OF conjunct1 [OF conjunct2 [OF out]] f(1)] drop Some unfolding f(2) by simp
    then show ?thesis using out Some by simp
  qed
qed

end
