(* ===== verification/Command_Laws.thy ===== *)
theory Command_Laws
  imports Commands
begin

text \<open>
  Contracts of the command queue: enqueueing is idempotent per action and key, commands of one
  action and key never overlap, and what startup recovery settles.
\<close>

section \<open>Enqueue once\<close>

text \<open>
  An action fires once per key. Enqueueing a payload always leaves a command for that
  action and key; the first payload wins, so a replayed batch, whatever it carries, changes
  nothing, and no other action's or key's command is touched.
\<close>

theorem enqueue_once:
  assumes "payload \<noteq> []"
  shows "\<exists>d' r. enqueue_command action key payload created ref d = Inr d' \<and>
    original_command action key d' = Some r \<and>
    (case original_command action key d of
       None \<Rightarrow> oc_payload r = payload \<and> oc_status r = CmdPending \<and> oc_attempts r = 0 \<and> oc_ref r = ref
     | Some old \<Rightarrow> d' = d \<and> r = old) \<and>
    (\<forall>a k. (a, k) \<noteq> (action, key) \<longrightarrow> original_command a k d' = original_command a k d) \<and>
    (\<forall>p c rf. p \<noteq> [] \<longrightarrow> enqueue_command action key p c rf d' = Inr d')"
proof (cases "original_command action key d")
  case None
  let ?r = "new_command (db_command_seq d + 1) action key payload CmdPending created False ref"
  let ?d' = "d\<lparr>db_commands := db_commands d @ [?r], db_command_seq := db_command_seq d + 1\<rparr>"
  have run: "enqueue_command action key payload created ref d = Inr ?d'"
    using assms None by (simp add: enqueue_command_def add_command_def Let_def)
  have at: "original_command action key ?d' = Some ?r"
    using None by (simp add: original_command_def find_append new_command_def command_key_def)
  have other: "original_command a k ?d' = original_command a k d" if "(a, k) \<noteq> (action, key)" for a k
    using that by (auto simp: original_command_def find_append new_command_def command_key_def split: option.split)
  have again: "enqueue_command action key p c rf ?d' = Inr ?d'" if "p \<noteq> []" for p c rf
    using at that by (simp add: enqueue_command_def)
  have fields: "oc_payload ?r = payload \<and> oc_status ?r = CmdPending \<and> oc_attempts ?r = 0 \<and> oc_ref ?r = ref"
    by (simp add: new_command_def)
  show ?thesis
    by (rule exI [of _ ?d'], rule exI [of _ ?r]) (use run at other again fields None in simp)
next
  case (Some old)
  then show ?thesis using assms by (simp add: enqueue_command_def)
qed

section \<open>Commands of one action and key never overlap\<close>

text \<open>The writes that reach the command table while the application runs.\<close>

inductive command_step :: "db \<Rightarrow> db \<Rightarrow> bool" where
  Enqueue: "enqueue_command a k p c ref d = Inr d' \<Longrightarrow> command_step d d'"
| Confirm: "confirm_command a k p ref now d = Inr (rb, d') \<Longrightarrow> command_step d d'"
| Rerun: "rerun_command a k p ref now d = Inr (r, d') \<Longrightarrow> command_step d d'"
| Done: "command_step d (mark_done i res out err d)"
| Failed: "command_step d (mark_failed i e out err d)"
| Retry: "command_step d (retry_command i e out err d)"
| Recover: "command_step d (recover_interrupted now d)"

inductive_cases command_stepE: "command_step d d'"

definition active :: "command_row \<Rightarrow> bool" where
  "active r \<longleftrightarrow> oc_status r \<in> {CmdPending, CmdRunning}"

definition active_keys :: "db \<Rightarrow> (string \<times> string) list" where
  "active_keys d = map command_key (filter active (db_commands d))"

definition reruns_follow :: "db \<Rightarrow> bool" where
  "reruns_follow d \<longleftrightarrow> (\<forall>r\<in>set (db_commands d). \<exists>o'\<in>set (db_commands d).
     \<not> oc_rerun o' \<and> command_key o' = command_key r)"

definition commands_inv :: "db \<Rightarrow> bool" where
  "commands_inv d \<longleftrightarrow> distinct (active_keys d) \<and> reruns_follow d"

lemma active_keys_update:
  assumes "\<And>r. command_key (f r) = command_key r" and "\<And>r. r \<in> set rows \<Longrightarrow> active (f r) \<Longrightarrow> P r \<Longrightarrow> active r"
    and "distinct (map command_key (filter active rows))"
  shows "distinct (map command_key (filter active (sql_update P f rows)))"
  using assms(2,3)
proof (induction rows)
  case (Cons r rows)
  have sub: "set (map command_key (filter active (sql_update P f rows))) \<subseteq> set (map command_key (filter active rows))"
  proof
    fix k assume "k \<in> set (map command_key (filter active (sql_update P f rows)))"
    then obtain x where x: "x \<in> set rows" "active (if P x then f x else x)" "k = command_key x"
      using assms(1) by (auto simp: sql_update_def split: if_splits)
    then have "active x" using Cons.prems(1) by (auto split: if_splits)
    then show "k \<in> set (map command_key (filter active rows))" using x by auto
  qed
  have IH: "distinct (map command_key (filter active (sql_update P f rows)))"
    by (rule Cons.IH) (use Cons.prems in \<open>auto split: if_splits\<close>)
  have act: "active (if P r then f r else r) \<Longrightarrow> active r" using Cons.prems(1) by (auto split: if_splits)
  have key: "command_key (if P r then f r else r) = command_key r" using assms(1) by simp
  have step: "sql_update P f (r # rows) = (if P r then f r else r) # sql_update P f rows"
    by (simp add: sql_update_def)
  show ?case
  proof (cases "active (if P r then f r else r)")
    case True
    then have "command_key r \<notin> set (map command_key (filter active rows))"
      using act Cons.prems(2) by simp
    then have "command_key r \<notin> set (map command_key (filter active (sql_update P f rows)))"
      using sub by (rule contra_subsetD [rotated])
    then show ?thesis unfolding step using True key IH by simp
  next
    case False
    then show ?thesis unfolding step using IH by simp
  qed
qed (simp add: sql_update_def)

lemma reruns_follow_update:
  assumes "reruns_follow d" and "db_commands d' = sql_update P f (db_commands d)"
    and key: "\<And>r. command_key (f r) = command_key r" and rr: "\<And>r. oc_rerun (f r) = oc_rerun r"
  shows "reruns_follow d'"
  unfolding reruns_follow_def
proof
  let ?g = "\<lambda>r. if P r then f r else r"
  have g: "command_key (?g r) = command_key r" "oc_rerun (?g r) = oc_rerun r" for r
    by (simp_all add: key rr)
  fix r assume "r \<in> set (db_commands d')"
  then obtain x where "x \<in> set (db_commands d)" "r = ?g x" by (auto simp: assms(2) sql_update_def)
  moreover from this obtain y where "y \<in> set (db_commands d)" "\<not> oc_rerun y" "command_key y = command_key x"
    using assms(1) unfolding reruns_follow_def by blast
  ultimately have "?g y \<in> set (db_commands d')" "\<not> oc_rerun (?g y)" "command_key (?g y) = command_key r"
    by (auto simp: assms(2) sql_update_def key rr)
  then show "\<exists>o'\<in>set (db_commands d'). \<not> oc_rerun o' \<and> command_key o' = command_key r" by blast
qed

lemma commands_inv_update:
  assumes "commands_inv d" and "db_commands d' = sql_update P f (db_commands d)"
    and "\<And>r. command_key (f r) = command_key r" and "\<And>r. oc_rerun (f r) = oc_rerun r"
    and "\<And>r. r \<in> set (db_commands d) \<Longrightarrow> active (f r) \<Longrightarrow> P r \<Longrightarrow> active r"
  shows "commands_inv d'"
  using assms reruns_follow_update [OF _ assms(2-4)] active_keys_update [OF assms(3), of "db_commands d" P]
  by (simp add: commands_inv_def active_keys_def)

lemma commands_inv_table:
  assumes "commands_inv d"
    and "\<And>r. command_key (f r) = command_key r" and "\<And>r. oc_rerun (f r) = oc_rerun r"
    and "\<And>r. r \<in> set (db_commands d) \<Longrightarrow> active (f r) \<Longrightarrow> P r \<Longrightarrow> active r"
  shows "commands_inv (d\<lparr>db_commands := sql_update P f (db_commands d)\<rparr>)"
  by (rule commands_inv_update [OF assms(1) _ assms(2-4)]) simp_all

lemma no_row_without_original:
  "reruns_follow d \<Longrightarrow> original_command a k d = None \<Longrightarrow> r \<in> set (db_commands d) \<Longrightarrow> command_key r \<noteq> (a, k)"
  unfolding reruns_follow_def original_command_def find_None_conv by metis

lemma commands_inv_add:
  assumes "commands_inv d" and "add_command a k p st c rr ref d = (r, d')"
    and "\<And>x. x \<in> set (db_commands d) \<Longrightarrow> active x \<Longrightarrow> command_key x \<noteq> (a, k)"
    and "rr \<Longrightarrow> \<exists>x\<in>set (db_commands d). command_key x = (a, k)"
  shows "commands_inv d'"
proof -
  have d': "db_commands d' = db_commands d @ [r]" and r: "command_key r = (a, k)" "oc_rerun r = rr"
    using assms(2) by (auto simp: add_command_def Let_def new_command_def command_key_def)
  have "(a, k) \<notin> set (active_keys d)"
  proof
    assume "(a, k) \<in> set (active_keys d)"
    then obtain x where "x \<in> set (db_commands d)" "active x" "command_key x = (a, k)"
      by (auto simp: active_keys_def)
    then show False using assms(3) by blast
  qed
  then have "distinct (active_keys d')"
    using assms(1) r by (simp add: commands_inv_def active_keys_def d')
  moreover have "reruns_follow d'"
    unfolding reruns_follow_def d'
  proof
    fix x assume x: "x \<in> set (db_commands d @ [r])"
    have old: "\<exists>y\<in>set (db_commands d). \<not> oc_rerun y \<and> command_key y = command_key z" if "z \<in> set (db_commands d)" for z
      using assms(1) that by (simp add: commands_inv_def reruns_follow_def)
    show "\<exists>y\<in>set (db_commands d @ [r]). \<not> oc_rerun y \<and> command_key y = command_key x"
      using x old assms(4) r by (cases rr) (auto, metis)
  qed
  ultimately show ?thesis by (simp add: commands_inv_def)
qed

lemma find_original_key: "original_command a k d = Some x \<Longrightarrow> db_ok d \<Longrightarrow> oc_id y = oc_id x \<Longrightarrow> y \<in> set (db_commands d) \<Longrightarrow> y = x"
  using original_command_mem [of a k d x] unique_on_eq [of oc_id "db_commands d" y x]
  by (simp add: db_ok_def commands_ok_def)

lemma command_step_inv:
  assumes "command_step d d'" and "db_ok d" and "commands_inv d"
  shows "db_ok d' \<and> commands_inv d'"
  using assms
proof cases
  case (Enqueue a k p c ref)
  show ?thesis
  proof (cases "original_command a k d")
    case None
    have "\<And>x. x \<in> set (db_commands d) \<Longrightarrow> command_key x \<noteq> (a, k)"
      using no_row_without_original [OF _ None] assms(3) by (simp add: commands_inv_def)
    then have "commands_inv d'"
      using Enqueue None commands_inv_add [OF assms(3), of a k p CmdPending c False ref]
      by (cases "add_command a k p CmdPending c False ref d") (auto simp: enqueue_command_def split: if_splits)
    then show ?thesis using enqueue_ok [OF assms(2) Enqueue] by simp
  next
    case (Some x)
    then show ?thesis using Enqueue assms by (auto simp: enqueue_command_def split: if_splits)
  qed
next
  case (Confirm a k p ref now rb)
  obtain r b where rb: "rb = (r, b)" by fastforce
  have ok': "db_ok d'" using confirm_ok [OF assms(2)] Confirm rb by blast
  show ?thesis
  proof (cases "original_command a k d")
    case None
    have "\<And>x. x \<in> set (db_commands d) \<Longrightarrow> command_key x \<noteq> (a, k)"
      using no_row_without_original [OF _ None] assms(3) by (simp add: commands_inv_def)
    then have "commands_inv d'"
      using Confirm None commands_inv_add [OF assms(3), of a k p CmdRunning now False ref]
      by (cases "add_command a k p CmdRunning now False ref d") (auto simp: confirm_command_def split: if_splits)
    then show ?thesis using ok' by simp
  next
    case (Some x)
    show ?thesis
    proof (cases "oc_status x = CmdPending")
      case True
      have "commands_inv (d\<lparr>db_commands := sql_update (\<lambda>y. oc_id y = oc_id x) (claim_command ref) (db_commands d)\<rparr>)"
      proof (rule commands_inv_update [OF assms(3), where f = "claim_command ref" and P = "\<lambda>y. oc_id y = oc_id x"])
        fix y assume "y \<in> set (db_commands d)" "oc_id y = oc_id x"
        then have "y = x" using find_original_key [OF Some assms(2)] by simp
        then show "active y" using True by (simp add: active_def)
      qed (auto simp: claim_command_def command_key_def)
      then show ?thesis using Confirm Some True ok' by (auto simp: confirm_command_def split: if_splits)
    next
      case False
      then show ?thesis using Confirm Some assms by (auto simp: confirm_command_def split: if_splits option.splits)
    qed
  qed
next
  case (Rerun a k p ref now r)
  have add: "add_command a k p CmdRunning now True ref d = (r, d')"
    and gone: "\<forall>x\<in>set (db_commands d). command_key x = (a, k) \<longrightarrow> \<not> active x"
    and ex: "\<exists>x\<in>set (db_commands d). command_key x = (a, k)"
    using Rerun by (auto simp: rerun_command_def Let_def list_ex_iff active_def split: if_splits)
  have "commands_inv d'" by (rule commands_inv_add [OF assms(3) add]) (use gone ex in auto)
  then show ?thesis using rerun_ok [OF assms(2) Rerun] by simp
next
  case (Done i res out err)
  have "commands_inv (mark_done i res out err d)"
    unfolding mark_done_def update_command_def
    by (rule commands_inv_table [OF assms(3)]) (auto simp: command_key_def active_def)
  then show ?thesis using Done command_updates_ok [OF assms(2)] by simp
next
  case (Failed i e out err)
  have "commands_inv (mark_failed i e out err d)"
    unfolding mark_failed_def update_command_def
    by (rule commands_inv_table [OF assms(3)]) (auto simp: command_key_def active_def)
  then show ?thesis using Failed command_updates_ok [OF assms(2)] by simp
next
  case (Retry i e out err)
  have "commands_inv (retry_command i e out err d)"
    unfolding retry_command_def update_command_def
    by (rule commands_inv_table [OF assms(3)]) (auto simp: command_key_def active_def)
  then show ?thesis using Retry command_updates_ok [OF assms(2)] by simp
next
  case (Recover now)
  have "commands_inv (recover_interrupted now d)"
    by (rule commands_inv_update [OF assms(3), where P = "\<lambda>r. oc_status r = CmdRunning" and
          f = "\<lambda>r. r\<lparr>oc_status := CmdFailed, oc_attempts := oc_attempts r + 1, oc_error := Some interrupted_error\<rparr>"])
      (auto simp: recover_interrupted_def Let_def command_key_def active_def)
  then show ?thesis using Recover recover_ok [OF assms(2)] by simp
qed

text \<open>
  No double execution. Whatever sequence of enqueues, confirmations, reruns, outcomes and
  recoveries the queue has seen, two commands of one action and key are never pending or running
  together, and the schema's constraints hold.
\<close>

theorem one_active_command:
  assumes "command_step\<^sup>*\<^sup>* empty_db d"
  shows "db_ok d \<and> (\<forall>r\<in>set (db_commands d). \<forall>s\<in>set (db_commands d).
    command_key r = command_key s \<and> active r \<and> active s \<longrightarrow> r = s)"
proof -
  have inv: "db_ok d \<and> commands_inv d"
    using assms
  proof (induction rule: rtranclp_induct)
    case base
    then show ?case using empty_db_ok by (simp add: commands_inv_def active_keys_def reruns_follow_def empty_db_def)
  next
    case (step y z)
    then show ?case using command_step_inv by blast
  qed
  then have "unique_on command_key (filter active (db_commands d))"
    by (simp add: commands_inv_def active_keys_def unique_on_def)
  then have "r = s" if "r \<in> set (db_commands d)" "s \<in> set (db_commands d)"
    "command_key r = command_key s" "active r" "active s" for r s
    by (rule unique_on_eq) (use that in auto)
  then show ?thesis using inv by blast
qed

section \<open>Recovery\<close>

text \<open>
  Recovery at startup settles every explicit run. Afterwards no command is running; the
  pending ones, in their order, are exactly those that were pending, terminal commands are as
  they were, and every job that was running for a command that was running is failed.
\<close>

theorem recovery_settles:
  "(\<forall>r\<in>set (db_commands (recover_interrupted now d)). oc_status r \<noteq> CmdRunning) \<and>
   list_runnable_after after limit (recover_interrupted now d) = list_runnable_after after limit d \<and>
   filter (\<lambda>r. oc_status r = CmdDone) (db_commands (recover_interrupted now d)) =
     filter (\<lambda>r. oc_status r = CmdDone) (db_commands d) \<and>
   (\<forall>j\<in>set (db_jobs (recover_interrupted now d)). jb_status j = JobRunning \<longrightarrow>
      \<not> list_ex (\<lambda>c. jb_command j = Some (oc_id c) \<and> oc_status c = CmdRunning) (db_commands d))"
proof (intro conjI)
  let ?f = "\<lambda>r. r\<lparr>oc_status := CmdFailed, oc_attempts := oc_attempts r + 1, oc_error := Some interrupted_error\<rparr>"
  have cs: "db_commands (recover_interrupted now d) = sql_update (\<lambda>r. oc_status r = CmdRunning) ?f (db_commands d)"
    by (simp add: recover_interrupted_def Let_def)
  have keep: "filter Q (sql_update (\<lambda>r. oc_status r = CmdRunning) ?f rows) = filter Q rows"
    if "\<And>r. oc_status r = CmdRunning \<Longrightarrow> \<not> Q (?f r) \<and> \<not> Q r" for Q and rows :: "command_row list"
    using that by (induction rows) (auto simp: sql_update_def)
  show "\<forall>r\<in>set (db_commands (recover_interrupted now d)). oc_status r \<noteq> CmdRunning"
    by (auto simp: cs sql_update_def)
  show "list_runnable_after after limit (recover_interrupted now d) = list_runnable_after after limit d"
    by (simp add: list_runnable_after_def cs keep)
  show "filter (\<lambda>r. oc_status r = CmdDone) (db_commands (recover_interrupted now d)) =
     filter (\<lambda>r. oc_status r = CmdDone) (db_commands d)"
    by (simp add: cs keep)
  show "\<forall>j\<in>set (db_jobs (recover_interrupted now d)). jb_status j = JobRunning \<longrightarrow>
      \<not> list_ex (\<lambda>c. jb_command j = Some (oc_id c) \<and> oc_status c = CmdRunning) (db_commands d)"
    by (auto simp: recover_interrupted_def Let_def sql_update_def interrupted_job_def)
qed

text \<open>
  A tracked job that the application's end interrupts is never settled. Once \<open>Track\<close>
  has started a job, recovery at any later startup leaves it running, so the live job list shows
  it for good.
\<close>

theorem tracked_job_stranded:
  assumes "db_ok d" and "job_track_start label action target now d = (i, d1)"
  shows "\<exists>j\<in>set (db_jobs (recover_interrupted later d1)). jb_id j = i \<and> jb_status j = JobRunning \<and>
    j \<in> set (job_list_active much_later (recover_interrupted later d1))"
proof -
  let ?j0 = "\<lparr>jb_id = i, jb_created = now, jb_updated = now, jb_status = JobQueued, jb_label = label,
    jb_step = step_for JobQueued, jb_action = action, jb_target = target, jb_error = [], jb_command = None\<rparr>"
  let ?j = "?j0\<lparr>jb_status := JobRunning, jb_step := step_for JobRunning\<rparr>"
  have i: "i = db_job_seq d + 1" "i \<noteq> 0"
    using assms by (auto simp: job_track_start_def job_begin_def job_insert_def Let_def db_ok_def ids_ok_def)
  then have "?j \<in> set (db_jobs d1)"
    using assms(2) by (auto simp: job_track_start_def job_begin_def job_insert_def Let_def
        job_set_status_def job_update_def sql_update_def)
  moreover have "\<not> interrupted_job d1 ?j" by (simp add: interrupted_job_def list_ex_iff)
  ultimately have "?j \<in> set (db_jobs (recover_interrupted later d1))"
    by (auto simp: recover_interrupted_def Let_def sql_update_def intro!: rev_image_eqI [of ?j])
  then show ?thesis by (intro bexI [of _ ?j]) (simp_all add: job_list_active_def)
qed

end
