(* ===== verification/Store_Samples.thy ===== *)
theory Store_Samples
  imports Samples Replay_Laws Command_Laws
begin

text \<open>
  A concrete database at which the properties of the stores and of the engine are applied: the
  one that ingesting a single observation leaves, with a claim, a command and a job added.
\<close>

section \<open>One observation\<close>

definition sample_obs :: "bytes \<Rightarrow> observation" where
  "sample_obs p = \<lparr>ob_external = ''acme/x#1'', ob_title = ''Fix'', ob_url = ''https://acme'', ob_kind = ''github'',
     ob_scope = ''acct'', ob_observed = 100, ob_payload = p\<rparr>"

definition sample_classifier :: classifier where
  "sample_classifier = (\<lambda>_ cur. \<lparr>ck_kind = ''pr'',
     ck_transition = (if ob_payload cur = ''closed'' then Some EnteredTerminal else None),
     ck_attention = Some AttentionActivity, ck_lifecycle = None, ck_state = ''open'', ck_reason = ''merged'',
     ck_occurrence = ''at:'' @ ob_payload cur, ck_summary = [], ck_detail = []\<rparr>)"

definition sample_topic :: string where
  "sample_topic = ''source:inbox/src''"

definition sample_item :: item_row where
  "sample_item = \<lparr>it_id = 1, it_profile = ''inbox'', it_kind = ''github'', it_scope = ''acct'',
     it_external = ''acme/x#1'', it_title = ''Fix'', it_url = ''https://acme'', it_payload = ''P'',
     it_revision = 1, it_unread = True, it_archived = None, it_actor = None, it_reason = None,
     it_lifecycle = LifecycleUnknown, it_state = Some ''open'', it_first_seen = 5, it_last_event = 100,
     it_ignored = None\<rparr>"

definition sample_event :: event_row where
  "sample_event = \<lparr>er_offset = 1, er_topic = ''source:inbox/src'', er_key = ''acme/x#1'', er_payload = ''P'',
     er_snapshot = False, er_kind = ''github'', er_scope = ''acct'', er_occurrence = Some ''at:P'', er_created = 5\<rparr>"

definition sample_db :: db where
  "sample_db = empty_db\<lparr>db_events := [sample_event], db_event_seq := 1,
     db_heads := [\<lparr>hd_topic = ''source:inbox/src'', hd_key = ''acme/x#1'', hd_payload = ''P''\<rparr>],
     db_items := [sample_item], db_item_seq := 1,
     db_inbox_events := [\<lparr>ie_id = 1, ie_item = 1, ie_kind = ''pr'', ie_transition = TransitionNone,
       ie_attention = AttentionActivity, ie_occurrence = Some ''at:P'', ie_summary = None, ie_detail = [],
       ie_created = 5\<rparr>], db_inbox_event_seq := 1\<rparr>"

lemma sample_db_ok: "db_ok sample_db"
  by (simp add: db_ok_def ok_defs sample_db_def empty_db_def sample_event_def sample_item_def unique_on_def archive_check_def)

lemma sample_db_small: "small_log sample_db"
  by (simp add: small_log_def sample_db_def)

lemma sample_db_named: "named_items sample_db"
  by (simp add: named_items_def sample_db_def sample_item_def)

lemma sample_obs_facts: "ob_external (sample_obs p) = ''acme/x#1''" "ob_payload (sample_obs p) = p"
  "ob_external (sample_obs p) \<noteq> []" "ob_kind (sample_obs p) = ''github''" "ob_scope (sample_obs p) = ''acct''"
  by (simp_all add: sample_obs_def)

lemma sample_ingest:
  "\<exists>res. ingest_observation 5 6 (Some sample_classifier) ''inbox'' sample_topic PolicyUnset (sample_obs ''P'') empty_db =
     Inr (res, sample_db)"
proof -
  have "map_sum id snd (ingest_observation 5 6 (Some sample_classifier) ''inbox'' sample_topic PolicyUnset
      (sample_obs ''P'') empty_db) = Inr sample_db" by code_simp
  then show ?thesis
    by (cases "ingest_observation 5 6 (Some sample_classifier) ''inbox'' sample_topic PolicyUnset (sample_obs ''P'') empty_db") auto
qed

theorem ingest_total_witness:
  "\<exists>res d'. ingest_observation 5 6 (Some sample_classifier) ''inbox'' sample_topic PolicyUnset (sample_obs ''Q'') sample_db =
     Inr (res, d') \<and> db_ok d' \<and> ig_offset res = 2"
proof -
  have "head_payload sample_topic ''acme/x#1'' sample_db \<noteq> Some ''Q''" "db_event_seq sample_db = 1" by code_simp+
  with ingest_total [OF sample_db_ok sample_obs_facts(3), of "''Q''" 5 6 sample_classifier "''inbox''" sample_topic PolicyUnset]
  show ?thesis by (auto simp: sample_obs_facts)
qed

theorem ingest_idempotent_witness:
  "\<exists>res res' d'. ingest_observation 5 6 (Some sample_classifier) ''inbox'' sample_topic PolicyUnset (sample_obs ''P'') empty_db = Inr (res, d') \<and>
     ingest_observation 9 9 (Some sample_classifier) ''inbox'' sample_topic PolicyAll (sample_obs ''P'') d' = Inr (res', d') \<and>
     \<not> ig_wrote res'"
proof -
  obtain res where r: "ingest_observation 5 6 (Some sample_classifier) ''inbox'' sample_topic PolicyUnset (sample_obs ''P'') empty_db =
     Inr (res, sample_db)" using sample_ingest by blast
  have "ob_payload (sample_obs ''P'') \<noteq> []" by (simp add: sample_obs_facts)
  from ingest_idempotent [OF empty_db_ok sample_obs_facts(3) this r refl refl, of 9 9 sample_classifier "''inbox''" PolicyAll] r
  show ?thesis by blast
qed

theorem ingest_archive_policy_witness:
  "\<exists>res d' r'. ingest_observation 7 8 (Some sample_classifier) ''inbox'' sample_topic PolicyUnset (sample_obs ''closed'') sample_db = Inr (res, d') \<and>
     item_by_identity ''inbox'' ''github'' ''acct'' ''acme/x#1'' d' = Some r' \<and> it_archived r' \<noteq> None"
proof -
  have "\<not> isl (ingest_observation 7 8 (Some sample_classifier) ''inbox'' sample_topic PolicyUnset (sample_obs ''closed'') sample_db)"
    by code_simp
  then obtain res d' where run: "ingest_observation 7 8 (Some sample_classifier) ''inbox'' sample_topic PolicyUnset
      (sample_obs ''closed'') sample_db = Inr (res, d')" by (metis not_isl_Inr prod.exhaust)
  have r: "item_by_identity ''inbox'' (ob_kind (sample_obs ''closed'')) (ob_scope (sample_obs ''closed''))
      (ob_external (sample_obs ''closed'')) sample_db = Some sample_item"
    "head_payload sample_topic (ob_external (sample_obs ''closed'')) sample_db \<noteq> Some (ob_payload (sample_obs ''closed''))"
    "ob_payload (sample_obs ''closed'') \<noteq> []" by code_simp+
  have "ck_transition (complete_classification (sample_classifier (Some (observation_of sample_item)) (sample_obs ''closed''))) =
      Some EnteredTerminal" by code_simp
  with ingest_archive_policy [OF sample_db_ok sample_obs_facts(3) r(3) r(1,2) run] run show ?thesis
    by (auto simp: sample_obs_facts)
qed

theorem triage_optimistic_witness:
  "\<exists>r d'. triage_write (ToggleArchived 9) 1 1 sample_db = Inr (r, d') \<and> it_revision r = 2 \<and>
     triage_write (SetUnread False) 1 1 d' = Inl StaleRevision"
proof -
  have "item_by_id 1 sample_db = Some sample_item" "it_revision sample_item = 1" by code_simp+
  then obtain r d' where w: "triage_write (ToggleArchived 9) 1 1 sample_db = Inr (r, d')"
    using triage_optimistic [OF sample_db_ok, of "ToggleArchived 9" 1 1] by blast
  with triage_optimistic [OF sample_db_ok, of "ToggleArchived 9" 1 1]
  have "it_revision r = 2" "triage_write (SetUnread False) 1 1 d' = Inl StaleRevision" by fastforce+
  with w show ?thesis by blast
qed

definition claimed_db :: db where
  "claimed_db = sample_db\<lparr>db_claims := [\<lparr>fc_profile = ''inbox'', fc_feed = ''inbox/work'', fc_item = 1, fc_source = sample_topic\<rparr>]\<rparr>"

lemma claimed_db_ok: "db_ok claimed_db"
  using sample_db_ok by (simp add: db_ok_def claims_ok_def claimed_db_def sample_db_def sample_item_def)

theorem mark_read_clears_witness:
  "\<exists>n d'. mark_read ''inbox'' ''inbox/work'' claimed_db = Inr (n, d') \<and>
     List.list_all (\<lambda>ct. ct_feed ct = ''inbox/work'' \<longrightarrow> ct_unread ct = 0) (feed_counts ''inbox'' d')"
proof -
  obtain n d' where r: "mark_read ''inbox'' ''inbox/work'' claimed_db = Inr (n, d')" by (simp add: mark_read_def Let_def)
  have "''inbox/work'' \<noteq> []" "''inbox'' \<noteq> []" by simp_all
  with mark_read_clears [where feed = "''inbox/work''" and profile = "''inbox''" and d = claimed_db] r show ?thesis by (auto simp: list_all_iff)
qed

definition legacy_db :: db where
  "legacy_db = sample_db\<lparr>db_items := [sample_item\<lparr>it_scope := []\<rparr>],
     db_sessions := [\<lparr>sr_session = ''s1'', sr_ref = \<lparr>ir_profile = ''inbox'', ir_kind = ''github'', ir_scope = [],
       ir_external = ''acme/x#1''\<rparr>, sr_created = 4\<rparr>]\<rparr>"

lemma legacy_db_ok: "db_ok legacy_db"
  by (simp add: db_ok_def ok_defs legacy_db_def sample_db_def empty_db_def sample_event_def sample_item_def
      unique_on_def archive_check_def)

theorem resolve_scoped_heals_witness:
  "\<exists>r d'. resolve_scoped ''inbox'' ''github'' ''acct'' ''acme/x#1'' legacy_db = (Some r, d') \<and> db_ok d' \<and> it_scope r = ''acct'' \<and>
     item_by_identity ''inbox'' ''github'' [] ''acme/x#1'' d' = None"
proof -
  have "fst (resolve_scoped ''inbox'' ''github'' ''acct'' ''acme/x#1'' legacy_db) = Some sample_item" by code_simp
  then obtain d' where r: "resolve_scoped ''inbox'' ''github'' ''acct'' ''acme/x#1'' legacy_db = (Some sample_item, d')"
    by (metis prod.collapse)
  have "item_by_identity ''inbox'' ''github'' ''acct'' ''acme/x#1'' legacy_db = None" by code_simp
  with resolve_scoped_heals [OF legacy_db_ok r] r show ?thesis by (auto simp: sample_item_def)
qed

theorem views_partition_witness:
  "sample_item \<notin> set (list_trash ''inbox'' 10 claimed_db) \<and>
   (\<exists>feed. sample_item \<in> set (list_by_feed ''inbox'' feed 10 claimed_db) \<or>
      sample_item \<in> set (list_archived_by_feed ''inbox'' feed 10 claimed_db))"
proof -
  have m: "sample_item \<in> set (db_items claimed_db)" "it_profile sample_item = ''inbox''" "int (length (db_items claimed_db)) \<le> 10"
    by (simp_all add: claimed_db_def sample_db_def sample_item_def)
  have "sample_item \<in> set (list_by_feed ''inbox'' ''inbox/work'' 10 claimed_db)" by code_simp
  with views_partition [OF m] show ?thesis by blast
qed

theorem read_from_page_witness:
  "\<exists>ms. read_from \<lparr>sk_enc_snapshot = (\<lambda>_. None), sk_dec_snapshot = (\<lambda>_. None), sk_notify = (\<lambda>_. None),
      sk_digest = (\<lambda>_. []), sk_scan = (\<lambda>_. None)\<rparr> 0 10 sample_db = Inr (ms, 1) \<and> length ms \<le> 10"
proof -
  let ?K = "\<lparr>sk_enc_snapshot = (\<lambda>_. None), sk_dec_snapshot = (\<lambda>_. None), sk_notify = (\<lambda>_. None),
      sk_digest = (\<lambda>_. []), sk_scan = (\<lambda>_. None)\<rparr>"
  have "map_sum id snd (read_from ?K 0 10 sample_db) = Inr 1" by code_simp
  then obtain ms where r: "read_from ?K 0 10 sample_db = Inr (ms, 1)" by (cases "read_from ?K 0 10 sample_db") auto
  from read_from_page [OF sample_db_ok r] r show ?thesis by blast
qed

section \<open>Commands and jobs\<close>

theorem enqueue_once_witness:
  "\<exists>d' r. enqueue_command ''notify'' ''k'' ''P'' 5 no_ref sample_db = Inr d' \<and> original_command ''notify'' ''k'' d' = Some r \<and>
     enqueue_command ''notify'' ''k'' ''Q'' 6 no_ref d' = Inr d'"
  using enqueue_once [of "''P''" "''notify''" "''k''" 5 no_ref sample_db] by fastforce

definition busy_db :: db where
  "busy_db = (case enqueue_command ''notify'' ''k'' ''P'' 5 no_ref empty_db of Inr d \<Rightarrow>
     (case confirm_command ''notify'' ''k'' ''P'' no_ref 6 d of Inr (_, d') \<Rightarrow> d'))"

theorem one_active_command_witness:
  "db_ok busy_db \<and> map oc_status (db_commands busy_db) = [CmdRunning]"
proof -
  have "\<not> isl (enqueue_command ''notify'' ''k'' ''P'' 5 no_ref empty_db)" by code_simp
  then obtain d where d: "enqueue_command ''notify'' ''k'' ''P'' 5 no_ref empty_db = Inr d" by (auto dest: not_isl_Inr)
  have "\<not> isl (confirm_command ''notify'' ''k'' ''P'' no_ref 6
      (case enqueue_command ''notify'' ''k'' ''P'' 5 no_ref empty_db of Inr d \<Rightarrow> d))" by code_simp
  then obtain rb d' where c: "confirm_command ''notify'' ''k'' ''P'' no_ref 6 d = Inr (rb, d')"
    using d by (auto dest!: not_isl_Inr)
  have "busy_db = d'" using d c by (cases rb) (simp add: busy_db_def)
  moreover have "command_step\<^sup>*\<^sup>* empty_db d'"
    using command_step.Enqueue [OF d] command_step.Confirm [OF c] by auto
  moreover have "map oc_status (db_commands busy_db) = [CmdRunning]" by code_simp
  ultimately show ?thesis using one_active_command [of busy_db] by simp
qed

theorem recovery_settles_witness:
  "List.list_all (\<lambda>r. oc_status r \<noteq> CmdRunning) (db_commands (recover_interrupted 9 busy_db)) \<and>
   map oc_status (db_commands (recover_interrupted 9 busy_db)) = [CmdFailed]"
proof -
  have "map oc_status (db_commands (recover_interrupted 9 busy_db)) = [CmdFailed]" by code_simp
  with recovery_settles [of 9 busy_db 0 10] show ?thesis by (auto simp: list_all_iff)
qed

theorem tracked_job_stranded_witness:
  "\<exists>d1. job_track_start ''Sync'' ''sync'' ''t'' 5 sample_db = (1, d1) \<and>
     (\<exists>j\<in>set (job_list_active 99999 (recover_interrupted 9 d1)). jb_id j = 1 \<and> jb_status j = JobRunning)"
proof -
  have "fst (job_track_start ''Sync'' ''sync'' ''t'' 5 sample_db) = 1" by code_simp
  then obtain d1 where r: "job_track_start ''Sync'' ''sync'' ''t'' 5 sample_db = (1, d1)" by (metis prod.collapse)
  from tracked_job_stranded [OF sample_db_ok r, of 9 99999] r show ?thesis by blast
qed

section \<open>Commits\<close>

definition sample_store :: store_codec where
  "sample_store = \<lparr>sk_enc_snapshot = (\<lambda>_. Some ''S''),
     sk_dec_snapshot = (\<lambda>p. if p = ''S'' then Some (Some [\<lparr>si_key = ''acme/x#1'', si_payload = ''P''\<rparr>]) else None),
     sk_notify = (\<lambda>_. Some ''N''), sk_digest = (\<lambda>p. p), sk_scan = jc_scan sample_codec\<rparr>"

definition sample_output :: "sink_kind \<Rightarrow> string \<Rightarrow> string \<Rightarrow> bytes \<Rightarrow> sink_output" where
  "sample_output k target key payload = \<lparr>o_kind = k, o_target = target, o_key = key, o_occurrence = ''occ'', o_payload = payload,
     o_source_kind = ''github'', o_source_scope = ''acct'', o_source_topic = sample_topic, o_snapshot_id = ''1''\<rparr>"

definition sample_commit :: commit_batch where
  "sample_commit = \<lparr>cb_consumer = ''inbox'', cb_up_to = 1,
     cb_outputs = [sample_output SinkFeed ''inbox/work'' ''acme/x#1'' ''P'', sample_output SinkAction ''notify'' ''acme/x#1'' ''P''],
     cb_snapshots = [\<lparr>fs_feed = ''inbox/work'', fs_topic = sample_topic, fs_snapshot = ''1''\<rparr>],
     cb_discards = [], cb_node_runs = [], cb_mutations = []\<rparr>"

lemma sample_commit_facts:
  "0 \<le> cb_up_to sample_commit" "consumer_offset (cb_consumer sample_commit) sample_db < cb_up_to sample_commit"
  "\<forall>out\<in>set (cb_outputs sample_commit). committable sample_store (cb_consumer sample_commit) out"
  "scopes_agree (cb_outputs sample_commit)"
  by (simp_all add: sample_commit_def consumer_offset_def sample_db_def empty_db_def committable_def sample_output_def
      scopes_agree_def moved_by_def moves_def)

theorem commit_effect_witness:
  "\<exists>d'. commit sample_store 7 7 sample_commit sample_db = Inr d' \<and> db_ok d' \<and> consumer_offset ''inbox'' d' = 1"
proof -
  have "cb_consumer sample_commit = ''inbox''" "cb_up_to sample_commit = 1" by (simp_all add: sample_commit_def)
  with commit_effect [OF sample_db_ok sample_db_named sample_commit_facts, of 7 7] show ?thesis by auto
qed

lemma sample_commits: "\<exists>d'. commit sample_store 7 7 sample_commit sample_db = Inr d'"
  using commit_step [OF sample_db_ok sample_db_named sample_commit_facts, of 7 7] by blast

theorem commit_idempotent_witness:
  "\<exists>d'. commit sample_store 7 7 sample_commit sample_db = Inr d' \<and> commit sample_store 8 8 sample_commit d' = Inr d'"
proof -
  obtain d' where c: "commit sample_store 7 7 sample_commit sample_db = Inr d'" using sample_commits by blast
  from commit_idempotent [OF c refl sample_commit_facts(1), of 8 8] c show ?thesis by auto
qed

theorem snapshot_exact_witness:
  "\<exists>d'. commit sample_store 7 7 sample_commit claimed_db = Inr d' \<and>
     fc_item ` {cl \<in> set (db_claims d'). fc_feed cl = ''inbox/work'' \<and> fc_source cl = sample_topic} =
     {i. output_id ''inbox'' (sample_output SinkFeed ''inbox/work'' ''acme/x#1'' ''P'') d' = Some i}"
proof -
  let ?fs = "\<lparr>fs_feed = ''inbox/work'', fs_topic = sample_topic, fs_snapshot = ''1''\<rparr>"
  have fs: "?fs \<in> set (cb_snapshots sample_commit)"
    "distinct (map (\<lambda>fs. (fs_feed fs, fs_topic fs)) (cb_snapshots sample_commit))"
    "cb_consumer sample_commit = ''inbox''" by (simp_all add: sample_commit_def)
  have named: "named_items claimed_db" "consumer_offset (cb_consumer sample_commit) claimed_db < cb_up_to sample_commit"
    using sample_db_named sample_commit_facts(2) by (simp_all add: claimed_db_def named_items_def consumer_offset_def)
  have ex: "(\<exists>out\<in>set (cb_outputs sample_commit). in_snapshot ?fs out \<and> P out) =
      P (sample_output SinkFeed ''inbox/work'' ''acme/x#1'' ''P'')" for P
    by (simp add: sample_commit_def in_snapshot_def sample_output_def)
  from snapshot_exact [OF claimed_db_ok named(1) sample_commit_facts(1) named(2) sample_commit_facts(3,4) fs(1,2), of 7 7]
  show ?thesis unfolding ex fs(3) by simp
qed

theorem payloadless_action_blocks_witness:
  "\<exists>e. commit sample_store 7 7 (sample_commit\<lparr>cb_outputs := [sample_output SinkAction ''notify'' ''acme/x#1'' []]\<rparr>) sample_db = Inl e"
  by (rule payloadless_action_blocks [of "sample_output SinkAction ''notify'' ''acme/x#1'' []"])
    (use sample_commit_facts(2) in \<open>simp_all add: sample_output_def sample_commit_def\<close>)

section \<open>The engine\<close>

definition sample_env :: "nat engine_env" where
  "sample_env = \<lparr>en_codec = sample_codec, en_store = sample_store, en_options = sample_options, en_page = 10\<rparr>"

lemma sample_drainable: "drainable ''inbox'' sample_runner sample_db"
  using sample_db_ok sample_db_small sample_can_run
  by (simp add: drainable_def sample_runner_facts(1) sample_flow_def)

theorem pump_consumes_interval_witness:
  "\<exists>r' pool' d'. pump sample_env 7 ''inbox'' sample_runner 32 sample_db = (PumpDid, r', pool', d') \<and>
     {x \<in> set (db_events sample_db). 0 < er_offset x \<and> er_offset x \<le> consumer_offset ''inbox'' d'} = {sample_event}"
proof -
  have "fst (pump sample_env 7 ''inbox'' sample_runner 32 sample_db) = PumpDid" by code_simp
  then obtain r' pool' d' where p: "pump sample_env 7 ''inbox'' sample_runner 32 sample_db = (PumpDid, r', pool', d')"
    by (metis fst_conv prod_cases4)
  have off: "consumer_offset ''inbox'' sample_db = 0" by (simp add: consumer_offset_def sample_db_def empty_db_def)
  from pump_consumes_interval [OF sample_drainable p, THEN conjunct2, THEN conjunct2, THEN conjunct2, THEN conjunct2, THEN mp, OF refl]
  obtain rows :: "event_row list" where ne: "rows \<noteq> []"
    and set: "set rows = {x \<in> set (db_events sample_db). consumer_offset ''inbox'' sample_db < er_offset x \<and> er_offset x \<le> consumer_offset ''inbox'' d'}"
    by (elim exE conjE) (rule that; assumption)
  have all: "set (db_events sample_db) = {sample_event}" by (simp add: sample_db_def)
  have "hd rows \<in> set rows" using ne by simp
  then have "0 < er_offset sample_event" "er_offset sample_event \<le> consumer_offset ''inbox'' d'"
    unfolding set all off by (simp_all only: mem_Collect_eq singleton_iff) auto
  then show ?thesis using p unfolding all by auto
qed

theorem drain_reaches_end_witness:
  "\<exists>res did r' pool' d'. drain_flow (Suc (backlog ''inbox'' sample_db)) sample_env (\<lambda>_. 7) ''inbox'' sample_runner 32 sample_db =
     Some (res, did, r', pool', d') \<and> drainable ''inbox'' r' d'"
proof -
  have "0 < en_page sample_env" by (simp add: sample_env_def)
  from drain_reaches_end [OF sample_drainable this, of "\<lambda>_. 7" 32] show ?thesis
    by (elim exE conjE) (intro exI conjI; assumption)
qed

theorem install_recomputes_witness:
  "\<exists>rs' pool' d' r'. install_flow sample_env 7 sample_flow [] 32 claimed_db = (None, rs', pool', d') \<and>
     map_of rs' ''inbox'' = Some r' \<and> drainable ''inbox'' r' d' \<and> db_items d' = db_items claimed_db"
proof -
  have "fst (install_flow sample_env 7 sample_flow [] 32 claimed_db) = None" by code_simp
  then obtain rs' pool' d' where i: "install_flow sample_env 7 sample_flow [] 32 claimed_db = (None, rs', pool', d')"
    by (metis fst_conv prod_cases4)
  have "small_log claimed_db" "f_id sample_flow = ''inbox''" using sample_db_small
    by (simp_all add: small_log_def claimed_db_def sample_flow_def)
  with install_recomputes [OF claimed_db_ok _ i] i show ?thesis by (auto simp: replayed_def)
qed

theorem install_keeps_last_good_witness:
  "\<exists>rs' pool' d'. install sample_env 7 [''inbox''] [looped_flow] [(''inbox'', sample_runner), (''gone'', sample_runner)] 32 claimed_db =
     ([(''inbox'', BuildFailed (NotADag ''inbox''))], rs', pool', d') \<and>
     map_of rs' ''inbox'' = Some sample_runner \<and> map_of rs' ''gone'' = None"
proof -
  let ?rs = "[(''inbox'', sample_runner), (''gone'', sample_runner)]"
  have en: "enabled_flows [looped_flow] = [(''inbox'', looped_flow)]"
    by (simp add: enabled_flows_def looped_flow_def sample_flow_def)
  have "new_graph looped_flow = None" "f_id looped_flow = ''inbox''" by code_simp+
  then have "install_flow sample_env 7 looped_flow rs pool claimed_db = (Some (BuildFailed (NotADag ''inbox'')), rs, pool, claimed_db)" for rs pool
    by (simp add: install_flow_def new_runner_def)
  then obtain rs' pool' d' where i: "install sample_env 7 [''inbox''] [looped_flow] ?rs 32 claimed_db =
      ([(''inbox'', BuildFailed (NotADag ''inbox''))], rs', pool', d')"
    using \<open>f_id looped_flow = ''inbox''\<close> by (simp add: install_def en Let_def List.map_filter_simps)
  have ord: "distinct [''inbox'']" "set [''inbox''] = fst ` set (enabled_flows [looped_flow])" by (simp_all add: en)
  note law = install_keeps_last_good [OF claimed_db_ok i ord]
  from law [of "''inbox''"] law [of "''gone''"] i show ?thesis by (simp add: en)
qed

end
