(* ===== verification/Actions.thy ===== *)
theory Actions
  imports Validate
begin

text \<open>
  The actions catalogue (\<open>internal/app/actions\<close>): the schema of \<open>actions.yml\<close> as it is after
  decoding, its validation, the declared inputs and their resolution, what an action can run on,
  and the conversion to and from the editor's shape. YAML itself, the file and its watcher are
  left out. The \<open>time\<close> package's duration text enters as a pair of functions.
\<close>

section \<open>Data\<close>

record input_spec =
  is_name :: string
  is_label :: string
  is_type :: string
  is_required :: bool
  is_default :: string
  is_placeholder :: string
  is_options :: "string list"

record launch_config =
  lc_prompt :: string
  lc_agent :: string
  lc_repo :: string
  lc_workspace :: string
  lc_post_hook :: string
  lc_post_timeout :: int

record shell_config =
  sh_command :: string
  sh_cwd :: string
  sh_timeout :: int
  sh_env :: "(string, string) amap"

record publish_config =
  pb_message :: string
  pb_topic :: string

text \<open>The dispatcher's own implementation of \<open>ActionConfig\<close> (\<open>notify_actions.go\<close>) joins the four
  authored ones; it is never decoded.\<close>

record notify_action_config =
  na_title :: string
  na_body :: string
  na_severity :: string
  na_sound :: bool
  na_cooldown :: int

datatype act_config = LaunchSession launch_config | Shell shell_config
  | PublishMessage publish_config | Clipboard string | NotifyAct notify_action_config

record action =
  ac_id :: string
  ac_label :: string
  ac_type :: string
  ac_targets :: "string list"
  ac_applies :: "string list"
  ac_show :: bool
  ac_inputs :: "input_spec list"
  ac_config :: "act_config option"

record launcher =
  la_id :: string
  la_label :: string
  la_command :: string
  la_cwd :: string
  la_icon :: string

datatype input_error = InputNameRequired | InputNameInvalid string | InputDuplicate string
  | InputTypeUnknown string string | InputOptionsMisplaced string | InputOptionsMissing string
  | InputOptionEmpty string | InputOptionDuplicate string string | InputDefaultNotOption string string

datatype target_error = TargetUnknown string | TargetDuplicate string | TargetNotTerminal string

datatype act_config_error = CommandRequired | TextRequired | PromptRequired | RepoAndWorkspace
  | AgentWithWorkspace | HookWithWorkspace | HookTimeoutNegative | HookTimeoutAlone
  | MessageRequired | TopicRequired | TopicNotLiteral | TitleRequired

datatype action_error = ActionIdRequired | ActionIdBad string | ActionDuplicate string
  | ActionLabelRequired string | ActionAppliesEmpty string | ActionInputs string input_error
  | ActionNoConfig string | ActionTargets string target_error | ActionConfigBad string act_config_error
  | ActionBranches string | ActionBranchMissing string | ActionDuration string | ActionTypeUnknown string

section \<open>Decoding\<close>

definition input_types :: "string list" where
  "input_types = [''text'', ''select'', ''multiline'']"

definition normalize_inputs :: "input_spec list \<Rightarrow> input_spec list" where
  "normalize_inputs specs = map (\<lambda>s. if is_type s = [] then s\<lparr>is_type := ''text''\<rparr> else s) specs"

definition target_names :: "string list" where
  "target_names = [''item'', ''session'', ''window'']"

definition normalize_targets :: "string list \<Rightarrow> string list" where
  "normalize_targets ts =
     (let out = map (\<lambda>t. to_lower (trim_space t)) ts in if out = [''item''] then [] else out)"

fun config_type :: "act_config \<Rightarrow> string" where
  "config_type (LaunchSession _) = ''launch-session''"
| "config_type (Shell _) = ''shell''"
| "config_type (PublishMessage _) = ''publish-message''"
| "config_type (Clipboard _) = ''clipboard''"
| "config_type (NotifyAct _) = ''notify''"

definition registered_types :: "string list" where
  "registered_types = [''launch-session'', ''shell'', ''publish-message'', ''clipboard'']"

text \<open>A decoded entry: the header's envelope fields and the configuration of its type.\<close>

record action_header =
  ah_id :: string
  ah_label :: string
  ah_targets :: "string list"
  ah_applies :: "string list"
  ah_show :: bool
  ah_inputs :: "input_spec list"

definition decode_action :: "action_header \<Rightarrow> act_config \<Rightarrow> (action_error, action) result" where
  "decode_action h c =
     (if config_type c \<notin> set registered_types then Inl (ActionTypeUnknown (config_type c))
      else Inr \<lparr>ac_id = ah_id h, ac_label = ah_label h, ac_type = config_type c,
      ac_targets = normalize_targets (ah_targets h), ac_applies = ah_applies h, ac_show = ah_show h,
      ac_inputs = normalize_inputs (ah_inputs h), ac_config = Some c\<rparr>)"

section \<open>Validation\<close>

definition template_name :: "string \<Rightarrow> bool" where
  "template_name s =
     (let letter = (\<lambda>c. (CHR ''a'' \<le> c \<and> c \<le> CHR ''z'') \<or> (CHR ''A'' \<le> c \<and> c \<le> CHR ''Z'') \<or> c = CHR ''_'')
      in case s of [] \<Rightarrow> False
         | c # cs \<Rightarrow> letter c \<and> List.list_all (\<lambda>x. letter x \<or> (CHR ''0'' \<le> x \<and> x \<le> CHR ''9'')) cs)"

fun check_options :: "string \<Rightarrow> string list \<Rightarrow> string list \<Rightarrow> (input_error, unit) result" where
  "check_options n seen [] = Inr ()"
| "check_options n seen (x # xs) =
     (if trim_space x = [] then Inl (InputOptionEmpty n)
      else if x \<in> set seen then Inl (InputOptionDuplicate n x)
      else check_options n (x # seen) xs)"

definition validate_input :: "string list \<Rightarrow> input_spec \<Rightarrow> (input_error, unit) result" where
  "validate_input names s =
     (if is_name s = [] then Inl InputNameRequired
      else if 64 < length (is_name s) \<or> \<not> template_name (is_name s) then Inl (InputNameInvalid (is_name s))
      else if is_name s \<in> set names then Inl (InputDuplicate (is_name s))
      else if is_type s \<notin> set input_types then Inl (InputTypeUnknown (is_name s) (is_type s))
      else if is_type s \<noteq> ''select'' then
        (if is_options s \<noteq> [] then Inl (InputOptionsMisplaced (is_name s)) else Inr ())
      else if is_options s = [] then Inl (InputOptionsMissing (is_name s))
      else res_bind (check_options (is_name s) [] (is_options s)) (\<lambda>_.
             if is_default s \<noteq> [] \<and> is_default s \<notin> set (is_options s)
             then Inl (InputDefaultNotOption (is_name s) (is_default s)) else Inr ()))"

definition validate_inputs :: "input_spec list \<Rightarrow> (input_error, unit) result" where
  "validate_inputs specs =
     res_bind (res_fold (\<lambda>s names. res_bind (validate_input names s) (\<lambda>_. Inr (is_name s # names))) specs [])
       (\<lambda>_. Inr ())"

fun contains_str :: "string \<Rightarrow> string \<Rightarrow> bool" where
  "contains_str p [] = (p = [])"
| "contains_str p (c # cs) = (has_prefix p (c # cs) \<or> contains_str p cs)"

fun act_config_validate :: "act_config \<Rightarrow> (act_config_error, unit) result" where
  "act_config_validate (LaunchSession c) =
     (let repo = trim_space (lc_repo c); workspace = trim_space (lc_workspace c)
      in if trim_space (lc_prompt c) = [] then Inl PromptRequired
         else if repo \<noteq> [] \<and> workspace \<noteq> [] then Inl RepoAndWorkspace
         else if workspace \<noteq> [] \<and> trim_space (lc_agent c) \<noteq> [] then Inl AgentWithWorkspace
         else if workspace \<noteq> [] \<and> trim_space (lc_post_hook c) \<noteq> [] then Inl HookWithWorkspace
         else if lc_post_timeout c < 0 then Inl HookTimeoutNegative
         else if trim_space (lc_post_hook c) = [] \<and> lc_post_timeout c \<noteq> 0 then Inl HookTimeoutAlone
         else Inr ())"
| "act_config_validate (Shell c) = (if trim_space (sh_command c) = [] then Inl CommandRequired else Inr ())"
| "act_config_validate (PublishMessage c) =
     (let topic = trim_space (pb_topic c)
      in if trim_space (pb_message c) = [] then Inl MessageRequired
         else if topic = [] then Inl TopicRequired
         else if CHR ''*'' \<in> set topic \<or> contains_str ''{{'' topic \<or> contains_str ''}}'' topic then Inl TopicNotLiteral
         else Inr ())"
| "act_config_validate (Clipboard text) = (if trim_space text = [] then Inl TextRequired else Inr ())"
| "act_config_validate (NotifyAct c) = (if trim_space (na_title c) = [] then Inl TitleRequired else Inr ())"

definition has_target :: "string \<Rightarrow> action \<Rightarrow> bool" where
  "has_target t a = (if ac_targets a = [] then t = ''item'' else t \<in> set (ac_targets a))"

definition targets_terminal :: "action \<Rightarrow> bool" where
  "targets_terminal a \<longleftrightarrow> has_target ''session'' a \<or> has_target ''window'' a"

definition terminal_capable :: "action \<Rightarrow> bool" where
  "terminal_capable a = (case ac_config a of Some (LaunchSession _) \<Rightarrow> False | _ \<Rightarrow> True)"

fun check_targets :: "string list \<Rightarrow> string list \<Rightarrow> (target_error, unit) result" where
  "check_targets seen [] = Inr ()"
| "check_targets seen (t # ts) =
     (if t \<notin> set target_names then Inl (TargetUnknown t)
      else if t \<in> set seen then Inl (TargetDuplicate t)
      else check_targets (t # seen) ts)"

definition validate_targets :: "action \<Rightarrow> (target_error, unit) result" where
  "validate_targets a =
     res_bind (check_targets [] (ac_targets a)) (\<lambda>_.
       if targets_terminal a \<and> \<not> terminal_capable a then Inl (TargetNotTerminal (ac_type a)) else Inr ())"

definition lift_error :: "('e \<Rightarrow> 'f) \<Rightarrow> ('e, 'a) result \<Rightarrow> ('f, 'a) result" where
  "lift_error f r = (case r of Inl e \<Rightarrow> Inl (f e) | Inr x \<Rightarrow> Inr x)"

definition validate_action :: "string list \<Rightarrow> action \<Rightarrow> (action_error, unit) result" where
  "validate_action ids a =
     (if ac_id a = [] then Inl ActionIdRequired
      else if \<not> valid_slug (ac_id a) then Inl (ActionIdBad (ac_id a))
      else if ac_id a \<in> set ids then Inl (ActionDuplicate (ac_id a))
      else if ac_label a = [] then Inl (ActionLabelRequired (ac_id a))
      else if [] \<in> set (ac_applies a) then Inl (ActionAppliesEmpty (ac_id a))
      else res_bind (lift_error (ActionInputs (ac_id a)) (validate_inputs (ac_inputs a))) (\<lambda>_.
        case ac_config a of
          None \<Rightarrow> Inl (ActionNoConfig (ac_id a))
        | Some c \<Rightarrow>
            res_bind (lift_error (ActionTargets (ac_id a)) (validate_targets a)) (\<lambda>_.
              lift_error (ActionConfigBad (ac_id a)) (act_config_validate c))))"

definition validate_actions :: "action list \<Rightarrow> (action_error, unit) result" where
  "validate_actions acts =
     res_bind (res_fold (\<lambda>a ids. res_bind (validate_action ids a) (\<lambda>_. Inr (ac_id a # ids))) acts [])
       (\<lambda>_. Inr ())"

datatype launcher_error = LauncherIdRequired | LauncherIdBad string | LauncherLabelRequired string
  | LauncherCommandRequired string | LauncherIconUnknown string string | LauncherDuplicate string

definition launcher_validate :: "(string \<Rightarrow> bool) \<Rightarrow> launcher \<Rightarrow> (launcher_error, unit) result" where
  "launcher_validate icons l =
     (if la_id l = [] then Inl LauncherIdRequired
      else if \<not> valid_slug (la_id l) then Inl (LauncherIdBad (la_id l))
      else if la_label l = [] then Inl (LauncherLabelRequired (la_id l))
      else if trim_space (la_command l) = [] then Inl (LauncherCommandRequired (la_id l))
      else if \<not> icons (la_icon l) then Inl (LauncherIconUnknown (la_id l) (la_icon l))
      else Inr ())"

definition validate_launchers :: "(string \<Rightarrow> bool) \<Rightarrow> launcher list \<Rightarrow> (launcher_error, unit) result" where
  "validate_launchers icons ls =
     res_bind (res_fold (\<lambda>l ids. res_bind (launcher_validate icons l) (\<lambda>_.
         if la_id l \<in> set ids then Inl (LauncherDuplicate (la_id l)) else Inr (la_id l # ids))) ls [])
       (\<lambda>_. Inr ())"

section \<open>Running an action\<close>

definition display_label :: "input_spec \<Rightarrow> string" where
  "display_label s = (if trim_space (is_label s) \<noteq> [] then is_label s else is_name s)"

datatype resolve_error = UnknownInput string string | RequiredInput string string
  | NotAnOption string string string

definition resolve_input ::
  "string \<Rightarrow> (string, string) amap \<Rightarrow> input_spec \<Rightarrow> (string, string) amap \<Rightarrow> (resolve_error, (string, string) amap) result" where
  "resolve_input i supplied s acc =
     (let given = (case map_of supplied (is_name s) of None \<Rightarrow> [] | Some v \<Rightarrow> v);
          value = (if trim_space given = [] then is_default s else given)
      in if is_required s \<and> trim_space value = [] then Inl (RequiredInput i (display_label s))
         else if is_type s = ''select'' \<and> value \<noteq> [] \<and> value \<notin> set (is_options s)
         then Inl (NotAnOption i (display_label s) value)
         else Inr (AList.update (is_name s) value acc))"

definition resolve_inputs :: "action \<Rightarrow> (string, string) amap \<Rightarrow> (resolve_error, (string, string) amap) result" where
  "resolve_inputs a supplied =
     (case find (\<lambda>n. n \<notin> is_name ` set (ac_inputs a)) (map fst supplied) of
        Some n \<Rightarrow> Inl (UnknownInput (ac_id a) n)
      | None \<Rightarrow> res_fold (resolve_input (ac_id a) supplied) (ac_inputs a) [])"

definition inputs_headless :: "action \<Rightarrow> bool" where
  "inputs_headless a \<longleftrightarrow> \<not> list_ex (\<lambda>s. is_required s \<and> trim_space (is_default s) = []) (ac_inputs a)"

definition headless_capable :: "action \<Rightarrow> bool" where
  "headless_capable a \<longleftrightarrow> inputs_headless a \<and>
     (case ac_config a of
        Some (LaunchSession c) \<Rightarrow> trim_space (lc_repo c) \<noteq> [] \<or> trim_space (lc_workspace c) \<noteq> []
      | Some (Clipboard _) \<Rightarrow> False
      | _ \<Rightarrow> True)"

definition runs_without_input :: "action \<Rightarrow> bool" where
  "runs_without_input a =
     (case ac_config a of Some (Clipboard _) \<Rightarrow> inputs_headless a | _ \<Rightarrow> headless_capable a)"

definition requires_session_input :: "action \<Rightarrow> bool" where
  "requires_session_input a =
     (case ac_config a of
        Some (LaunchSession c) \<Rightarrow> trim_space (lc_repo c) = [] \<and> trim_space (lc_workspace c) = []
      | _ \<Rightarrow> False)"

definition applies_to :: "action \<Rightarrow> string \<Rightarrow> bool" where
  "applies_to a kind \<longleftrightarrow> ac_applies a = [] \<or> list_ex (\<lambda>x. to_lower x = to_lower kind) (ac_applies a)"

text \<open>Lookup in the loaded catalogue: the index the store rebuilds on every load.\<close>

definition catalog_get :: "action list \<Rightarrow> string \<Rightarrow> action option" where
  "catalog_get acts i = map_of (rev (map (\<lambda>a. (ac_id a, a)) acts)) i"

definition catalog_headless :: "action list \<Rightarrow> string \<Rightarrow> bool" where
  "catalog_headless acts i = (case catalog_get acts i of None \<Rightarrow> False | Some a \<Rightarrow> headless_capable a)"

definition catalog_refs :: "action list \<Rightarrow> refs \<Rightarrow> refs" where
  "catalog_refs acts R = R\<lparr>resolve_action := Some (\<lambda>i. catalog_get acts i \<noteq> None),
     action_headless := Some (catalog_headless acts)\<rparr>"

section \<open>The editor's shape\<close>

record editable_launch =
  el_prompt :: string
  el_agent :: string
  el_repo :: string
  el_workspace :: string
  el_post_hook :: string
  el_post_timeout :: string

record editable_shell =
  es_command :: string
  es_cwd :: string
  es_timeout :: string
  es_env :: "(string, string) amap"

record editable_action =
  ed_id :: string
  ed_label :: string
  ed_type :: string
  ed_show :: bool
  ed_targets :: "string list"
  ed_applies :: "string list"
  ed_inputs :: "input_spec list"
  ed_launch :: "editable_launch option"
  ed_shell :: "editable_shell option"
  ed_message :: "publish_config option"
  ed_clipboard :: "string option"

definition effective_targets :: "action \<Rightarrow> string list" where
  "effective_targets a = (if ac_targets a = [] then [''item''] else ac_targets a)"

definition duration_field :: "(int \<Rightarrow> string) \<Rightarrow> int \<Rightarrow> string" where
  "duration_field show_duration n = (if n = 0 then [] else show_duration n)"

definition editable_from_action :: "(int \<Rightarrow> string) \<Rightarrow> action \<Rightarrow> (action_error, editable_action) result" where
  "editable_from_action show_duration a =
     (let e = \<lparr>ed_id = ac_id a, ed_label = ac_label a, ed_type = ac_type a, ed_show = ac_show a,
               ed_targets = effective_targets a, ed_applies = ac_applies a, ed_inputs = ac_inputs a,
               ed_launch = None, ed_shell = None, ed_message = None, ed_clipboard = None\<rparr>
      in case ac_config a of
           Some (LaunchSession c) \<Rightarrow>
             Inr (e\<lparr>ed_launch := Some \<lparr>el_prompt = lc_prompt c, el_agent = lc_agent c, el_repo = lc_repo c,
               el_workspace = lc_workspace c, el_post_hook = lc_post_hook c,
               el_post_timeout = duration_field show_duration (lc_post_timeout c)\<rparr>\<rparr>)
         | Some (Shell c) \<Rightarrow>
             Inr (e\<lparr>ed_shell := Some \<lparr>es_command = sh_command c, es_cwd = sh_cwd c,
               es_timeout = duration_field show_duration (sh_timeout c), es_env = sh_env c\<rparr>\<rparr>)
         | Some (PublishMessage c) \<Rightarrow> Inr (e\<lparr>ed_message := Some c\<rparr>)
         | Some (Clipboard t) \<Rightarrow> Inr (e\<lparr>ed_clipboard := Some t\<rparr>)
         | _ \<Rightarrow> Inl (ActionTypeUnknown (ac_type a)))"

definition parse_duration_field :: "(string \<Rightarrow> int option) \<Rightarrow> string \<Rightarrow> int option" where
  "parse_duration_field parse s = (if s = [] then Some 0 else parse s)"

definition editable_config ::
  "(string \<Rightarrow> int option) \<Rightarrow> editable_action \<Rightarrow> (action_error, act_config) result" where
  "editable_config parse e =
     (if ed_type e = ''launch-session'' then
        (case ed_launch e of
           None \<Rightarrow> Inl (ActionBranchMissing (ed_id e))
         | Some l \<Rightarrow>
             (case parse_duration_field parse (el_post_timeout l) of
                None \<Rightarrow> Inl (ActionDuration (ed_id e))
              | Some n \<Rightarrow> Inr (LaunchSession \<lparr>lc_prompt = el_prompt l, lc_agent = el_agent l, lc_repo = el_repo l,
                  lc_workspace = el_workspace l, lc_post_hook = el_post_hook l, lc_post_timeout = n\<rparr>)))
      else if ed_type e = ''shell'' then
        (case ed_shell e of
           None \<Rightarrow> Inl (ActionBranchMissing (ed_id e))
         | Some s \<Rightarrow>
             (case parse_duration_field parse (es_timeout s) of
                None \<Rightarrow> Inl (ActionDuration (ed_id e))
              | Some n \<Rightarrow> Inr (Shell \<lparr>sh_command = es_command s, sh_cwd = es_cwd s, sh_timeout = n, sh_env = es_env s\<rparr>)))
      else if ed_type e = ''publish-message'' then
        (case ed_message e of None \<Rightarrow> Inl (ActionBranchMissing (ed_id e)) | Some c \<Rightarrow> Inr (PublishMessage c))
      else if ed_type e = ''clipboard'' then
        (case ed_clipboard e of None \<Rightarrow> Inl (ActionBranchMissing (ed_id e)) | Some t \<Rightarrow> Inr (Clipboard t))
      else Inl (ActionTypeUnknown (ed_type e)))"

definition editable_branches :: "editable_action \<Rightarrow> nat" where
  "editable_branches e =
     length (filter (\<lambda>b. b) [ed_launch e \<noteq> None, ed_shell e \<noteq> None, ed_message e \<noteq> None, ed_clipboard e \<noteq> None])"

definition action_from_editable ::
  "(string \<Rightarrow> int option) \<Rightarrow> editable_action \<Rightarrow> (action_error, action) result" where
  "action_from_editable parse e =
     (if editable_branches e \<noteq> 1 then Inl (ActionBranches (ed_id e))
      else res_bind (editable_config parse e) (\<lambda>c.
        let a = \<lparr>ac_id = ed_id e, ac_label = ed_label e, ac_type = ed_type e,
                 ac_targets = normalize_targets (ed_targets e), ac_applies = ed_applies e, ac_show = ed_show e,
                 ac_inputs = normalize_inputs (ed_inputs e), ac_config = Some c\<rparr>
        in res_bind (validate_actions [a]) (\<lambda>_. Inr a)))"

end
