(* ===== verification/Actions_Laws.thy ===== *)
theory Actions_Laws
  imports Actions
begin

text \<open>
  What the catalogue guarantees: a validated action resolves its inputs exactly as declared, an
  action a validated flow names always runs without a user, and the editor's shape loses nothing.
\<close>

section \<open>Validated lists\<close>

text \<open>The loops that remember the keys seen so far: they accept a list when each element is
  acceptable on its own and no key repeats.\<close>

lemma seen_fold:
  assumes "\<And>x seen. check seen x = Inr () \<longleftrightarrow> check [] x = Inr () \<and> key x \<notin> set seen"
  shows "(\<exists>t. res_fold (\<lambda>x seen. res_bind (check seen x) (\<lambda>_. Inr (key x # seen))) xs seen = Inr t) \<longleftrightarrow>
    (\<forall>x\<in>set xs. check [] x = Inr () \<and> key x \<notin> set seen) \<and> distinct (map key xs)"
proof (induction xs arbitrary: seen)
  case (Cons x xs)
  show ?case
  proof (cases "check seen x = Inr ()")
    case True
    then show ?thesis using Cons.IH [of "key x # seen"] assms [of seen x] by (auto simp: image_iff)
  next
    case False
    then obtain e where "check seen x = Inl e" by (cases "check seen x") auto
    then show ?thesis using False assms [of seen x] by auto
  qed
qed simp

lemma validate_input_seen:
  "validate_input names s = Inr () \<longleftrightarrow> validate_input [] s = Inr () \<and> is_name s \<notin> set names"
  by (auto simp: validate_input_def)

lemma validate_inputs_ok:
  "validate_inputs specs = Inr () \<longleftrightarrow> (\<forall>s\<in>set specs. validate_input [] s = Inr ()) \<and> distinct (map is_name specs)"
  using seen_fold [of validate_input is_name specs "[]", OF validate_input_seen]
  by (auto simp: validate_inputs_def res_bind_Inr_conv)

lemma validate_action_seen:
  "validate_action ids a = Inr () \<longleftrightarrow> validate_action [] a = Inr () \<and> ac_id a \<notin> set ids"
  by (auto simp: validate_action_def)

lemma validate_actions_ok:
  "validate_actions acts = Inr () \<longleftrightarrow> (\<forall>a\<in>set acts. validate_action [] a = Inr ()) \<and> distinct (map ac_id acts)"
  using seen_fold [of validate_action ac_id acts "[]", OF validate_action_seen]
  by (auto simp: validate_actions_def res_bind_Inr_conv)

lemma lift_error_Inr [simp]: "lift_error f r = Inr x \<longleftrightarrow> r = Inr x"
  by (cases r) (simp_all add: lift_error_def)

lemma validate_action_parts:
  assumes "validate_action ids a = Inr ()"
  shows "validate_inputs (ac_inputs a) = Inr ()" and "validate_targets a = Inr ()"
    and "\<exists>c. ac_config a = Some c \<and> act_config_validate c = Inr ()"
  using assms by (auto simp: validate_action_def res_bind_Inr_conv split: if_splits option.splits)

section \<open>Resolving inputs\<close>

definition input_value :: "(string, string) amap \<Rightarrow> input_spec \<Rightarrow> string" where
  "input_value supplied s =
     (case map_of supplied (is_name s) of
        None \<Rightarrow> is_default s
      | Some v \<Rightarrow> if trim_space v = [] then is_default s else v)"

definition input_ok :: "input_spec \<Rightarrow> string \<Rightarrow> bool" where
  "input_ok s v \<longleftrightarrow> (is_required s \<longrightarrow> trim_space v \<noteq> []) \<and>
     (is_type s = ''select'' \<and> v \<noteq> [] \<longrightarrow> v \<in> set (is_options s))"

lemma trim_space_Nil [simp]: "trim_space [] = []"
  by (simp add: trim_space_def trim_by_def)

lemma resolve_input_value:
  "resolve_input i supplied s acc =
     (if input_ok s (input_value supplied s) then Inr (AList.update (is_name s) (input_value supplied s) acc)
      else Inl (if is_required s \<and> trim_space (input_value supplied s) = [] then RequiredInput i (display_label s)
                else NotAnOption i (display_label s) (input_value supplied s)))"
  by (auto simp: resolve_input_def input_value_def input_ok_def Let_def split: option.split)

lemma update_fresh: "k \<notin> fst ` set m \<Longrightarrow> AList.update k v m = m @ [(k, v)]"
  by (induction m) auto

lemma resolve_fold:
  assumes "distinct (map is_name specs)" and "fst ` set acc \<inter> is_name ` set specs = {}"
  shows "res_fold (resolve_input i supplied) specs acc = Inr m \<longleftrightarrow>
    (\<forall>s\<in>set specs. input_ok s (input_value supplied s)) \<and>
    m = acc @ map (\<lambda>s. (is_name s, input_value supplied s)) specs"
  using assms
proof (induction specs arbitrary: acc)
  case (Cons s specs)
  have upd: "AList.update (is_name s) (input_value supplied s) acc = acc @ [(is_name s, input_value supplied s)]"
    by (rule update_fresh) (use Cons.prems(2) in auto)
  have "fst ` set (acc @ [(is_name s, input_value supplied s)]) \<inter> is_name ` set specs = {}"
    using Cons.prems by auto
  with Cons.prems(1) show ?case
    using Cons.IH [of "acc @ [(is_name s, input_value supplied s)]"] by (auto simp: resolve_input_value upd)
qed auto

lemma resolve_inputs_exact:
  assumes "validate_inputs (ac_inputs a) = Inr ()"
  shows "resolve_inputs a supplied = Inr m \<longleftrightarrow>
    fst ` set supplied \<subseteq> is_name ` set (ac_inputs a) \<and>
    (\<forall>s\<in>set (ac_inputs a). input_ok s (input_value supplied s)) \<and>
    m = map (\<lambda>s. (is_name s, input_value supplied s)) (ac_inputs a)"
proof -
  have d: "distinct (map is_name (ac_inputs a))" using assms by (simp add: validate_inputs_ok)
  show ?thesis
  proof (cases "find (\<lambda>n. n \<notin> is_name ` set (ac_inputs a)) (map fst supplied)")
    case None
    then have "fst ` set supplied \<subseteq> is_name ` set (ac_inputs a)" by (auto simp: find_None_iff)
    then show ?thesis using None resolve_fold [OF d, of "[]" "ac_id a" supplied m] by (simp add: resolve_inputs_def)
  next
    case (Some n)
    then have "n \<in> fst ` set supplied" "n \<notin> is_name ` set (ac_inputs a)"
      by (auto simp: find_Some_iff)
    then show ?thesis using Some by (auto simp: resolve_inputs_def)
  qed
qed

section \<open>Headless actions\<close>

lemma headless_defaults_ok:
  assumes "validate_inputs (ac_inputs a) = Inr ()" and "inputs_headless a" and "s \<in> set (ac_inputs a)"
  shows "input_ok s (is_default s)"
proof -
  have s: "validate_input [] s = Inr ()" using assms(1,3) by (simp add: validate_inputs_ok)
  have "is_default s \<in> set (is_options s)" if "is_type s = ''select''" "is_default s \<noteq> []"
    using s that by (auto simp: validate_input_def res_bind_Inr_conv split: if_splits)
  moreover have "is_required s \<longrightarrow> trim_space (is_default s) \<noteq> []"
    using assms(2,3) by (auto simp: inputs_headless_def list_ex_iff)
  ultimately show ?thesis by (auto simp: input_ok_def)
qed

lemma headless_resolves:
  assumes "validate_action ids a = Inr ()" and "inputs_headless a"
  shows "resolve_inputs a [] = Inr (map (\<lambda>s. (is_name s, is_default s)) (ac_inputs a))"
  using headless_defaults_ok [OF validate_action_parts(1) [OF assms(1)] assms(2)]
  by (simp add: resolve_inputs_exact [OF validate_action_parts(1) [OF assms(1)]] input_value_def)

lemma catalog_get_mem: "catalog_get acts i = Some a \<Longrightarrow> a \<in> set acts \<and> ac_id a = i"
  by (auto simp: catalog_get_def dest!: map_of_SomeD)

text \<open>
  Claim C24: An action node of an accepted flow always runs without a user. In a flow validated
  against a valid catalogue, the action a node names exists, its type can run headless, and
  resolving its inputs with nothing supplied succeeds and gives every declared input its default:
  the automatic path never fails for a missing or foreign input.
\<close>

theorem flow_actions_run_headless:
  assumes "validate_actions acts = Inr ()" and "validate_flow (catalog_refs acts R) f = Inr ws"
    and "n \<in> set (f_nodes f)" and "n_config n = Some (ActionConfig i)"
  shows "\<exists>a. catalog_get acts i = Some a \<and> ac_id a = i \<and> headless_capable a \<and> runs_without_input a \<and>
    resolve_inputs a [] = Inr (map (\<lambda>s. (is_name s, is_default s)) (ac_inputs a)) \<and>
    (\<forall>s\<in>set (ac_inputs a). input_ok s (is_default s))"
proof -
  have "validate_configs (catalog_refs acts R) (f_nodes f) = Inr ()"
    using validate_flow_parts [OF assms(2)] by blast
  then have "config_validate (catalog_refs acts R) (ActionConfig i) = Inr ()"
    using assms(3,4) by (auto simp: validate_configs_ok)
  then have "refs_resolve_action (catalog_refs acts R) i" "refs_action_headless_capable (catalog_refs acts R) i"
    by (auto simp: action_validate_def split: if_splits)
  then obtain a where a: "catalog_get acts i = Some a" "headless_capable a"
    by (auto simp: catalog_refs_def refs_resolve_action_def refs_action_headless_capable_def catalog_headless_def
        split: option.splits)
  have mem: "a \<in> set acts" "ac_id a = i" using catalog_get_mem [OF a(1)] by auto
  have ok: "validate_action [] a = Inr ()" using assms(1) mem(1) by (simp add: validate_actions_ok)
  have h: "inputs_headless a" using a(2) by (simp add: headless_capable_def)
  have "runs_without_input a" using a(2) h by (auto simp: runs_without_input_def split: option.splits act_config.splits)
  then show ?thesis
    using a mem(2) headless_resolves [OF ok h] headless_defaults_ok [OF validate_action_parts(1) [OF ok] h] by blast
qed

section \<open>The editor's shape\<close>

lemma check_targets_known:
  "check_targets seen ts = Inr () \<Longrightarrow> set ts \<subseteq> set target_names"
  by (induction ts arbitrary: seen) (auto split: if_splits)

lemma normalize_known_targets:
  assumes "set ts \<subseteq> set target_names" and "ts \<noteq> [''item'']"
  shows "normalize_targets ts = ts"
proof -
  have "to_lower (trim_space t) = t" if "t \<in> set target_names" for t
  proof -
    have "\<forall>t\<in>set target_names. to_lower (trim_space t) = t" by code_simp
    then show ?thesis using that by blast
  qed
  then have "map (\<lambda>t. to_lower (trim_space t)) ts = ts" using assms(1) by (induction ts) auto
  then show ?thesis using assms(2) by (simp add: normalize_targets_def Let_def)
qed

lemma normalize_effective_targets:
  assumes "validate_targets a = Inr ()" and "ac_targets a \<noteq> [''item'']"
  shows "normalize_targets (effective_targets a) = ac_targets a"
proof (cases "ac_targets a = []")
  case True
  have "normalize_targets [''item''] = []" by code_simp
  then show ?thesis using True by (simp add: effective_targets_def)
next
  case False
  have "set (ac_targets a) \<subseteq> set target_names"
    using assms(1) check_targets_known by (auto simp: validate_targets_def res_bind_Inr_conv)
  then show ?thesis using False assms(2) by (simp add: effective_targets_def normalize_known_targets)
qed

lemma normalize_valid_inputs:
  assumes "validate_inputs specs = Inr ()"
  shows "normalize_inputs specs = specs"
proof -
  have "is_type s \<noteq> []" if "s \<in> set specs" for s
  proof -
    have "validate_input [] s = Inr ()" using assms that by (simp add: validate_inputs_ok)
    then show ?thesis by (auto simp: validate_input_def input_types_def split: if_splits)
  qed
  then show ?thesis by (induction specs) (auto simp: normalize_inputs_def)
qed

lemma normalized_targets_not_item: "normalize_targets ts \<noteq> [''item'']"
  by (simp add: normalize_targets_def Let_def)

lemma duration_field_parses:
  assumes "\<forall>n. show_duration n \<noteq> [] \<and> parse (show_duration n) = Some n"
  shows "parse_duration_field parse (duration_field show_duration n) = Some n"
  using assms by (auto simp: parse_duration_field_def duration_field_def)

text \<open>
  Claim C25: The editor round trip. An action decoded from the catalogue that validates is
  converted to the editor's shape, and converting that back gives the same action: no field, no
  target, no input and no duration is lost, whatever its type. It rests on one fact about the
  \<open>time\<close> package, that a duration's text parses back to it.
\<close>

theorem editable_roundtrip:
  assumes "decode_action h c = Inr a" and "validate_actions [a] = Inr ()"
    and "\<forall>n. show_duration n \<noteq> [] \<and> parse (show_duration n) = Some n"
  shows "\<exists>e. editable_from_action show_duration a = Inr e \<and> action_from_editable parse e = Inr a"
proof -
  have ok: "validate_action [] a = Inr ()" using assms(2) by (simp add: validate_actions_ok)
  have cfg: "ac_config a = Some c" "ac_type a = config_type c" "config_type c \<in> set registered_types"
    and targets: "ac_targets a \<noteq> [''item'']"
    using assms(1) by (auto simp: decode_action_def normalized_targets_not_item split: if_splits)
  have ts: "normalize_targets (effective_targets a) = ac_targets a"
    by (rule normalize_effective_targets [OF validate_action_parts(2) [OF ok] targets])
  have ins: "normalize_inputs (ac_inputs a) = ac_inputs a"
    by (rule normalize_valid_inputs [OF validate_action_parts(1) [OF ok]])
  obtain e where e: "editable_from_action show_duration a = Inr e"
    and fields: "ed_id e = ac_id a" "ed_label e = ac_label a" "ed_type e = ac_type a" "ed_show e = ac_show a"
      "ed_targets e = effective_targets a" "ed_applies e = ac_applies a" "ed_inputs e = ac_inputs a"
    and conv: "editable_branches e = 1" "editable_config parse e = Inr c"
    using cfg by (cases c) (auto simp: editable_from_action_def Let_def editable_branches_def editable_config_def
        registered_types_def duration_field_parses [OF assms(3)])
  have same: "\<lparr>ac_id = ac_id a, ac_label = ac_label a, ac_type = ac_type a, ac_targets = ac_targets a,
      ac_applies = ac_applies a, ac_show = ac_show a, ac_inputs = ac_inputs a, ac_config = Some c\<rparr> = a"
    using cfg(1) by (cases a) simp
  have "action_from_editable parse e = Inr a"
    using conv assms(2) by (simp add: action_from_editable_def fields ts ins same)
  with e show ?thesis by blast
qed

end
