(* ===== verification/Activity.thy ===== *)
theory Activity
  imports Commands
begin

text \<open>
  The activity log: the events the subsystems record (\<open>activity/activity.go\<close>), and the service
  that validates and stores them (\<open>activity_service.go\<close>, \<open>store_activity_event.go\<close>). A metadata
  map is the sorted association list its JSON is; publishing and logging are left out.
\<close>

record activity_event =
  ae_category :: string
  ae_severity :: string
  ae_title :: string
  ae_body :: string
  ae_source :: string
  ae_metadata :: "(string, string) amap"

definition activity_categories :: "string list" where
  "activity_categories = [''refresh'', ''session'', ''auto_action'', ''action'', ''config'', ''system'']"

definition activity_severities :: "string list" where
  "activity_severities = [''info'', ''success'', ''warning'', ''error'', ''auto'']"

definition parse_enum :: "string list \<Rightarrow> string \<Rightarrow> string option" where
  "parse_enum names s =
     (if s \<in> set names then Some s
      else if to_lower s \<in> set names then Some (to_lower s) else None)"

section \<open>Events\<close>

definition middle_dot :: string where
  "middle_dot = '' '' @ [CHR 0xC2, CHR 0xB7] @ '' ''"

definition join_meta :: "string list \<Rightarrow> string" where
  "join_meta parts = join middle_dot (filter (\<lambda>p. p \<noteq> []) parts)"

record item_link =
  il_profile :: string
  il_kind :: string
  il_scope :: string
  il_external :: string

definition with_link :: "string \<Rightarrow> item_link option \<Rightarrow> activity_event \<Rightarrow> activity_event" where
  "with_link url item e =
     (if url = [] \<and> item = None then e
      else e\<lparr>ae_metadata :=
        (case item of None \<Rightarrow> id
         | Some i \<Rightarrow> AList.update ''link.item.externalId'' (il_external i) \<circ>
             AList.update ''link.item.sourceScope'' (il_scope i) \<circ>
             AList.update ''link.item.sourceKind'' (il_kind i) \<circ>
             AList.update ''link.item.profileId'' (il_profile i))
        ((if url = [] then id else AList.update ''link.url'' url) (ae_metadata e))\<rparr>)"

definition plain_event :: "string \<Rightarrow> string \<Rightarrow> string \<Rightarrow> string \<Rightarrow> string \<Rightarrow> activity_event" where
  "plain_event category severity title body source =
     \<lparr>ae_category = category, ae_severity = severity, ae_title = title, ae_body = body,
      ae_source = source, ae_metadata = []\<rparr>"

definition refresh_failed :: "string \<Rightarrow> string \<Rightarrow> activity_event" where
  "refresh_failed source reason =
     plain_event ''refresh'' ''error'' (''Refresh failed for '' @ source) reason source"

definition session_created :: "string \<Rightarrow> string \<Rightarrow> string \<Rightarrow> activity_event" where
  "session_created name agent repo =
     plain_event ''session'' ''success'' (''Created session '' @ name) (join_meta [agent, repo]) name"

definition session_create_failed ::
  "string \<Rightarrow> string \<Rightarrow> string \<Rightarrow> string \<Rightarrow> (string, string) amap \<Rightarrow> activity_event" where
  "session_create_failed name repo step reason retry =
     (plain_event ''session'' ''error'' (''Could not create session '' @ name) (join_meta [repo, step, reason]) name)
       \<lparr>ae_metadata := retry\<rparr>"

definition auto_action :: "string \<Rightarrow> string \<Rightarrow> string \<Rightarrow> activity_event" where
  "auto_action label rule_id target =
     (let body = ''no confirmation required'';
          body = (if target = [] then body else target @ middle_dot @ body);
          body = (if rule_id = [] then body else ''rule '' @ rule_id @ middle_dot @ body)
      in plain_event ''auto_action'' ''auto''
           (if label = [] then ''Auto-action'' else ''Auto-action'' @ middle_dot @ label) body rule_id)"

definition schedule_run_event :: "string \<Rightarrow> string \<Rightarrow> string \<Rightarrow> string \<Rightarrow> activity_event" where
  "schedule_run_event name workspace status detail =
     (let (severity, outcome) =
            (if status = ''launched'' then (''success'', ''launched'')
             else if status = ''skipped'' then (''warning'', ''skipped'')
             else if status = ''failed'' then (''error'', ''failed'')
             else (''info'', ''ran''))
      in plain_event ''auto_action'' severity
           (''Scheduled chat '' @ go_quote name @ '' '' @ outcome) (join_meta [workspace, detail]) workspace)"

definition action_run :: "string \<Rightarrow> string \<Rightarrow> activity_event" where
  "action_run label detail = plain_event ''action'' ''success'' (''Ran '' @ label) detail label"

definition action_failed :: "string \<Rightarrow> string \<Rightarrow> activity_event" where
  "action_failed label reason = plain_event ''action'' ''error'' (label @ '' failed'') reason label"

definition flow_runtime_failed :: "string \<Rightarrow> string \<Rightarrow> activity_event" where
  "flow_runtime_failed flow_id err =
     plain_event ''config'' ''error'' (''Flow '' @ flow_id @ '' could not be deployed'') err flow_id"

definition config_reloaded :: "string \<Rightarrow> int \<Rightarrow> activity_event" where
  "config_reloaded file actions =
     plain_event ''config'' ''info'' (''Reloaded '' @ file) (format_int actions @ '' actions'') file"

text \<open>What the frontend sends: empty fields default, the rest is parsed ignoring case.\<close>

definition record_input_event :: "activity_event \<Rightarrow> (store_error, activity_event) result" where
  "record_input_event e =
     (if ae_title e = [] then Inl (BadArgument ''activity event requires a title'')
      else case (if ae_category e = [] then Some ''system'' else parse_enum activity_categories (ae_category e)) of
             None \<Rightarrow> Inl (BadArgument ''invalid activity category'')
           | Some c \<Rightarrow>
               (case (if ae_severity e = [] then Some ''info'' else parse_enum activity_severities (ae_severity e)) of
                  None \<Rightarrow> Inl (BadArgument ''invalid activity severity'')
                | Some s \<Rightarrow> Inr (e\<lparr>ae_category := c, ae_severity := s\<rparr>)))"

section \<open>The service\<close>

definition activity_append :: "int \<Rightarrow> activity_event \<Rightarrow> db \<Rightarrow> (store_error, activity_row \<times> db) result" where
  "activity_append now e d =
     (if ae_title e = [] then Inl (BadArgument ''activity event requires a title'')
      else
        let c = (if ae_category e = [] then ''system'' else ae_category e);
            s = (if ae_severity e = [] then ''info'' else ae_severity e)
        in if parse_enum activity_categories c = None then Inl (BadArgument ''invalid activity category'')
           else if parse_enum activity_severities s = None then Inl (BadArgument ''invalid activity severity'')
           else
             let r = \<lparr>av_id = db_activity_seq d + 1, av_created = now, av_category = c, av_severity = s,
                      av_title = ae_title e, av_body = ae_body e, av_source = ae_source e,
                      av_metadata = ae_metadata e\<rparr>
             in Inr (r, d\<lparr>db_activity := db_activity d @ [r], db_activity_seq := av_id r\<rparr>))"

definition activity_record :: "int \<Rightarrow> activity_event \<Rightarrow> db \<Rightarrow> db" where
  "activity_record now e d = (case activity_append now e d of Inl _ \<Rightarrow> d | Inr (_, d') \<Rightarrow> d')"

definition activity_list :: "int \<Rightarrow> int \<Rightarrow> db \<Rightarrow> activity_row list" where
  "activity_list before limit d =
     (let n = (if limit \<le> 0 \<or> 1000 < limit then 200 else limit);
          upper = (if before \<le> 0 then 2 ^ 63 - 1 else before)
      in take (nat n) (rev (sort_key av_id (filter (\<lambda>r. av_id r < upper) (db_activity d)))))"

section \<open>Facts\<close>

lemma activity_append_ok [preserves]:
  assumes "db_ok d" and "activity_append now e d = Inr (r, d')"
  shows "db_ok d'"
proof -
  have "\<forall>r\<in>set (db_activity d). av_id r \<noteq> db_activity_seq d + 1 \<and> av_id r \<le> db_activity_seq d + 1"
    using assms(1) by (intro seq_fresh) (simp add: db_ok_def ids_ok_def)
  then show ?thesis using assms
    by (auto simp: activity_append_def Let_def db_ok_def ids_ok_def unique_on_insert split: if_splits)
qed

lemma activity_record_ok [preserves]: "db_ok d \<Longrightarrow> db_ok (activity_record now e d)"
  by (auto simp: activity_record_def split: sum.split prod.split intro: activity_append_ok)

lemma activity_record_frame [simp]:
  "db_commands (activity_record now e d) = db_commands d" "db_jobs (activity_record now e d) = db_jobs d"
  "db_command_seq (activity_record now e d) = db_command_seq d" "db_job_seq (activity_record now e d) = db_job_seq d"
  by (auto simp: activity_record_def activity_append_def Let_def split: sum.split prod.split if_splits)

text \<open>The events the backend itself builds are always accepted, so \<open>Record\<close> never loses one.\<close>

lemma built_events_recorded:
  "\<not> isl (activity_append now (refresh_failed a b) d)"
  "\<not> isl (activity_append now (auto_action a b c) d)"
  "\<not> isl (activity_append now (schedule_run_event a b c d') d)"
  "\<not> isl (activity_append now (action_run a b) d)"
  "\<not> isl (activity_append now (action_failed a b) d)"
  "\<not> isl (activity_append now (flow_runtime_failed a b) d)"
  "\<not> isl (activity_append now (config_reloaded a n) d)"
  by (auto simp: activity_append_def Let_def parse_enum_def activity_categories_def activity_severities_def
      refresh_failed_def auto_action_def schedule_run_event_def action_run_def action_failed_def
      flow_runtime_failed_def config_reloaded_def plain_event_def)

end
