(* ===== verification/Dispatch.thy ===== *)
theory Dispatch
  imports Activity Actions
begin

text \<open>
  Executing an action (\<open>internal/app/dispatch\<close>): the action a command's id names, the data its
  templates see, the executors of every action type and the cooldown of notifications. Templates
  (\<open>tmpl\<close>), processes, session launchers, the message broker and the operating system's
  notifications are the host, a record of functions over a world that also carries the clock.
\<close>

section \<open>Data of one execution\<close>

record session_target =
  st_id :: string
  st_name :: string
  st_slug :: string
  st_repo :: string
  st_path :: string
  st_branch :: string

type_synonym json_members = "(string \<times> json) list"

record output_data =
  od_key :: string
  od_payload :: json_members
  od_raw :: bytes
  od_inputs :: "(string, string) amap"
  od_session :: "session_target option"
  od_window :: "string option"
  od_created :: int
  od_command :: int
  od_rerun :: bool
  od_origin :: item_ref

definition plain_data :: "string \<Rightarrow> json_members \<Rightarrow> bytes \<Rightarrow> (string, string) amap \<Rightarrow> output_data" where
  "plain_data key payload raw inputs =
     \<lparr>od_key = key, od_payload = payload, od_raw = raw, od_inputs = inputs, od_session = None, od_window = None,
      od_created = 0, od_command = 0, od_rerun = False, od_origin = no_ref\<rparr>"

record session_input =
  sn_name :: string
  sn_repository :: string
  sn_workspace :: string
  sn_agent :: string

record invocation_input =
  iv_session :: "session_input option"
  iv_inputs :: "(string, string) amap"
  iv_rerun :: bool

definition no_invocation :: invocation_input where
  "no_invocation = \<lparr>iv_session = None, iv_inputs = [], iv_rerun = False\<rparr>"

record exec_log =
  el_out :: string
  el_err :: string

record session_outcome =
  so_id :: string
  so_name :: string
  so_slug :: string
  so_path :: string

datatype exec_outcome = SessionOutcome session_outcome | MessageOutcome string string | ClipboardOutcome string

record exec_result =
  er_attempted :: bool
  er_outcome :: "exec_outcome option"
  er_log :: exec_log

definition no_log :: exec_log where
  "no_log = \<lparr>el_out = [], el_err = []\<rparr>"

definition no_result :: exec_result where
  "no_result = \<lparr>er_attempted = False, er_outcome = None, er_log = no_log\<rparr>"

section \<open>The host\<close>

record shell_command =
  sc_command :: string
  sc_dir :: string
  sc_env :: "(string, string) amap"
  sc_timeout :: int

record launch_request =
  lq_name :: string
  lq_prompt :: string
  lq_agent :: string
  lq_repo :: string
  lq_origins :: "item_ref list"

record workspace_request =
  wq_workspace :: string
  wq_name :: string
  wq_prompt :: string

record system_notification =
  sy_title :: string
  sy_body :: string
  sy_severity :: string
  sy_sound :: bool
  sy_in_app :: bool
  sy_profile :: string
  sy_item :: "int option"

record notification_policy =
  np_allowed :: bool
  np_sound :: bool
  np_in_app :: bool

text \<open>A run of a process yields the chunks it wrote to its two streams and the text of an error.\<close>

record 'w host =
  ho_now :: "'w \<Rightarrow> int" \<comment> \<open>nanoseconds\<close>
  ho_scan :: json_scanner
  ho_scan_error :: "bytes \<Rightarrow> string"
  ho_notify_command :: "bytes \<Rightarrow> (string, notify_command) result"
  ho_render :: "string \<Rightarrow> output_data \<Rightarrow> (string, string) result"
  ho_shell :: "shell_command \<Rightarrow> 'w \<Rightarrow> (string list \<times> string list \<times> string option) \<times> 'w"
  ho_hook_env :: bool
  ho_launch :: "(launch_request \<Rightarrow> 'w \<Rightarrow> (string, session_outcome) result \<times> 'w) option"
  ho_workspace :: "(workspace_request \<Rightarrow> 'w \<Rightarrow> (string, session_outcome) result \<times> 'w) option"
  ho_publish :: "(string \<Rightarrow> string \<Rightarrow> 'w \<Rightarrow> (string, string) result \<times> 'w) option"
  ho_notify :: "(system_notification \<Rightarrow> 'w \<Rightarrow> string option \<times> 'w) option"
  ho_gate :: "('w \<Rightarrow> notification_policy) option"
  ho_item :: "(notify_command \<Rightarrow> 'w \<Rightarrow> (string, int) result) option"

text \<open>The state an execution changes: the world and the notification cooldowns.\<close>

record 'w exec_state =
  xs_world :: 'w
  xs_quiet :: "(string, int) amap"

type_synonym 'w exec_return = "(exec_result \<times> string option) \<times> 'w exec_state"

definition refuse :: "string \<Rightarrow> 'w exec_state \<Rightarrow> 'w exec_return" where
  "refuse e s = ((no_result, Some e), s)"

definition decode_map :: "json_scanner \<Rightarrow> bytes \<Rightarrow> json_members option" where
  "decode_map J raw = (case J raw of Some (JObj ms) \<Rightarrow> Some ms | Some JNull \<Rightarrow> Some [] | _ \<Rightarrow> None)"

fun config_go_type :: "act_config option \<Rightarrow> string" where
  "config_go_type None = ''<nil>''"
| "config_go_type (Some (LaunchSession _)) = ''*actions.LaunchSessionConfig''"
| "config_go_type (Some (Shell _)) = ''*actions.ShellConfig''"
| "config_go_type (Some (PublishMessage _)) = ''*actions.PublishMessageConfig''"
| "config_go_type (Some (Clipboard _)) = ''*actions.ClipboardConfig''"
| "config_go_type (Some (NotifyAct _)) = ''*dispatch.NotifyActionConfig''"

definition wrong_config :: "string \<Rightarrow> action \<Rightarrow> string" where
  "wrong_config who a = who @ '' executor: action '' @ go_quote (ac_id a) @ '' has config type '' @ config_go_type (ac_config a)"

section \<open>Bounded output\<close>

record bounded_writer =
  bw_buf :: string
  bw_truncated :: bool

definition bw_write :: "string \<Rightarrow> bounded_writer \<Rightarrow> bounded_writer" where
  "bw_write p w =
     (if length (bw_buf w) < max_stream_bytes then
        (let remaining = max_stream_bytes - length (bw_buf w)
         in if remaining < length p
            then \<lparr>bw_buf = bw_buf w @ take remaining p, bw_truncated = True\<rparr>
            else w\<lparr>bw_buf := bw_buf w @ p\<rparr>)
      else if p \<noteq> [] then w\<lparr>bw_truncated := True\<rparr> else w)"

definition bw_string :: "bounded_writer \<Rightarrow> string" where
  "bw_string w =
     (if \<not> bw_truncated w then bw_buf w
      else take (max_stream_bytes - length stream_marker) (bw_buf w) @ stream_marker)"

definition capture :: "string list \<Rightarrow> string" where
  "capture chunks = bw_string (fold bw_write chunks \<lparr>bw_buf = [], bw_truncated = False\<rparr>)"

definition run_shell ::
  "'w host \<Rightarrow> shell_command \<Rightarrow> 'w exec_state \<Rightarrow> (exec_log \<times> string option) \<times> 'w exec_state" where
  "run_shell H c s =
     (case ho_shell H c (xs_world s) of
        ((outs, errs, e), w) \<Rightarrow> ((\<lparr>el_out = capture outs, el_err = capture errs\<rparr>, e), s\<lparr>xs_world := w\<rparr>))"

section \<open>Shell, message and clipboard actions\<close>

definition shell_working_dir :: "shell_config \<Rightarrow> output_data \<Rightarrow> string" where
  "shell_working_dir c data =
     (if sh_cwd c \<noteq> [] then sh_cwd c
      else case od_session data of Some t \<Rightarrow> st_path t | None \<Rightarrow> [])"

definition shell_execute :: "'w host \<Rightarrow> action \<Rightarrow> output_data \<Rightarrow> 'w exec_state \<Rightarrow> 'w exec_return" where
  "shell_execute H a data s =
     (case ac_config a of
        Some (Shell c) \<Rightarrow>
          (case ho_render H (sh_command c) data of
             Inl e \<Rightarrow> refuse (''shell: command_template: '' @ e) s
           | Inr text \<Rightarrow>
               if trim_space text = [] then refuse ''shell: command_template rendered blank'' s
               else (case run_shell H \<lparr>sc_command = trim_space text, sc_dir = shell_working_dir c data,
                        sc_env = sh_env c, sc_timeout = sh_timeout c\<rparr> s of
                       ((log, err), s') \<Rightarrow>
                         ((\<lparr>er_attempted = True, er_outcome = None, er_log = log\<rparr>,
                           map_option (\<lambda>e. ''shell: command failed: '' @ e) err), s')))
      | _ \<Rightarrow> refuse (wrong_config ''shell'' a) s)"

definition publish_execute :: "'w host \<Rightarrow> action \<Rightarrow> output_data \<Rightarrow> 'w exec_state \<Rightarrow> 'w exec_return" where
  "publish_execute H a data s =
     (case ac_config a of
        Some (PublishMessage c) \<Rightarrow>
          (case ho_publish H of
             None \<Rightarrow> refuse ''publish-message executor: no message publisher configured'' s
           | Some publish \<Rightarrow>
               (case ho_render H (pb_message c) data of
                  Inl e \<Rightarrow> refuse (''publish-message: message_template: '' @ e) s
                | Inr text \<Rightarrow>
                    if trim_space text = [] then refuse ''publish-message: message_template rendered blank payload'' s
                    else (case publish (trim_space text) (pb_topic c) (xs_world s) of
                            (Inl e, w) \<Rightarrow> ((no_result\<lparr>er_attempted := True\<rparr>, Some e), s\<lparr>xs_world := w\<rparr>)
                          | (Inr topic, w) \<Rightarrow>
                              if topic \<noteq> pb_topic c
                              then ((no_result\<lparr>er_attempted := True\<rparr>,
                                     Some (''publish-message: expected topic '' @ go_quote (pb_topic c) @ '', got '' @ go_quote topic)),
                                    s\<lparr>xs_world := w\<rparr>)
                              else ((no_result\<lparr>er_attempted := True, er_outcome := Some (MessageOutcome topic ''hive-desktop'')\<rparr>,
                                     None), s\<lparr>xs_world := w\<rparr>))))
      | _ \<Rightarrow> refuse (wrong_config ''publish-message'' a) s)"

definition render_clipboard :: "'w host \<Rightarrow> action \<Rightarrow> output_data \<Rightarrow> (string, string) result" where
  "render_clipboard H a data =
     (case ac_config a of
        Some (Clipboard template) \<Rightarrow>
          (case ho_render H template data of
             Inl e \<Rightarrow> Inl (''clipboard: text_template: '' @ e)
           | Inr text \<Rightarrow>
               if trim_space text = [] then Inl ''clipboard: text_template rendered blank'' else Inr (trim_space text))
      | _ \<Rightarrow> Inl (''clipboard: action '' @ go_quote (ac_id a) @ '' has config type '' @ config_go_type (ac_config a)))"

definition clipboard_text ::
  "'w host \<Rightarrow> action \<Rightarrow> string \<Rightarrow> bytes \<Rightarrow> (string, string) amap \<Rightarrow> (string, string) result" where
  "clipboard_text H a key raw inputs =
     (case decode_map (ho_scan H) raw of
        None \<Rightarrow> Inl (''clipboard: decode payload: '' @ ho_scan_error H raw)
      | Some ms \<Rightarrow> render_clipboard H a (plain_data key ms raw inputs))"

definition clipboard_execute :: "'w host \<Rightarrow> action \<Rightarrow> output_data \<Rightarrow> 'w exec_state \<Rightarrow> 'w exec_return" where
  "clipboard_execute H a data s =
     (case render_clipboard H a data of
        Inl e \<Rightarrow> refuse e s
      | Inr text \<Rightarrow> ((no_result\<lparr>er_attempted := True, er_outcome := Some (ClipboardOutcome text)\<rparr>, None), s))"

section \<open>Session launches\<close>

text \<open>\<open>session.Slugify\<close> and \<open>session.ValidateName\<close> of the hive core.\<close>

definition session_slugify :: "string \<Rightarrow> string" where
  "session_slugify name = trim_hyphens (replace_non_slug_runs (to_lower (trim_space name)))"

definition session_name_char :: "char \<Rightarrow> bool" where
  "session_name_char c \<longleftrightarrow> slug_alnum c \<or> (CHR ''A'' \<le> c \<and> c \<le> CHR ''Z'') \<or> c \<in> set '' _.:/-''"

definition session_name_error :: "string \<Rightarrow> string option" where
  "session_name_error name =
     (case trim_space name of
        [] \<Rightarrow> Some ''session name cannot be empty''
      | c # cs \<Rightarrow>
          if (slug_alnum c \<or> (CHR ''A'' \<le> c \<and> c \<le> CHR ''Z'')) \<and> List.list_all session_name_char cs then None
          else Some ''invalid session name: allowed characters are a-z, 0-9, spaces, and - _ : . /'')"

definition render_repo_target ::
  "'w host \<Rightarrow> action \<Rightarrow> string \<Rightarrow> bytes \<Rightarrow> (string, string) amap \<Rightarrow> (string, string) result" where
  "render_repo_target H a key raw inputs =
     (case ac_config a of
        Some (LaunchSession c) \<Rightarrow>
          if lc_repo c = [] then Inr []
          else (case decode_map (ho_scan H) raw of
                  None \<Rightarrow> Inl (''decode payload: '' @ ho_scan_error H raw)
                | Some ms \<Rightarrow> map_sum id trim_space (ho_render H (lc_repo c) (plain_data key ms raw inputs)))
      | _ \<Rightarrow> Inr [])"

definition default_hook_timeout :: int where
  "default_hook_timeout = 60 * 1000000000"

definition trim_newlines :: "string \<Rightarrow> string" where
  "trim_newlines s = rev (dropWhile (\<lambda>c. c = CHR 0x0A) (rev s))"

definition run_post_hook ::
  "'w host \<Rightarrow> launch_config \<Rightarrow> output_data \<Rightarrow> string \<Rightarrow> session_outcome \<Rightarrow> 'w exec_state \<Rightarrow> exec_log \<times> 'w exec_state" where
  "run_post_hook H c data repo outcome s =
     (let failed = (\<lambda>e. (\<lparr>el_out = [], el_err = ''post_hook: '' @ e\<rparr>, s))
      in if trim_space (lc_post_hook c) = [] then (no_log, s)
         else if \<not> ho_hook_env H then failed ''no execution environment configured''
         else if so_path outcome = [] then failed ''the launcher reported no checkout to run in''
         else
           (case ho_render H (lc_post_hook c) (data\<lparr>od_session := Some \<lparr>st_id = so_id outcome, st_name = so_name outcome,
                  st_slug = so_slug outcome, st_repo = repo, st_path = so_path outcome, st_branch = []\<rparr>\<rparr>) of
              Inl e \<Rightarrow> failed e
            | Inr text \<Rightarrow>
                if trim_space text = [] then failed ''rendered blank''
                else (case run_shell H \<lparr>sc_command = trim_space text, sc_dir = so_path outcome, sc_env = [],
                         sc_timeout = (if lc_post_timeout c = 0 then default_hook_timeout else lc_post_timeout c)\<rparr> s of
                        ((log, None), s') \<Rightarrow> (log, s')
                      | ((log, Some e), s') \<Rightarrow>
                          (log\<lparr>el_err := trim_newlines (''post_hook: '' @ e @ [CHR 0x0A] @ el_err log)\<rparr>, s'))))"

record launch_target =
  lt_repo :: string
  lt_workspace :: string
  lt_name :: string
  lt_agent :: string

text \<open>Where a launch goes: the configured target, or what the user chose when none is configured.\<close>

definition launch_target_of ::
  "launch_config \<Rightarrow> string \<Rightarrow> string \<Rightarrow> session_input option \<Rightarrow> (string, launch_target) result" where
  "launch_target_of c name repo input =
     (let workspace = trim_space (lc_workspace c)
      in if trim_space (lc_repo c) = [] \<and> workspace = [] then
           (case input of
              None \<Rightarrow> Inl ''launch-session: target and session name input are required''
            | Some i \<Rightarrow>
                let r = trim_space (sn_repository i); w = trim_space (sn_workspace i); n = trim_space (sn_name i)
                in if (r = []) = (w = []) then Inl ''launch-session: exactly one of repository or workspace is required''
                   else if n = [] then Inl ''launch-session: session name is required''
                   else case session_name_error n of
                          Some e \<Rightarrow> Inl (''launch-session: session name: '' @ e)
                        | None \<Rightarrow> Inr \<lparr>lt_repo = r, lt_workspace = w, lt_name = n,
                            lt_agent = (if r \<noteq> [] \<and> sn_agent i \<noteq> [] then sn_agent i else lc_agent c)\<rparr>)
         else if repo = [] \<and> workspace = [] then Inl ''launch-session: repo_template rendered blank''
         else Inr \<lparr>lt_repo = repo, lt_workspace = workspace, lt_name = name, lt_agent = lc_agent c\<rparr>)"

definition rerun_name :: "output_data \<Rightarrow> string \<Rightarrow> (string, string) result" where
  "rerun_name data name =
     (if \<not> od_rerun data then Inr name
      else let n = name @ ''-rerun-'' @ format_int (od_command data)
           in case session_name_error n of
                Some e \<Rightarrow> Inl (''launch-session: rerun session name: '' @ e) | None \<Rightarrow> Inr n)"

definition start_session ::
  "'w host \<Rightarrow> launch_target \<Rightarrow> string \<Rightarrow> string \<Rightarrow> output_data \<Rightarrow> 'w \<Rightarrow> (string, session_outcome) result \<times> 'w" where
  "start_session H t name prompt data w =
     (if lt_workspace t \<noteq> [] then
        (case ho_workspace H of
           None \<Rightarrow> (Inl ''launch-session executor: no workspace session launcher configured'', w)
         | Some f \<Rightarrow> f \<lparr>wq_workspace = lt_workspace t, wq_name = name, wq_prompt = prompt\<rparr> w)
      else
        (case ho_launch H of
           None \<Rightarrow> (Inl ''launch-session executor: no repository session launcher configured'', w)
         | Some f \<Rightarrow> f \<lparr>lq_name = name, lq_prompt = prompt, lq_agent = lt_agent t, lq_repo = lt_repo t,
             lq_origins = (if item_ref_known (od_origin data) then [od_origin data] else [])\<rparr> w))"

definition launch_execute ::
  "'w host \<Rightarrow> action \<Rightarrow> output_data \<Rightarrow> invocation_input \<Rightarrow> 'w exec_state \<Rightarrow> 'w exec_return" where
  "launch_execute H a data input s =
     (case ac_config a of
        Some (LaunchSession c) \<Rightarrow>
          (let plan = res_bind (map_sum (\<lambda>e. ''launch-session: prompt_template: '' @ e) trim_space (ho_render H (lc_prompt c) data)) (\<lambda>prompt.
                 if prompt = [] then Inl ''launch-session: prompt_template rendered blank''
                 else let name = session_slugify (ac_id a @ ''-'' @ od_key data)
                 in case session_name_error name of
                      Some e \<Rightarrow> Inl (''launch-session: derived session name: '' @ e)
                    | None \<Rightarrow>
                        res_bind (map_sum (\<lambda>e. ''launch-session: repo_template: '' @ e) id
                            (render_repo_target H a (od_key data) (od_raw data) (od_inputs data))) (\<lambda>repo.
                        res_bind (launch_target_of c name repo (iv_session input)) (\<lambda>t.
                          if lt_repo t \<noteq> [] \<and> lt_workspace t \<noteq> []
                          then Inl ''launch-session: repository and workspace targets are mutually exclusive''
                          else res_bind (rerun_name data (lt_name t)) (\<lambda>n. Inr (prompt, t, n)))))
           in case plan of
                Inl e \<Rightarrow> refuse e s
              | Inr (prompt, t, n) \<Rightarrow>
                  (case start_session H t n prompt data (xs_world s) of
                     (Inl e, w) \<Rightarrow> ((no_result\<lparr>er_attempted := True\<rparr>, Some e), s\<lparr>xs_world := w\<rparr>)
                   | (Inr outcome, w) \<Rightarrow>
                       (let s1 = s\<lparr>xs_world := w\<rparr>;
                            (log, s2) = (if lt_repo t \<noteq> [] then run_post_hook H c data (lt_repo t) outcome s1 else (no_log, s1))
                        in ((\<lparr>er_attempted = True, er_outcome = Some (SessionOutcome outcome), er_log = log\<rparr>, None), s2))))
      | _ \<Rightarrow> refuse (wrong_config ''launch-session'' a) s)"

section \<open>Notifications\<close>

definition notify_max_age :: int where
  "notify_max_age = 10 * 60 * 1000000000"

definition rendered_title_max :: nat where
  "rendered_title_max = 200"

definition rendered_body_max :: nat where
  "rendered_body_max = 1000"

text \<open>\<open>boundRendered\<close> cuts bytes; \<open>valid_utf8\<close> is \<open>strings.ToValidUTF8\<close> with nothing put in.\<close>

definition bound_rendered :: "(string \<Rightarrow> string) \<Rightarrow> string \<Rightarrow> nat \<Rightarrow> string" where
  "bound_rendered valid_utf8 s n = (if length s \<le> n then s else valid_utf8 (take n s) @ [CHR 0xE2, CHR 0x80, CHR 0xA6])"

definition cooldown_key :: "string \<Rightarrow> string \<Rightarrow> string" where
  "cooldown_key action external = action @ NUL @ external"

definition within_cooldown :: "string \<Rightarrow> string \<Rightarrow> int \<Rightarrow> (string, int) amap \<Rightarrow> bool" where
  "within_cooldown action external now quiet \<longleftrightarrow> external \<noteq> [] \<and>
     (case map_of quiet (cooldown_key action external) of None \<Rightarrow> False | Some t \<Rightarrow> now < t)"

definition record_fired :: "string \<Rightarrow> string \<Rightarrow> int \<Rightarrow> int \<Rightarrow> (string, int) amap \<Rightarrow> (string, int) amap" where
  "record_fired action external cooldown now quiet =
     (if external = [] then quiet
      else AList.update (cooldown_key action external) (now + cooldown) (filter (\<lambda>(_, t). now < t) quiet))"

definition click_item :: "'w host \<Rightarrow> notify_command \<Rightarrow> 'w \<Rightarrow> int option" where
  "click_item H cmd w =
     (case ho_item H of
        None \<Rightarrow> None
      | Some f \<Rightarrow> (case f cmd w of Inl _ \<Rightarrow> None | Inr i \<Rightarrow> if i \<noteq> 0 then Some i else None))"

definition stale_notification :: "int \<Rightarrow> output_data \<Rightarrow> bool" where
  "stale_notification now data \<longleftrightarrow> 0 < od_created data \<and> notify_max_age < now - od_created data * 1000000"

definition notify_texts ::
  "(string \<Rightarrow> string) \<Rightarrow> 'w host \<Rightarrow> notify_action_config \<Rightarrow> notify_command \<Rightarrow> output_data \<Rightarrow> (string, string \<times> string) result" where
  "notify_texts valid_utf8 H c cmd data =
     (let payload = (if nc_item cmd = [] then Some [] else decode_map (ho_scan H) (nc_item cmd))
      in case payload of
           None \<Rightarrow> Inl (''notify: decode item payload: '' @ ho_scan_error H (nc_item cmd))
         | Some ms \<Rightarrow>
             (let item = (plain_data (nc_external cmd) ms (nc_item cmd) [])
                    \<lparr>od_command := od_command data, od_created := od_created data, od_rerun := od_rerun data\<rparr>
              in res_bind (map_sum (\<lambda>e. ''notify: title: '' @ e) id (ho_render H (na_title c) item)) (\<lambda>t.
                 let title = bound_rendered valid_utf8 (trim_space t) rendered_title_max
                 in if title = [] then Inl ''notify: title rendered blank''
                    else res_bind (map_sum (\<lambda>e. ''notify: body: '' @ e) id (ho_render H (na_body c) item)) (\<lambda>b.
                      Inr (title, bound_rendered valid_utf8 (trim_space b) rendered_body_max)))))"

definition notify_execute ::
  "(string \<Rightarrow> string) \<Rightarrow> 'w host \<Rightarrow> action \<Rightarrow> output_data \<Rightarrow> 'w exec_state \<Rightarrow> 'w exec_return" where
  "notify_execute valid_utf8 H a data s =
     (case ac_config a of
        Some (NotifyAct c) \<Rightarrow>
          (case ho_notify H of
             None \<Rightarrow> refuse ''notify executor: no system notifier configured'' s
           | Some notify \<Rightarrow>
               (case ho_notify_command H (od_raw data) of
                  Inl e \<Rightarrow> refuse (''notify: decode command payload: '' @ e) s
                | Inr cmd \<Rightarrow>
                    (let w = xs_world s; now = ho_now H w;
                         policy = (case ho_gate H of None \<Rightarrow> \<lparr>np_allowed = True, np_sound = True, np_in_app = False\<rparr>
                                   | Some g \<Rightarrow> g w)
                     in if stale_notification now data \<or> \<not> np_allowed policy \<or>
                           (0 < na_cooldown c \<and> within_cooldown (ac_id a) (nc_external cmd) now (xs_quiet s))
                        then ((no_result, None), s)
                        else case notify_texts valid_utf8 H c cmd data of
                               Inl e \<Rightarrow> refuse e s
                             | Inr (title, body) \<Rightarrow>
                                 (case notify \<lparr>sy_title = title, sy_body = body, sy_severity = na_severity c,
                                      sy_sound = (na_sound c \<and> np_sound policy), sy_in_app = np_in_app policy,
                                      sy_profile = nc_profile cmd, sy_item = click_item H cmd w\<rparr> w of
                                    (Some e, w') \<Rightarrow> ((no_result\<lparr>er_attempted := True\<rparr>, Some (''notify: '' @ e)), s\<lparr>xs_world := w'\<rparr>)
                                  | (None, w') \<Rightarrow>
                                      ((no_result\<lparr>er_attempted := True\<rparr>, None),
                                       s\<lparr>xs_world := w', xs_quiet := (if 0 < na_cooldown c
                                          then record_fired (ac_id a) (nc_external cmd) (na_cooldown c) now (xs_quiet s)
                                          else xs_quiet s)\<rparr>)))))
      | _ \<Rightarrow> refuse (wrong_config ''notify'' a) s)"

section \<open>The dispatcher\<close>

definition dispatch_execute ::
  "(string \<Rightarrow> string) \<Rightarrow> 'w host \<Rightarrow> action \<Rightarrow> output_data \<Rightarrow> invocation_input \<Rightarrow> 'w exec_state \<Rightarrow> 'w exec_return" where
  "dispatch_execute valid_utf8 H a data input s =
     (if ac_type a = ''launch-session'' then launch_execute H a data input s
      else if ac_type a = ''shell'' then shell_execute H a data s
      else if ac_type a = ''publish-message'' then publish_execute H a data s
      else if ac_type a = ''clipboard'' then clipboard_execute H a data s
      else if ac_type a = ''notify'' then notify_execute valid_utf8 H a data s
      else refuse (''dispatcher: no executor registered for action type '' @ go_quote (ac_type a)) s)"

section \<open>Which action an id names\<close>

fun cut_slash :: "string \<Rightarrow> (string \<times> string) option" where
  "cut_slash [] = None"
| "cut_slash (c # cs) =
     (if c = CHR ''/'' then Some ([], cs) else map_option (\<lambda>(a, b). (c # a, b)) (cut_slash cs))"

definition notify_label :: "node \<Rightarrow> string" where
  "notify_label n = (if n_name n \<noteq> [] then n_name n else ''Notify '' @ n_id n)"

definition notify_action_of :: "string \<Rightarrow> node \<Rightarrow> action option" where
  "notify_action_of i n =
     (case n_config n of
        Some (NotifyConfig c) \<Rightarrow>
          Some \<lparr>ac_id = i, ac_label = notify_label n, ac_type = ''notify'', ac_targets = [], ac_applies = [],
            ac_show = False, ac_inputs = [], ac_config = Some (NotifyAct \<lparr>na_title = nt_title c, na_body = nt_body c,
              na_severity = severity_or_default c, na_sound = sound_or_default c, na_cooldown = cooldown_or_default c\<rparr>)\<rparr>
      | _ \<Rightarrow> None)"

text \<open>The loops return at the first node of that id in any flow of that id, whatever it is.\<close>

definition flow_notify_get :: "flow list option \<Rightarrow> (string \<Rightarrow> action option) option \<Rightarrow> string \<Rightarrow> action option" where
  "flow_notify_get flows catalog i =
     (case notify_action_target i of
        (target, False) \<Rightarrow> (case catalog of None \<Rightarrow> None | Some get \<Rightarrow> get i)
      | (target, True) \<Rightarrow>
          (case flows of
             None \<Rightarrow> None
           | Some fs \<Rightarrow>
               (case cut_slash target of
                  None \<Rightarrow> None
                | Some (flow_id, node_id) \<Rightarrow>
                    (case concat (map (\<lambda>f. if f_id f = flow_id then filter (\<lambda>n. n_id n = node_id) (f_nodes f) else []) fs) of
                       [] \<Rightarrow> None | n # _ \<Rightarrow> notify_action_of i n))))"


definition notify_act_validate :: "notify_action_config \<Rightarrow> (string, unit) result" where
  "notify_act_validate c =
     (if trim_space (na_title c) = [] then Inl ''notify: title is required'' else Inr ())"

section \<open>Which actions an item offers\<close>

text \<open>The text of a refused input, as callers see it.\<close>

fun resolve_error_text :: "resolve_error \<Rightarrow> string" where
  "resolve_error_text (UnknownInput i n) = ''action '' @ go_quote i @ '': unknown input '' @ go_quote n"
| "resolve_error_text (RequiredInput i l) = ''action '' @ go_quote i @ '': input '' @ go_quote l @ '' is required''"
| "resolve_error_text (NotAnOption i l v) =
     ''action '' @ go_quote i @ '': input '' @ go_quote l @ '': '' @ go_quote v @ '' is not one of its options''"

record action_item =
  ai_id :: string
  ai_kind :: string
  ai_payload :: bytes

definition default_item_kind :: string where
  "default_item_kind = ''Item''"

text \<open>\<open>encode\<close> writes an object back from its members.\<close>

definition decode_action_item ::
  "json_scanner \<Rightarrow> ((string \<times> json) list \<Rightarrow> bytes) \<Rightarrow> bytes \<Rightarrow> string \<Rightarrow> action_item" where
  "decode_action_item J encode payload external =
     (case canonical_fields J payload of (i, k, _) \<Rightarrow>
        (let kind = (if k = [] then default_item_kind else k)
         in case J payload of
              Some (JObj ms) \<Rightarrow>
                if i \<noteq> [] then \<lparr>ai_id = i, ai_kind = kind, ai_payload = payload\<rparr>
                else \<lparr>ai_id = external, ai_kind = kind,
                       ai_payload = encode (AList.update ''id'' (JStr external) (AList.updates (map fst ms) (map snd ms) []))\<rparr>
            | _ \<Rightarrow> \<lparr>ai_id = external, ai_kind = kind, ai_payload = payload\<rparr>))"

definition action_applicability ::
  "'w host \<Rightarrow> action \<Rightarrow> action_item \<Rightarrow> bool \<times> string" where
  "action_applicability H a item =
     (let about = ''action '' @ go_quote (ac_id a)
      in if \<not> applies_to a (ai_kind item)
         then (False, about @ '' does not apply to kind '' @ go_quote (ai_kind item))
         else case ac_config a of
                Some (LaunchSession c) \<Rightarrow>
                  if \<not> headless_capable a \<or> trim_space (lc_repo c) = [] then (True, [])
                  else (case resolve_inputs a [] of
                          Inl e \<Rightarrow> (False, about @ '': inputs: '' @ resolve_error_text e)
                        | Inr inputs \<Rightarrow>
                            (case render_repo_target H a (ai_id item) (ai_payload item) inputs of
                               Inl e \<Rightarrow> (False, about @ '': repo_template: '' @ e)
                             | Inr repo \<Rightarrow>
                                 if repo = [] then (False, about @ '': repo_template rendered blank'') else (True, [])))
              | _ \<Rightarrow> (True, []))"

end
