(* ===== verification/Dispatch_Laws.thy ===== *)
theory Dispatch_Laws
  imports Dispatch
begin

text \<open>
  What the executors guarantee: the bounded writer agrees with bounding the whole output, a session
  name derived from an action and a key is always one the launcher accepts, and a notification that
  was delivered keeps every later one of its action and item silent until its cooldown is over.
\<close>

section \<open>Bounded output\<close>

lemma writes_buffer:
  "fold bw_write chunks \<lparr>bw_buf = [], bw_truncated = False\<rparr> =
   \<lparr>bw_buf = take max_stream_bytes (concat chunks), bw_truncated = (max_stream_bytes < length (concat chunks))\<rparr>"
proof (induction chunks rule: rev_induct)
  case (snoc p chunks)
  let ?b = "concat chunks"
  show ?case
  proof (cases "length ?b < max_stream_bytes")
    case True
    then show ?thesis using snoc by (auto simp: bw_write_def Let_def min_def)
  next
    case False
    then show ?thesis using snoc by (cases p) (auto simp: bw_write_def Let_def min_def)
  qed
qed simp

text \<open>
  Streaming a process's output through the bounded writer stores exactly what bounding
  the whole of it would: however the writes are cut, the result depends only on their
  concatenation, nothing is lost up to the limit, and beyond it the stored text is the limit's
  length with the truncation marker at its end.
\<close>

theorem capture_bounds:
  "capture chunks = bound_stream (concat chunks) \<and> length (capture chunks) \<le> max_stream_bytes \<and>
   (length (concat chunks) \<le> max_stream_bytes \<longleftrightarrow> capture chunks = concat chunks)"
proof -
  have m: "length stream_marker = 16" "max_stream_bytes = 65536"
    by (simp_all add: stream_marker_def max_stream_bytes_def)
  have eq: "capture chunks = bound_stream (concat chunks)"
    unfolding capture_def writes_buffer bw_string_def bound_stream_def
    by (auto simp: m min_def)
  moreover have len: "length (bound_stream s) \<le> max_stream_bytes" for s
    by (simp add: bound_stream_def m)
  moreover have "length (concat chunks) \<le> max_stream_bytes \<longleftrightarrow> bound_stream (concat chunks) = concat chunks"
    using len [of "concat chunks"] by (auto simp: bound_stream_def)
  ultimately show ?thesis by simp
qed

section \<open>Session names\<close>

lemma slug_session_char: "slug_alnum c \<or> c = CHR ''-'' \<Longrightarrow> session_name_char c"
  by (auto simp: session_name_char_def)

lemma slug_no_space: "slug_alnum c \<or> c = CHR ''-'' \<Longrightarrow> \<not> is_space c"
  by (auto simp: slug_alnum_def is_space_def)

lemma trim_space_id: "(\<And>c. c \<in> set s \<Longrightarrow> \<not> is_space c) \<Longrightarrow> trim_space s = s"
proof -
  assume a: "\<And>c. c \<in> set s \<Longrightarrow> \<not> is_space c"
  have d: "dropWhile is_space t = t" if "\<And>c. c \<in> set t \<Longrightarrow> \<not> is_space c" for t
    using that by (cases t) auto
  show ?thesis unfolding trim_space_def trim_by_def using a d [of s] d [of "rev s"] by simp
qed

lemma slugified_name:
  assumes "session_slugify name \<noteq> []"
  shows "session_name_error (session_slugify name) = None"
proof -
  let ?s = "replace_non_slug_runs (to_lower (trim_space name))"
  have ok: "\<forall>c\<in>set (session_slugify name). slug_alnum c \<or> c = CHR ''-''"
    using set_trim_by [of _ ?s] set_replace_non_slug_runs [of _ "to_lower (trim_space name)"]
    by (auto simp: session_slugify_def trim_hyphens_def)
  obtain c cs where s: "session_slugify name = c # cs" using assms by (cases "session_slugify name") auto
  have "c \<noteq> CHR ''-''"
    using trim_by_ends(1) [of "\<lambda>c. c = CHR ''-''" ?s] assms s by (simp add: session_slugify_def trim_hyphens_def)
  then have c: "slug_alnum c" using ok s by auto
  have "trim_space (c # cs) = c # cs" by (rule trim_space_id) (use ok s slug_no_space in auto)
  moreover have "List.list_all session_name_char cs"
    using ok s slug_session_char by (auto simp: list_all_iff)
  ultimately show ?thesis using c s by (simp add: session_name_error_def)
qed


lemma slug_alnum_stays:
  assumes "c \<in> set s" and "slug_alnum c"
  shows "c \<in> set (session_slugify s)"
proof -
  have runs: "c \<in> set (replace_non_slug_runs t)" if "c \<in> set t" for t
    using that
  proof (induction t rule: replace_non_slug_runs.induct)
    case (2 d ds)
    have "c \<in> set ds \<Longrightarrow> c \<in> set (dropWhile (\<lambda>d. \<not> slug_alnum d) ds)"
      using assms(2) by (induction ds) auto
    then show ?case using 2 assms(2) by auto
  qed simp
  have trim: "c \<in> set (trim_by P t)" if "c \<in> set t" "\<not> P c" for P t
  proof -
    have drop: "c \<in> set (dropWhile P u)" if "c \<in> set u" for u
      using that \<open>\<not> P c\<close> by (induction u) auto
    show ?thesis unfolding trim_by_def using drop [of "rev (dropWhile P t)"] drop [of t] that by simp
  qed
  have "\<not> (CHR ''A'' \<le> c \<and> c \<le> CHR ''Z'')"
    using assms(2) order_trans [of "CHR ''a''" c "CHR ''Z''"] order_trans [of "CHR ''A''" c "CHR ''9''"]
    by (auto simp: slug_alnum_def)
  then have "to_lower_char c = c" by (auto simp: to_lower_char_def)
  moreover have "c \<in> set (trim_space s)"
    using assms trim [of s is_space] slug_no_space by (simp add: trim_space_def)
  ultimately have "c \<in> set (to_lower (trim_space s))" by (force simp: to_lower_def)
  moreover have "c \<noteq> CHR ''-''" using assms(2) by (auto simp: slug_alnum_def)
  ultimately show ?thesis using runs trim by (simp add: session_slugify_def trim_hyphens_def)
qed

lemma derived_name_valid:
  assumes "valid_slug i"
  shows "session_name_error (session_slugify (i @ ''-'' @ key)) = None"
proof -
  obtain c cs where "i = c # cs" "slug_alnum c"
    using assms by (cases i) (auto simp: valid_slug_def slug_pattern_def)
  then have "c \<in> set (session_slugify (i @ ''-'' @ key))" by (intro slug_alnum_stays) simp_all
  then show ?thesis by (intro slugified_name) auto
qed

lemma format_int_chars: "c \<in> set (format_int n) \<Longrightarrow> c = CHR ''-'' \<or> (\<exists>d<10. c = digit_char d)"
proof -
  have nat: "c \<in> set (format_nat k) \<Longrightarrow> \<exists>d<10. c = digit_char d" for k
  proof (induction k rule: format_nat.induct)
    case (1 n)
    show ?case
    proof (cases "c = digit_char (n mod 10)")
      case True
      then show ?thesis by (intro exI [of _ "n mod 10"]) simp
    next
      case False
      then have "\<not> n < 10" "c \<in> set (format_nat (n div 10))"
        using 1(2) by (auto simp: format_nat.simps [of n] split: if_splits)
      then show ?thesis by (rule 1(1))
    qed
  qed
  show "c \<in> set (format_int n) \<Longrightarrow> ?thesis" using nat by (auto simp: format_int_def split: if_splits)
qed

lemma digit_session_char:
  assumes "d < 10"
  shows "session_name_char (digit_char d)" and "\<not> is_space (digit_char d)"
proof -
  have n: "of_char (digit_char d) = 48 + d" using assms by (simp add: digit_char_def)
  then show "session_name_char (digit_char d)"
    using assms by (simp add: session_name_char_def slug_alnum_def less_eq_char_def)
  have "of_char c \<le> (32 :: nat)" if "is_space c" for c using that by (auto simp: is_space_def)
  then show "\<not> is_space (digit_char d)" using n by fastforce
qed

lemma trim_space_ends:
  assumes "s \<noteq> []" and "\<not> is_space (hd s)" and "\<not> is_space (last s)"
  shows "trim_space s = s"
proof -
  have d: "dropWhile is_space t = t" if "t \<noteq> []" "\<not> is_space (hd t)" for t using that by (cases t) auto
  show ?thesis unfolding trim_space_def trim_by_def using d [of s] d [of "rev s"] assms by (simp add: hd_rev)
qed

text \<open>A valid name already trimmed stays valid with a rerun's suffix.\<close>

lemma rerun_name_valid:
  assumes "session_name_error name = None" and "trim_space name = name"
  shows "\<exists>n. rerun_name data name = Inr n \<and> session_name_error n = None"
proof (cases "od_rerun data")
  case True
  let ?n = "name @ ''-rerun-'' @ format_int (od_command data)"
  obtain c cs where n: "name = c # cs" "slug_alnum c \<or> (CHR ''A'' \<le> c \<and> c \<le> CHR ''Z'')"
    "List.list_all session_name_char cs"
    using assms by (auto simp: session_name_error_def split: list.splits if_splits)
  let ?f = "format_int (od_command data)"
  have dash: "\<forall>x\<in>set ''-rerun-''. session_name_char x \<and> \<not> is_space x"
    by (simp add: session_name_char_def slug_alnum_def is_space_def)
  have num: "session_name_char x \<and> \<not> is_space x" if "x \<in> set ?f" for x
    using format_int_chars [OF that] digit_session_char dash by auto
  have suffix: "session_name_char x \<and> \<not> is_space x" if "x \<in> set (''-rerun-'' @ ?f)" for x
    using that dash num unfolding set_append by blast
  have "\<not> is_space (hd ?n)" using n(2) by (auto simp: n(1) slug_alnum_def is_space_def)
  moreover have "last ?n = last (''-rerun-'' @ ?f)" by simp
  then have "\<not> is_space (last ?n)"
    using suffix [of "last (''-rerun-'' @ ?f)"] last_in_set [of "''-rerun-'' @ ?f"] by simp
  ultimately have "trim_space ?n = c # cs @ ''-rerun-'' @ ?f" using n(1) by (simp add: trim_space_ends)
  moreover have "List.list_all session_name_char (cs @ ''-rerun-'' @ ?f)"
    using n(3) suffix unfolding list_all_iff set_append by blast
  ultimately have "session_name_error ?n = None"
    using n(2) by (simp add: session_name_error_def del: list_all_append append.simps)
  then show ?thesis using True by (simp add: rerun_name_def Let_def)
qed (use assms in \<open>simp add: rerun_name_def\<close>)

lemma trim_space_idem: "trim_space (trim_space s) = trim_space s"
  using trim_by_ends [of is_space s] trim_space_ends [of "trim_space s"]
  by (cases "trim_space s = []") (simp_all add: trim_space_def trim_by_def [of is_space "[]"])

text \<open>
  A launch is never refused for its name. For an action whose id the catalogue accepts,
  the name derived from the id and the command's key satisfies the launcher's rules whatever the
  key is; so does the name the target ends up with, and the one a rerun makes of it.
\<close>

theorem launch_names_valid:
  assumes "valid_slug i" and "name = session_slugify (i @ ''-'' @ key)"
    and "launch_target_of c name repo input = Inr t"
  shows "session_name_error name = None \<and> session_name_error (lt_name t) = None \<and>
    (\<exists>n. rerun_name data (lt_name t) = Inr n \<and> session_name_error n = None)"
proof -
  have d: "session_name_error name = None" using derived_name_valid [OF assms(1)] assms(2) by simp
  have "\<And>c. c \<in> set name \<Longrightarrow> slug_alnum c \<or> c = CHR ''-''"
    using set_trim_by set_replace_non_slug_runs unfolding assms(2) session_slugify_def trim_hyphens_def by blast
  then have tn: "trim_space name = name" by (intro trim_space_id) (use slug_no_space in blast)
  have "session_name_error (lt_name t) = None \<and> trim_space (lt_name t) = lt_name t"
    using assms(3) d tn
    by (auto simp: launch_target_of_def Let_def trim_space_idem split: if_splits option.splits)
  then show ?thesis using rerun_name_valid d by simp
qed


section \<open>Notification cooldowns\<close>

lemma run_shell_quiet: "run_shell H c s = (out, s') \<Longrightarrow> xs_quiet s' = xs_quiet s"
  by (auto simp: run_shell_def split: prod.splits)

lemma run_post_hook_quiet: "run_post_hook H c data repo outcome s = (log, s') \<Longrightarrow> xs_quiet s' = xs_quiet s"
  by (auto simp: run_post_hook_def Let_def dest!: run_shell_quiet
      split: if_splits sum.splits prod.splits option.splits)

lemma other_executors_quiet:
  "shell_execute H a data s = (out, s') \<Longrightarrow> xs_quiet s' = xs_quiet s"
  "publish_execute H a data s = (out, s') \<Longrightarrow> xs_quiet s' = xs_quiet s"
  "clipboard_execute H a data s = (out, s') \<Longrightarrow> xs_quiet s' = xs_quiet s"
  "launch_execute H a data input s = (out, s') \<Longrightarrow> xs_quiet s' = xs_quiet s"
  by (auto simp: shell_execute_def publish_execute_def clipboard_execute_def launch_execute_def refuse_def Let_def
      dest!: run_shell_quiet run_post_hook_quiet
      split: option.splits act_config.splits sum.splits prod.splits if_splits)

text \<open>Some entry silences a key until a time.\<close>

definition silenced :: "string \<Rightarrow> int \<Rightarrow> 'w exec_state \<Rightarrow> bool" where
  "silenced key t s \<longleftrightarrow> (\<exists>u. map_of (xs_quiet s) key = Some u \<and> t \<le> u)"

lemma cooldown_key_inj:
  assumes "CHR 0x00 \<notin> set a" and "CHR 0x00 \<notin> set b" and "cooldown_key a x = cooldown_key b y"
  shows "a = b \<and> x = y"
proof -
  have cut: "takeWhile (\<lambda>c. c \<noteq> CHR 0x00) (cooldown_key a x) = a" if "CHR 0x00 \<notin> set a" for a x
    using that by (auto simp: cooldown_key_def NUL_def takeWhile_append)
  then have "a = b" using assms by metis
  then show ?thesis using assms(3) by (simp add: cooldown_key_def)
qed

lemma map_of_filter_live: "map_of m k = Some u \<Longrightarrow> now < u \<Longrightarrow> map_of (filter (\<lambda>(_, t). now < t) m) k = Some (u :: int)"
  by (induction m) (auto split: if_splits)

lemma record_fired_keeps:
  assumes "map_of q key = Some u" and "now < u" and "cooldown_key a x \<noteq> key"
  shows "map_of (record_fired a x c now q) key = Some u"
  using assms map_of_filter_live [OF assms(1,2)] by (simp add: record_fired_def update_conv)

lemma notify_cases:
  assumes "notify_execute vu H a data s = ((res, err), s')"
  shows "xs_quiet s' = xs_quiet s \<and> \<not> (er_attempted res \<and> err = None) \<or>
    (\<exists>c cmd. ac_config a = Some (NotifyAct c) \<and> ho_notify_command H (od_raw data) = Inr cmd \<and>
       \<not> (0 < na_cooldown c \<and> within_cooldown (ac_id a) (nc_external cmd) (ho_now H (xs_world s)) (xs_quiet s)) \<and>
       xs_quiet s' = (if 0 < na_cooldown c
         then record_fired (ac_id a) (nc_external cmd) (na_cooldown c) (ho_now H (xs_world s)) (xs_quiet s)
         else xs_quiet s))"
  using assms
  by (auto simp: notify_execute_def refuse_def Let_def no_result_def
      split: option.splits act_config.splits sum.splits prod.splits if_splits)

lemma notify_keeps_silence:
  assumes "notify_execute vu H a data s = ((res, err), s')" and "silenced (cooldown_key i x) t s"
    and "ho_now H (xs_world s) < t" and "CHR 0x00 \<notin> set (ac_id a)" and "CHR 0x00 \<notin> set i"
  shows "silenced (cooldown_key i x) t s'"
  using notify_cases [OF assms(1)]
proof (elim disjE exE conjE)
  assume "xs_quiet s' = xs_quiet s"
  then show ?thesis using assms(2) by (simp add: silenced_def)
next
  fix c cmd
  assume awake: "\<not> (0 < na_cooldown c \<and> within_cooldown (ac_id a) (nc_external cmd) (ho_now H (xs_world s)) (xs_quiet s))"
    and q: "xs_quiet s' = (if 0 < na_cooldown c
       then record_fired (ac_id a) (nc_external cmd) (na_cooldown c) (ho_now H (xs_world s)) (xs_quiet s)
       else xs_quiet s)"
  obtain u where u: "map_of (xs_quiet s) (cooldown_key i x) = Some u" "t \<le> u" using assms(2) by (auto simp: silenced_def)
  show ?thesis
  proof (cases "cooldown_key (ac_id a) (nc_external cmd) = cooldown_key i x \<and> 0 < na_cooldown c \<and> nc_external cmd \<noteq> []")
    case True
    then have "within_cooldown (ac_id a) (nc_external cmd) (ho_now H (xs_world s)) (xs_quiet s)"
      using u assms(3) by (simp add: within_cooldown_def)
    then show ?thesis using awake True by simp
  next
    case False
    then consider "xs_quiet s' = xs_quiet s"
      | "cooldown_key (ac_id a) (nc_external cmd) \<noteq> cooldown_key i x"
        "xs_quiet s' = record_fired (ac_id a) (nc_external cmd) (na_cooldown c) (ho_now H (xs_world s)) (xs_quiet s)"
      using q by (cases "0 < na_cooldown c"; cases "nc_external cmd = []") (auto simp: record_fired_def)
    then show ?thesis
    proof cases
      case 2
      have "ho_now H (xs_world s) < u" using u(2) assms(3) by simp
      from record_fired_keeps [OF u(1) this 2(1)] show ?thesis using u(2) by (simp add: silenced_def 2(2))
    qed (use assms(2) in \<open>simp add: silenced_def\<close>)
  qed
qed

text \<open>What may happen in a window: actions run by hosts whose clock is inside it, and the world moving on.\<close>

inductive within_window :: "int \<Rightarrow> 'w exec_state \<Rightarrow> 'w exec_state \<Rightarrow> bool" for t where
  Acts: "dispatch_execute vu H a data input s = (out, s') \<Longrightarrow> ho_now H (xs_world s) < t \<Longrightarrow>
    CHR 0x00 \<notin> set (ac_id a) \<Longrightarrow> within_window t s s'"
| Passes: "within_window t s (s\<lparr>xs_world := w\<rparr>)"

lemma window_keeps_silence:
  assumes "within_window t s s'" and "silenced (cooldown_key i x) t s" and "CHR 0x00 \<notin> set i"
  shows "silenced (cooldown_key i x) t s'"
  using assms(1)
proof cases
  case (Acts vu H a data input out)
  obtain res err where out: "out = (res, err)" by fastforce
  show ?thesis
  proof (cases "ac_type a = ''notify''")
    case True
    then have "notify_execute vu H a data s = ((res, err), s')" using Acts(1) out by (simp add: dispatch_execute_def)
    then show ?thesis by (rule notify_keeps_silence) (use assms Acts in simp_all)
  next
    case False
    then have "xs_quiet s' = xs_quiet s"
      using Acts(1) other_executors_quiet(1) [of H a data s out s'] other_executors_quiet(2) [of H a data s out s']
        other_executors_quiet(3) [of H a data s out s'] other_executors_quiet(4) [of H a data input s out s']
      by (simp add: dispatch_execute_def refuse_def split: if_splits)
    then show ?thesis using assms(2) by (simp add: silenced_def)
  qed
qed (use assms(2) in \<open>simp add: silenced_def\<close>)

text \<open>
  Claim C23: A notification's cooldown holds. Once a notify action has delivered a notification for
  an item, then whatever actions are executed and whatever else happens before its cooldown has
  passed, executing that action again for that item does nothing: it succeeds, reports that
  nothing was attempted, and leaves the world and the cooldowns as they are.
\<close>

theorem notify_cooldown:
  assumes "dispatch_execute vu H a data input s0 = ((res, None), s1)" and "er_attempted res"
    and "ac_type a = ''notify''" and "ac_config a = Some (NotifyAct c)" and "0 < na_cooldown c"
    and "ho_notify_command H (od_raw data) = Inr cmd" and "nc_external cmd \<noteq> []"
    and "CHR 0x00 \<notin> set (ac_id a)"
    and "(within_window (ho_now H (xs_world s0) + na_cooldown c))\<^sup>*\<^sup>* s1 s2"
    and "ho_now H' (xs_world s2) < ho_now H (xs_world s0) + na_cooldown c"
    and "ac_id a' = ac_id a" and "ac_type a' = ''notify''"
    and "ac_config a' = Some (NotifyAct c')" and "0 < na_cooldown c'" and "ho_notify H' \<noteq> None"
    and "ho_notify_command H' (od_raw data') = Inr cmd'" and "nc_external cmd' = nc_external cmd"
  shows "dispatch_execute vu' H' a' data' input' s2 = ((no_result, None), s2)"
proof -
  let ?t = "ho_now H (xs_world s0) + na_cooldown c" and ?k = "cooldown_key (ac_id a) (nc_external cmd)"
  have "notify_execute vu H a data s0 = ((res, None), s1)" using assms(1,3) by (simp add: dispatch_execute_def)
  from notify_cases [OF this] have "xs_quiet s1 =
      record_fired (ac_id a) (nc_external cmd) (na_cooldown c) (ho_now H (xs_world s0)) (xs_quiet s0)"
    using assms(2,4,5,6) by auto
  then have start: "silenced ?k ?t s1" using assms(7) by (simp add: silenced_def record_fired_def update_conv)
  have "silenced ?k ?t s2"
    using assms(9)
    by (induction rule: rtranclp_induct) (use start assms(8) window_keeps_silence in blast)+
  then have "within_cooldown (ac_id a') (nc_external cmd') (ho_now H' (xs_world s2)) (xs_quiet s2)"
    using assms(7,10,11,17) by (auto simp: silenced_def within_cooldown_def)
  then show ?thesis
    using assms(12-16) by (auto simp: dispatch_execute_def notify_execute_def Let_def)
qed

end
