(* ===== verification/Session_Draft.thy ===== *)
theory Session_Draft
  imports Dispatch
begin

text \<open>
  New Session forms (\<open>dispatch/session_draft.go\<close>): the draft built from inbox items, and the failed
  form an activity row keeps so that it can be handed back. The prompt's rendering, the host of a
  URL and the name of a selection are parameters.
\<close>

section \<open>Drafts\<close>

record session_failure =
  sf_reason :: string
  sf_step :: string
  sf_output :: string
  sf_strategy :: string
  sf_destination :: string
  sf_leftover :: bool
  sf_at :: "int option" \<comment> \<open>\<open>None\<close> is the zero time\<close>

record session_draft =
  dr_repository :: string
  dr_workspace :: string
  dr_name :: string
  dr_prompt :: string
  dr_agent :: string
  dr_items :: "int list"
  dr_failure :: "session_failure option"

section \<open>The persisted form\<close>

definition meta_get :: "string \<Rightarrow> (string, string) amap \<Rightarrow> string" where
  "meta_get k m = (case map_of m k of None \<Rightarrow> [] | Some v \<Rightarrow> v)"

definition draft_metadata :: "session_draft \<Rightarrow> (string, string) amap" where
  "draft_metadata d =
     (let m = [(''retry'', ''session-create''), (''repository'', dr_repository d), (''workspace'', dr_workspace d),
               (''name'', dr_name d), (''prompt'', dr_prompt d), (''agent'', dr_agent d)];
          m = (if dr_items d = [] then m
               else AList.update ''itemIds'' (join '','' (map format_int (dr_items d))) m)
      in case dr_failure d of
           None \<Rightarrow> m
         | Some f \<Rightarrow>
             let m = AList.update ''reason'' (sf_reason f) (AList.update ''step'' (sf_step f) m)
             in if sf_leftover f then AList.update ''leftover'' (sf_destination f) m else m)"

fun split_commas :: "string \<Rightarrow> string list" where
  "split_commas [] = [[]]"
| "split_commas (c # cs) =
     (if c = CHR '','' then [] # split_commas cs
      else case split_commas cs of [] \<Rightarrow> [[c]] | p # ps \<Rightarrow> (c # p) # ps)"

definition positive_id :: "string \<Rightarrow> int option" where
  "positive_id s = (case parse_int64 s of None \<Rightarrow> None | Some n \<Rightarrow> if 0 < n then Some n else None)"

definition draft_from_metadata :: "(string, string) amap \<Rightarrow> session_draft option" where
  "draft_from_metadata m =
     (if meta_get ''retry'' m \<noteq> ''session-create'' then None
      else if (meta_get ''repository'' m = []) = (meta_get ''workspace'' m = []) then None
      else
        let items = List.map_filter positive_id (split_commas (meta_get ''itemIds'' m));
            items = (if items \<noteq> [] then items
                     else case positive_id (meta_get ''itemId'' m) of None \<Rightarrow> [] | Some n \<Rightarrow> [n])
        in Some \<lparr>dr_repository = meta_get ''repository'' m, dr_workspace = meta_get ''workspace'' m,
             dr_name = meta_get ''name'' m, dr_prompt = meta_get ''prompt'' m, dr_agent = meta_get ''agent'' m,
             dr_items = items,
             dr_failure =
               (if meta_get ''reason'' m \<noteq> [] \<or> meta_get ''step'' m \<noteq> [] then
                  Some \<lparr>sf_reason = meta_get ''reason'' m, sf_step = meta_get ''step'' m, sf_output = [],
                    sf_strategy = [], sf_destination = meta_get ''leftover'' m,
                    sf_leftover = (meta_get ''leftover'' m \<noteq> []), sf_at = None\<rparr>
                else None)\<rparr>)"

section \<open>Drafting from inbox items\<close>

record prompt_data =
  pd_title :: string
  pd_kind :: string
  pd_repo :: string
  pd_num :: int
  pd_author :: string
  pd_body :: string
  pd_url :: string
  pd_labels :: "string list"
  pd_state :: string

record draft_item =
  di_title :: string
  di_url :: string
  di_payload :: bytes

definition session_prompt_data :: "json_scanner \<Rightarrow> draft_item \<Rightarrow> prompt_data" where
  "session_prompt_data J i =
     (let data = \<lparr>pd_title = trim_space (di_title i), pd_kind = [], pd_repo = [], pd_num = 0, pd_author = [],
                  pd_body = [], pd_url = di_url i, pd_labels = [], pd_state = []\<rparr>
      in case J (di_payload i) of
           Some (JObj ms) \<Rightarrow>
             (let text = (\<lambda>k. case raw_field ms k of None \<Rightarrow> [] | Some v \<Rightarrow> set_str v [])
              in data\<lparr>pd_kind := text ''kind'', pd_repo := text ''repo'', pd_author := text ''author'',
                   pd_body := text ''body'', pd_state := text ''state'',
                   pd_url := (if text ''url'' \<noteq> [] then text ''url'' else di_url i),
                   pd_num := (case raw_field ms ''num'' of None \<Rightarrow> 0 | Some v \<Rightarrow> set_int64 v 0),
                   pd_labels := (case raw_field ms ''labels'' of None \<Rightarrow> [] | Some v \<Rightarrow> set_strs v [])\<rparr>)
         | _ \<Rightarrow> data)"

definition draft_repository :: "(string \<Rightarrow> string option) \<Rightarrow> string \<Rightarrow> string \<Rightarrow> string" where
  "draft_repository hostname repo url =
     (let repo = trim_space repo
      in if repo = [] \<or> contains_str ''://'' repo \<or> contains_str ''@'' repo then repo
         else if count_list repo (CHR ''/'') \<noteq> 1 then []
         else case hostname url of
                None \<Rightarrow> []
              | Some h \<Rightarrow> if h = [] then [] else ''https://'' @ h @ ''/'' @ repo @ ''.git'')"

record drafter =
  df_scan :: json_scanner
  df_render :: "prompt_data \<Rightarrow> (string, string) result"
  df_host :: "string \<Rightarrow> string option"
  df_uuid :: string

definition newlines2 :: string where
  "newlines2 = [CHR 0x0A, CHR 0x0A]"

definition draft_prompt :: "drafter \<Rightarrow> bool \<Rightarrow> nat \<times> draft_item \<Rightarrow> (string, string) result" where
  "draft_prompt D many ni =
     map_sum (\<lambda>e. ''render session prompt: '' @ e)
       (\<lambda>p. if many then ''## Item '' @ format_nat (fst ni + 1) @ newlines2 @ trim_space p else trim_space p)
       (df_render D (session_prompt_data (df_scan D) (snd ni)))"

definition candidate_repository :: "drafter \<Rightarrow> draft_item \<Rightarrow> string" where
  "candidate_repository D i =
     (let data = session_prompt_data (df_scan D) i in draft_repository (df_host D) (pd_repo data) (pd_url data))"

definition merge_repository :: "drafter \<Rightarrow> draft_item \<Rightarrow> string option \<Rightarrow> string option" where
  "merge_repository D i acc =
     (let c = candidate_repository D i
      in case acc of None \<Rightarrow> Some c | Some r \<Rightarrow> if c \<noteq> r then Some [] else Some r)"

definition render_draft_items :: "drafter \<Rightarrow> draft_item list \<Rightarrow> (string, session_draft) result" where
  "render_draft_items D items =
     (if items = [] then Inl ''render session prompt: no items''
      else
        res_bind (res_fold (\<lambda>ni ps. map_sum id (\<lambda>p. ps @ [p]) (draft_prompt D (1 < length items) ni))
            (enumerate 0 items) []) (\<lambda>prompts.
          Inr \<lparr>dr_repository = (case fold (merge_repository D) items None of None \<Rightarrow> [] | Some r \<Rightarrow> r),
               dr_workspace = [],
               dr_name = (if 1 < length items then ''inbox-selection-'' @ take 8 (df_uuid D)
                          else session_slugify (di_title (hd items))),
               dr_prompt = join newlines2 prompts, dr_agent = [], dr_items = [], dr_failure = None\<rparr>))"

definition render_session_draft :: "drafter \<Rightarrow> draft_item \<Rightarrow> (string, session_draft) result" where
  "render_session_draft D i = render_draft_items D [i]"

section \<open>Facts\<close>

lemma split_commas_free: "CHR '','' \<notin> set s \<Longrightarrow> split_commas s = [s]"
  by (induction s) auto

lemma split_commas_append: "CHR '','' \<notin> set s \<Longrightarrow> split_commas (s @ CHR '','' # r) = s # split_commas r"
  by (induction s) auto

lemma split_join_commas:
  "xs \<noteq> [] \<Longrightarrow> \<forall>x\<in>set xs. CHR '','' \<notin> set x \<Longrightarrow> split_commas (join '','' xs) = xs"
  by (induction "'',''" xs rule: join.induct) (simp_all add: split_commas_free split_commas_append)

lemma meta_get_update [simp]: "meta_get k (AList.update k' v m) = (if k = k' then v else meta_get k m)"
  by (simp add: meta_get_def update_conv)

lemma meta_get_Cons [simp]: "meta_get k ((k', v) # m) = (if k = k' then v else meta_get k m)"
  by (simp add: meta_get_def)

lemma meta_get_Nil [simp]: "meta_get k [] = []"
  by (simp add: meta_get_def)

lemma merge_all: "fold (merge_repository D) items (Some r) =
  Some (if \<forall>i\<in>set items. candidate_repository D i = r then r else [])"
proof (induction items arbitrary: r)
  case (Cons i items)
  then show ?case by (auto simp: merge_repository_def Let_def)
qed simp


lemma format_nat_no_comma: "CHR '','' \<notin> set (format_nat n)"
proof (induction n rule: format_nat.induct)
  case (1 n)
  have "CHR '','' \<noteq> digit_char d" if "d < 10" for d
  proof
    assume "CHR '','' = digit_char d"
    then have "of_char (CHR '','') = (48 + d :: nat)" using that by (simp add: digit_char_def)
    then show False by simp
  qed
  then show ?case using 1 by (cases "n < 10") (auto simp: format_nat.simps [of n])
qed

lemma format_int_no_comma: "CHR '','' \<notin> set (format_int n)"
  using format_nat_no_comma by (auto simp: format_int_def)

lemma positive_ids:
  "\<forall>n\<in>set ns. 0 < n \<and> in_int64 n \<Longrightarrow> List.map_filter positive_id (map format_int ns) = ns"
  by (induction ns) (simp_all add: map_filter_simps positive_id_def)

definition persisted_failure :: "session_failure \<Rightarrow> session_failure" where
  "persisted_failure f =
     f\<lparr>sf_output := [], sf_strategy := [], sf_destination := (if sf_leftover f then sf_destination f else []), sf_at := None\<rparr>"

text \<open>
  A failed form comes back. A draft with exactly one launch target, real item ids and a
  failure that says something is decoded from its activity row as it was: the form field for field,
  the items in their order, and of the failure everything but what the row leaves out (the output,
  the clone strategy, the time, and a checkout that is no longer there).
\<close>

theorem draft_roundtrip:
  assumes "(dr_repository d = []) \<noteq> (dr_workspace d = [])"
    and "\<forall>n\<in>set (dr_items d). 0 < n \<and> in_int64 n"
    and "\<forall>f. dr_failure d = Some f \<longrightarrow> (sf_reason f \<noteq> [] \<or> sf_step f \<noteq> []) \<and>
      (sf_leftover f \<longrightarrow> sf_destination f \<noteq> [])"
  shows "draft_from_metadata (draft_metadata d) = Some (d\<lparr>dr_failure := map_option persisted_failure (dr_failure d)\<rparr>)"
proof -
  let ?m = "draft_metadata d"
  have none: "positive_id [] = None" by (simp add: positive_id_def parse_int64_def parse_signed_def parse_nat_def)
  have fields: "meta_get ''retry'' ?m = ''session-create''" "meta_get ''repository'' ?m = dr_repository d"
    "meta_get ''workspace'' ?m = dr_workspace d" "meta_get ''name'' ?m = dr_name d"
    "meta_get ''prompt'' ?m = dr_prompt d" "meta_get ''agent'' ?m = dr_agent d" "meta_get ''itemId'' ?m = []"
    "meta_get ''itemIds'' ?m = join '','' (map format_int (dr_items d))"
    "meta_get ''reason'' ?m = (case dr_failure d of None \<Rightarrow> [] | Some f \<Rightarrow> sf_reason f)"
    "meta_get ''step'' ?m = (case dr_failure d of None \<Rightarrow> [] | Some f \<Rightarrow> sf_step f)"
    "meta_get ''leftover'' ?m = (case dr_failure d of None \<Rightarrow> [] | Some f \<Rightarrow> if sf_leftover f then sf_destination f else [])"
    by (simp_all add: draft_metadata_def Let_def split: option.split)
  have items: "List.map_filter positive_id (split_commas (join '','' (map format_int (dr_items d)))) = dr_items d"
  proof (cases "dr_items d = []")
    case False
    then have "split_commas (join '','' (map format_int (dr_items d))) = map format_int (dr_items d)"
      by (intro split_join_commas) (simp_all add: format_int_no_comma)
    then show ?thesis using positive_ids [OF assms(2)] by simp
  qed (simp add: none map_filter_simps)
  show ?thesis
  proof (cases "dr_failure d")
    case None
    then show ?thesis using assms(1) by (auto simp: draft_from_metadata_def fields items none Let_def)
  next
    case (Some f)
    then show ?thesis using assms(1,3)
      by (auto simp: draft_from_metadata_def fields items none persisted_failure_def Let_def)
  qed
qed

end
