(* ===== verification/Worker.thy ===== *)
theory Worker
  imports Dispatch
begin

text \<open>
  The output worker (\<open>dispatch/output_worker.go\<close>): the ticks that drain queued commands and the
  explicit runs a user starts. A worker holds its mutex for a whole tick or run, so each is one
  function of the database and the execution state. An explicit run's store calls may be refused (its
  caller's context is cancelled, the store fails), which an oracle decides; a tick's refused calls and
  logging are left out of its function, and a tick that stops short is a step of the queue of its own.
\<close>

section \<open>The worker\<close>

definition default_worker_batch :: nat where
  "default_worker_batch = 50"

definition max_command_attempts :: int where
  "max_command_attempts = 5"

record 'w worker =
  wk_host :: "'w host"
  wk_utf8 :: "string \<Rightarrow> string"
  wk_get :: "string \<Rightarrow> action option"
  wk_batch :: nat
  wk_jobs :: bool \<comment> \<open>a jobs recorder is attached\<close>
  wk_activity :: bool \<comment> \<open>an activity recorder is attached\<close>

record 'w worker_state =
  ws_db :: db
  ws_exec :: "'w exec_state"

definition clock_ms :: "'w worker \<Rightarrow> 'w worker_state \<Rightarrow> int" where
  "clock_ms W s = ho_now (wk_host W) (xs_world (ws_exec s)) div 1000000"

section \<open>The texts a command stores\<close>

definition unknown_action :: "string \<Rightarrow> string" where
  "unknown_action i = ''unknown action '' @ go_quote i"

text \<open>How \<open>encoding/json\<close> writes a string of ASCII characters, HTML escaping on.\<close>

definition json_char :: "char \<Rightarrow> string" where
  "json_char c =
     (if c = CHR 0x22 \<or> c = CHR 0x5C then [CHR 0x5C, c]
      else if c = CHR 0x08 then [CHR 0x5C, CHR ''b'']
      else if c = CHR 0x0C then [CHR 0x5C, CHR ''f'']
      else if c = CHR 0x0A then [CHR 0x5C, CHR ''n'']
      else if c = CHR 0x0D then [CHR 0x5C, CHR ''r'']
      else if c = CHR 0x09 then [CHR 0x5C, CHR ''t'']
      else if of_char c < (0x20 :: nat) \<or> c \<in> set ''<>&''
      then CHR 0x5C # ''u00'' @ [hex_digit (of_char c div 16), hex_digit (of_char c mod 16)]
      else [c])"

definition json_quote :: "string \<Rightarrow> string" where
  "json_quote s = CHR 0x22 # concat (map json_char s) @ [CHR 0x22]"

definition json_pairs :: "(string \<times> string) list \<Rightarrow> string" where
  "json_pairs ms = ''{'' @ join '','' (map (\<lambda>(k, v). json_quote k @ '':'' @ v) ms) @ ''}''"

definition omit_empty :: "string \<Rightarrow> string \<Rightarrow> (string \<times> string) list" where
  "omit_empty k v = (if v = [] then [] else [(k, json_quote v)])"

fun outcome_json :: "exec_outcome option \<Rightarrow> string" where
  "outcome_json None = ''null''"
| "outcome_json (Some (SessionOutcome o')) = json_pairs [(''session'',
     json_pairs ([(''id'', json_quote (so_id o')), (''name'', json_quote (so_name o'))] @
       omit_empty ''slug'' (so_slug o') @ omit_empty ''path'' (so_path o')))]"
| "outcome_json (Some (MessageOutcome topic sender)) =
     json_pairs [(''message'', json_pairs [(''topic'', json_quote topic), (''sender'', json_quote sender)])]"
| "outcome_json (Some (ClipboardOutcome text)) = json_pairs [(''clipboard'', json_pairs [(''text'', json_quote text)])]"

section \<open>What a caller sees of a command\<close>

record run_view =
  rv_command :: int
  rv_status :: string
  rv_result :: "exec_outcome option"
  rv_error :: string
  rv_stdout :: string
  rv_stderr :: string
  rv_confirm :: bool

definition no_view :: run_view where
  "no_view = \<lparr>rv_command = 0, rv_status = [], rv_result = None, rv_error = [], rv_stdout = [],
     rv_stderr = [], rv_confirm = False\<rparr>"

fun status_text :: "command_status \<Rightarrow> string" where
  "status_text CmdPending = ''pending''"
| "status_text CmdRunning = ''running''"
| "status_text CmdDone = ''done''"
| "status_text CmdFailed = ''failed''"

definition text_of :: "string option \<Rightarrow> string" where
  "text_of v = (case v of None \<Rightarrow> [] | Some s \<Rightarrow> s)"

text \<open>\<open>decode\<close> is the JSON decoder of an outcome, the inverse of \<open>outcome_json\<close>.\<close>

definition action_run_view :: "(string \<Rightarrow> exec_outcome option) \<Rightarrow> command_row \<Rightarrow> run_view" where
  "action_run_view decode r =
     \<lparr>rv_command = oc_id r, rv_status = status_text (oc_status r),
      rv_result = (if text_of (oc_result r) = [] then None else decode (text_of (oc_result r))),
      rv_error = text_of (oc_error r), rv_stdout = text_of (oc_stdout r), rv_stderr = text_of (oc_stderr r),
      rv_confirm = False\<rparr>"

definition worker_view :: "(string \<Rightarrow> exec_outcome option) \<Rightarrow> int \<Rightarrow> 'w worker_state \<Rightarrow> run_view" where
  "worker_view decode i s =
     (case get_command i (ws_db s) of
        Inr r \<Rightarrow> action_run_view decode r
      | Inl _ \<Rightarrow> no_view\<lparr>rv_command := i, rv_status := ''unknown'',
          rv_error := ''output_command '' @ format_int i @ '': not found''\<rparr>)"

section \<open>Activity and jobs\<close>

definition worker_record :: "'w worker \<Rightarrow> activity_event \<Rightarrow> 'w worker_state \<Rightarrow> 'w worker_state" where
  "worker_record W e s =
     (if wk_activity W then s\<lparr>ws_db := activity_record (clock_ms W s) e (ws_db s)\<rparr> else s)"

definition worker_job_begin ::
  "'w worker \<Rightarrow> string \<Rightarrow> string \<Rightarrow> string \<Rightarrow> 'w worker_state \<Rightarrow> int \<times> 'w worker_state" where
  "worker_job_begin W label action target s =
     (if wk_jobs W then
        (case job_begin label action target (clock_ms W s) (ws_db s) of (i, d) \<Rightarrow> (i, s\<lparr>ws_db := d\<rparr>))
      else (0, s))"

definition worker_job_resume :: "'w worker \<Rightarrow> int \<Rightarrow> 'w worker_state \<Rightarrow> int" where
  "worker_job_resume W command s = (if wk_jobs W then job_resume command (ws_db s) else 0)"

text \<open>The recorder's other calls are skipped when there is none or no job was opened.\<close>

definition worker_job ::
  "'w worker \<Rightarrow> (int \<Rightarrow> int \<Rightarrow> db \<Rightarrow> db) \<Rightarrow> int \<Rightarrow> 'w worker_state \<Rightarrow> 'w worker_state" where
  "worker_job W f job s =
     (if wk_jobs W \<and> job \<noteq> 0 then s\<lparr>ws_db := f job (clock_ms W s) (ws_db s)\<rparr> else s)"

definition worker_job_running :: "'w worker \<Rightarrow> int \<Rightarrow> int \<Rightarrow> 'w worker_state \<Rightarrow> 'w worker_state" where
  "worker_job_running W job command = worker_job W (\<lambda>i now. job_running i command now) job"

definition worker_job_done :: "'w worker \<Rightarrow> int \<Rightarrow> 'w worker_state \<Rightarrow> 'w worker_state" where
  "worker_job_done W = worker_job W job_done"

definition worker_job_fail :: "'w worker \<Rightarrow> int \<Rightarrow> string \<Rightarrow> 'w worker_state \<Rightarrow> 'w worker_state" where
  "worker_job_fail W job reason = worker_job W (\<lambda>i now. job_fail i reason now) job"

definition action_label :: "action \<Rightarrow> string" where
  "action_label a = (if ac_label a \<noteq> [] then ac_label a else ac_id a)"

definition run_label :: "'w worker \<Rightarrow> string \<Rightarrow> string" where
  "run_label W i = (case wk_get W i of None \<Rightarrow> i | Some a \<Rightarrow> action_label a)"

definition automatic_activity :: "'w host \<Rightarrow> action \<Rightarrow> command_row \<Rightarrow> activity_event" where
  "automatic_activity H a r =
     (if ac_type a \<noteq> ''notify'' then auto_action (action_label a) (ac_id a) (oc_key r)
      else case ho_notify_command H (oc_payload r) of
             Inl _ \<Rightarrow> auto_action (action_label a) (ac_id a) []
           | Inr c \<Rightarrow>
               with_link (str_field (ho_scan H (nc_item c)) ''url'')
                 (if nc_profile c \<noteq> [] \<and> nc_external c \<noteq> []
                  then Some \<lparr>il_profile = nc_profile c, il_kind = nc_kind c, il_scope = nc_scope c,
                         il_external = nc_external c\<rparr>
                  else None)
                 (auto_action (action_label a) (ac_id a) (nc_external c)))"

section \<open>One execution\<close>

definition worker_execute ::
  "'w worker \<Rightarrow> command_row \<Rightarrow> action \<Rightarrow> invocation_input \<Rightarrow> 'w worker_state \<Rightarrow>
   (exec_result \<times> string option) \<times> 'w worker_state" where
  "worker_execute W r a input s =
     (let H = wk_host W
      in case decode_map (ho_scan H) (oc_payload r) of
           None \<Rightarrow> ((no_result, Some (''decode payload: '' @ ho_scan_error H (oc_payload r))), s)
         | Some payload \<Rightarrow>
             (case resolve_inputs a (iv_inputs input) of
                Inl e \<Rightarrow> ((no_result, Some (resolve_error_text e)), s)
              | Inr inputs \<Rightarrow>
                  (case dispatch_execute (wk_utf8 W) H a
                      \<lparr>od_key = oc_key r, od_payload = payload, od_raw = oc_payload r, od_inputs = inputs,
                       od_session = None, od_window = None, od_created = oc_created r, od_command = oc_id r,
                       od_rerun = oc_rerun r, od_origin = oc_ref r\<rparr> input (ws_exec s) of
                     (out, x) \<Rightarrow> (out, s\<lparr>ws_exec := x\<rparr>))))"

definition worker_done :: "int \<Rightarrow> exec_result \<Rightarrow> 'w worker_state \<Rightarrow> 'w worker_state" where
  "worker_done i res s =
     s\<lparr>ws_db := mark_done i (outcome_json (er_outcome res)) (bound_stream (el_out (er_log res)))
         (bound_stream (el_err (er_log res))) (ws_db s)\<rparr>"

definition worker_mark_failed :: "int \<Rightarrow> string \<Rightarrow> exec_log \<Rightarrow> 'w worker_state \<Rightarrow> 'w worker_state" where
  "worker_mark_failed i e log s =
     s\<lparr>ws_db := mark_failed i e (bound_stream (el_out log)) (bound_stream (el_err log)) (ws_db s)\<rparr>"

definition worker_retry :: "int \<Rightarrow> string \<Rightarrow> exec_log \<Rightarrow> 'w worker_state \<Rightarrow> 'w worker_state" where
  "worker_retry i e log s =
     s\<lparr>ws_db := retry_command i e (bound_stream (el_out log)) (bound_stream (el_err log)) (ws_db s)\<rparr>"

text \<open>\<open>fail\<close>: the attempt count is the one the tick read.\<close>

definition worker_fail ::
  "'w worker \<Rightarrow> command_row \<Rightarrow> exec_result \<Rightarrow> string \<Rightarrow> int \<Rightarrow> 'w worker_state \<Rightarrow> 'w worker_state" where
  "worker_fail W r res e job s =
     (if max_command_attempts \<le> oc_attempts r + 1 then
        worker_record W (action_failed (run_label W (oc_action r)) e)
          (worker_job_fail W job e (worker_mark_failed (oc_id r) e (er_log res) s))
      else worker_retry (oc_id r) e (er_log res) s)"

section \<open>Ticks\<close>

definition worker_open_job :: "'w worker \<Rightarrow> command_row \<Rightarrow> 'w worker_state \<Rightarrow> int \<times> 'w worker_state" where
  "worker_open_job W r s =
     (let resumed = worker_job_resume W (oc_id r) s
      in if resumed \<noteq> 0 then (resumed, s)
         else case worker_job_begin W (run_label W (oc_action r)) (oc_action r) (oc_key r) s of
                (job, s1) \<Rightarrow> (job, worker_job_running W job (oc_id r) s1))"

definition worker_process :: "'w worker \<Rightarrow> command_row \<Rightarrow> 'w worker_state \<Rightarrow> 'w worker_state" where
  "worker_process W r s =
     (case worker_open_job W r s of (job, s1) \<Rightarrow>
        (case wk_get W (oc_action r) of
           None \<Rightarrow> worker_fail W r no_result (unknown_action (oc_action r)) job s1
         | Some a \<Rightarrow>
             (case worker_execute W r a no_invocation s1 of
                ((res, Some e), s2) \<Rightarrow> worker_fail W r res e job s2
              | ((res, None), s2) \<Rightarrow>
                  (let s3 = worker_job_done W job (worker_done (oc_id r) res s2)
                   in if ac_type a \<noteq> ''launch-session'' \<and> er_attempted res
                      then worker_record W (automatic_activity (wk_host W) a r) s3 else s3))))"

text \<open>
  A listing asks for what is left of the batch, so the batch can only fill with the last row of
  one; a row that is retried stays behind the cursor until the next tick.
\<close>

function tick_rounds :: "'w worker \<Rightarrow> int \<Rightarrow> nat \<Rightarrow> 'w worker_state \<Rightarrow> 'w worker_state" where
  "tick_rounds W after n s =
     (if wk_batch W \<le> n then s
      else case list_runnable_after after (wk_batch W - n) (ws_db s) of
             [] \<Rightarrow> s
           | rows \<Rightarrow> tick_rounds W (oc_id (last rows)) (n + length rows) (fold (worker_process W) rows s))"
  by auto
termination
  by (relation "measure (\<lambda>(W, after, n, s). wk_batch W - n)") auto

declare tick_rounds.simps [simp del]

definition worker_tick :: "'w worker \<Rightarrow> 'w worker_state \<Rightarrow> 'w worker_state" where
  "worker_tick W s = tick_rounds W 0 0 s"

section \<open>Explicit runs\<close>

datatype run_error = StoreFailed store_error | RunError string

text \<open>The store calls of an explicit run, and which of them are refused in which state. The recorders
  of jobs and activity swallow their own errors, so a refused call of theirs is skipped.\<close>

datatype run_call = OpClaim | OpView | OpMark | OpJobBegin | OpJobRunning | OpJobStatus | OpRecord

type_synonym 'w run_faults = "run_call \<Rightarrow> 'w worker_state \<Rightarrow> string option"

definition unless_refused ::
  "'w run_faults \<Rightarrow> run_call \<Rightarrow> ('w worker_state \<Rightarrow> 'w worker_state) \<Rightarrow> 'w worker_state \<Rightarrow> 'w worker_state" where
  "unless_refused F call f s = (case F call s of None \<Rightarrow> f s | Some _ \<Rightarrow> s)"

definition run_job_begin ::
  "'w run_faults \<Rightarrow> 'w worker \<Rightarrow> string \<Rightarrow> string \<Rightarrow> string \<Rightarrow> 'w worker_state \<Rightarrow> int \<times> 'w worker_state" where
  "run_job_begin F W label action target s =
     (case F OpJobBegin s of None \<Rightarrow> worker_job_begin W label action target s | Some _ \<Rightarrow> (0, s))"

definition run_view_of ::
  "'w run_faults \<Rightarrow> (string \<Rightarrow> exec_outcome option) \<Rightarrow> int \<Rightarrow> 'w worker_state \<Rightarrow> run_view" where
  "run_view_of F decode i s =
     (case F OpView s of
        None \<Rightarrow> worker_view decode i s
      | Some e \<Rightarrow> no_view\<lparr>rv_command := i, rv_status := ''unknown'', rv_error := e\<rparr>)"

text \<open>The claimed command, or the answer when there is nothing to run.\<close>

definition claim_run ::
  "'w run_faults \<Rightarrow> 'w worker \<Rightarrow> (string \<Rightarrow> exec_outcome option) \<Rightarrow> string \<Rightarrow> string \<Rightarrow> bytes \<Rightarrow> item_ref \<Rightarrow>
   invocation_input \<Rightarrow> 'w worker_state \<Rightarrow> (run_view \<times> run_error option, command_row) result \<times> 'w worker_state" where
  "claim_run F W decode action key payload origin input s =
     (case F OpClaim s of
        Some e \<Rightarrow> (Inl (no_view, Some (RunError e)), s)
      | None \<Rightarrow>
        if iv_rerun input then
          (case rerun_command action key payload origin (clock_ms W s) (ws_db s) of
             Inl e \<Rightarrow> (Inl (no_view, Some (StoreFailed e)), s)
           | Inr (r, d) \<Rightarrow> (Inr r, s\<lparr>ws_db := d\<rparr>))
        else
          (case confirm_command action key payload origin (clock_ms W s) (ws_db s) of
             Inl e \<Rightarrow> (Inl (no_view, Some (StoreFailed e)), s)
           | Inr ((r, created), d) \<Rightarrow>
               if created then (Inr r, s\<lparr>ws_db := d\<rparr>)
               else if oc_status r \<in> {CmdPending, CmdRunning}
               then (Inl (no_view, Some (RunError
                 (''action '' @ go_quote action @ '' is already running for '' @ go_quote key))), s\<lparr>ws_db := d\<rparr>)
               else (Inl ((run_view_of F decode (oc_id r) (s\<lparr>ws_db := d\<rparr>))\<lparr>rv_confirm := True\<rparr>, None), s\<lparr>ws_db := d\<rparr>)))"

text \<open>The end of a run: the command is marked first, and when that is refused the run returns the
  error with the command still running and its job still live.\<close>

definition run_failed_end ::
  "'w run_faults \<Rightarrow> 'w worker \<Rightarrow> (string \<Rightarrow> exec_outcome option) \<Rightarrow> int \<Rightarrow> int \<Rightarrow> string \<Rightarrow> exec_log \<Rightarrow> bool \<Rightarrow>
   'w worker_state \<Rightarrow> (run_view \<times> run_error option) \<times> 'w worker_state" where
  "run_failed_end F W decode i job e log attempted s =
     (case F OpMark s of
        Some m \<Rightarrow> ((no_view, Some (RunError m)), s)
      | None \<Rightarrow>
          (let s1 = unless_refused F OpJobStatus (worker_job_fail W job e) (worker_mark_failed i e log s)
           in ((run_view_of F decode i s1, if attempted then None else Some (RunError e)), s1)))"

definition run_done_end ::
  "'w run_faults \<Rightarrow> 'w worker \<Rightarrow> (string \<Rightarrow> exec_outcome option) \<Rightarrow> int \<Rightarrow> int \<Rightarrow> action \<Rightarrow> exec_result \<Rightarrow>
   'w worker_state \<Rightarrow> (run_view \<times> run_error option) \<times> 'w worker_state" where
  "run_done_end F W decode i job a res s =
     (case F OpMark s of
        Some m \<Rightarrow> ((no_view, Some (RunError m)), s)
      | None \<Rightarrow>
          (let s1 = unless_refused F OpJobStatus (worker_job_done W job) (worker_done i res s);
               s2 = (if ac_type a \<noteq> ''launch-session''
                     then unless_refused F OpRecord (worker_record W (action_run (action_label a) [])) s1 else s1)
           in ((run_view_of F decode i s2, None), s2)))"

definition worker_confirm ::
  "'w run_faults \<Rightarrow> 'w worker \<Rightarrow> (string \<Rightarrow> exec_outcome option) \<Rightarrow> string \<Rightarrow> string \<Rightarrow> bytes \<Rightarrow> item_ref \<Rightarrow>
   invocation_input \<Rightarrow> 'w worker_state \<Rightarrow> (run_view \<times> run_error option) \<times> 'w worker_state" where
  "worker_confirm F W decode action key payload origin input s =
     (case claim_run F W decode action key payload origin input s of
        (Inl answer, s1) \<Rightarrow> (answer, s1)
      | (Inr r, s1) \<Rightarrow>
          (case run_job_begin F W (run_label W action) action key s1 of (job, s2) \<Rightarrow>
             (case wk_get W action of
                None \<Rightarrow> run_failed_end F W decode (oc_id r) job (unknown_action action) no_log False s2
              | Some a \<Rightarrow>
                  (case worker_execute W r a input
                      (unless_refused F OpJobRunning (worker_job_running W job (oc_id r)) s2) of
                     ((res, Some e), s4) \<Rightarrow>
                       run_failed_end F W decode (oc_id r) job e (er_log res) (er_attempted res) s4
                   | ((res, None), s4) \<Rightarrow> run_done_end F W decode (oc_id r) job a res s4))))"

end
