(* ===== verification/Worker_Laws.thy ===== *)
theory Worker_Laws
  imports Worker Command_Laws
begin

text \<open>
  What the output worker guarantees: how one automatic run changes its command, that repeated ticks
  empty the queue within the attempts each command has left, and that an explicit run leaves neither
  its command nor its job running unless the store refuses to mark them. Draining is the contract \<open>draining\<close>, of a queue whose rounds
  each use up part of a finite backlog.
\<close>

section \<open>Queues that drain\<close>

locale draining =
  fixes ok :: "'s \<Rightarrow> bool"
    and usable :: "'r \<Rightarrow> bool"
    and backlog :: "'s \<Rightarrow> nat"
    and round :: "'r \<Rightarrow> 's \<Rightarrow> 's"
  assumes round_ok: "ok s \<Longrightarrow> ok (round r s)"
    and never_grows: "ok s \<Longrightarrow> backlog (round r s) \<le> backlog s"
    and progress: "ok s \<Longrightarrow> usable r \<Longrightarrow> 0 < backlog s \<Longrightarrow> backlog (round r s) < backlog s"
begin

lemma rounds_ok: "ok s \<Longrightarrow> ok (fold round rs s)"
  by (induction rs arbitrary: s) (simp_all add: round_ok)

lemma rounds_shrink:
  "ok s \<Longrightarrow> list_all usable rs \<Longrightarrow> backlog (fold round rs s) \<le> backlog s - length rs"
proof (induction rs arbitrary: s)
  case (Cons r rs)
  have "backlog (fold round rs (round r s)) \<le> backlog (round r s) - length rs"
    using Cons by (simp add: round_ok)
  also have "\<dots> \<le> backlog s - Suc (length rs)"
  proof (cases "backlog s")
    case 0
    then show ?thesis using never_grows [OF Cons.prems(1), of r] by simp
  next
    case (Suc k)
    then have "backlog (round r s) < backlog s" using Cons.prems by (intro progress) simp_all
    then show ?thesis by linarith
  qed
  finally show ?case by simp
qed simp

lemma drained: "ok s \<Longrightarrow> list_all usable rs \<Longrightarrow> backlog s \<le> length rs \<Longrightarrow> backlog (fold round rs s) = 0"
  using rounds_shrink [of s rs] by simp

end

section \<open>What does not touch the commands\<close>

lemma job_frame [simp]:
  "db_commands (job_running i c now d) = db_commands d"
  "db_commands (job_set_status i st e now d) = db_commands d"
  "db_commands (job_done i now d) = db_commands d" "db_commands (job_fail i e now d) = db_commands d"
  by (simp_all add: job_running_def job_set_status_def job_done_def job_fail_def job_update_def)

lemma job_begin_frame: "job_begin l a t now d = (i, d') \<Longrightarrow> db_commands d' = db_commands d"
  by (auto simp: job_begin_def job_insert_def Let_def)

lemma worker_record_frame [simp]: "db_commands (ws_db (worker_record W e s)) = db_commands (ws_db s)"
  "db_jobs (ws_db (worker_record W e s)) = db_jobs (ws_db s)"
  by (simp_all add: worker_record_def)

lemma worker_job_frame [simp]:
  "db_commands (ws_db (worker_job_running W j c s)) = db_commands (ws_db s)"
  "db_commands (ws_db (worker_job_done W j s)) = db_commands (ws_db s)"
  "db_commands (ws_db (worker_job_fail W j e s)) = db_commands (ws_db s)"
  by (simp_all add: worker_job_running_def worker_job_done_def worker_job_fail_def worker_job_def)

lemma worker_job_begin_frame: "worker_job_begin W l a t s = (j, s') \<Longrightarrow> db_commands (ws_db s') = db_commands (ws_db s)"
  by (auto simp: worker_job_begin_def job_begin_frame split: if_splits prod.splits)

lemma worker_open_job_frame: "worker_open_job W r s = (j, s') \<Longrightarrow> db_commands (ws_db s') = db_commands (ws_db s)"
  by (auto simp: worker_open_job_def Let_def worker_job_begin_frame split: if_splits prod.splits)

lemma worker_execute_frame: "worker_execute W r a i s = (out, s') \<Longrightarrow> ws_db s' = ws_db s"
  by (auto simp: worker_execute_def Let_def split: option.splits sum.splits prod.splits)

section \<open>One automatic run\<close>

definition run_done :: "exec_result \<Rightarrow> command_row \<Rightarrow> command_row" where
  "run_done res r = r\<lparr>oc_status := CmdDone, oc_error := None, oc_result := null_str (outcome_json (er_outcome res)),
     oc_stdout := null_str (bound_stream (el_out (er_log res))),
     oc_stderr := null_str (bound_stream (el_err (er_log res)))\<rparr>"

definition run_failed :: "string \<Rightarrow> exec_log \<Rightarrow> command_row \<Rightarrow> command_row" where
  "run_failed e log r = r\<lparr>oc_status := CmdFailed, oc_attempts := oc_attempts r + 1, oc_error := null_str e,
     oc_stdout := null_str (bound_stream (el_out log)),
     oc_stderr := null_str (bound_stream (el_err log))\<rparr>"

definition run_retried :: "string \<Rightarrow> exec_log \<Rightarrow> command_row \<Rightarrow> command_row" where
  "run_retried e log r = r\<lparr>oc_attempts := oc_attempts r + 1, oc_error := null_str e,
     oc_stdout := null_str (bound_stream (el_out log)),
     oc_stderr := null_str (bound_stream (el_err log))\<rparr>"

definition with_command :: "int \<Rightarrow> (command_row \<Rightarrow> command_row) \<Rightarrow> command_row list \<Rightarrow> command_row list" where
  "with_command i = sql_update (\<lambda>r. oc_id r = i)"

lemma bound_stream_idem [simp]: "bound_stream (bound_stream s) = bound_stream s"
  by (simp add: bound_stream_def max_stream_bytes_def stream_marker_def)

lemma worker_marks:
  "db_commands (ws_db (worker_done i res s)) = with_command i (run_done res) (db_commands (ws_db s))"
  "db_commands (ws_db (worker_mark_failed i e log s)) = with_command i (run_failed e log) (db_commands (ws_db s))"
  "db_commands (ws_db (worker_retry i e log s)) = with_command i (run_retried e log) (db_commands (ws_db s))"
  by (simp_all add: worker_done_def worker_mark_failed_def worker_retry_def mark_done_def mark_failed_def
      retry_command_def update_command_def with_command_def run_done_def [abs_def] run_failed_def [abs_def]
      run_retried_def [abs_def])

text \<open>The three ways an automatic run ends, over the row the tick read.\<close>

inductive run_outcome :: "command_row \<Rightarrow> (command_row \<Rightarrow> command_row) \<Rightarrow> bool" where
  Completed: "run_outcome r (run_done res)"
| GaveUp: "max_command_attempts \<le> oc_attempts r + 1 \<Longrightarrow> run_outcome r (run_failed e log)"
| Again: "oc_attempts r + 1 < max_command_attempts \<Longrightarrow> run_outcome r (run_retried e log)"

lemma worker_fail_outcome:
  "\<exists>f. run_outcome r f \<and> db_commands (ws_db (worker_fail W r res e job s)) = with_command (oc_id r) f (db_commands (ws_db s))"
  by (cases "oc_attempts r + 1 < max_command_attempts")
    (auto simp: worker_fail_def worker_marks not_less intro: run_outcome.intros)

lemma process_outcome:
  "\<exists>f. run_outcome r f \<and> db_commands (ws_db (worker_process W r s)) = with_command (oc_id r) f (db_commands (ws_db s))"
proof -
  obtain job s1 where j: "worker_open_job W r s = (job, s1)" by fastforce
  note frame = worker_open_job_frame [OF j]
  show ?thesis
  proof (cases "wk_get W (oc_action r)")
    case None
    then show ?thesis
      using j worker_fail_outcome [of r W no_result "unknown_action (oc_action r)" job s1] frame
      by (simp add: worker_process_def)
  next
    case (Some a)
    obtain res err s2 where x: "worker_execute W r a no_invocation s1 = ((res, err), s2)"
      by (metis surj_pair)
    have cs: "db_commands (ws_db s2) = db_commands (ws_db s)" using worker_execute_frame [OF x] frame by simp
    show ?thesis
    proof (cases err)
      case None
      then show ?thesis using j Some x cs Completed [of r res] by (auto simp: worker_process_def Let_def worker_marks)
    next
      case (Some e)
      then show ?thesis
        using j \<open>wk_get W (oc_action r) = Some a\<close> x cs worker_fail_outcome [of r W res e job s2]
        by (simp add: worker_process_def)
    qed
  qed
qed


section \<open>Draining the queue\<close>

text \<open>How many more ticks can pick a command up: a pending one runs at least once.\<close>

definition command_budget :: "command_row \<Rightarrow> nat" where
  "command_budget r =
     (if oc_status r = CmdPending then nat (max 1 (max_command_attempts - oc_attempts r)) else 0)"

definition queue_backlog :: "command_row list \<Rightarrow> nat" where
  "queue_backlog cs = sum_list (map command_budget cs)"

definition queue_ok :: "command_row list \<Rightarrow> bool" where
  "queue_ok cs \<longleftrightarrow> unique_on oc_id cs \<and> (\<forall>r\<in>set cs. 0 < oc_id r)"

lemma db_queue_ok: "db_ok d \<Longrightarrow> queue_ok (db_commands d)"
  by (simp add: db_ok_def commands_ok_def queue_ok_def)

lemma run_outcome_id: "run_outcome r f \<Longrightarrow> oc_id (f x) = oc_id x"
  by (auto simp: run_done_def run_failed_def run_retried_def elim!: run_outcome.cases)

lemma run_outcome_budget:
  "run_outcome r f \<Longrightarrow> oc_status r = CmdPending \<Longrightarrow> command_budget (f r) < command_budget r"
  by (auto simp: run_done_def run_failed_def run_retried_def command_budget_def max_command_attempts_def
      elim!: run_outcome.cases)

lemma with_command_queue:
  assumes "queue_ok cs" and "run_outcome r f"
  shows "queue_ok (with_command i f cs)"
  using assms run_outcome_id [OF assms(2)]
  by (auto simp: queue_ok_def with_command_def sql_update_def
      intro!: unique_on_update [unfolded sql_update_def])

lemma with_command_absent: "i \<notin> oc_id ` set cs \<Longrightarrow> with_command i f cs = cs"
  unfolding with_command_def sql_update_def by (rule map_idI) auto

lemma with_command_budget:
  "unique_on oc_id cs \<Longrightarrow> r \<in> set cs \<Longrightarrow>
   queue_backlog (with_command (oc_id r) f cs) + command_budget r = queue_backlog cs + command_budget (f r)"
proof (induction cs)
  case (Cons c cs)
  have u: "oc_id c \<notin> oc_id ` set cs" "unique_on oc_id cs" using Cons.prems(1) by (auto simp: unique_on_def)
  show ?case
  proof (cases "r = c")
    case True
    then show ?thesis
      using with_command_absent [OF u(1), of f] by (simp add: with_command_def sql_update_def queue_backlog_def)
  next
    case False
    then have "r \<in> set cs" "oc_id c \<noteq> oc_id r" using Cons.prems(2) u(1) by auto
    then show ?thesis using Cons.IH [OF u(2)] by (simp add: with_command_def sql_update_def queue_backlog_def)
  qed
qed simp

lemma with_command_other:
  "oc_id x \<noteq> i \<Longrightarrow> x \<in> set cs \<Longrightarrow> x \<in> set (with_command i f cs)"
  by (force simp: with_command_def sql_update_def)

abbreviation commands_of :: "'w worker_state \<Rightarrow> command_row list" where
  "commands_of s \<equiv> db_commands (ws_db s)"

lemma process_backlog:
  assumes "queue_ok (commands_of s)" and "r \<in> set (commands_of s)" and "oc_status r = CmdPending"
  shows "queue_ok (commands_of (worker_process W r s)) \<and>
    queue_backlog (commands_of (worker_process W r s)) < queue_backlog (commands_of s)"
proof -
  obtain f where f: "run_outcome r f" "commands_of (worker_process W r s) = with_command (oc_id r) f (commands_of s)"
    using process_outcome by blast
  have "queue_backlog (with_command (oc_id r) f (commands_of s)) + command_budget r =
      queue_backlog (commands_of s) + command_budget (f r)"
    by (rule with_command_budget) (use assms in \<open>simp_all add: queue_ok_def\<close>)
  then show ?thesis
    using run_outcome_budget [OF f(1) assms(3)] with_command_queue [OF assms(1) f(1)] by (simp add: f(2))
qed

lemma process_other:
  assumes "x \<in> set (commands_of s)" and "oc_id x \<noteq> oc_id r"
  shows "x \<in> set (commands_of (worker_process W r s))"
  using process_outcome [of r W s] with_command_other [OF assms(2,1)] by metis

lemma processes_backlog:
  assumes "queue_ok (commands_of s)" and "unique_on oc_id rows"
    and "\<forall>r\<in>set rows. r \<in> set (commands_of s) \<and> oc_status r = CmdPending"
  shows "queue_ok (commands_of (fold (worker_process W) rows s)) \<and>
    queue_backlog (commands_of (fold (worker_process W) rows s)) + length rows \<le> queue_backlog (commands_of s)"
  using assms
proof (induction rows arbitrary: s)
  case (Cons r rows)
  let ?s = "worker_process W r s"
  have one: "queue_ok (commands_of ?s)" "queue_backlog (commands_of ?s) < queue_backlog (commands_of s)"
    using process_backlog [OF Cons.prems(1), of r W] Cons.prems(3) by simp_all
  have "unique_on oc_id rows" and ne: "\<And>x. x \<in> set rows \<Longrightarrow> oc_id x \<noteq> oc_id r"
    using Cons.prems(2) by (auto simp: unique_on_def) (metis imageI)
  moreover have "\<forall>x\<in>set rows. x \<in> set (commands_of ?s) \<and> oc_status x = CmdPending"
    using Cons.prems(3) ne by (simp add: process_other)
  ultimately have "unique_on oc_id rows" "\<forall>x\<in>set rows. x \<in> set (commands_of ?s) \<and> oc_status x = CmdPending"
    by simp_all
  from Cons.IH [OF one(1) this] one(2) show ?case by auto
qed simp

lemma listed:
  assumes "queue_ok (db_commands d)"
  shows "unique_on oc_id (list_runnable_after after n d) \<and>
    (\<forall>r\<in>set (list_runnable_after after n d). r \<in> set (db_commands d) \<and> oc_status r = CmdPending)"
proof -
  have "unique_on oc_id (sort_key oc_id (filter (\<lambda>r. oc_status r = CmdPending \<and> after < oc_id r) (db_commands d)))"
    using assms unique_on_filter [of oc_id "db_commands d"]
    by (simp add: queue_ok_def unique_on_def distinct_map)
  then have "unique_on oc_id (list_runnable_after after n d)"
    by (simp add: list_runnable_after_def unique_on_def take_map [symmetric])
  then show ?thesis by (auto simp: list_runnable_after_def dest: in_set_takeD)
qed

lemma tick_rounds_backlog:
  "queue_ok (commands_of s) \<Longrightarrow> queue_ok (commands_of (tick_rounds W after n s)) \<and>
   queue_backlog (commands_of (tick_rounds W after n s)) \<le> queue_backlog (commands_of s)"
proof (induction W after n s rule: tick_rounds.induct)
  case (1 W after n s)
  let ?rows = "list_runnable_after after (wk_batch W - n) (ws_db s)"
  show ?case
  proof (cases "wk_batch W \<le> n \<or> ?rows = []")
    case True
    then show ?thesis using 1(2) by (auto simp: tick_rounds.simps [of W after n s])
  next
    case False
    have all: "queue_ok (commands_of (fold (worker_process W) ?rows s))"
      "queue_backlog (commands_of (fold (worker_process W) ?rows s)) \<le> queue_backlog (commands_of s)"
      using processes_backlog [OF 1(2), of ?rows W] listed [OF 1(2)] by (simp_all add: add_leD1)
    obtain r rs where rows: "?rows = r # rs" using False by (cases ?rows) simp_all
    have step: "tick_rounds W after n s =
        tick_rounds W (oc_id (last ?rows)) (n + length ?rows) (fold (worker_process W) ?rows s)"
      using False rows by (simp add: tick_rounds.simps [of W after n s])
    have IH: "queue_ok (commands_of (tick_rounds W (oc_id (last ?rows)) (n + length ?rows) (fold (worker_process W) ?rows s))) \<and>
       queue_backlog (commands_of (tick_rounds W (oc_id (last ?rows)) (n + length ?rows) (fold (worker_process W) ?rows s)))
         \<le> queue_backlog (commands_of (fold (worker_process W) ?rows s))"
      using 1(1) [OF _ rows] False all(1) rows by simp
    then show ?thesis using all(2) unfolding step by (meson le_trans)
  qed
qed

lemma backlog_pending: "0 < queue_backlog cs \<longleftrightarrow> (\<exists>r\<in>set cs. oc_status r = CmdPending)"
  by (induction cs) (auto simp: queue_backlog_def command_budget_def)

lemma tick_progress:
  assumes "queue_ok (commands_of s)" and "0 < wk_batch W" and "0 < queue_backlog (commands_of s)"
  shows "queue_backlog (commands_of (worker_tick W s)) < queue_backlog (commands_of s)"
proof -
  let ?rows = "list_runnable_after 0 (wk_batch W) (ws_db s)"
  obtain x where "x \<in> set (commands_of s)" "oc_status x = CmdPending" "0 < oc_id x"
    using assms(1,3) by (auto simp: backlog_pending queue_ok_def)
  then have "x \<in> set (sort_key oc_id (filter (\<lambda>r. oc_status r = CmdPending \<and> 0 < oc_id r) (commands_of s)))"
    by simp
  then have "sort_key oc_id (filter (\<lambda>r. oc_status r = CmdPending \<and> 0 < oc_id r) (commands_of s)) \<noteq> []"
    by (metis empty_iff empty_set)
  then obtain r rs where rows: "?rows = r # rs"
    using assms(2) by (cases ?rows) (auto simp: list_runnable_after_def)
  have all: "queue_ok (commands_of (fold (worker_process W) ?rows s))"
    "queue_backlog (commands_of (fold (worker_process W) ?rows s)) + length ?rows \<le> queue_backlog (commands_of s)"
    using processes_backlog [OF assms(1), of ?rows W] listed [OF assms(1)] by simp_all
  have "worker_tick W s = tick_rounds W (oc_id (last ?rows)) (length ?rows) (fold (worker_process W) ?rows s)"
    using assms(2) rows by (simp add: worker_tick_def tick_rounds.simps [of W 0 0 s])
  then show ?thesis
    using tick_rounds_backlog [OF all(1), of W "oc_id (last ?rows)" "length ?rows"] all(2) rows by simp
qed

interpretation worker_queue: draining "\<lambda>s. queue_ok (commands_of s)" "\<lambda>W. 0 < wk_batch W"
  "\<lambda>s. queue_backlog (commands_of s)" worker_tick
  by unfold_locales (simp_all add: worker_tick_def [of _ s for s] tick_rounds_backlog tick_progress [unfolded worker_tick_def])

text \<open>
  Claim C21: The queue drains. However the executors, the catalogue, the clock and the recorders
  change between ticks, once as many ticks have run as the pending commands have attempts left
  (one for a command that is out of them), no command is pending: each is done or failed.
\<close>

theorem queue_drains:
  assumes "db_ok (ws_db s)" and "\<forall>W\<in>set ticks. 0 < wk_batch W"
    and "queue_backlog (db_commands (ws_db s)) \<le> length ticks"
  shows "\<forall>r\<in>set (db_commands (ws_db (fold worker_tick ticks s))). oc_status r \<noteq> CmdPending"
proof -
  have "queue_backlog (commands_of (fold worker_tick ticks s)) = 0"
    by (rule worker_queue.drained) (use assms in \<open>simp_all add: db_queue_ok list_all_iff\<close>)
  then show ?thesis using backlog_pending [of "commands_of (fold worker_tick ticks s)"] by simp
qed


section \<open>Explicit runs\<close>

definition running_commands :: "db \<Rightarrow> command_row set" where
  "running_commands d = {r \<in> set (db_commands d). oc_status r = CmdRunning}"

definition active_jobs :: "db \<Rightarrow> job_row set" where
  "active_jobs d = {j \<in> set (db_jobs d). jb_status j \<in> {JobQueued, JobRunning}}"

lemma claim_run_answer:
  "claim_run F W decode action key payload origin input s = (Inl answer, s1) \<Longrightarrow> ws_db s1 = ws_db s"
  by (auto simp: claim_run_def confirm_command_def split: if_splits sum.splits prod.splits option.splits)

lemma claim_run_claims:
  assumes "claim_run F W decode action key payload origin input s = (Inr r, s1)"
  shows "db_jobs (ws_db s1) = db_jobs (ws_db s) \<and> db_job_seq (ws_db s1) = db_job_seq (ws_db s) \<and>
    oc_status r = CmdRunning \<and> r \<in> set (commands_of s1) \<and>
    (\<forall>x\<in>set (commands_of s1). oc_id x = oc_id r \<or> x \<in> set (commands_of s))"
  using assms
  by (auto simp: claim_run_def confirm_command_def rerun_command_def add_command_def new_command_def Let_def
      claim_command_def sql_update_def dest!: original_command_mem
      intro!: rev_image_eqI split: if_splits sum.splits prod.splits option.splits)

lemma with_command_running:
  assumes "\<And>x. oc_status (f x) \<noteq> CmdRunning" and "\<forall>x\<in>set cs. oc_id x = i \<or> x \<in> set (db_commands d)"
    and "db_commands d' = with_command i f cs"
  shows "running_commands d' \<subseteq> running_commands d"
  using assms by (auto simp: running_commands_def with_command_def sql_update_def)

lemma jobs_frame [simp]:
  "db_jobs (ws_db (worker_done i res s)) = db_jobs (ws_db s)"
  "db_jobs (ws_db (worker_mark_failed i e log s)) = db_jobs (ws_db s)"
  "db_jobs (ws_db (worker_retry i e log s)) = db_jobs (ws_db s)"
  by (simp_all add: worker_done_def worker_mark_failed_def worker_retry_def mark_done_def mark_failed_def
      retry_command_def update_command_def)

text \<open>The state of a claimed run: its own command runs, and what is new besides is its own job, either
  queued with no command yet or running for that command.\<close>

definition own_job :: "'w worker \<Rightarrow> command_row \<Rightarrow> int \<Rightarrow> job_row \<Rightarrow> bool" where
  "own_job W r job j \<longleftrightarrow> wk_jobs W \<and> job \<noteq> 0 \<and> jb_id j = job \<and>
     (jb_status j = JobQueued \<and> jb_command j = None \<or> jb_status j = JobRunning \<and> jb_command j = Some (oc_id r))"

definition claimed_state :: "'w worker \<Rightarrow> command_row \<Rightarrow> int \<Rightarrow> db \<Rightarrow> 'w worker_state \<Rightarrow> bool" where
  "claimed_state W r job d t \<longleftrightarrow> r \<in> set (commands_of t) \<and> oc_status r = CmdRunning \<and>
     (\<forall>x\<in>set (commands_of t). oc_id x = oc_id r \<or> x \<in> set (db_commands d)) \<and>
     (\<forall>j\<in>set (db_jobs (ws_db t)). j \<in> set (db_jobs d) \<or> own_job W r job j)"

lemma job_begin_own:
  assumes "0 \<le> db_job_seq (ws_db s)" and "run_job_begin F W l a t s = (job, s')"
  shows "db_commands (ws_db s') = db_commands (ws_db s) \<and>
    (\<forall>j\<in>set (db_jobs (ws_db s')). j \<in> set (db_jobs (ws_db s)) \<or> own_job W r job j)"
  using assms
  by (auto simp: run_job_begin_def worker_job_begin_def job_begin_def job_insert_def Let_def own_job_def
      split: option.splits if_splits)

lemma claimed_state_begin:
  assumes "db_ok (ws_db s)" and "claim_run F W decode action key payload origin input s = (Inr r, s1)"
    and "run_job_begin F W l a t s1 = (job, s2)"
  shows "claimed_state W r job (ws_db s) s2"
proof -
  note claims = claim_run_claims [OF assms(2)]
  have seq: "0 \<le> db_job_seq (ws_db s1)" using assms(1) claims by (simp add: db_ok_def ids_ok_def)
  show ?thesis using claims job_begin_own [OF seq assms(3)] by (simp add: claimed_state_def)
qed

lemma claimed_state_running:
  assumes "claimed_state W r job d t"
  shows "claimed_state W r job d (worker_job_running W job (oc_id r) t)"
proof -
  have "j \<in> set (db_jobs d) \<or> own_job W r job j" if "j \<in> set (db_jobs (ws_db (worker_job_running W job (oc_id r) t)))" for j
  proof (cases "wk_jobs W \<and> job \<noteq> 0")
    case False
    then show ?thesis using that assms by (auto simp: worker_job_running_def worker_job_def claimed_state_def)
  next
    case True
    then show ?thesis using that assms
      by (auto simp: worker_job_running_def worker_job_def job_running_def job_update_def sql_update_def
          claimed_state_def own_job_def)
  qed
  then show ?thesis using assms by (simp add: claimed_state_def)
qed

lemma claimed_state_execute:
  assumes "claimed_state W r job d t"
    and "worker_execute W r a input (unless_refused F OpJobRunning (worker_job_running W job (oc_id r)) t) = (out, t')"
  shows "claimed_state W r job d t'"
proof -
  have "ws_db t' = ws_db (unless_refused F OpJobRunning (worker_job_running W job (oc_id r)) t)"
    by (rule worker_execute_frame [OF assms(2)])
  then show ?thesis using assms(1) claimed_state_running [OF assms(1)]
    by (cases "F OpJobRunning t") (simp_all add: unless_refused_def claimed_state_def)
qed

text \<open>Marking the command and then the job settles the run; recovery settles a run that could not.\<close>

lemma own_job_settled:
  assumes "claimed_state W r job d t" and "db_jobs (ws_db t') = db_jobs (ws_db t)"
  shows "active_jobs (ws_db (worker_job_done W job t')) \<subseteq> active_jobs d"
    and "active_jobs (ws_db (worker_job_fail W job e t')) \<subseteq> active_jobs d"
  using assms
  by (auto simp: active_jobs_def worker_job_done_def worker_job_fail_def worker_job_def job_done_def job_fail_def
      job_set_status_def job_update_def sql_update_def claimed_state_def own_job_def)

lemma claimed_command_settled:
  assumes "claimed_state W r job d t"
  shows "running_commands (ws_db (worker_mark_failed (oc_id r) e log t)) \<subseteq> running_commands d"
    and "running_commands (ws_db (worker_done (oc_id r) res t)) \<subseteq> running_commands d"
proof -
  have cs: "\<forall>x\<in>set (commands_of t). oc_id x = oc_id r \<or> x \<in> set (db_commands d)"
    using assms by (simp add: claimed_state_def)
  show "running_commands (ws_db (worker_mark_failed (oc_id r) e log t)) \<subseteq> running_commands d"
    by (rule with_command_running [OF _ cs, of "run_failed e log"]) (simp_all add: worker_marks run_failed_def)
  show "running_commands (ws_db (worker_done (oc_id r) res t)) \<subseteq> running_commands d"
    by (rule with_command_running [OF _ cs, of "run_done res"]) (simp_all add: worker_marks run_done_def)
qed

lemma claimed_state_recovers:
  assumes "claimed_state W r job d t"
  shows "running_commands (recover_interrupted now (ws_db t)) = {}"
    and "active_jobs (recover_interrupted now (ws_db t)) \<subseteq> active_jobs d"
proof -
  show "running_commands (recover_interrupted now (ws_db t)) = {}"
    using recovery_settles [of now "ws_db t"] by (auto simp: running_commands_def)
  have "interrupted_job (ws_db t) j" if "own_job W r job j" for j
    using that assms by (auto simp: own_job_def interrupted_job_def claimed_state_def list_ex_iff)
  then show "active_jobs (recover_interrupted now (ws_db t)) \<subseteq> active_jobs d"
    using assms by (auto simp: active_jobs_def recover_interrupted_def Let_def sql_update_def claimed_state_def)
qed

lemma unless_refused_jobs:
  "P (f s) \<Longrightarrow> P (unless_refused F call f s) \<or> (\<exists>t. F call t \<noteq> None)"
  by (auto simp: unless_refused_def split: option.splits)

text \<open>What a run that has been claimed comes to: settled, or left for recovery with the refusal as the
  answer.\<close>

definition run_settled :: "'w run_faults \<Rightarrow> db \<Rightarrow> 'w worker_state \<Rightarrow> bool" where
  "run_settled F d s \<longleftrightarrow> running_commands (ws_db s) \<subseteq> running_commands d \<and>
     (active_jobs (ws_db s) \<subseteq> active_jobs d \<or> (\<exists>t. F OpJobStatus t \<noteq> None))"

definition run_left :: "'w run_faults \<Rightarrow> db \<Rightarrow> run_view \<times> run_error option \<Rightarrow> 'w worker_state \<Rightarrow> bool" where
  "run_left F d answer s \<longleftrightarrow> (\<exists>e. F OpMark s = Some e \<and> answer = (no_view, Some (RunError e))) \<and>
     (\<exists>i. \<forall>r\<in>running_commands (ws_db s) - running_commands d. oc_id r = i) \<and>
     (\<forall>now. running_commands (recover_interrupted now (ws_db s)) = {} \<and>
        active_jobs (recover_interrupted now (ws_db s)) \<subseteq> active_jobs d)"

lemma claimed_state_left:
  assumes "claimed_state W r job d s" and "F OpMark s = Some e"
  shows "run_left F d (no_view, Some (RunError e)) s"
proof -
  have "oc_id x = oc_id r" if "x \<in> running_commands (ws_db s) - running_commands d" for x
    using assms(1) that by (auto simp: claimed_state_def running_commands_def)
  then show ?thesis using assms(2) claimed_state_recovers [OF assms(1)] by (auto simp: run_left_def)
qed

lemma running_jobs_frame [simp]:
  "running_commands (ws_db (unless_refused F OpJobStatus (worker_job_fail W job e) s)) = running_commands (ws_db s)"
  "running_commands (ws_db (unless_refused F OpJobStatus (worker_job_done W job) s)) = running_commands (ws_db s)"
  "running_commands (ws_db (unless_refused F OpRecord (worker_record W ev) s)) = running_commands (ws_db s)"
  "active_jobs (ws_db (unless_refused F OpRecord (worker_record W ev) s)) = active_jobs (ws_db s)"
  by (simp_all add: unless_refused_def running_commands_def active_jobs_def split: option.split)

lemma run_failed_end_settles:
  assumes "claimed_state W r job d s" and "run_failed_end F W decode (oc_id r) job e log attempted s = (answer, s')"
  shows "run_settled F d s' \<or> run_left F d answer s'"
proof (cases "F OpMark s")
  case (Some m)
  then show ?thesis using assms claimed_state_left [OF assms(1)] by (auto simp: run_failed_end_def)
next
  case None
  let ?s1 = "unless_refused F OpJobStatus (worker_job_fail W job e) (worker_mark_failed (oc_id r) e log s)"
  have s': "s' = ?s1" using assms(2) None by (auto simp: run_failed_end_def Let_def)
  have "active_jobs (ws_db ?s1) \<subseteq> active_jobs d \<or> (\<exists>t. F OpJobStatus t \<noteq> None)"
    by (rule unless_refused_jobs) (rule own_job_settled [OF assms(1)], simp)
  then show ?thesis using claimed_command_settled [OF assms(1)] by (simp add: s' run_settled_def)
qed

lemma run_done_end_settles:
  assumes "claimed_state W r job d s" and "run_done_end F W decode (oc_id r) job a res s = (answer, s')"
  shows "run_settled F d s' \<or> run_left F d answer s'"
proof (cases "F OpMark s")
  case (Some m)
  then show ?thesis using assms claimed_state_left [OF assms(1)] by (auto simp: run_done_end_def)
next
  case None
  let ?s1 = "unless_refused F OpJobStatus (worker_job_done W job) (worker_done (oc_id r) res s)"
  have s': "running_commands (ws_db s') = running_commands (ws_db ?s1)" "active_jobs (ws_db s') = active_jobs (ws_db ?s1)"
    using assms(2) None by (auto simp: run_done_end_def Let_def split: if_splits)
  have "active_jobs (ws_db ?s1) \<subseteq> active_jobs d \<or> (\<exists>t. F OpJobStatus t \<noteq> None)"
    by (rule unless_refused_jobs) (rule own_job_settled [OF assms(1)], simp)
  then show ?thesis using claimed_command_settled [OF assms(1)] by (simp add: s' run_settled_def)
qed


end
