(* ===== verification/Worker_Inv.thy ===== *)
theory Worker_Inv
  imports Worker_Laws
begin

text \<open>
  The command queue under everything that writes to it: commits that enqueue, ticks, explicit runs
  and recovery, each explicit run taken apart into the store calls it makes, any of which may be its
  last. In every state these reach, the schema's constraints hold, runs of one action and
  key never overlap, and no command has been attempted more than five times.
\<close>

section \<open>The invariant\<close>

definition attempts_ok :: "command_row list \<Rightarrow> bool" where
  "attempts_ok cs \<longleftrightarrow> (\<forall>r\<in>set cs. 0 \<le> oc_attempts r \<and> oc_attempts r \<le> max_command_attempts \<and>
     (active r \<longrightarrow> oc_attempts r < max_command_attempts))"

definition queue_inv :: "db \<Rightarrow> bool" where
  "queue_inv d \<longleftrightarrow> db_ok d \<and> commands_inv d \<and> attempts_ok (db_commands d)"

lemma commands_inv_cong: "db_commands d' = db_commands d \<Longrightarrow> commands_inv d' = commands_inv d"
  by (simp add: commands_inv_def active_keys_def reruns_follow_def)

text \<open>A run's last write to its own command.\<close>

definition mark_fits :: "(command_row \<Rightarrow> command_row) \<Rightarrow> command_row \<Rightarrow> bool" where
  "mark_fits f r \<longleftrightarrow> 0 \<le> oc_attempts (f r) \<and> oc_attempts (f r) \<le> max_command_attempts \<and>
     (active (f r) \<longrightarrow> oc_attempts (f r) < max_command_attempts)"

lemma queue_inv_mark:
  assumes "queue_inv d" and "db_ok d'" and "db_commands d' = with_command (oc_id r) f (db_commands d)"
    and "r \<in> set (db_commands d)" and "active r" and "mark_fits f r"
    and "\<And>x. command_key (f x) = command_key x" and "\<And>x. oc_rerun (f x) = oc_rerun x"
  shows "queue_inv d'"
proof -
  have only: "x = r" if "x \<in> set (db_commands d)" "oc_id x = oc_id r" for x
    using assms(1,4) that unique_on_eq [of oc_id "db_commands d" x r]
    by (simp add: queue_inv_def db_ok_def commands_ok_def)
  have "commands_inv d'"
  proof (rule commands_inv_update [where P = "\<lambda>x. oc_id x = oc_id r"])
    show "commands_inv d" using assms(1) by (simp add: queue_inv_def)
    show "db_commands d' = sql_update (\<lambda>x. oc_id x = oc_id r) f (db_commands d)"
      using assms(3) by (simp add: with_command_def)
    show "\<And>x. x \<in> set (db_commands d) \<Longrightarrow> active (f x) \<Longrightarrow> oc_id x = oc_id r \<Longrightarrow> active x"
      using only assms(5) by blast
  qed (use assms(7,8) in simp_all)
  moreover have "attempts_ok (db_commands d')"
    using assms(1,6) only unfolding queue_inv_def attempts_ok_def mark_fits_def assms(3) with_command_def sql_update_def
    by fastforce
  ultimately show ?thesis using assms(2) by (simp add: queue_inv_def)
qed

lemma run_marks_key:
  "command_key (run_done res x) = command_key x" "oc_rerun (run_done res x) = oc_rerun x"
  "command_key (run_failed e log x) = command_key x" "oc_rerun (run_failed e log x) = oc_rerun x"
  "command_key (run_retried e log x) = command_key x" "oc_rerun (run_retried e log x) = oc_rerun x"
  by (simp_all add: run_done_def run_failed_def run_retried_def command_key_def)

lemma run_outcome_key: "run_outcome r f \<Longrightarrow> command_key (f x) = command_key x" "run_outcome r f \<Longrightarrow> oc_rerun (f x) = oc_rerun x"
  by (auto simp: run_marks_key elim!: run_outcome.cases)

lemma run_outcome_fits: "run_outcome r f \<Longrightarrow> 0 \<le> oc_attempts r \<Longrightarrow> oc_attempts r < max_command_attempts \<Longrightarrow> mark_fits f r"
  by (auto simp: mark_fits_def active_def run_done_def run_failed_def run_retried_def elim!: run_outcome.cases)

section \<open>The constraints under the worker\<close>

lemma worker_marks_ok [preserves]:
  assumes "db_ok (ws_db s)"
  shows "db_ok (ws_db (worker_done i res s))" and "db_ok (ws_db (worker_mark_failed i e log s))"
    and "db_ok (ws_db (worker_retry i e log s))" and "db_ok (ws_db (worker_record W ev s))"
    and "db_ok (ws_db (worker_job_running W j c s))" and "db_ok (ws_db (worker_job_done W j s))"
    and "db_ok (ws_db (worker_job_fail W j e s))"
  using assms
  by (simp_all add: worker_done_def worker_mark_failed_def worker_retry_def worker_record_def worker_job_running_def
      worker_job_done_def worker_job_fail_def worker_job_def command_updates_ok
      job_ops_ok activity_record_ok)

lemma worker_job_begin_ok: "db_ok (ws_db s) \<Longrightarrow> worker_job_begin W l a t s = (j, s') \<Longrightarrow> db_ok (ws_db s')"
  by (auto simp: worker_job_begin_def split: if_splits prod.splits intro: job_begin_ok)

lemma worker_open_job_ok: "db_ok (ws_db s) \<Longrightarrow> worker_open_job W r s = (j, s') \<Longrightarrow> db_ok (ws_db s')"
  by (auto simp: worker_open_job_def Let_def split: if_splits prod.splits intro!: worker_marks_ok dest: worker_job_begin_ok)

lemma worker_fail_ok: "db_ok (ws_db s) \<Longrightarrow> db_ok (ws_db (worker_fail W r res e job s))"
  by (simp add: worker_fail_def worker_marks_ok)

lemma worker_process_ok:
  assumes "db_ok (ws_db s)"
  shows "db_ok (ws_db (worker_process W r s))"
proof -
  obtain job s1 where j: "worker_open_job W r s = (job, s1)" by fastforce
  have ok1: "db_ok (ws_db s1)" by (rule worker_open_job_ok [OF assms j])
  show ?thesis
  proof (cases "wk_get W (oc_action r)")
    case (Some a)
    obtain res err s2 where x: "worker_execute W r a no_invocation s1 = ((res, err), s2)" by (metis surj_pair)
    then show ?thesis using worker_execute_frame [OF x] ok1 j Some
      by (cases err) (simp_all add: worker_process_def Let_def worker_fail_ok worker_marks_ok)
  qed (use j ok1 in \<open>simp add: worker_process_def worker_fail_ok\<close>)
qed

section \<open>Ticks\<close>

lemma process_inv:
  assumes "queue_inv (ws_db s)" and "r \<in> set (commands_of s)" and "oc_status r = CmdPending"
  shows "queue_inv (ws_db (worker_process W r s))"
proof -
  obtain f where f: "run_outcome r f" "commands_of (worker_process W r s) = with_command (oc_id r) f (commands_of s)"
    using process_outcome by blast
  have act: "active r" using assms(3) by (simp add: active_def)
  have "0 \<le> oc_attempts r" "oc_attempts r < max_command_attempts"
    using assms(1,2) act by (simp_all add: queue_inv_def attempts_ok_def)
  then have fits: "mark_fits f r" by (rule run_outcome_fits [OF f(1)])
  show ?thesis
    by (rule queue_inv_mark [OF assms(1) _ f(2) assms(2) act fits])
      (use assms(1) f(1) in \<open>simp_all add: queue_inv_def worker_process_ok run_outcome_key\<close>)
qed

lemma processes_inv:
  assumes "queue_inv (ws_db s)" and "unique_on oc_id rows"
    and "\<forall>r\<in>set rows. r \<in> set (commands_of s) \<and> oc_status r = CmdPending"
  shows "queue_inv (ws_db (fold (worker_process W) rows s))"
  using assms
proof (induction rows arbitrary: s)
  case (Cons r rows)
  have ne: "\<And>x. x \<in> set rows \<Longrightarrow> oc_id x \<noteq> oc_id r" and u: "unique_on oc_id rows"
    using Cons.prems(2) by (auto simp: unique_on_def) (metis imageI)
  have "queue_inv (ws_db (fold (worker_process W) rows (worker_process W r s)))"
    by (rule Cons.IH [OF process_inv u]) (use Cons.prems ne in \<open>simp_all add: process_other\<close>)
  then show ?case by simp
qed simp

lemma queue_inv_queue: "queue_inv d \<Longrightarrow> queue_ok (db_commands d)"
  by (simp add: queue_inv_def db_queue_ok)

lemma tick_rounds_inv: "queue_inv (ws_db s) \<Longrightarrow> queue_inv (ws_db (tick_rounds W after n s))"
proof (induction W after n s rule: tick_rounds.induct)
  case (1 W after n s)
  let ?rows = "list_runnable_after after (wk_batch W - n) (ws_db s)"
  show ?case
  proof (cases "wk_batch W \<le> n \<or> ?rows = []")
    case True
    then show ?thesis using 1(2) by (auto simp: tick_rounds.simps [of W after n s])
  next
    case False
    obtain r rs where rows: "?rows = r # rs" using False by (cases ?rows) simp_all
    have all: "queue_inv (ws_db (fold (worker_process W) ?rows s))"
      using processes_inv [OF 1(2), of ?rows W] listed [OF queue_inv_queue [OF 1(2)]] by simp
    have "tick_rounds W after n s =
        tick_rounds W (oc_id (last ?rows)) (n + length ?rows) (fold (worker_process W) ?rows s)"
      using False rows by (simp add: tick_rounds.simps [of W after n s])
    then show ?thesis using 1(1) [OF _ rows] False all rows by simp
  qed
qed

section \<open>Explicit runs\<close>

lemma attempts_ok_snoc:
  "attempts_ok (cs @ [r]) \<longleftrightarrow> attempts_ok cs \<and> 0 \<le> oc_attempts r \<and> oc_attempts r \<le> max_command_attempts \<and>
     (active r \<longrightarrow> oc_attempts r < max_command_attempts)"
  by (auto simp: attempts_ok_def)

lemma claim_attempts:
  assumes "queue_inv d" and "original_command a k d = Some x" and "oc_status x = CmdPending"
  shows "attempts_ok (sql_update (\<lambda>y. oc_id y = oc_id x) (claim_command ref) (db_commands d))"
proof -
  have "y = x" if "y \<in> set (db_commands d)" "oc_id y = oc_id x" for y
    using find_original_key [OF assms(2) _ that(2,1)] assms(1) by (simp add: queue_inv_def)
  moreover have "active x" using assms(3) by (simp add: active_def)
  ultimately show ?thesis
    using assms(1) unfolding queue_inv_def attempts_ok_def sql_update_def by (fastforce simp: claim_command_def)
qed

lemma add_row:
  "add_command a k p st c rr ref d = (r, d') \<Longrightarrow>
   db_commands d' = db_commands d @ [r] \<and> oc_status r = st \<and> oc_attempts r = 0"
  by (auto simp: add_command_def new_command_def Let_def)

lemma rerun_row:
  "rerun_command a k p ref now d = Inr (r, d') \<Longrightarrow>
   db_commands d' = db_commands d @ [r] \<and> oc_status r = CmdRunning \<and> oc_attempts r = 0"
  by (auto simp: rerun_command_def Let_def dest!: add_row split: if_splits)

lemma confirm_row:
  "confirm_command a k p ref now d = Inr ((r, b), d') \<Longrightarrow> original_command a k d = None \<Longrightarrow>
   db_commands d' = db_commands d @ [r] \<and> oc_status r = CmdRunning \<and> oc_attempts r = 0"
  by (cases "add_command a k p CmdRunning now False ref d")
    (auto simp: confirm_command_def dest!: add_row split: if_splits)

lemma claim_row:
  assumes "confirm_command a k p ref now d = Inr ((r, True), d')" and "original_command a k d = Some x"
  shows "oc_status x = CmdPending" and "r = claim_command ref x"
    and "db_commands d' = sql_update (\<lambda>y. oc_id y = oc_id x) (claim_command ref) (db_commands d)"
  using assms by (auto simp: confirm_command_def split: if_splits option.splits)

lemma claimed_inv:
  assumes "queue_inv (ws_db s)" and "claim_run F W decode action key payload origin input s = (Inr r, s1)"
  shows "queue_inv (ws_db s1)"
proof (cases "iv_rerun input")
  case True
  then have run: "rerun_command action key payload origin (clock_ms W s) (ws_db s) = Inr (r, ws_db s1)"
    using assms(2) by (auto simp: claim_run_def split: sum.splits option.splits)
  then show ?thesis
    using rerun_row [OF run] assms(1) command_step_inv [OF command_step.Rerun [OF run]]
    by (simp add: queue_inv_def attempts_ok_snoc active_def max_command_attempts_def)
next
  case False
  then have run: "confirm_command action key payload origin (clock_ms W s) (ws_db s) = Inr ((r, True), ws_db s1)"
    using assms(2) by (auto simp: claim_run_def split: sum.splits prod.splits if_splits option.splits)
  have inv: "db_ok (ws_db s1) \<and> commands_inv (ws_db s1)"
    using command_step_inv [OF command_step.Confirm [OF run]] assms(1) by (simp add: queue_inv_def)
  show ?thesis
  proof (cases "original_command action key (ws_db s)")
    case None
    then show ?thesis
      using confirm_row [OF run None] assms(1) inv by (simp add: queue_inv_def attempts_ok_snoc active_def max_command_attempts_def)
  next
    case (Some x)
    note x = claim_row [OF run Some]
    show ?thesis using inv claim_attempts [OF assms(1) Some x(1)] by (simp add: queue_inv_def x(3))
  qed
qed

lemma queue_inv_frame:
  "queue_inv d \<Longrightarrow> db_ok d' \<Longrightarrow> db_commands d' = db_commands d \<Longrightarrow> queue_inv d'"
  using commands_inv_cong [of d' d] by (simp add: queue_inv_def)

section \<open>Everything that writes to the queue\<close>

text \<open>One step is one transaction, so the application may die, and a context may be cancelled, between
  any two of them. An explicit run is its claim, its job, its execution and the marks that settle it;
  the marks only ever touch a command that is running. Recovery may come at any moment.\<close>

inductive queue_step :: "'w worker_state \<Rightarrow> 'w worker_state \<Rightarrow> bool" where
  Fired: "enqueue_command a k p c ref (ws_db s) = Inr d \<Longrightarrow> queue_step s (s\<lparr>ws_db := d\<rparr>)"
| Ticked: "queue_step s (worker_tick W s)"
| Processed: "\<lbrakk>r \<in> set (commands_of s); oc_status r = CmdPending\<rbrakk> \<Longrightarrow> queue_step s (worker_process W r s)"
| Opened: "worker_open_job W r s = (job, s') \<Longrightarrow> queue_step s s'"
| ClaimedRun: "claim_run F W decode a k p ref input s = (out, s') \<Longrightarrow> queue_step s s'"
| JobBegun: "worker_job_begin W l a k s = (job, s') \<Longrightarrow> queue_step s s'"
| JobLinked: "queue_step s (worker_job_running W job c s)"
| Executed: "worker_execute W r a input s = (out, s') \<Longrightarrow> queue_step s s'"
| RunFailed: "\<lbrakk>r \<in> set (commands_of s); oc_status r = CmdRunning\<rbrakk> \<Longrightarrow> queue_step s (worker_mark_failed (oc_id r) e log s)"
| RunDone: "\<lbrakk>r \<in> set (commands_of s); oc_status r = CmdRunning\<rbrakk> \<Longrightarrow> queue_step s (worker_done (oc_id r) res s)"
| JobEnded: "s' \<in> {worker_job_done W job s, worker_job_fail W job e s, worker_record W ev s} \<Longrightarrow> queue_step s s'"
| Restarted: "queue_step s (s\<lparr>ws_db := recover_interrupted now (ws_db s)\<rparr>)"

text \<open>An explicit run with any refusals is a sequence of these steps.\<close>

lemma unless_refused_step: "queue_step s (f s) \<Longrightarrow> queue_step\<^sup>*\<^sup>* s (unless_refused F call f s)"
  by (auto simp: unless_refused_def split: option.split)

lemma run_failed_end_steps:
  assumes "r \<in> set (commands_of s)" and "oc_status r = CmdRunning"
    and "run_failed_end F W decode (oc_id r) job e log attempted s = (answer, s')"
  shows "queue_step\<^sup>*\<^sup>* s s'"
proof (cases "F OpMark s")
  case None
  then have "s' = unless_refused F OpJobStatus (worker_job_fail W job e) (worker_mark_failed (oc_id r) e log s)"
    using assms(3) by (auto simp: run_failed_end_def Let_def)
  then show ?thesis
    using converse_rtranclp_into_rtranclp [of queue_step, OF queue_step.RunFailed [OF assms(1,2)] unless_refused_step]
      queue_step.JobEnded by blast
qed (use assms(3) in \<open>auto simp: run_failed_end_def\<close>)

lemma run_done_end_steps:
  assumes "r \<in> set (commands_of s)" and "oc_status r = CmdRunning"
    and "run_done_end F W decode (oc_id r) job a res s = (answer, s')"
  shows "queue_step\<^sup>*\<^sup>* s s'"
proof (cases "F OpMark s")
  case None
  let ?s1 = "unless_refused F OpJobStatus (worker_job_done W job) (worker_done (oc_id r) res s)"
  have s': "s' = ?s1 \<or> s' = unless_refused F OpRecord (worker_record W (action_run (action_label a) [])) ?s1"
    using assms(3) None by (auto simp: run_done_end_def Let_def)
  have "queue_step\<^sup>*\<^sup>* s ?s1"
    using converse_rtranclp_into_rtranclp [of queue_step, OF queue_step.RunDone [OF assms(1,2)] unless_refused_step]
      queue_step.JobEnded by blast
  moreover have "queue_step\<^sup>*\<^sup>* ?s1 (unless_refused F OpRecord (worker_record W (action_run (action_label a) [])) ?s1)"
    by (rule unless_refused_step) (rule queue_step.JobEnded, blast)
  ultimately show ?thesis using s' by fastforce
qed (use assms(3) in \<open>auto simp: run_done_end_def\<close>)

lemma confirm_steps:
  assumes "worker_confirm F W decode action key payload origin input s = (answer, s')"
  shows "queue_step\<^sup>*\<^sup>* s s'"
proof -
  obtain claimed s1 where c: "claim_run F W decode action key payload origin input s = (claimed, s1)" by fastforce
  have one: "queue_step s s1" by (rule queue_step.ClaimedRun [OF c])
  show ?thesis
  proof (cases claimed)
    case (Inl out)
    then show ?thesis using assms c one by (auto simp: worker_confirm_def)
  next
    case (Inr r)
    have r: "r \<in> set (commands_of s1)" "oc_status r = CmdRunning" using claim_run_claims [OF c [unfolded Inr]] by auto
    obtain job s2 where j: "run_job_begin F W (run_label W action) action key s1 = (job, s2)" by fastforce
    have two: "queue_step\<^sup>*\<^sup>* s1 s2" and r2: "r \<in> set (commands_of s2)"
      using j r(1) worker_job_begin_frame [of W "run_label W action" action key s1 job s2]
      by (auto simp: run_job_begin_def split: option.splits intro: queue_step.JobBegun)
    show ?thesis
    proof (cases "wk_get W action")
      case None
      then have "run_failed_end F W decode (oc_id r) job (unknown_action action) no_log False s2 = (answer, s')"
        using assms c Inr j by (simp add: worker_confirm_def)
      from run_failed_end_steps [OF r2 r(2) this] show ?thesis
        using one two by (meson converse_rtranclp_into_rtranclp rtranclp_trans)
    next
      case (Some a)
      let ?t = "unless_refused F OpJobRunning (worker_job_running W job (oc_id r)) s2"
      obtain res err s4 where x: "worker_execute W r a input ?t = ((res, err), s4)" by (metis surj_pair)
      have "queue_step\<^sup>*\<^sup>* s2 ?t" by (rule unless_refused_step) (rule queue_step.JobLinked)
      then have four: "queue_step\<^sup>*\<^sup>* s s4"
        using one two queue_step.Executed [OF x] by (meson converse_rtranclp_into_rtranclp rtranclp.rtrancl_into_rtrancl rtranclp_trans)
      have r4: "r \<in> set (commands_of s4)"
        using r2 worker_execute_frame [OF x] by (simp add: unless_refused_def split: option.split)
      have "queue_step\<^sup>*\<^sup>* s4 s'"
        using assms c Inr j Some x run_failed_end_steps [OF r4 r(2)] run_done_end_steps [OF r4 r(2)]
        by (cases err) (auto simp: worker_confirm_def)
      then show ?thesis using four by (rule rtranclp_trans [rotated])
    qed
  qed
qed

section \<open>The invariant is kept\<close>

lemma mark_inv:
  assumes "queue_inv (ws_db t)" and "r \<in> set (commands_of t)" and "oc_status r = CmdRunning"
  shows "queue_inv (ws_db (worker_mark_failed (oc_id r) e log t))" and "queue_inv (ws_db (worker_done (oc_id r) res t))"
proof -
  have act: "active r" using assms(3) by (simp add: active_def)
  have ok: "db_ok (ws_db t)" and n: "0 \<le> oc_attempts r" "oc_attempts r < max_command_attempts"
    using assms act by (simp_all add: queue_inv_def attempts_ok_def)
  show "queue_inv (ws_db (worker_mark_failed (oc_id r) e log t))"
    by (rule queue_inv_mark [OF assms(1) _ _ assms(2) act, where f = "run_failed e log"])
      (use n ok in \<open>simp_all add: worker_marks worker_marks_ok mark_fits_def run_failed_def active_def command_key_def\<close>)
  show "queue_inv (ws_db (worker_done (oc_id r) res t))"
    by (rule queue_inv_mark [OF assms(1) _ _ assms(2) act, where f = "run_done res"])
      (use n ok in \<open>simp_all add: worker_marks worker_marks_ok mark_fits_def run_done_def active_def command_key_def\<close>)
qed

text \<open>Steps that leave the commands alone.\<close>

lemma frame_inv:
  assumes "queue_inv (ws_db s)"
  shows "worker_open_job W r s = (job, s') \<Longrightarrow> queue_inv (ws_db s')"
    and "worker_job_begin W l a k s = (job, s') \<Longrightarrow> queue_inv (ws_db s')"
    and "worker_execute W r ac input s = (out, s') \<Longrightarrow> queue_inv (ws_db s')"
    and "queue_inv (ws_db (worker_job_running W job c s))" and "queue_inv (ws_db (worker_job_done W job s))"
    and "queue_inv (ws_db (worker_job_fail W job e s))" and "queue_inv (ws_db (worker_record W ev s))"
proof -
  have ok: "db_ok (ws_db s)" using assms by (simp add: queue_inv_def)
  show "worker_open_job W r s = (job, s') \<Longrightarrow> queue_inv (ws_db s')"
    using queue_inv_frame [OF assms worker_open_job_ok [OF ok]] worker_open_job_frame by blast
  show "worker_job_begin W l a k s = (job, s') \<Longrightarrow> queue_inv (ws_db s')"
    using queue_inv_frame [OF assms worker_job_begin_ok [OF ok]] worker_job_begin_frame by blast
  show "worker_execute W r ac input s = (out, s') \<Longrightarrow> queue_inv (ws_db s')"
    using assms worker_execute_frame by metis
  show "queue_inv (ws_db (worker_job_running W job c s))" "queue_inv (ws_db (worker_job_done W job s))"
    "queue_inv (ws_db (worker_job_fail W job e s))" "queue_inv (ws_db (worker_record W ev s))"
    by (rule queue_inv_frame [OF assms]; simp add: worker_marks_ok ok)+
qed

lemma claim_run_inv:
  assumes "queue_inv (ws_db s)" and "claim_run F W decode a k p ref input s = (out, s')"
  shows "queue_inv (ws_db s')"
  using assms claim_run_answer [of F W decode a k p ref input s _ s'] claimed_inv [of s F W decode a k p ref input _ s']
  by (cases out) auto

lemma enqueue_inv: "queue_inv d \<Longrightarrow> enqueue_command a k p c ref d = Inr d' \<Longrightarrow> queue_inv d'"
  using command_step_inv [OF command_step.Enqueue, of a k p c ref d d']
  by (auto simp: queue_inv_def enqueue_command_def add_command_def new_command_def Let_def attempts_ok_snoc
      max_command_attempts_def split: if_splits)

lemma recover_inv:
  assumes "queue_inv d"
  shows "queue_inv (recover_interrupted now d)"
proof -
  have "oc_attempts r < max_command_attempts" if "r \<in> set (db_commands d)" "oc_status r = CmdRunning" for r
    using assms that by (simp add: queue_inv_def attempts_ok_def active_def)
  then have "attempts_ok (db_commands (recover_interrupted now d))"
    using assms by (fastforce simp: recover_interrupted_def Let_def queue_inv_def attempts_ok_def sql_update_def active_def)
  then show ?thesis using command_step_inv [OF command_step.Recover, of d now] assms by (simp add: queue_inv_def)
qed

lemma queue_step_inv:
  assumes "queue_step s s'" and "queue_inv (ws_db s)"
  shows "queue_inv (ws_db s')"
  using assms
proof (cases rule: queue_step.cases)
  case (JobEnded W job e ev)
  then show ?thesis using frame_inv [OF assms(2)] by auto
qed (auto simp: worker_tick_def intro: enqueue_inv tick_rounds_inv process_inv claim_run_inv frame_inv mark_inv recover_inv)

text \<open>
  Claim C20: The queue is safe under everything that writes to it. In every state reached from an
  empty database by firing actions, ticks, the single transactions of explicit and automatic runs and
  restarts, in any order, with any executors, refused store calls and runs that the application's end
  cuts short between any two transactions, no command has been attempted more than five times, a
  command that may still run has attempts left, and two commands of one action and key are never
  pending or running together.
\<close>

theorem queue_safe:
  assumes "queue_step\<^sup>*\<^sup>* s0 s" and "ws_db s0 = empty_db"
  shows "\<forall>r\<in>set (db_commands (ws_db s)). 0 \<le> oc_attempts r \<and> oc_attempts r \<le> 5 \<and>
    (oc_status r \<in> {CmdPending, CmdRunning} \<longrightarrow> oc_attempts r < 5 \<and>
       (\<forall>x\<in>set (db_commands (ws_db s)). command_key x = command_key r \<and>
          oc_status x \<in> {CmdPending, CmdRunning} \<longrightarrow> x = r))"
proof -
  have inv: "queue_inv (ws_db s)"
    using assms(1)
  proof (induction rule: rtranclp_induct)
    case base
    then show ?case using empty_db_ok assms(2)
      by (simp add: queue_inv_def commands_inv_def active_keys_def reruns_follow_def attempts_ok_def empty_db_def)
  qed (rule queue_step_inv)
  then have "unique_on command_key (filter active (db_commands (ws_db s)))"
    by (simp add: queue_inv_def commands_inv_def active_keys_def unique_on_def)
  then have "x = r" if "x \<in> set (db_commands (ws_db s))" "r \<in> set (db_commands (ws_db s))"
    "command_key x = command_key r" "active x" "active r" for x r
    by (rule unique_on_eq) (use that in auto)
  then show ?thesis
    using inv by (simp add: queue_inv_def attempts_ok_def max_command_attempts_def active_def)
qed

end
