(* ===== verification/Action_Samples.thy ===== *)
theory Action_Samples
  imports Store_Samples Actions_Laws Dispatch_Laws Session_Draft Worker_Inv
begin

text \<open>
  A concrete catalogue, host and worker at which the properties of the actions, the dispatcher and
  the output worker are applied. The sample world is its own clock.
\<close>

section \<open>A catalogue\<close>

definition shell_header :: action_header where
  "shell_header = \<lparr>ah_id = ''tests'', ah_label = ''Run tests'', ah_targets = [],
     ah_applies = [], ah_show = True,
     ah_inputs = [\<lparr>is_name = ''suite'', is_label = [], is_type = [], is_required = True, is_default = ''all'',
       is_placeholder = [], is_options = []\<rparr>]\<rparr>"

definition shell_cfg :: act_config where
  "shell_cfg = Shell \<lparr>sh_command = ''make test'', sh_cwd = [], sh_timeout = 5, sh_env = []\<rparr>"

definition shell_action :: action where
  "shell_action = (case decode_action shell_header shell_cfg of Inr a \<Rightarrow> a)"

lemma shell_action_decoded: "decode_action shell_header shell_cfg = Inr shell_action"
proof -
  have "\<not> isl (decode_action shell_header shell_cfg)" by code_simp
  then show ?thesis by (auto dest!: not_isl_Inr simp: shell_action_def)
qed

lemma shell_action_valid: "validate_actions [shell_action] = Inr ()"
  by code_simp

theorem editable_roundtrip_witness:
  "\<exists>e. editable_from_action format_int shell_action = Inr e \<and> action_from_editable parse_signed e = Inr shell_action"
proof -
  have "format_int n \<noteq> []" for n by (simp add: format_int_def)
  then have "\<forall>n. format_int n \<noteq> [] \<and> parse_signed (format_int n) = Some n" by simp
  from editable_roundtrip [OF shell_action_decoded shell_action_valid this] show ?thesis .
qed

definition acting_flow :: flow where
  "acting_flow = \<lparr>f_id = ''inbox'', f_name = ''Inbox'', f_enabled = True, f_resurface = PolicyUnset, f_image = [],
     f_nodes = [mk_node ''src'' ''sources.github'' (SourceConfig ''sources.github'' (Some [])),
                mk_node ''act'' ''action'' (ActionConfig ''tests'')],
     f_wires = [mk_wire ''src'' 0 ''act'']\<rparr>"

theorem flow_actions_run_headless_witness:
  "catalog_get [shell_action] ''tests'' = Some shell_action \<and>
   resolve_inputs shell_action [] = Inr [(''suite'', ''all'')]"
proof -
  have "\<not> isl (validate_flow (catalog_refs [shell_action] no_refs) acting_flow)" by code_simp
  then obtain ws where ok: "validate_flow (catalog_refs [shell_action] no_refs) acting_flow = Inr ws"
    by (auto dest: not_isl_Inr)
  have n: "mk_node ''act'' ''action'' (ActionConfig ''tests'') \<in> set (f_nodes acting_flow)"
    by (simp add: acting_flow_def)
  obtain a where "catalog_get [shell_action] ''tests'' = Some a"
    "resolve_inputs a [] = Inr (map (\<lambda>s. (is_name s, is_default s)) (ac_inputs a))"
    using flow_actions_run_headless [OF shell_action_valid ok n] by (auto simp: mk_node_def)
  moreover from this have "a = shell_action" by (auto dest!: catalog_get_mem)
  moreover have "map (\<lambda>s. (is_name s, is_default s)) (ac_inputs shell_action) = [(''suite'', ''all'')]" by code_simp
  ultimately show ?thesis by simp
qed

section \<open>A host\<close>

definition sample_command :: notify_command where
  "sample_command = \<lparr>nc_profile = ''inbox'', nc_external = ''acme/x#1'', nc_kind = ''github'', nc_scope = ''acct'', nc_item = []\<rparr>"

definition sample_host :: "int host" where
  "sample_host = \<lparr>ho_now = (\<lambda>w. w), ho_scan = (\<lambda>_. Some (JObj [])), ho_scan_error = (\<lambda>_. []),
     ho_notify_command = (\<lambda>_. Inr sample_command),
     ho_render = (\<lambda>t _. Inr t), ho_shell = (\<lambda>_ w. (([''ok''], [], if w < 3 then Some ''exit 1'' else None), w + 1)),
     ho_hook_env = True, ho_launch = None, ho_workspace = None, ho_publish = None,
     ho_notify = Some (\<lambda>_ w. (None, w + 1)), ho_gate = None, ho_item = None\<rparr>"

definition notify_cfg :: notify_action_config where
  "notify_cfg = \<lparr>na_title = ''Look'', na_body = [], na_severity = ''info'', na_sound = True, na_cooldown = 100\<rparr>"

definition notify_action :: action where
  "notify_action = \<lparr>ac_id = ''flow-notify:inbox/n'', ac_label = ''Notify n'', ac_type = ''notify'', ac_targets = [],
     ac_applies = [], ac_show = False, ac_inputs = [], ac_config = Some (NotifyAct notify_cfg)\<rparr>"

definition notify_data :: output_data where
  "notify_data = plain_data ''k'' [] ''P'' []"

definition calm :: "int exec_state" where
  "calm = \<lparr>xs_world = 10, xs_quiet = []\<rparr>"

theorem notify_cooldown_witness:
  "\<exists>res s1. dispatch_execute id sample_host notify_action notify_data no_invocation calm = ((res, None), s1) \<and>
     er_attempted res \<and>
     dispatch_execute id sample_host notify_action notify_data no_invocation (s1\<lparr>xs_world := 50\<rparr>) =
       ((no_result, None), s1\<lparr>xs_world := 50\<rparr>)"
proof -
  let ?r = "dispatch_execute id sample_host notify_action notify_data no_invocation calm"
  have "snd (fst ?r) = None" "er_attempted (fst (fst ?r))" by code_simp+
  then obtain res s1 where r: "?r = ((res, None), s1)" "er_attempted res" by (cases ?r) force
  have later: "(within_window (ho_now sample_host (xs_world calm) + na_cooldown notify_cfg))\<^sup>*\<^sup>* s1 (s1\<lparr>xs_world := 50\<rparr>)"
    by (rule r_into_rtranclp, rule within_window.Passes)
  have "dispatch_execute id sample_host notify_action notify_data no_invocation (s1\<lparr>xs_world := 50\<rparr>) =
      ((no_result, None), s1\<lparr>xs_world := 50\<rparr>)"
    by (rule notify_cooldown [OF r _ _ _ _ _ _ later, where cmd = sample_command and cmd' = sample_command and c' = notify_cfg])
      (simp_all add: notify_action_def notify_cfg_def sample_host_def calm_def sample_command_def)
  with r show ?thesis by blast
qed

theorem launch_names_valid_witness:
  "\<exists>t. launch_target_of \<lparr>lc_prompt = ''p'', lc_agent = [], lc_repo = ''{{ .Payload.repo }}'', lc_workspace = [],
       lc_post_hook = [], lc_post_timeout = 0\<rparr> (session_slugify ''fix-Acme/X #1'') ''acme/x'' None = Inr t \<and>
     session_name_error (lt_name t) = None"
proof -
  let ?c = "\<lparr>lc_prompt = ''p'', lc_agent = [], lc_repo = ''{{ .Payload.repo }}'', lc_workspace = [],
       lc_post_hook = [], lc_post_timeout = 0\<rparr>"
  have "\<not> isl (launch_target_of ?c (session_slugify ''fix-Acme/X #1'') ''acme/x'' None)" by code_simp
  then obtain t where t: "launch_target_of ?c (session_slugify ''fix-Acme/X #1'') ''acme/x'' None = Inr t"
    by (auto dest: not_isl_Inr)
  have v: "valid_slug ''fix''" by code_simp
  have "session_slugify ''fix-Acme/X #1'' = session_slugify (''fix'' @ ''-'' @ ''Acme/X #1'')" by simp
  from launch_names_valid [OF v this t] t show ?thesis by blast
qed

section \<open>Drafts\<close>

definition failed_draft :: session_draft where
  "failed_draft = \<lparr>dr_repository = ''https://github.com/acme/x.git'', dr_workspace = [], dr_name = ''fix'',
     dr_prompt = ''Fix it'', dr_agent = ''claude'', dr_items = [3, 14],
     dr_failure = Some \<lparr>sf_reason = ''clone repository: exit status 1'', sf_step = ''Cloning'', sf_output = ''fatal'',
       sf_strategy = ''full'', sf_destination = ''/tmp/x'', sf_leftover = True, sf_at = Some 7\<rparr>\<rparr>"

theorem draft_roundtrip_witness:
  "\<exists>d. draft_from_metadata (draft_metadata failed_draft) = Some d \<and> dr_items d = [3, 14] \<and> dr_name d = ''fix''"
proof -
  have "draft_from_metadata (draft_metadata failed_draft) =
      Some (failed_draft\<lparr>dr_failure := map_option persisted_failure (dr_failure failed_draft)\<rparr>)"
    by (rule draft_roundtrip) (simp_all add: failed_draft_def in_int64_def)
  then show ?thesis by (simp add: failed_draft_def)
qed

section \<open>A worker\<close>

definition sample_worker :: "int worker" where
  "sample_worker = \<lparr>wk_host = sample_host, wk_utf8 = id, wk_get = catalog_get [shell_action], wk_batch = 50,
     wk_jobs = True, wk_activity = True\<rparr>"

definition queued_db :: db where
  "queued_db = (case enqueue_command ''tests'' ''k'' ''P'' 5 no_ref empty_db of Inr d \<Rightarrow>
     (case enqueue_command ''gone'' ''k'' ''P'' 5 no_ref d of Inr d' \<Rightarrow> d'))"

lemma queued_enqueued:
  "\<exists>d. enqueue_command ''tests'' ''k'' ''P'' 5 no_ref empty_db = Inr d \<and>
     enqueue_command ''gone'' ''k'' ''P'' 5 no_ref d = Inr queued_db"
  by (simp add: queued_db_def enqueue_command_def add_command_def original_command_def new_command_def
      command_key_def empty_db_def Let_def)

lemma queued_ok: "db_ok queued_db"
  using queued_enqueued enqueue_ok [OF enqueue_ok [OF empty_db_ok]] by blast

definition queued :: "int worker_state" where
  "queued = \<lparr>ws_db = queued_db, ws_exec = calm\<rparr>"

theorem queue_drains_witness:
  "List.list_all (\<lambda>r. oc_status r \<noteq> CmdPending)
     (db_commands (ws_db (fold worker_tick (replicate 10 sample_worker) queued)))"
proof -
  have "db_ok queued_db" by (rule queued_ok)
  moreover have "queue_backlog (db_commands queued_db) = 10" by code_simp
  ultimately show ?thesis
    using queue_drains [of queued "replicate 10 sample_worker"]
    by (simp add: queued_def sample_worker_def list_all_iff)
qed

text \<open>An explicit run of the first command whose application stops after the claim, and its recovery.\<close>

definition claimed_queue :: "int worker_state" where
  "claimed_queue = snd (claim_run (\<lambda>_ _. None) sample_worker (\<lambda>_. None) ''tests'' ''k'' ''P'' no_ref no_invocation queued)"

definition crashed_queue :: "int worker_state" where
  "crashed_queue = claimed_queue\<lparr>ws_db := recover_interrupted 9 (ws_db claimed_queue)\<rparr>"

theorem queue_safe_witness:
  "List.list_all (\<lambda>r. oc_attempts r \<le> 5) (db_commands (ws_db crashed_queue)) \<and>
   map oc_status (db_commands (ws_db claimed_queue)) = [CmdRunning, CmdPending] \<and>
   map oc_status (db_commands (ws_db crashed_queue)) = [CmdFailed, CmdPending]"
proof -
  obtain d where d: "enqueue_command ''tests'' ''k'' ''P'' 5 no_ref empty_db = Inr d"
    "enqueue_command ''gone'' ''k'' ''P'' 5 no_ref d = Inr queued_db"
    using queued_enqueued by blast
  let ?s0 = "\<lparr>ws_db = empty_db, ws_exec = calm\<rparr>"
  have "queue_step ?s0 (?s0\<lparr>ws_db := d\<rparr>)" by (rule queue_step.Fired) (use d in simp)
  moreover have "queue_step (?s0\<lparr>ws_db := d\<rparr>) (?s0\<lparr>ws_db := d, ws_db := queued_db\<rparr>)"
    by (rule queue_step.Fired) (use d in simp)
  moreover have "queue_step queued claimed_queue"
    unfolding claimed_queue_def by (rule queue_step.ClaimedRun [OF surjective_pairing])
  moreover have "queue_step claimed_queue crashed_queue"
    unfolding crashed_queue_def by (rule queue_step.Restarted)
  ultimately have "queue_step\<^sup>*\<^sup>* ?s0 crashed_queue"
    by (simp add: queued_def)
  then have "\<forall>r\<in>set (db_commands (ws_db crashed_queue)). oc_attempts r \<le> 5"
    using queue_safe [of ?s0 crashed_queue] by simp
  moreover have "map oc_status (db_commands (ws_db claimed_queue)) = [CmdRunning, CmdPending]" by code_simp
  moreover have "map oc_status (db_commands (ws_db crashed_queue)) = [CmdFailed, CmdPending]" by code_simp
  ultimately show ?thesis by (simp add: list_all_iff)
qed

text \<open>The run of an action that is gone to its end, and with the caller gone before its command could be marked.\<close>

definition caller_gone :: "int run_faults" where
  "caller_gone call s = (if call = OpMark then Some ''context canceled'' else None)"

definition explicit_run :: "int run_faults \<Rightarrow> (run_view \<times> run_error option) \<times> int worker_state" where
  "explicit_run F = worker_confirm F sample_worker (\<lambda>_. None) ''gone'' ''k'' ''P'' no_ref no_invocation queued"


end
