(* ===== verification/Schedule.thy ===== *)
theory Schedule
  imports Activity "HOL-Library.Product_Lexorder"
begin

text \<open>
  Scheduled chats (\<open>internal/app/schedule\<close>, \<open>schedule_adapters.go\<close>, \<open>store_schedule.go\<close>): which
  occurrence of a schedule is due, the pass that evaluates every schedule and launches chats, and
  the tables that remember how far each schedule got and what it ran. Times are nanoseconds, the
  tables hold milliseconds. The cron library, templates, the launcher and the local time format are
  parameters; a store call fails when its context is cancelled, as \<open>database/sql\<close> does, or when the
  store refuses it for a reason of its own, which an oracle decides.
\<close>

section \<open>Schedules\<close>

record sched_spec =
  sp_workspace :: string
  sp_id :: string
  sp_name :: string
  sp_cron :: string
  sp_prompt :: string
  sp_disabled :: bool
  sp_missed :: string

definition display_name :: "sched_spec \<Rightarrow> string" where
  "display_name s = (if sp_name s \<noteq> [] then sp_name s else sp_id s)"

type_synonym cron_next = "int \<Rightarrow> int option"
type_synonym cron_parser = "string \<Rightarrow> (string, cron_next) result"

definition parse_cron :: "cron_parser \<Rightarrow> string \<Rightarrow> (string, cron_next) result" where
  "parse_cron P expr =
     (let e = trim_space expr
      in if e = [] then Inl ''cron is required''
         else map_sum (\<lambda>err. ''cron '' @ go_quote e @ '' is not valid: '' @ err) id (P e))"

fun walk_occurrences :: "cron_next \<Rightarrow> nat \<Rightarrow> int \<Rightarrow> int list" where
  "walk_occurrences next_at 0 t = []"
| "walk_occurrences next_at (Suc n) t =
     (case next_at t of None \<Rightarrow> [] | Some u \<Rightarrow> u # walk_occurrences next_at n u)"

definition next_occurrences :: "cron_parser \<Rightarrow> string \<Rightarrow> int \<Rightarrow> int \<Rightarrow> (string, int list) result" where
  "next_occurrences P expr after n =
     map_sum id (\<lambda>next_at. walk_occurrences next_at (nat n) after) (parse_cron P expr)"

definition on_missed_names :: "string list" where
  "on_missed_names = [''run'', ''skip'']"

definition schedule_id_ok :: "string \<Rightarrow> bool" where
  "schedule_id_ok s = slug_pattern s"

text \<open>\<open>check_prompt\<close> is \<open>ValidatePrompt\<close>, a trial rendering.\<close>

definition spec_validate :: "cron_parser \<Rightarrow> (string \<Rightarrow> (string, unit) result) \<Rightarrow> sched_spec \<Rightarrow> (string, unit) result" where
  "spec_validate P check_prompt s =
     (let about = ''schedule '' @ go_quote (sp_id s) @ '': ''
      in if sp_id s = [] then Inl ''schedule: id is required''
         else if \<not> schedule_id_ok (sp_id s) then Inl (about @ ''id must be lowercase letters, digits and hyphens'')
         else res_bind (map_sum (\<lambda>e. about @ e) id (parse_cron P (sp_cron s))) (\<lambda>_.
           if trim_space (sp_prompt s) = [] then Inl (about @ ''prompt is required'')
           else res_bind (map_sum (\<lambda>e. about @ e) id (check_prompt (sp_prompt s))) (\<lambda>_.
             if sp_missed s \<noteq> [] \<and> parse_enum on_missed_names (sp_missed s) = None
             then Inl (about @ ''on_missed '' @ go_quote (sp_missed s) @ '' is not valid (expected '' @
                    join '', '' on_missed_names @ '')'')
             else Inr ())))"

section \<open>What is due\<close>

definition max_occurrences :: nat where
  "max_occurrences = 100000"

record sched_cursor =
  cu_workspace :: string
  cu_id :: string
  cu_through :: int
  cu_cron :: string

datatype run_reason = ReasonDue | ReasonCatchUp | ReasonManual

fun reason_text :: "run_reason \<Rightarrow> string" where
  "reason_text ReasonDue = ''due''"
| "reason_text ReasonCatchUp = ''catch_up''"
| "reason_text ReasonManual = ''manual''"

record decision =
  de_for :: int
  de_reason :: run_reason
  de_missed :: int
  de_skip :: bool

text \<open>The loop of \<open>Evaluate\<close>: the latest occurrence up to now and how many there were.\<close>

fun window_loop :: "cron_next \<Rightarrow> int \<Rightarrow> nat \<Rightarrow> int \<Rightarrow> int option \<Rightarrow> nat \<Rightarrow> int option \<times> nat" where
  "window_loop next_at now 0 at latest n = (latest, n)"
| "window_loop next_at now (Suc fuel) at latest n =
     (case next_at at of
        None \<Rightarrow> (latest, n)
      | Some u \<Rightarrow> if now < u then (latest, n) else window_loop next_at now fuel u (Some u) (n + 1))"

definition evaluate :: "cron_parser \<Rightarrow> sched_spec \<Rightarrow> sched_cursor option \<Rightarrow> int \<Rightarrow> int \<Rightarrow> sched_cursor \<times> decision option" where
  "evaluate P s cursor now late =
     (let closed = \<lparr>cu_workspace = sp_workspace s, cu_id = sp_id s, cu_through = now, cu_cron = sp_cron s\<rparr>
      in case cursor of
           None \<Rightarrow> (closed, None)
         | Some c \<Rightarrow>
             if cu_cron c \<noteq> sp_cron s \<or> sp_disabled s then (closed, None)
             else case parse_cron P (sp_cron s) of
                    Inl _ \<Rightarrow> (closed, None)
                  | Inr next_at \<Rightarrow>
                      (case window_loop next_at now max_occurrences (cu_through c) None 0 of
                         (Some t, n) \<Rightarrow>
                           (closed, Some (if late < now - t
                              then \<lparr>de_for = t, de_reason = ReasonCatchUp, de_missed = int n - 1, de_skip = (sp_missed s = ''skip'')\<rparr>
                              else \<lparr>de_for = t, de_reason = ReasonDue, de_missed = int n - 1, de_skip = False\<rparr>))
                       | (None, _) \<Rightarrow> (closed, None)))"

definition sooner :: "cron_parser \<Rightarrow> int \<Rightarrow> sched_spec \<Rightarrow> int option \<Rightarrow> int option" where
  "sooner P now s best =
     (if sp_disabled s then best
      else case parse_cron P (sp_cron s) of
             Inl _ \<Rightarrow> best
           | Inr next_at \<Rightarrow>
               (case next_at now of
                  None \<Rightarrow> best
                | Some u \<Rightarrow> (case best of None \<Rightarrow> Some u | Some b \<Rightarrow> if u < b then Some u else best)))"

definition next_due :: "cron_parser \<Rightarrow> sched_spec list \<Rightarrow> int \<Rightarrow> int option" where
  "next_due P specs now = fold (sooner P now) specs None"

section \<open>The tables\<close>

datatype run_status = RunLaunched | RunFailed | RunSkipped

record cursor_row =
  cr_workspace :: string
  cr_schedule :: string
  cr_through :: int \<comment> \<open>milliseconds\<close>
  cr_cron :: string

record run_row =
  ru_id :: int
  ru_workspace :: string
  ru_schedule :: string
  ru_name :: string
  ru_for :: int
  ru_started :: int
  ru_reason :: run_reason
  ru_missed :: int
  ru_status :: run_status
  ru_session :: "int option"
  ru_prompt :: string
  ru_error :: string

record sched_db =
  sd_cursors :: "cursor_row list"
  sd_runs :: "run_row list"
  sd_run_seq :: int

definition run_limit :: nat where
  "run_limit = 200"

definition cursor_key :: "cursor_row \<Rightarrow> string \<times> string" where
  "cursor_key r = (cr_workspace r, cr_schedule r)"

definition run_key :: "run_row \<Rightarrow> string \<times> string" where
  "run_key r = (ru_workspace r, ru_schedule r)"

definition run_order :: "run_row \<Rightarrow> int \<times> int" where
  "run_order r = (ru_started r, ru_id r)"

definition get_cursor :: "string \<Rightarrow> string \<Rightarrow> sched_db \<Rightarrow> cursor_row option" where
  "get_cursor w i d = find (\<lambda>r. cursor_key r = (w, i)) (sd_cursors d)"

definition save_cursor_row :: "cursor_row \<Rightarrow> sched_db \<Rightarrow> sched_db" where
  "save_cursor_row c d =
     d\<lparr>sd_cursors := sql_upsert cursor_key c (\<lambda>r. r\<lparr>cr_through := cr_through c, cr_cron := cr_cron c\<rparr>) (sd_cursors d)\<rparr>"

definition prune_cursors :: "string list \<Rightarrow> (string \<times> string) list \<Rightarrow> sched_db \<Rightarrow> sched_db" where
  "prune_cursors workspaces keep d =
     d\<lparr>sd_cursors := sql_delete (\<lambda>r. cr_workspace r \<in> set workspaces \<and> cursor_key r \<notin> set keep) (sd_cursors d)\<rparr>"

text \<open>One schedule's runs, newest first.\<close>

definition newest_runs :: "string \<Rightarrow> string \<Rightarrow> run_row list \<Rightarrow> run_row list" where
  "newest_runs w i rows = rev (sort_key run_order (filter (\<lambda>r. run_key r = (w, i)) rows))"

definition prune_runs :: "string \<Rightarrow> string \<Rightarrow> nat \<Rightarrow> run_row list \<Rightarrow> run_row list" where
  "prune_runs w i n rows =
     sql_delete (\<lambda>r. run_key r = (w, i) \<and> ru_id r \<notin> ru_id ` set (take n (newest_runs w i rows))) rows"

definition insert_run :: "run_row \<Rightarrow> sched_db \<Rightarrow> run_row \<times> sched_db" where
  "insert_run r d =
     (let r' = r\<lparr>ru_id := sd_run_seq d + 1\<rparr>
      in (r', d\<lparr>sd_runs := prune_runs (ru_workspace r) (ru_schedule r) run_limit (sd_runs d @ [r']),
               sd_run_seq := sd_run_seq d + 1\<rparr>))"

definition list_runs :: "string \<Rightarrow> string \<Rightarrow> nat \<Rightarrow> sched_db \<Rightarrow> run_row list" where
  "list_runs w i limit d = take limit (newest_runs w i (sd_runs d))"

definition last_launched :: "string \<Rightarrow> string \<Rightarrow> sched_db \<Rightarrow> run_row option" where
  "last_launched w i d =
     (case filter (\<lambda>r. ru_status r = RunLaunched) (newest_runs w i (sd_runs d)) of [] \<Rightarrow> None | r # _ \<Rightarrow> Some r)"

definition delete_schedules_by_workspace :: "string \<Rightarrow> sched_db \<Rightarrow> sched_db" where
  "delete_schedules_by_workspace w d =
     d\<lparr>sd_runs := sql_delete (\<lambda>r. ru_workspace r = w) (sd_runs d),
       sd_cursors := sql_delete (\<lambda>r. cr_workspace r = w) (sd_cursors d)\<rparr>"

text \<open>Where times meet the tables.\<close>

definition unix_ms :: "int \<Rightarrow> int" where
  "unix_ms t = t div 1000000"

definition from_ms :: "int \<Rightarrow> int" where
  "from_ms m = m * 1000000"

definition load_cursor :: "string \<Rightarrow> string \<Rightarrow> sched_db \<Rightarrow> sched_cursor option" where
  "load_cursor w i d = map_option (\<lambda>r. \<lparr>cu_workspace = cr_workspace r, cu_id = cr_schedule r,
     cu_through = from_ms (cr_through r), cu_cron = cr_cron r\<rparr>) (get_cursor w i d)"

definition save_cursor :: "sched_cursor \<Rightarrow> sched_db \<Rightarrow> sched_db" where
  "save_cursor c = save_cursor_row \<lparr>cr_workspace = cu_workspace c, cr_schedule = cu_id c,
     cr_through = unix_ms (cu_through c), cr_cron = cu_cron c\<rparr>"


section \<open>The scheduler\<close>

record sched_prompt =
  sq_id :: string
  sq_name :: string
  sq_cron :: string
  sq_dir :: string
  sq_workspace :: string
  sq_now :: int
  sq_for :: int
  sq_reason :: string
  sq_missed :: int
  sq_last :: "int option"

record chat_request =
  cq_workspace :: string
  cq_schedule :: string
  cq_schedule_name :: string
  cq_name :: string
  cq_prompt :: string

text \<open>The launcher answers with the id of a chat, and whether one is still open. \<open>se_pause\<close> is what
  happens to the world between two steps; a quit may arrive there. \<open>se_fault\<close> says when the store
  refuses a call with an error of its own (a full disk, a locked file); a refused call changes nothing,
  inserting and trimming runs being one transaction.\<close>

datatype sched_call = OpCursor | OpSaveCursor | OpPrune | OpLastRun | OpInsertRun

record 'w sched_env =
  se_parse :: cron_parser
  se_render :: "string \<Rightarrow> sched_prompt \<Rightarrow> (string, string) result"
  se_stamp :: "int \<Rightarrow> string"
  se_workspace_name :: "(string \<Rightarrow> string) option"
  se_cancelled :: "'w \<Rightarrow> bool"
  se_fault :: "sched_call \<Rightarrow> 'w \<Rightarrow> string option"
  se_pause :: "'w \<Rightarrow> 'w"
  se_now :: "'w \<Rightarrow> int"
  se_live :: "int \<Rightarrow> 'w \<Rightarrow> (string, bool) result \<times> 'w"
  se_launch :: "chat_request \<Rightarrow> 'w \<Rightarrow> (string, int) result \<times> 'w"

record 'w sched_state =
  ss_db :: sched_db
  ss_world :: 'w
  ss_reported :: "run_row list"
  ss_chats :: "run_row list" \<comment> \<open>the runs that started a chat, recorded or not\<close>

definition context_canceled :: string where
  "context_canceled = ''context canceled''"

text \<open>A call on the pass's own context, or on one detached from its cancellation.\<close>

definition store_error :: "'w sched_env \<Rightarrow> sched_call \<Rightarrow> bool \<Rightarrow> 'w \<Rightarrow> string option" where
  "store_error E call detached w =
     (if \<not> detached \<and> se_cancelled E w then Some context_canceled else se_fault E call w)"

definition schedule_grace :: int where
  "schedule_grace = 5 * 60 * 1000000000"

definition max_sleep :: int where
  "max_sleep = 60 * 1000000000"

definition prompt_data_of :: "'w sched_env \<Rightarrow> sched_spec \<Rightarrow> decision \<Rightarrow> int \<Rightarrow> run_row option \<Rightarrow> sched_prompt" where
  "prompt_data_of E s de now prev =
     \<lparr>sq_id = sp_id s, sq_name = display_name s, sq_cron = sp_cron s, sq_dir = sp_workspace s,
      sq_workspace = (case se_workspace_name E of
          None \<Rightarrow> sp_workspace s
        | Some f \<Rightarrow> if f (sp_workspace s) \<noteq> [] then f (sp_workspace s) else sp_workspace s),
      sq_now = now, sq_for = de_for de, sq_reason = reason_text (de_reason de), sq_missed = de_missed de,
      sq_last = map_option (\<lambda>r. from_ms (ru_for r)) prev\<rparr>"

definition new_run :: "sched_spec \<Rightarrow> decision \<Rightarrow> int \<Rightarrow> run_row" where
  "new_run s de now =
     \<lparr>ru_id = 0, ru_workspace = sp_workspace s, ru_schedule = sp_id s, ru_name = display_name s,
      ru_for = unix_ms (de_for de), ru_started = unix_ms now, ru_reason = de_reason de, ru_missed = de_missed de,
      ru_status = RunSkipped, ru_session = None, ru_prompt = [], ru_error = []\<rparr>"

text \<open>A session id of 0 is no chat.\<close>

definition stored_session :: "int \<Rightarrow> int option" where
  "stored_session i = (if i = 0 then None else Some i)"

definition check_live :: "'w sched_env \<Rightarrow> run_row option \<Rightarrow> 'w \<Rightarrow> (string, bool) result \<times> 'w" where
  "check_live E prev w =
     (case prev of
        None \<Rightarrow> (Inr False, w)
      | Some r \<Rightarrow> (case ru_session r of None \<Rightarrow> (Inr False, w) | Some i \<Rightarrow> se_live E i w))"

definition chat_name :: "'w sched_env \<Rightarrow> sched_spec \<Rightarrow> decision \<Rightarrow> string" where
  "chat_name E s de = display_name s @ '' - '' @ se_stamp E (de_for de)"

text \<open>What an attempt comes to: \<open>Inl\<close> an error that records nothing, \<open>Inr\<close> the run to record and
  whether a chat was started.\<close>

definition attempt ::
  "'w sched_env \<Rightarrow> sched_spec \<Rightarrow> decision \<Rightarrow> int \<Rightarrow> run_row option \<Rightarrow> 'w \<Rightarrow> (string, run_row \<times> bool) result \<times> 'w" where
  "attempt E s de now prev w =
     (let run = new_run s de now
      in case se_render E (sp_prompt s) (prompt_data_of E s de now prev) of
           Inl e \<Rightarrow> (Inr (run\<lparr>ru_status := RunFailed, ru_error := e\<rparr>, False), w)
         | Inr prompt \<Rightarrow>
             (case se_launch E \<lparr>cq_workspace = sp_workspace s, cq_schedule = sp_id s,
                  cq_schedule_name = display_name s, cq_name = chat_name E s de, cq_prompt = prompt\<rparr> w of
                (Inl e, w') \<Rightarrow>
                  if se_cancelled E w' then (Inl (''launching the chat: '' @ e), w')
                  else (Inr (run\<lparr>ru_prompt := prompt, ru_status := RunFailed, ru_error := e\<rparr>, False), w')
              | (Inr i, w') \<Rightarrow>
                  (Inr (run\<lparr>ru_prompt := prompt, ru_status := RunLaunched, ru_session := stored_session i\<rparr>, True), w')))"

definition sched_execute ::
  "'w sched_env \<Rightarrow> sched_spec \<Rightarrow> decision \<Rightarrow> int \<Rightarrow> 'w sched_state \<Rightarrow>
   (run_row option \<times> bool \<times> string option) \<times> 'w sched_state" where
  "sched_execute E s de now st =
     (let w0 = se_pause E (ss_world st)
      in case store_error E OpLastRun False w0 of
        Some e \<Rightarrow> ((None, False, Some (''reading the last run: '' @ e)), st\<lparr>ss_world := w0\<rparr>)
      | None \<Rightarrow>
        let prev = last_launched (sp_workspace s) (sp_id s) (ss_db st)
        in case check_live E prev w0 of
             (Inl e, w) \<Rightarrow> ((None, False, Some (''checking the previous run's chat: '' @ e)), st\<lparr>ss_world := w\<rparr>)
           | (Inr live, w) \<Rightarrow>
               (let skipped = (\<lambda>why. (Inr ((new_run s de now)\<lparr>ru_error := why\<rparr>, False), w))
                in case (if live then skipped ''the previous run's chat is still running''
                         else if de_skip de then skipped ''missed while the app was closed (on_missed: skip)''
                         else attempt E s de now prev w) of
                     (Inl e, w') \<Rightarrow> ((None, False, Some e), st\<lparr>ss_world := w'\<rparr>)
                   | (Inr (run, launched), w') \<Rightarrow>
                       (let w'' = se_pause E w';
                            st1 = st\<lparr>ss_world := w'', ss_chats := ss_chats st @ (if launched then [run] else [])\<rparr>
                        in case store_error E OpInsertRun launched w'' of
                             Some e \<Rightarrow> ((None, launched, Some (''recording the run: '' @ e)), st1)
                           | None \<Rightarrow> (case insert_run run (ss_db st) of
                                   (r, d) \<Rightarrow> ((Some r, launched, None),
                                              st1\<lparr>ss_db := d, ss_reported := ss_reported st @ [r]\<rparr>)))))"

definition first_error :: "string option \<Rightarrow> string option \<Rightarrow> string option" where
  "first_error a b = (case a of None \<Rightarrow> b | Some _ \<Rightarrow> a)"

definition evaluate_spec ::
  "'w sched_env \<Rightarrow> sched_spec \<Rightarrow> int \<Rightarrow> 'w sched_state \<Rightarrow> (sched_cursor \<times> string option) \<times> 'w sched_state" where
  "evaluate_spec E s now st =
     (let w0 = se_pause E (ss_world st); st0 = st\<lparr>ss_world := w0\<rparr>
      in case store_error E OpCursor False w0 of
        Some e \<Rightarrow> ((\<lparr>cu_workspace = sp_workspace s, cu_id = sp_id s, cu_through = now, cu_cron = sp_cron s\<rparr>,
             Some (''reading the cursor: '' @ e)), st0)
      | None \<Rightarrow>
        case evaluate (se_parse E) s (load_cursor (sp_workspace s) (sp_id s) (ss_db st)) now schedule_grace of
          (closed, due) \<Rightarrow>
            (case (case due of None \<Rightarrow> ((None, False, None), st0) | Some de \<Rightarrow> sched_execute E s de now st0) of
               ((_, launched, err), st1) \<Rightarrow>
                 (let w1 = se_pause E (ss_world st1)
                  in if err \<noteq> None \<and> \<not> launched \<and> se_cancelled E w1 then ((closed, err), st1\<lparr>ss_world := w1\<rparr>)
                     else let w2 = se_pause E w1; st2 = st1\<lparr>ss_world := w2\<rparr>
                          in case store_error E OpSaveCursor launched w2 of
                               Some e \<Rightarrow> ((closed, first_error err (Some (''saving the cursor: '' @ e))), st2)
                             | None \<Rightarrow> ((closed, err), st2\<lparr>ss_db := save_cursor closed (ss_db st2)\<rparr>))))"

record sched_snapshot =
  sn_specs :: "sched_spec list"
  sn_workspaces :: "string list"

definition pass_one ::
  "'w sched_env \<Rightarrow> int \<Rightarrow> sched_spec \<Rightarrow> (sched_cursor list \<times> string option) \<times> 'w sched_state \<Rightarrow>
   (sched_cursor list \<times> string option) \<times> 'w sched_state" where
  "pass_one E now s acc =
     (case acc of ((keep, first), st) \<Rightarrow>
        (case evaluate_spec E s now st of ((c, err), st') \<Rightarrow> ((keep @ [c], first_error first err), st')))"

definition sched_pass :: "'w sched_env \<Rightarrow> sched_snapshot \<Rightarrow> 'w sched_state \<Rightarrow> string option \<times> 'w sched_state" where
  "sched_pass E snap st =
     (case fold (pass_one E (se_now E (ss_world st))) (sn_specs snap) (([], None), st) of
        ((keep, first), st1) \<Rightarrow>
          let st' = st1\<lparr>ss_world := se_pause E (ss_world st1)\<rparr>
          in case store_error E OpPrune False (ss_world st') of
               Some e \<Rightarrow> (first_error first (Some e), st')
             | None \<Rightarrow> (first, st'\<lparr>ss_db := prune_cursors (sn_workspaces snap) (map (\<lambda>c. (cu_workspace c, cu_id c)) keep) (ss_db st')\<rparr>))"

definition run_now ::
  "'w sched_env \<Rightarrow> sched_snapshot \<Rightarrow> string \<Rightarrow> string \<Rightarrow> 'w sched_state \<Rightarrow>
   (string, run_row option \<times> string option) result \<times> 'w sched_state" where
  "run_now E snap workspace i st =
     (case find (\<lambda>s. sp_workspace s = workspace \<and> sp_id s = i) (sn_specs snap) of
        None \<Rightarrow> (Inl (''schedule: not found: schedule '' @ go_quote i @ '' in workspace '' @ go_quote workspace), st)
      | Some s \<Rightarrow>
          (let now = se_now E (ss_world st)
           in case sched_execute E s \<lparr>de_for = now, de_reason = ReasonManual, de_missed = 0, de_skip = False\<rparr> now st of
                ((run, _, err), st') \<Rightarrow> (Inr (run, err), st')))"

definition sched_wait :: "cron_parser \<Rightarrow> sched_spec list \<Rightarrow> int \<Rightarrow> int" where
  "sched_wait P specs now =
     (case next_due P specs now of
        None \<Rightarrow> max_sleep
      | Some u \<Rightarrow> max (min (u - now) max_sleep) 0)"

section \<open>What the services show\<close>

definition schedule_run_detail :: "run_row \<Rightarrow> string" where
  "schedule_run_detail r =
     join middle_dot ([reason_text (ru_reason r)] @
       (if 0 < ru_missed r then [format_int (ru_missed r) @ '' missed''] else []) @
       (case ru_session r of None \<Rightarrow> [] | Some i \<Rightarrow> [''chat '' @ format_int i]) @
       (if ru_error r \<noteq> [] then [ru_error r] else []))"

fun run_status_text :: "run_status \<Rightarrow> string" where
  "run_status_text RunLaunched = ''launched''"
| "run_status_text RunFailed = ''failed''"
| "run_status_text RunSkipped = ''skipped''"

definition schedule_activity :: "run_row \<Rightarrow> activity_event" where
  "schedule_activity r =
     schedule_run_event (ru_name r) (ru_workspace r) (run_status_text (ru_status r)) (schedule_run_detail r)"

record workspace_status =
  wt_dir :: string
  wt_valid :: bool
  wt_schedules :: "sched_spec list"

definition workspaces_snapshot :: "workspace_status list \<Rightarrow> sched_snapshot" where
  "workspaces_snapshot sts =
     (let ok = filter wt_valid sts
      in \<lparr>sn_specs = concat (map wt_schedules ok), sn_workspaces = map wt_dir ok\<rparr>)"

end
