(* ===== verification/Schedule_Laws.thy ===== *)
theory Schedule_Laws
  imports Schedule
begin

text \<open>
  What evaluating one schedule again and again comes to: every occurrence of a schedule whose
  occurrences are fixed instants is fired once or counted as missed once, and a schedule counted from
  the last evaluation never fires while it is evaluated often.
\<close>

section \<open>Occurrences\<close>

definition occurrences :: "cron_next \<Rightarrow> int set" where
  "occurrences next_at = {u. \<exists>t. next_at t = Some u}"

text \<open>What the cron library documents of a five-field expression, over a span of time: the next
  occurrence is later than the time given, on a whole second, and the first one there is: which
  instants are occurrences does not depend on when one asks. That last law fails for \<open>@every d\<close>, which
  the parser accepts too: its next occurrence is \<open>d\<close> after the time given, whatever that is.\<close>

definition cron_laws :: "cron_next \<Rightarrow> int \<Rightarrow> int \<Rightarrow> bool" where
  "cron_laws next_at lo hi \<longleftrightarrow>
     (\<forall>t u. next_at t = Some u \<longrightarrow> t < u \<and> u mod 1000000000 = 0) \<and>
     (\<forall>t u. u \<in> occurrences next_at \<and> lo \<le> t \<and> t < u \<and> u \<le> hi \<longrightarrow> (\<exists>v\<le>u. next_at t = Some v))"

definition window :: "cron_next \<Rightarrow> int \<Rightarrow> int \<Rightarrow> int set" where
  "window next_at a b = {u \<in> occurrences next_at. a < u \<and> u \<le> b}"

lemma window_finite [simp]: "finite (window next_at a b)"
  by (rule finite_subset [of _ "{a<..b}"]) (auto simp: window_def)

lemma window_none:
  assumes "cron_laws next_at lo hi" and "lo \<le> a" and "b \<le> hi" and "next_at a = None"
  shows "window next_at a b = {}"
  using assms unfolding window_def cron_laws_def by fastforce

lemma window_late:
  assumes "cron_laws next_at lo hi" and "lo \<le> a" and "b \<le> hi" and "next_at a = Some u" and "b < u"
  shows "window next_at a b = {}"
proof -
  have "\<exists>v\<le>x. next_at a = Some v" if "x \<in> window next_at a b" for x
    using assms(1-3) that unfolding window_def cron_laws_def by auto
  then show ?thesis using assms(4,5) by (fastforce simp: window_def)
qed

lemma window_next:
  assumes "cron_laws next_at lo hi" and "lo \<le> a" and "b \<le> hi" and "next_at a = Some u" and "u \<le> b"
  shows "window next_at a b = insert u (window next_at u b)" and "u \<notin> window next_at u b"
proof -
  have au: "a < u" using assms(1,4) by (auto simp: cron_laws_def)
  have "u \<le> x" if "x \<in> window next_at a b" for x
    using assms(1-4) that unfolding window_def cron_laws_def by fastforce
  then have ge: "x = u \<or> u < x" if "x \<in> window next_at a b" for x using that by fastforce
  have "u \<in> window next_at a b" using assms(4,5) au by (auto simp: window_def occurrences_def)
  moreover have "x \<in> window next_at u b" if "x \<in> window next_at a b" "x \<noteq> u" for x
    using ge [OF that(1)] that by (simp add: window_def)
  moreover have "window next_at u b \<subseteq> window next_at a b" using au by (auto simp: window_def)
  ultimately show "window next_at a b = insert u (window next_at u b)" by blast
qed (simp add: window_def)

lemma window_loop_exact:
  assumes "cron_laws next_at lo hi" and "b \<le> hi"
  shows "lo \<le> a \<Longrightarrow> card (window next_at a b) \<le> fuel \<Longrightarrow> window_loop next_at b fuel a latest n =
    (if window next_at a b = {} then latest else Some (Max (window next_at a b)), n + card (window next_at a b))"
proof (induction fuel arbitrary: a latest n)
  case (Suc fuel)
  show ?case
  proof (cases "next_at a")
    case None
    then show ?thesis using window_none [OF assms(1) Suc.prems(1) assms(2)] by simp
  next
    case (Some u)
    show ?thesis
    proof (cases "b < u")
      case True
      then show ?thesis using Some window_late [OF assms(1) Suc.prems(1) assms(2) Some] by simp
    next
      case False
      let ?w = "window next_at u b"
      have "a < u" using assms(1) Some by (auto simp: cron_laws_def)
      have w: "window next_at a b = insert u ?w" "u \<notin> ?w"
        using window_next [OF assms(1) Suc.prems(1) assms(2) Some] False by simp_all
      then have "card (window next_at a b) = Suc (card ?w)" by simp
      moreover from this have "window_loop next_at b fuel u (Some u) (n + 1) =
          (if ?w = {} then Some u else Some (Max ?w), n + 1 + card ?w)"
        using Suc.prems \<open>a < u\<close> by (intro Suc.IH) simp_all
      moreover have "?w \<noteq> {} \<Longrightarrow> Max (insert u ?w) = Max ?w"
      proof -
        assume ne: "?w \<noteq> {}"
        then have "u < Max ?w" using Max_in [OF window_finite ne] by (simp add: window_def)
        then show ?thesis using ne by (simp add: max_def)
      qed
      ultimately show ?thesis using Some False w by auto
    qed
  qed
qed simp

lemma window_cut:
  "a \<le> b \<Longrightarrow> b \<le> c \<Longrightarrow> window next_at a c = window next_at a b \<union> window next_at b c"
  by (auto simp: window_def)

lemma window_cut_card:
  assumes "a \<le> b" and "b \<le> c"
  shows "card (window next_at a c) = card (window next_at a b) + card (window next_at b c)"
proof -
  have "window next_at a b \<inter> window next_at b c = {}" by (auto simp: window_def)
  then show ?thesis using card_Un_disjoint [of "window next_at a b" "window next_at b c"] window_cut [OF assms]
    by simp
qed

section \<open>A schedule evaluated again and again\<close>

text \<open>The cursor as it comes back from the table.\<close>

definition stored_cursor :: "sched_cursor \<Rightarrow> sched_cursor" where
  "stored_cursor c = c\<lparr>cu_through := from_ms (unix_ms (cu_through c))\<rparr>"

fun evaluations :: "cron_parser \<Rightarrow> sched_spec \<Rightarrow> sched_cursor \<Rightarrow> int list \<Rightarrow> decision option list" where
  "evaluations P s c [] = []"
| "evaluations P s c (now # nows) =
     (case evaluate P s (Some c) now schedule_grace of
        (closed, d) \<Rightarrow> d # evaluations P s (stored_cursor closed) nows)"

definition decided :: "decision option list \<Rightarrow> decision list" where
  "decided ds = List.map_filter id ds"

lemma decided_simps [simp]: "decided [] = []" "decided (None # ds) = decided ds" "decided (Some d # ds) = d # decided ds"
  by (simp_all add: decided_def map_filter_simps)

lemma ms_floor: "from_ms (unix_ms t) \<le> t" "t < from_ms (unix_ms t) + 1000000"
  by (simp_all add: from_ms_def unix_ms_def)

lemma ms_window:
  assumes "cron_laws next_at lo hi"
  shows "window next_at (from_ms (unix_ms a)) b = window next_at a b"
proof -
  have "u \<le> from_ms (unix_ms a)" if "u \<in> occurrences next_at" "u \<le> a" for u
  proof -
    have "u mod 1000000000 = 0" using assms that(1) by (auto simp: cron_laws_def occurrences_def)
    then have "1000000 dvd u" by (intro dvd_trans [of 1000000 1000000000 u]) (simp_all add: dvd_eq_mod_eq_0)
    then have "u = u div 1000000 * 1000000" by simp
    moreover have "u div 1000000 \<le> a div 1000000" by (rule zdiv_mono1) (use that(2) in simp_all)
    ultimately show ?thesis by (simp add: from_ms_def unix_ms_def)
  qed
  then show ?thesis using ms_floor(1) [of a] by (fastforce simp: window_def)
qed

lemma evaluate_exact:
  assumes "parse_cron P (sp_cron s) = Inr next_at" and "cron_laws next_at lo hi"
    and "cu_cron c = sp_cron s" and "\<not> sp_disabled s" and "lo \<le> cu_through c" and "now \<le> hi"
    and "card (window next_at (cu_through c) now) \<le> max_occurrences"
  shows "\<exists>d. evaluate P s (Some c) now late =
      (\<lparr>cu_workspace = sp_workspace s, cu_id = sp_id s, cu_through = now, cu_cron = sp_cron s\<rparr>, d) \<and>
    (if window next_at (cu_through c) now = {} then d = None
     else \<exists>de. d = Some de \<and> de_for de = Max (window next_at (cu_through c) now) \<and>
       de_missed de + 1 = int (card (window next_at (cu_through c) now)))"
  using window_loop_exact [OF assms(2,6,5,7), of None 0] assms(1,3,4)
  by (simp add: evaluate_def Let_def)

text \<open>Decisions that account for a set of occurrences.\<close>

definition accounted :: "decision list \<Rightarrow> int set \<Rightarrow> bool" where
  "accounted ds W \<longleftrightarrow> (\<Sum>d\<leftarrow>ds. de_missed d + 1) = int (card W) \<and> sorted_wrt (<) (map de_for ds) \<and>
     de_for ` set ds \<subseteq> W \<and> (W \<noteq> {} \<longrightarrow> ds \<noteq> [] \<and> de_for (last ds) = Max W)"

lemma accounted_empty: "accounted ds {} \<Longrightarrow> ds = []"
  by (simp add: accounted_def)

lemma accounted_Cons:
  assumes "finite W" and "finite V" and "W \<noteq> {}" and "de_for d = Max W" and "de_missed d + 1 = int (card W)"
    and "accounted ds V" and "\<And>x y. x \<in> W \<Longrightarrow> y \<in> V \<Longrightarrow> x < y"
  shows "accounted (d # ds) (W \<union> V)"
proof -
  have disj: "W \<inter> V = {}" using assms(7) by fastforce
  have d: "de_for d \<in> W" using assms(1,3,4) by simp
  have "de_for (last (d # ds)) = Max (W \<union> V)"
  proof (cases "V = {}")
    case True
    then show ?thesis using assms(4,6) accounted_empty by simp
  next
    case False
    then have "Max W \<le> Max V"
      using assms(7) [of "Max W" "Max V"] assms(1-3) by (simp add: less_imp_le)
    then show ?thesis using assms(1-3,6) False by (simp add: accounted_def Max_Un)
  qed
  moreover have "int (card (W \<union> V)) = int (card W) + int (card V)"
    using card_Un_disjoint [OF assms(1,2) disj] by simp
  ultimately show ?thesis using assms(5,6) d assms(7) unfolding accounted_def by auto
qed

lemma evaluations_accounted:
  assumes "parse_cron P (sp_cron s) = Inr next_at" and "cron_laws next_at lo hi" and "\<not> sp_disabled s"
  shows "cu_cron c = sp_cron s \<Longrightarrow> lo \<le> from_ms (unix_ms (cu_through c)) \<Longrightarrow> sorted (cu_through c # nows) \<Longrightarrow>
    last (cu_through c # nows) \<le> hi \<Longrightarrow>
    card (window next_at (cu_through c) (last (cu_through c # nows))) \<le> max_occurrences \<Longrightarrow>
    accounted (decided (evaluations P s c nows)) (window next_at (cu_through c) (last (cu_through c # nows)))"
proof (induction nows arbitrary: c)
  case Nil
  then show ?case by (simp add: accounted_def window_def)
next
  case (Cons now nows)
  let ?a = "cu_through c" and ?z = "last (now # nows)" and ?f = "from_ms (unix_ms now)"
  let ?closed = "\<lparr>cu_workspace = sp_workspace s, cu_id = sp_id s, cu_through = now, cu_cron = sp_cron s\<rparr>"
  have le: "?a \<le> now" "now \<le> ?z" using Cons.prems(3) by (auto simp: last_in_set split: if_splits)
  have lo: "lo \<le> ?a" using Cons.prems(2) ms_floor(1) [of ?a] by simp
  have cut: "window next_at ?a ?z = window next_at ?a now \<union> window next_at now ?z" by (rule window_cut [OF le])
  have small: "card (window next_at ?a now) \<le> max_occurrences" "card (window next_at now ?z) \<le> max_occurrences"
    using Cons.prems(5) window_cut_card [OF le, of next_at] by simp_all
  have "now \<le> hi" using le Cons.prems(4) by simp
  with evaluate_exact [OF assms(1,2) Cons.prems(1) assms(3) lo _ small(1), of schedule_grace]
  obtain d where d: "evaluate P s (Some c) now schedule_grace = (?closed, d)"
    and fired: "if window next_at ?a now = {} then d = None
      else \<exists>de. d = Some de \<and> de_for de = Max (window next_at ?a now) \<and>
        de_missed de + 1 = int (card (window next_at ?a now))" by blast
  have rest: "window next_at ?f (last (?f # nows)) = window next_at now ?z"
  proof (cases "nows = []")
    case True
    then show ?thesis using ms_floor(1) [of now] by (auto simp: window_def)
  next
    case False
    then show ?thesis using ms_window [OF assms(2), of now ?z] by simp
  qed
  have "?f \<le> now" by (rule ms_floor)
  have "lo \<le> ?f"
  proof -
    have "unix_ms ?a \<le> unix_ms now" unfolding unix_ms_def by (rule zdiv_mono1) (use le in simp_all)
    then show ?thesis using Cons.prems(2) by (simp add: from_ms_def)
  qed
  have idem: "from_ms (unix_ms ?f) = ?f" by (simp add: from_ms_def unix_ms_def)
  have hi: "last (?f # nows) \<le> hi"
    using Cons.prems(4) \<open>?f \<le> now\<close> \<open>now \<le> hi\<close> by (cases "nows = []") simp_all
  have sorted: "sorted (?f # nows)"
  proof -
    have "sorted (now # nows)" using Cons.prems(3) by simp
    then show ?thesis using \<open>?f \<le> now\<close> by auto
  qed
  have "accounted (decided (evaluations P s (stored_cursor ?closed) nows)) (window next_at ?f (last (?f # nows)))"
    using Cons.IH [of "stored_cursor ?closed"] small(2) \<open>lo \<le> ?f\<close> idem hi sorted rest
    by (simp only: stored_cursor_def sched_cursor.simps)
  then have IH: "accounted (decided (evaluations P s (stored_cursor ?closed) nows)) (window next_at now ?z)"
    by (simp only: rest)
  have run: "evaluations P s c (now # nows) = d # evaluations P s (stored_cursor ?closed) nows" by (simp add: d)
  show ?case
  proof (cases "window next_at ?a now = {}")
    case True
    then show ?thesis using IH run fired cut by simp
  next
    case False
    then obtain de where de: "d = Some de" "de_for de = Max (window next_at ?a now)"
      "de_missed de + 1 = int (card (window next_at ?a now))" using fired by auto
    have "accounted (de # decided (evaluations P s (stored_cursor ?closed) nows))
        (window next_at ?a now \<union> window next_at now ?z)"
      by (rule accounted_Cons [OF _ _ False de(2,3) IH]) (auto simp: window_def)
    then show ?thesis using run de(1) cut by simp
  qed
qed

text \<open>
  Claim C37: every occurrence of a schedule with fixed occurrences is accounted for once. For an
  enabled schedule whose occurrences do not depend on when one asks (a five-field expression, not
  \<open>@every\<close>) and with at most 100000 of them since its cursor, however often it is evaluated as the
  clock advances, and although its cursor is kept in milliseconds only, each of its occurrences since
  the cursor is either fired or counted as missed by exactly one evaluation, the fired ones come in
  their order, and the last of them is the latest occurrence there is.
\<close>

theorem occurrences_accounted:
  assumes "parse_cron P (sp_cron s) = Inr next_at"
    and "cron_laws next_at (from_ms (unix_ms (cu_through c))) (last (cu_through c # nows))"
    and "cu_cron c = sp_cron s" and "\<not> sp_disabled s" and "sorted (cu_through c # nows)"
    and "card (window next_at (cu_through c) (last (cu_through c # nows))) \<le> max_occurrences"
  shows "(\<Sum>d\<leftarrow>decided (evaluations P s c nows). de_missed d + 1) =
      int (card (window next_at (cu_through c) (last (cu_through c # nows)))) \<and>
    sorted_wrt (<) (map de_for (decided (evaluations P s c nows))) \<and>
    de_for ` set (decided (evaluations P s c nows)) \<subseteq> window next_at (cu_through c) (last (cu_through c # nows)) \<and>
    (window next_at (cu_through c) (last (cu_through c # nows)) \<noteq> {} \<longrightarrow>
       de_for (last (decided (evaluations P s c nows))) = Max (window next_at (cu_through c) (last (cu_through c # nows))))"
  using evaluations_accounted [OF assms(1,2,4,3) order_refl assms(5) order_refl assms(6)]
  by (simp add: accounted_def)

section \<open>A schedule counted from the last evaluation\<close>

text \<open>An expression such as \<open>@every 1h\<close>, whose next occurrence is an hour after the time asked about,
  has no decision at all while it is evaluated more often than that: every evaluation moves the cursor
  it is counted from. The loop evaluates at least once a minute.\<close>

lemma evaluate_too_soon:
  assumes "parse_cron P (sp_cron s) = Inr next_at" and "\<And>t u. next_at t = Some u \<Longrightarrow> t + d \<le> u" and "now < cu_through c + d"
  shows "evaluate P s (Some c) now late =
    (\<lparr>cu_workspace = sp_workspace s, cu_id = sp_id s, cu_through = now, cu_cron = sp_cron s\<rparr>, None)"
proof -
  have "window_loop next_at now fuel (cu_through c) None 0 = (None, 0)" for fuel
    using assms(2,3) by (cases fuel) (fastforce split: option.split)+
  then show ?thesis using assms(1) by (simp add: evaluate_def Let_def)
qed

lemma counted_schedule_starves:
  assumes "parse_cron P (sp_cron s) = Inr next_at" and "\<And>t u. next_at t = Some u \<Longrightarrow> t + d \<le> u"
  shows "successively (\<lambda>a b. b + 1000000 \<le> a + d) (cu_through c # nows) \<Longrightarrow> decided (evaluations P s c nows) = []"
proof (induction nows arbitrary: c)
  case (Cons now nows)
  let ?closed = "\<lparr>cu_workspace = sp_workspace s, cu_id = sp_id s, cu_through = now, cu_cron = sp_cron s\<rparr>"
  have "evaluate P s (Some c) now schedule_grace = (?closed, None)"
    by (rule evaluate_too_soon [OF assms]) (use Cons.prems in auto)
  moreover have "decided (evaluations P s (stored_cursor ?closed) nows) = []"
  proof (cases nows)
    case (Cons n ns)
    have "n < from_ms (unix_ms now) + d" using Cons Cons.prems ms_floor(2) [of now] by simp
    then have "evaluate P s (Some (stored_cursor ?closed)) n schedule_grace =
        (\<lparr>cu_workspace = sp_workspace s, cu_id = sp_id s, cu_through = n, cu_cron = sp_cron s\<rparr>, None)"
      by (intro evaluate_too_soon [OF assms]) (simp_all add: stored_cursor_def)
    moreover have "decided (evaluations P s ?closed nows) = []" by (rule Cons.IH) (use Cons.prems in simp)
    moreover have "evaluate P s (Some ?closed) n schedule_grace =
        (\<lparr>cu_workspace = sp_workspace s, cu_id = sp_id s, cu_through = n, cu_cron = sp_cron s\<rparr>, None)"
      by (rule evaluate_too_soon [OF assms]) (use Cons Cons.prems in simp_all)
    ultimately show ?thesis using Cons by simp
  qed simp
  ultimately show ?case by simp
qed simp

end
