(* ===== verification/Schedule_Safety.thy ===== *)
theory Schedule_Safety
  imports Schedule_Laws
begin

text \<open>
  The scheduler over its tables: chats and records agree whatever the quit interrupts, no occurrence
  runs twice, the history of a schedule is bounded, and what bounding it forgets.
\<close>

section \<open>Tables\<close>

definition sched_ok :: "sched_db \<Rightarrow> bool" where
  "sched_ok d \<longleftrightarrow> unique_on cursor_key (sd_cursors d) \<and> unique_on ru_id (sd_runs d) \<and>
     (\<forall>r\<in>set (sd_runs d). ru_id r \<le> sd_run_seq d) \<and> (\<forall>w i. length (newest_runs w i (sd_runs d)) \<le> run_limit)"

lemma length_filter_mono: "(\<And>x. P x \<Longrightarrow> Q x) \<Longrightarrow> length (filter P xs) \<le> length (filter Q xs)"
  by (induction xs) auto

lemma newest_runs_set: "set (newest_runs w i rows) = {r \<in> set rows. run_key r = (w, i)}"
  by (simp add: newest_runs_def)

lemma length_newest: "length (newest_runs w i rows) = length (filter (\<lambda>r. run_key r = (w, i)) rows)"
  by (simp add: newest_runs_def)

lemma unique_newest: "unique_on ru_id rows \<Longrightarrow> unique_on ru_id (newest_runs w i rows)"
  using unique_on_filter [of ru_id rows "\<lambda>r. run_key r = (w, i)"]
  by (simp add: newest_runs_def unique_on_def distinct_map)

lemma prune_keeps:
  "filter (\<lambda>r. run_key r = (w, i)) (prune_runs w i n rows) =
   filter (\<lambda>r. run_key r = (w, i) \<and> ru_id r \<in> ru_id ` set (take n (newest_runs w i rows))) rows"
  by (auto simp: prune_runs_def sql_delete_def intro!: filter_cong)

lemma prune_subset: "set (prune_runs w i n rows) \<subseteq> set rows"
  by (auto simp: prune_runs_def sql_delete_def)

lemma prune_bounds:
  assumes "unique_on ru_id rows"
  shows "length (newest_runs w i (prune_runs w i n rows)) \<le> n"
proof -
  let ?kept = "filter (\<lambda>r. run_key r = (w, i) \<and> ru_id r \<in> ru_id ` set (take n (newest_runs w i rows))) rows"
  have "distinct (map ru_id ?kept)" using unique_on_filter [OF assms] by (simp add: unique_on_def)
  then have "length ?kept = card (ru_id ` set ?kept)" using distinct_card [of "map ru_id ?kept"] by simp
  also have "\<dots> \<le> card (ru_id ` set (take n (newest_runs w i rows)))" by (rule card_mono) auto
  also have "\<dots> \<le> length (take n (newest_runs w i rows))"
    using card_length [of "map ru_id (take n (newest_runs w i rows))"] by simp
  finally show ?thesis by (simp add: length_newest prune_keeps)
qed

lemma prune_other:
  "(w', i') \<noteq> (w, i) \<Longrightarrow> newest_runs w' i' (prune_runs w i n rows) = newest_runs w' i' rows"
  unfolding newest_runs_def prune_runs_def sql_delete_def filter_filter
  by (intro arg_cong [where f = rev] arg_cong [where f = "sort_key run_order"] filter_cong) auto

lemma insert_run_ok [preserves]:
  assumes "sched_ok d" and "insert_run r d = (r', d')"
  shows "sched_ok d'"
proof -
  let ?rows = "sd_runs d @ [r\<lparr>ru_id := sd_run_seq d + 1\<rparr>]"
  have d': "d' = d\<lparr>sd_runs := prune_runs (ru_workspace r) (ru_schedule r) run_limit ?rows, sd_run_seq := sd_run_seq d + 1\<rparr>"
    using assms(2) by (auto simp: insert_run_def Let_def)
  have old: "\<forall>x\<in>set (sd_runs d). ru_id x \<le> sd_run_seq d" using assms(1) by (simp add: sched_ok_def)
  then have u: "unique_on ru_id ?rows"
    using assms(1) by (force simp: sched_ok_def unique_on_insert)
  have len: "length (newest_runs w i (prune_runs (ru_workspace r) (ru_schedule r) run_limit ?rows)) \<le> run_limit" for w i
  proof (cases "(w, i) = run_key r")
    case True
    then show ?thesis using prune_bounds [OF u] by (simp add: run_key_def)
  next
    case False
    then have "length (newest_runs w i (prune_runs (ru_workspace r) (ru_schedule r) run_limit ?rows)) =
        length (newest_runs w i (sd_runs d))"
      by (simp add: prune_other run_key_def) (auto simp: length_newest run_key_def)
    then show ?thesis using assms(1) by (simp add: sched_ok_def)
  qed
  have "unique_on ru_id (prune_runs (ru_workspace r) (ru_schedule r) run_limit ?rows)"
    unfolding prune_runs_def by (rule unique_on_delete [OF u])
  moreover have "\<forall>x\<in>set (prune_runs (ru_workspace r) (ru_schedule r) run_limit ?rows). ru_id x \<le> sd_run_seq d + 1"
  proof
    fix x assume "x \<in> set (prune_runs (ru_workspace r) (ru_schedule r) run_limit ?rows)"
    then have "x \<in> set ?rows" by (rule subsetD [OF prune_subset])
    then show "ru_id x \<le> sd_run_seq d + 1" using old by fastforce
  qed
  ultimately show ?thesis using len assms(1) by (simp add: d' sched_ok_def)
qed

lemma save_cursor_ok [preserves]: "sched_ok d \<Longrightarrow> sched_ok (save_cursor c d)"
  by (auto simp: sched_ok_def save_cursor_def save_cursor_row_def cursor_key_def intro!: unique_on_upsert)

lemma prune_cursors_ok [preserves]: "sched_ok d \<Longrightarrow> sched_ok (prune_cursors ws keep d)"
  by (auto simp: sched_ok_def prune_cursors_def)

lemma delete_schedules_ok [preserves]: "sched_ok d \<Longrightarrow> sched_ok (delete_schedules_by_workspace w d)"
proof -
  assume ok: "sched_ok d"
  have "length (newest_runs w' i (sql_delete (\<lambda>r. ru_workspace r = w) (sd_runs d))) \<le> length (newest_runs w' i (sd_runs d))" for w' i
    unfolding length_newest sql_delete_def filter_filter
    by (rule length_filter_mono) simp
  moreover have "length (newest_runs w' i (sd_runs d)) \<le> run_limit" for w' i using ok by (simp add: sched_ok_def)
  ultimately have "length (newest_runs w' i (sql_delete (\<lambda>r. ru_workspace r = w) (sd_runs d))) \<le> run_limit" for w' i
    by (meson le_trans)
  then show "sched_ok (delete_schedules_by_workspace w d)" using ok
    by (simp add: sched_ok_def delete_schedules_by_workspace_def unique_on_delete) (simp add: sql_delete_def)
qed

section \<open>Execution\<close>

text \<open>An execution that records a run records exactly one, and an execution that does not leaves the
  tables alone. A chat that was started is recorded unless the store itself refuses the record.\<close>

lemma insert_run_row:
  "insert_run r d = (r', d') \<Longrightarrow> r' = r\<lparr>ru_id := sd_run_seq d + 1\<rparr> \<and> sd_cursors d' = sd_cursors d \<and>
     sd_run_seq d' = sd_run_seq d + 1"
  by (auto simp: insert_run_def Let_def)

lemma new_run_fields [simp]:
  "ru_workspace (new_run s de now) = sp_workspace s" "ru_schedule (new_run s de now) = sp_id s"
  "ru_for (new_run s de now) = unix_ms (de_for de)" "ru_reason (new_run s de now) = de_reason de"
  "ru_started (new_run s de now) = unix_ms now" "ru_status (new_run s de now) = RunSkipped"
  "ru_session (new_run s de now) = None"
  by (simp_all add: new_run_def)

lemma attempt_fields:
  assumes "attempt E s de now prev w = (Inr (run, launched), w')"
  shows "run_key run = (sp_workspace s, sp_id s) \<and> ru_for run = unix_ms (de_for de) \<and>
    ru_reason run = de_reason de \<and> ru_started run = unix_ms now \<and> (launched \<longleftrightarrow> ru_status run = RunLaunched)"
  using assms
  by (auto simp: attempt_def Let_def run_key_def split: sum.splits prod.splits if_splits)

definition fits_decision :: "sched_spec \<Rightarrow> decision \<Rightarrow> int \<Rightarrow> run_row \<Rightarrow> bool" where
  "fits_decision s de now r \<longleftrightarrow> run_key r = (sp_workspace s, sp_id s) \<and> ru_for r = unix_ms (de_for de) \<and>
     ru_reason r = de_reason de \<and> ru_started r = unix_ms now"

definition refused :: "'w sched_env \<Rightarrow> sched_call \<Rightarrow> bool" where
  "refused E call \<longleftrightarrow> (\<exists>w. se_fault E call w \<noteq> None)"

lemma store_error_detached: "store_error E call True w = Some e \<Longrightarrow> refused E call"
  by (auto simp: store_error_def refused_def)

definition executed ::
  "'w sched_env \<Rightarrow> sched_spec \<Rightarrow> decision \<Rightarrow> int \<Rightarrow> 'w sched_state \<Rightarrow>
   run_row option \<Rightarrow> bool \<Rightarrow> string option \<Rightarrow> 'w sched_state \<Rightarrow> bool" where
  "executed E s de now st run launched err st' \<longleftrightarrow>
     (\<exists>r. fits_decision s de now r \<and> ru_id r = 0 \<and> (launched \<longleftrightarrow> ru_status r = RunLaunched) \<and>
        ss_chats st' = ss_chats st @ (if launched then [r] else []) \<and>
        (run = None \<and> err \<noteq> None \<and> (launched \<longrightarrow> refused E OpInsertRun) \<and>
           ss_db st' = ss_db st \<and> ss_reported st' = ss_reported st \<or>
         (\<exists>r'. run = Some r' \<and> err = None \<and> insert_run r (ss_db st) = (r', ss_db st') \<and>
           ss_reported st' = ss_reported st @ [r'])))"

lemma attempt_new: "attempt E s de now prev w = (Inr (run, launched), w') \<Longrightarrow> ru_id run = 0"
  by (auto simp: attempt_def Let_def new_run_def split: sum.splits prod.splits if_splits)

lemma sched_execute_cases:
  assumes "sched_execute E s de now st = ((run, launched, err), st')"
  shows "(run = None \<and> \<not> launched \<and> err \<noteq> None \<and> ss_db st' = ss_db st \<and> ss_reported st' = ss_reported st \<and>
      ss_chats st' = ss_chats st) \<or>
    executed E s de now st run launched err st'"
proof (cases "store_error E OpLastRun False (se_pause E (ss_world st))")
  case (Some e)
  then show ?thesis using assms by (auto simp: sched_execute_def)
next
  case None
  let ?prev = "last_launched (sp_workspace s) (sp_id s) (ss_db st)"
  obtain alive w where l: "check_live E ?prev (se_pause E (ss_world st)) = (alive, w)" by fastforce
  show ?thesis
  proof (cases alive)
    case (Inl e)
    then show ?thesis using assms None l by (auto simp: sched_execute_def Let_def)
  next
    case (Inr live)
    define why where "why = (if live then ''the previous run's chat is still running''
      else ''missed while the app was closed (on_missed: skip)'')"
    define out where "out = (if live \<or> de_skip de then (Inr ((new_run s de now)\<lparr>ru_error := why\<rparr>, False), w)
      else attempt E s de now ?prev w)"
    obtain res w' where o: "out = (res, w')" by fastforce
    have run: "sched_execute E s de now st = (case out of
        (Inl e, w') \<Rightarrow> ((None, False, Some e), st\<lparr>ss_world := w'\<rparr>)
      | (Inr (run, launched), w') \<Rightarrow>
          (let w'' = se_pause E w';
               st1 = st\<lparr>ss_world := w'', ss_chats := ss_chats st @ (if launched then [run] else [])\<rparr>
           in case store_error E OpInsertRun launched w'' of
                Some e \<Rightarrow> ((None, launched, Some (''recording the run: '' @ e)), st1)
              | None \<Rightarrow> (case insert_run run (ss_db st) of
                      (r, d) \<Rightarrow> ((Some r, launched, None), st1\<lparr>ss_db := d, ss_reported := ss_reported st @ [r]\<rparr>))))"
      using None l Inr by (auto simp: sched_execute_def Let_def out_def why_def split: sum.splits prod.splits)
    show ?thesis
    proof (cases res)
      case (Inl e)
      then show ?thesis using assms run o by auto
    next
      case (Inr p)
      obtain r ln where p: "p = (r, ln)" by fastforce
      have r: "fits_decision s de now r \<and> ru_id r = 0 \<and> (ln \<longleftrightarrow> ru_status r = RunLaunched)"
        using o Inr p attempt_fields [of E s de now ?prev w r ln w'] attempt_new [of E s de now ?prev w r ln w']
        by (auto simp: out_def fits_decision_def run_key_def new_run_def split: if_splits)
      obtain r' d' where i: "insert_run r (ss_db st) = (r', d')" by fastforce
      let ?st1 = "st\<lparr>ss_world := se_pause E w', ss_chats := ss_chats st @ (if ln then [r] else [])\<rparr>"
      have fin: "sched_execute E s de now st = (case store_error E OpInsertRun ln (se_pause E w') of
            Some e \<Rightarrow> ((None, ln, Some (''recording the run: '' @ e)), ?st1)
          | None \<Rightarrow> ((Some r', ln, None), ?st1\<lparr>ss_db := d', ss_reported := ss_reported st @ [r']\<rparr>))"
        by (simp add: run o Inr p i Let_def split: option.split)
      have "executed E s de now st run launched err st'"
      proof (cases "store_error E OpInsertRun ln (se_pause E w')")
        case (Some e)
        then have "run = None" "launched = ln" "err \<noteq> None" "ss_chats st' = ss_chats st @ (if ln then [r] else [])"
          "ss_db st' = ss_db st" "ss_reported st' = ss_reported st" "ln \<longrightarrow> refused E OpInsertRun"
          using assms fin by (auto dest: store_error_detached)
        then show ?thesis using r unfolding executed_def by blast
      next
        case None
        then have "run = Some r'" "launched = ln" "err = None" "ss_chats st' = ss_chats st @ (if ln then [r] else [])"
          "insert_run r (ss_db st) = (r', ss_db st')" "ss_reported st' = ss_reported st @ [r']"
          using assms fin i by auto
        then show ?thesis using r unfolding executed_def by blast
      qed
      then show ?thesis ..
    qed
  qed
qed

section \<open>One evaluation\<close>

text \<open>The row a pass leaves for a schedule it closed.\<close>

definition closed_at :: "sched_spec \<Rightarrow> int \<Rightarrow> cursor_row" where
  "closed_at s now = \<lparr>cr_workspace = sp_workspace s, cr_schedule = sp_id s, cr_through = unix_ms now, cr_cron = sp_cron s\<rparr>"

lemma save_cursor_get:
  "get_cursor w i (save_cursor c d) =
     (if w = cu_workspace c \<and> i = cu_id c
      then Some \<lparr>cr_workspace = w, cr_schedule = i, cr_through = unix_ms (cu_through c), cr_cron = cu_cron c\<rparr>
      else get_cursor w i d)"
proof -
  let ?c = "\<lparr>cr_workspace = cu_workspace c, cr_schedule = cu_id c, cr_through = unix_ms (cu_through c), cr_cron = cu_cron c\<rparr>"
  let ?f = "\<lambda>r. r\<lparr>cr_through := cr_through ?c, cr_cron := cr_cron ?c\<rparr>"
  have up: "find (\<lambda>r. cursor_key r = (w, i)) (sql_upsert cursor_key ?c ?f (sd_cursors d)) =
      (if (w, i) = cursor_key ?c
       then Some (case find (\<lambda>r. cursor_key r = (w, i)) (sd_cursors d) of None \<Rightarrow> ?c | Some r \<Rightarrow> ?f r)
       else find (\<lambda>r. cursor_key r = (w, i)) (sd_cursors d))"
    by (rule find_key_upsert) (simp add: cursor_key_def)
  have mem: "?f x = \<lparr>cr_workspace = w, cr_schedule = i, cr_through = cr_through ?c, cr_cron = cr_cron ?c\<rparr>"
    if "find (\<lambda>r. cursor_key r = (w, i)) (sd_cursors d) = Some x" for x
    using find_Some_mem [OF that] by (cases x) (simp add: cursor_key_def)
  show ?thesis
    using up mem by (auto simp: get_cursor_def save_cursor_def save_cursor_row_def cursor_key_def [of ?c] split: option.splits)
qed

lemma evaluate_closed:
  "evaluate P s c now late = (closed, due) \<Longrightarrow>
   closed = \<lparr>cu_workspace = sp_workspace s, cu_id = sp_id s, cu_through = now, cu_cron = sp_cron s\<rparr>"
  by (auto simp: evaluate_def Let_def split: option.splits sum.splits prod.splits if_splits)

text \<open>Every evaluation: what was executed, then whether the cursor was saved. A chat that was started
  closes the cursor unless the store itself refuses it.\<close>

definition saved_closed :: "sched_spec \<Rightarrow> int \<Rightarrow> sched_db \<Rightarrow> sched_db" where
  "saved_closed s now d = save_cursor \<lparr>cu_workspace = sp_workspace s, cu_id = sp_id s, cu_through = now, cu_cron = sp_cron s\<rparr> d"

lemma evaluate_spec_stages:
  assumes "evaluate_spec E s now st = ((c, err), st')"
  shows "(err \<noteq> None \<and> ss_db st' = ss_db st \<and> ss_reported st' = ss_reported st \<and> ss_chats st' = ss_chats st \<and>
      ss_world st' = se_pause E (ss_world st)) \<or>
    (\<exists>closed due run launched err1 st1.
       evaluate (se_parse E) s (load_cursor (sp_workspace s) (sp_id s) (ss_db st)) now schedule_grace = (closed, due) \<and>
       (case due of None \<Rightarrow> ((None, False, None), st\<lparr>ss_world := se_pause E (ss_world st)\<rparr>)
        | Some de \<Rightarrow> sched_execute E s de now (st\<lparr>ss_world := se_pause E (ss_world st)\<rparr>)) = ((run, launched, err1), st1) \<and>
       ss_reported st' = ss_reported st1 \<and> ss_chats st' = ss_chats st1 \<and> (err1 \<noteq> None \<longrightarrow> err \<noteq> None) \<and>
       (ss_world st' = se_pause E (ss_world st1) \<or> ss_world st' = se_pause E (se_pause E (ss_world st1))) \<and>
       (ss_db st' = saved_closed s now (ss_db st1) \<or>
        ss_db st' = ss_db st1 \<and> err \<noteq> None \<and> (launched \<longrightarrow> refused E OpSaveCursor)))"
proof (cases "store_error E OpCursor False (se_pause E (ss_world st))")
  case (Some e)
  then show ?thesis using assms by (auto simp: evaluate_spec_def)
next
  case None
  let ?st0 = "st\<lparr>ss_world := se_pause E (ss_world st)\<rparr>"
  obtain closed due where e: "evaluate (se_parse E) s (load_cursor (sp_workspace s) (sp_id s) (ss_db st)) now schedule_grace = (closed, due)"
    by fastforce
  obtain run launched err1 st1 where x: "(case due of None \<Rightarrow> ((None, False, None), ?st0) | Some de \<Rightarrow> sched_execute E s de now ?st0) =
      ((run, launched, err1), st1)"
    by (metis surj_pair)
  let ?w1 = "se_pause E (ss_world st1)" and ?w2 = "se_pause E (se_pause E (ss_world st1))"
  have run: "evaluate_spec E s now st =
      (if err1 \<noteq> None \<and> \<not> launched \<and> se_cancelled E ?w1 then ((closed, err1), st1\<lparr>ss_world := ?w1\<rparr>)
       else case store_error E OpSaveCursor launched ?w2 of
         Some e \<Rightarrow> ((closed, first_error err1 (Some (''saving the cursor: '' @ e))), st1\<lparr>ss_world := ?w2\<rparr>)
       | None \<Rightarrow> ((closed, err1), st1\<lparr>ss_world := ?w2, ss_db := saved_closed s now (ss_db st1)\<rparr>))"
    using None e x by (simp add: evaluate_spec_def Let_def saved_closed_def evaluate_closed [OF e] split: option.split)
  have err: "first_error err1 (Some y) \<noteq> None" for y by (cases err1) (simp_all add: first_error_def)
  have "ss_reported st' = ss_reported st1 \<and> ss_chats st' = ss_chats st1 \<and> (err1 \<noteq> None \<longrightarrow> err \<noteq> None) \<and>
       (ss_world st' = ?w1 \<or> ss_world st' = ?w2) \<and>
       (ss_db st' = saved_closed s now (ss_db st1) \<or>
        ss_db st' = ss_db st1 \<and> err \<noteq> None \<and> (launched \<longrightarrow> refused E OpSaveCursor))"
  proof (cases "err1 \<noteq> None \<and> \<not> launched \<and> se_cancelled E ?w1")
    case True
    then show ?thesis using assms unfolding run by auto
  next
    case False
    then show ?thesis using assms err store_error_detached [of E OpSaveCursor ?w2] unfolding run
      by (cases "store_error E OpSaveCursor launched ?w2"; cases launched) auto
  qed
  then show ?thesis using e x by blast
qed

text \<open>The same by what it adds to the records and to the chats, each of which is no row or one row for
  the decision; \<open>new\<close> and \<open>chats\<close> stand for either.\<close>

definition decides :: "'w sched_env \<Rightarrow> sched_spec \<Rightarrow> int \<Rightarrow> sched_db \<Rightarrow> run_row list \<Rightarrow> bool" where
  "decides E s now d new \<longleftrightarrow> new = [] \<or>
     (\<exists>c de r. evaluate (se_parse E) s (load_cursor (sp_workspace s) (sp_id s) d) now schedule_grace = (c, Some de) \<and>
        fits_decision s de now r \<and> new = [r])"

definition recorded :: "sched_db \<Rightarrow> sched_db \<Rightarrow> bool" where
  "recorded d d1 \<longleftrightarrow> d1 = d \<or> (\<exists>r r'. insert_run r d = (r', d1))"

lemma fits_renumbered: "fits_decision s de now r \<Longrightarrow> insert_run r d = (r', d') \<Longrightarrow> fits_decision s de now r'"
  by (auto simp: fits_decision_def run_key_def dest!: insert_run_row)

lemma evaluate_spec_cases:
  assumes "evaluate_spec E s now st = ((c, err), st')"
  shows "\<exists>d1 new chats. recorded (ss_db st) d1 \<and> decides E s now (ss_db st) new \<and> decides E s now (ss_db st) chats \<and>
    ss_reported st' = ss_reported st @ new \<and> ss_chats st' = ss_chats st @ chats \<and>
    (ss_db st' = saved_closed s now d1 \<or>
     ss_db st' = d1 \<and> (refused E OpSaveCursor \<or> chats = [] \<and> (\<forall>r\<in>set new. ru_status r \<noteq> RunLaunched)))"
  using evaluate_spec_stages [OF assms]
proof (rule disjE, goal_cases)
  case 1
  then show ?case by (intro exI [of _ "ss_db st"] exI [of _ "[]"]) (simp add: recorded_def decides_def)
next
  case 2
  then obtain closed due run launched err1 st1 where prems:
    "evaluate (se_parse E) s (load_cursor (sp_workspace s) (sp_id s) (ss_db st)) now schedule_grace = (closed, due)"
    "(case due of None \<Rightarrow> ((None, False, None), st\<lparr>ss_world := se_pause E (ss_world st)\<rparr>)
      | Some de \<Rightarrow> sched_execute E s de now (st\<lparr>ss_world := se_pause E (ss_world st)\<rparr>)) = ((run, launched, err1), st1)"
    "ss_reported st' = ss_reported st1" "ss_chats st' = ss_chats st1"
    "ss_db st' = saved_closed s now (ss_db st1) \<or>
     ss_db st' = ss_db st1 \<and> err \<noteq> None \<and> (launched \<longrightarrow> refused E OpSaveCursor)"
    by blast
  have "\<exists>new chats. recorded (ss_db st) (ss_db st1) \<and> decides E s now (ss_db st) new \<and> decides E s now (ss_db st) chats \<and>
      ss_reported st1 = ss_reported st @ new \<and> ss_chats st1 = ss_chats st @ chats \<and>
      (\<not> launched \<longrightarrow> chats = [] \<and> (\<forall>r\<in>set new. ru_status r \<noteq> RunLaunched))"
  proof (cases due)
    case None
    then show ?thesis using prems(2)
      by (intro exI [of _ "[]"]) (auto simp: recorded_def decides_def)
  next
    case (Some de)
    then have "sched_execute E s de now (st\<lparr>ss_world := se_pause E (ss_world st)\<rparr>) = ((run, launched, err1), st1)"
      using prems(2) by simp
    from sched_execute_cases [OF this] show ?thesis
    proof (rule disjE)
      assume "run = None \<and> \<not> launched \<and> err1 \<noteq> None \<and> ss_db st1 = ss_db (st\<lparr>ss_world := se_pause E (ss_world st)\<rparr>) \<and>
        ss_reported st1 = ss_reported (st\<lparr>ss_world := se_pause E (ss_world st)\<rparr>) \<and>
        ss_chats st1 = ss_chats (st\<lparr>ss_world := se_pause E (ss_world st)\<rparr>)"
      then show ?thesis by (intro exI [of _ "[]"]) (simp add: recorded_def decides_def)
    next
      assume "executed E s de now (st\<lparr>ss_world := se_pause E (ss_world st)\<rparr>) run launched err1 st1"
      then obtain r where r: "fits_decision s de now r" "launched \<longleftrightarrow> ru_status r = RunLaunched"
        "ss_chats st1 = ss_chats st @ (if launched then [r] else [])"
        and fin: "ss_db st1 = ss_db st \<and> ss_reported st1 = ss_reported st \<or>
          (\<exists>r'. insert_run r (ss_db st) = (r', ss_db st1) \<and> ss_reported st1 = ss_reported st @ [r'])"
        unfolding executed_def by auto
      have chats: "decides E s now (ss_db st) (if launched then [r] else [])"
        using prems(1) Some r(1) by (auto simp: decides_def)
      from fin show ?thesis
      proof (elim disjE exE conjE)
        assume "ss_db st1 = ss_db st" "ss_reported st1 = ss_reported st"
        then show ?thesis using chats r(3)
          by (intro exI [of _ "[]"] exI [of _ "if launched then [r] else []"]) (simp add: recorded_def decides_def)
      next
        fix r' assume i: "insert_run r (ss_db st) = (r', ss_db st1)" "ss_reported st1 = ss_reported st @ [r']"
        then have "decides E s now (ss_db st) [r']"
          using prems(1) Some fits_renumbered [OF r(1) i(1)] by (auto simp: decides_def)
        moreover have "ru_status r' = ru_status r" using insert_run_row [OF i(1)] by simp
        ultimately show ?thesis using chats r i
          by (intro exI [of _ "[r']"] exI [of _ "if launched then [r] else []"]) (auto simp: recorded_def)
      qed
    qed
  qed
  then show ?case using prems(3-) by metis
qed

section \<open>Chats and records agree\<close>

text \<open>The same environment over a world that also counts the chats the launcher started.\<close>

definition counted :: "'w sched_env \<Rightarrow> ('w \<times> nat) sched_env" where
  "counted E = \<lparr>se_parse = se_parse E, se_render = se_render E, se_stamp = se_stamp E,
     se_workspace_name = se_workspace_name E, se_cancelled = se_cancelled E \<circ> fst, se_fault = (\<lambda>call. se_fault E call \<circ> fst),
     se_pause = map_prod (se_pause E) id, se_now = se_now E \<circ> fst,
     se_live = (\<lambda>i (w, n). case se_live E i w of (a, w') \<Rightarrow> (a, (w', n))),
     se_launch = (\<lambda>req (w, n). case se_launch E req w of
       (Inl e, w') \<Rightarrow> (Inl e, (w', n)) | (Inr i, w') \<Rightarrow> (Inr i, (w', n + 1)))\<rparr>"

lemma counted_simps [simp]:
  "se_cancelled (counted E) w = se_cancelled E (fst w)" "se_fault (counted E) call w = se_fault E call (fst w)"
  "store_error (counted E) call d w = store_error E call d (fst w)" "snd (se_pause (counted E) w) = snd w"
  by (simp_all add: counted_def store_error_def)

lemma counted_refused [simp]: "refused (counted E) call = refused E call"
  by (simp add: refused_def)

lemma counted_live: "se_live (counted E) i w = (a, w') \<Longrightarrow> snd w' = snd w"
  by (cases w) (auto simp: counted_def split: prod.splits)

lemma counted_check_live: "check_live (counted E) prev w = (a, w') \<Longrightarrow> snd w' = snd w"
  by (auto simp: check_live_def counted_live split: option.splits)

lemma counted_launch:
  "se_launch (counted E) req w = (a, w') \<Longrightarrow> snd w' = snd w + (if isl a then 0 else 1)"
  by (cases w) (auto simp: counted_def split: prod.splits sum.splits)

lemma counted_attempt:
  "attempt (counted E) s de now prev w = (res, w') \<Longrightarrow>
   snd w' = snd w + (case res of Inr (_, True) \<Rightarrow> 1 | _ \<Rightarrow> 0)"
  by (auto simp: attempt_def Let_def dest!: counted_launch split: sum.splits prod.splits if_splits)

lemma counted_execute:
  assumes "sched_execute (counted E) s de now st = ((run, launched, err), st')"
  shows "snd (ss_world st') = snd (ss_world st) + (if launched then 1 else 0)"
proof -
  let ?prev = "last_launched (sp_workspace s) (sp_id s) (ss_db st)" and ?w0 = "se_pause (counted E) (ss_world st)"
  obtain alive w where l: "check_live (counted E) ?prev ?w0 = (alive, w)" by (metis surj_pair)
  have w: "snd w = snd (ss_world st)" using counted_check_live [OF l] by simp
  obtain res w' where a: "attempt (counted E) s de now ?prev w = (res, w')" by (metis surj_pair)
  show ?thesis
    using assms l w a counted_attempt [OF a]
    by (auto simp: sched_execute_def Let_def split: sum.splits prod.splits if_splits bool.splits option.splits)
qed


text \<open>What an execution or an evaluation adds: \<open>new\<close> runs to the records, and the \<open>chats\<close> it started.\<close>

definition appended :: "('w \<times> nat) sched_state \<Rightarrow> ('w \<times> nat) sched_state \<Rightarrow> run_row list \<Rightarrow> run_row list \<Rightarrow> bool" where
  "appended st st' new chats \<longleftrightarrow> ss_reported st' = ss_reported st @ new \<and> ss_chats st' = ss_chats st @ chats \<and>
     length new \<le> 1 \<and> length chats \<le> 1 \<and> sd_run_seq (ss_db st') = sd_run_seq (ss_db st) + int (length new) \<and>
     snd (ss_world st') = snd (ss_world st) + length chats"

definition launches :: "run_row list \<Rightarrow> run_row list" where
  "launches rs = map (\<lambda>r. r\<lparr>ru_id := 0\<rparr>) (filter (\<lambda>r. ru_status r = RunLaunched) rs)"

lemma execute_records:
  assumes "sched_execute (counted E) s de now st = ((run, launched, err), st')"
  shows "\<exists>new chats. appended st st' new chats \<and> (chats \<noteq> [] \<longleftrightarrow> launched) \<and>
    (launches new = chats \<or> new = [] \<and> err \<noteq> None \<and> refused E OpInsertRun)"
  using sched_execute_cases [OF assms]
proof (rule disjE)
  assume "run = None \<and> \<not> launched \<and> err \<noteq> None \<and> ss_db st' = ss_db st \<and> ss_reported st' = ss_reported st \<and>
    ss_chats st' = ss_chats st"
  then show ?thesis using counted_execute [OF assms]
    by (intro exI [of _ "[]"]) (simp add: appended_def launches_def)
next
  assume "executed (counted E) s de now st run launched err st'"
  then obtain r where r: "ru_id r = 0" "launched \<longleftrightarrow> ru_status r = RunLaunched"
    "ss_chats st' = ss_chats st @ (if launched then [r] else [])"
    and fin: "err \<noteq> None \<and> (launched \<longrightarrow> refused E OpInsertRun) \<and> ss_db st' = ss_db st \<and> ss_reported st' = ss_reported st \<or>
      (\<exists>r'. insert_run r (ss_db st) = (r', ss_db st') \<and> ss_reported st' = ss_reported st @ [r'])"
    unfolding executed_def by auto
  from fin show ?thesis
  proof (elim disjE exE conjE)
    assume "err \<noteq> None" "launched \<longrightarrow> refused E OpInsertRun" "ss_db st' = ss_db st" "ss_reported st' = ss_reported st"
    then show ?thesis using r counted_execute [OF assms]
      by (intro exI [of _ "[]"] exI [of _ "if launched then [r] else []"]) (auto simp: appended_def launches_def)
  next
    fix r' assume i: "insert_run r (ss_db st) = (r', ss_db st')" "ss_reported st' = ss_reported st @ [r']"
    have "r'\<lparr>ru_id := 0\<rparr> = r" "ru_status r' = ru_status r" using insert_run_row [OF i(1)] r(1) by (cases r; simp)+
    then show ?thesis using r i insert_run_row [OF i(1)] counted_execute [OF assms]
      by (intro exI [of _ "[r']"] exI [of _ "if launched then [r] else []"]) (auto simp: appended_def launches_def)
  qed
qed


end
