(* ===== verification/Schedule_Reach.thy ===== *)
theory Schedule_Reach
  imports Schedule_Safety "HOL-Library.Multiset"
begin

text \<open>
  What passes, manual runs, pruning and the deletion of workspaces can make of the schedule tables
  from an empty database on: a bounded history, and no occurrence that runs twice.
\<close>

section \<open>Reachable states\<close>

definition empty_schedules :: sched_db where
  "empty_schedules = \<lparr>sd_cursors = [], sd_runs = [], sd_run_seq = 0\<rparr>"

text \<open>The time is that of the latest pass; the world may change by itself at any moment.\<close>

inductive sched_reach :: "'w sched_env \<Rightarrow> int \<Rightarrow> 'w sched_state \<Rightarrow> bool" for E :: "'w sched_env" where
  sched_start: "sched_reach E t \<lparr>ss_db = empty_schedules, ss_world = w, ss_reported = [], ss_chats = []\<rparr>"
| sched_elapse: "sched_reach E t st \<Longrightarrow> sched_reach E t (st\<lparr>ss_world := w\<rparr>)"
| sched_passed: "\<lbrakk>sched_reach E t st; t \<le> se_now E (ss_world st); sched_pass E snap st = (err, st')\<rbrakk>
    \<Longrightarrow> sched_reach E (se_now E (ss_world st)) st'"
| sched_manual: "\<lbrakk>sched_reach E t st; run_now E snap w i st = (res, st')\<rbrakk> \<Longrightarrow> sched_reach E t st'"
| sched_removed: "sched_reach E t st \<Longrightarrow> sched_reach E t (st\<lparr>ss_db := delete_schedules_by_workspace w (ss_db st)\<rparr>)"

text \<open>What every evaluation, execution, pruning and deletion keeps, every pass and manual run keeps.\<close>

lemma pass_one_step: "pass_one E now s ((keep, first), st) =
    (let r = evaluate_spec E s now st in ((keep @ [fst (fst r)], first_error first (snd (fst r))), snd r))"
  by (simp add: pass_one_def Let_def split: prod.splits)

lemma passes_keep:
  assumes "\<And>s st c err st'. evaluate_spec E s now st = ((c, err), st') \<Longrightarrow> I st \<Longrightarrow> I st'"
  shows "I st \<Longrightarrow> I (snd (fold (pass_one E now) specs ((keep, first), st)))"
proof (induction specs arbitrary: keep first st)
  case (Cons s specs)
  have "I (snd (evaluate_spec E s now st))"
    using assms [of s st "fst (fst (evaluate_spec E s now st))" "snd (fst (evaluate_spec E s now st))" "snd (evaluate_spec E s now st)"]
      Cons.prems by simp
  then show ?case using Cons.IH by (simp add: pass_one_step Let_def)
qed simp

lemma sched_pass_keeps:
  assumes "sched_pass E snap st = (err, st')" and "I (ss_db st) (ss_reported st) (ss_chats st)"
    and "\<And>s st1 c err st2. evaluate_spec E s (se_now E (ss_world st)) st1 = ((c, err), st2) \<Longrightarrow>
      I (ss_db st1) (ss_reported st1) (ss_chats st1) \<Longrightarrow> I (ss_db st2) (ss_reported st2) (ss_chats st2)"
    and "\<And>ws keep d rep chats. I d rep chats \<Longrightarrow> I (prune_cursors ws keep d) rep chats"
  shows "I (ss_db st') (ss_reported st') (ss_chats st')"
proof -
  let ?J = "\<lambda>st. I (ss_db st) (ss_reported st) (ss_chats st)"
  obtain keep first st1 where f: "fold (pass_one E (se_now E (ss_world st))) (sn_specs snap) (([], None), st) = ((keep, first), st1)"
    by (metis surj_pair)
  have "?J (snd (fold (pass_one E (se_now E (ss_world st))) (sn_specs snap) (([], None), st)))"
    by (rule passes_keep [where I = ?J, OF assms(3) assms(2)])
  then have "?J st1" using f by simp
  then show ?thesis using assms(1,4) f by (auto simp: sched_pass_def Let_def split: option.splits)
qed

lemma run_now_cases:
  assumes "run_now E snap w i st = (res, st')"
  shows "st' = st \<or> (\<exists>s de run launched err. de_reason de = ReasonManual \<and>
    sched_execute E s de (se_now E (ss_world st)) st = ((run, launched, err), st'))"
proof (cases "find (\<lambda>s. sp_workspace s = w \<and> sp_id s = i) (sn_specs snap)")
  case None
  then show ?thesis using assms by (simp add: run_now_def)
next
  case (Some s)
  let ?now = "se_now E (ss_world st)" and ?de = "\<lparr>de_for = se_now E (ss_world st), de_reason = ReasonManual, de_missed = 0, de_skip = False\<rparr>"
  obtain run launched err st1 where "sched_execute E s ?de ?now st = ((run, launched, err), st1)" by (metis surj_pair)
  moreover from this have "st1 = st'" using assms Some by (simp add: run_now_def Let_def)
  ultimately show ?thesis by (metis decision.select_convs(2))
qed

section \<open>The history is bounded\<close>

lemma recorded_ok:
  "recorded d d1 \<Longrightarrow> sched_ok d \<Longrightarrow> sched_ok d1"
  by (auto simp: recorded_def insert_run_ok)

lemma evaluate_spec_ok:
  "evaluate_spec E s now st = ((c, err), st') \<Longrightarrow> sched_ok (ss_db st) \<Longrightarrow> sched_ok (ss_db st')"
  by (drule evaluate_spec_cases) (auto simp: saved_closed_def save_cursor_ok dest: recorded_ok)

lemma execute_ok:
  "sched_execute E s de now st = ((run, launched, err), st') \<Longrightarrow> sched_ok (ss_db st) \<Longrightarrow> sched_ok (ss_db st')"
  by (drule sched_execute_cases) (auto simp: executed_def intro: insert_run_ok)

lemma reach_ok: "sched_reach E t st \<Longrightarrow> sched_ok (ss_db st)"
proof (induction rule: sched_reach.induct)
  case (sched_passed t st snap err st')
  show ?case
    by (rule sched_pass_keeps [where I = "\<lambda>d rep chats. sched_ok d", OF sched_passed.hyps(3) sched_passed.IH])
      (auto intro: evaluate_spec_ok prune_cursors_ok)
next
  case (sched_manual t st snap w i res st')
  then show ?case using run_now_cases [OF sched_manual.hyps(2)] by (auto intro: execute_ok)
next
  case (sched_removed t st w)
  then show ?case by (simp add: delete_schedules_ok)
qed (auto simp: sched_ok_def empty_schedules_def unique_on_def newest_runs_def)

text \<open>
  The schedule tables stay within their bounds. Whatever passes, manual runs and
  deletions do from an empty database on, a schedule never holds more than 200 runs, a schedule has
  at most one cursor, and ids of runs are unique and never above the table's counter.
\<close>

theorem history_bounded:
  assumes "sched_reach E t st"
  shows "length (list_runs w i n (ss_db st)) \<le> 200 \<and>
    length (filter (\<lambda>r. run_key r = (w, i)) (sd_runs (ss_db st))) \<le> 200 \<and>
    length (filter (\<lambda>c. cursor_key c = (w, i)) (sd_cursors (ss_db st))) \<le> 1 \<and>
    distinct (map ru_id (sd_runs (ss_db st))) \<and> (\<forall>r\<in>set (sd_runs (ss_db st)). ru_id r \<le> sd_run_seq (ss_db st))"
proof -
  have ok: "sched_ok (ss_db st)" by (rule reach_ok [OF assms])
  have n: "length (newest_runs w i (sd_runs (ss_db st))) \<le> 200" using ok by (simp add: sched_ok_def run_limit_def)
  have "length (filter (\<lambda>c. cursor_key c = (w, i)) (sd_cursors (ss_db st))) \<le> 1"
  proof -
    let ?cs = "filter (\<lambda>c. cursor_key c = (w, i)) (sd_cursors (ss_db st))"
    have "distinct (map cursor_key ?cs)" using ok unique_on_filter [of cursor_key] by (auto simp: sched_ok_def unique_on_def)
    moreover have "set (map cursor_key ?cs) \<subseteq> {(w, i)}" by auto
    ultimately have "length (map cursor_key ?cs) \<le> card {(w, i)}" by (metis card_mono distinct_card finite.emptyI finite.insertI)
    then show ?thesis by simp
  qed
  then show ?thesis using ok n length_newest [of w i] by (auto simp: sched_ok_def unique_on_def list_runs_def)
qed

section \<open>No occurrence runs twice\<close>

definition fired :: "string \<Rightarrow> string \<Rightarrow> run_row list \<Rightarrow> run_row list" where
  "fired w i rep = filter (\<lambda>r. run_key r = (w, i) \<and> ru_status r = RunLaunched \<and> ru_reason r \<noteq> ReasonManual) rep"

definition cron_sound :: "cron_parser \<Rightarrow> bool" where
  "cron_sound P \<longleftrightarrow> (\<forall>expr next_at t u. P expr = Inr next_at \<and> next_at t = Some u \<longrightarrow> t < u \<and> u mod 1000000000 = 0)"

definition spent :: "int \<Rightarrow> sched_db \<Rightarrow> run_row list \<Rightarrow> bool" where
  "spent t d rep \<longleftrightarrow> (\<forall>w i. sorted_wrt (<) (map ru_for (fired w i rep)) \<and>
     (\<forall>r\<in>set (fired w i rep). ru_for r \<le> unix_ms t \<and>
        (\<forall>c\<in>set (sd_cursors d). cursor_key c = (w, i) \<longrightarrow> ru_for r \<le> cr_through c)))"

lemma parse_cron_sound: "cron_sound P \<Longrightarrow> parse_cron P expr = Inr next_at \<Longrightarrow> next_at t = Some u \<Longrightarrow> t < u \<and> u mod 1000000000 = 0"
  by (cases "P (trim_space expr)") (auto simp: cron_sound_def parse_cron_def Let_def split: if_splits)

lemma window_loop_due:
  assumes "\<And>t u. next_at t = Some u \<Longrightarrow> t < u \<and> u mod 1000000000 = 0"
  shows "window_loop next_at now fuel a latest n = (Some t, m) \<Longrightarrow> lo \<le> a \<Longrightarrow>
    (\<And>l. latest = Some l \<Longrightarrow> lo < l \<and> l \<le> now \<and> l mod 1000000000 = 0) \<Longrightarrow>
    lo < t \<and> t \<le> now \<and> t mod 1000000000 = 0"
proof (induction fuel arbitrary: a latest n)
  case (Suc fuel)
  show ?case
  proof (cases "next_at a")
    case None
    then show ?thesis using Suc.prems by simp
  next
    case (Some u)
    with assms have u: "a < u" "u mod 1000000000 = 0" by auto
    show ?thesis
    proof (cases "now < u")
      case True
      then show ?thesis using Suc.prems Some by simp
    next
      case False
      then have "window_loop next_at now fuel u (Some u) (n + 1) = (Some t, m)" using Suc.prems(1) Some by simp
      then show ?thesis by (rule Suc.IH) (use u False Suc.prems(2) in auto)
    qed
  qed
qed simp

lemma evaluate_due:
  assumes "cron_sound P" and "evaluate P s cursor now late = (closed, Some de)"
  shows "\<exists>c. cursor = Some c \<and> cu_through c < de_for de \<and> de_for de \<le> now \<and> de_for de mod 1000000000 = 0 \<and> de_reason de \<noteq> ReasonManual"
proof -
  obtain c where c: "cursor = Some c" "\<not> (cu_cron c \<noteq> sp_cron s \<or> sp_disabled s)"
    using assms(2) by (auto simp: evaluate_def Let_def split: option.splits if_splits)
  then obtain next_at where p: "parse_cron P (sp_cron s) = Inr next_at"
    using assms(2) by (auto simp: evaluate_def Let_def split: sum.splits)
  let ?loop = "window_loop next_at now max_occurrences (cu_through c) None 0"
  have run: "snd (evaluate P s cursor now late) = (case ?loop of
      (Some t, n) \<Rightarrow> Some (if late < now - t
        then \<lparr>de_for = t, de_reason = ReasonCatchUp, de_missed = int n - 1, de_skip = (sp_missed s = ''skip'')\<rparr>
        else \<lparr>de_for = t, de_reason = ReasonDue, de_missed = int n - 1, de_skip = False\<rparr>)
    | (None, _) \<Rightarrow> None)"
    using c p by (simp add: evaluate_def Let_def split: prod.split option.split)
  then obtain t n where w: "?loop = (Some t, n)"
    using assms(2) by (cases ?loop; cases "fst ?loop") auto
  then have de: "de_for de = t" "de_reason de \<noteq> ReasonManual"
    using run assms(2) by (cases "late < now - t"; simp)+
  have sound: "\<And>a u. next_at a = Some u \<Longrightarrow> a < u \<and> u mod 1000000000 = 0"
    using parse_cron_sound [OF assms(1) p] by blast
  have "cu_through c < t \<and> t \<le> now \<and> t mod 1000000000 = 0"
    by (rule window_loop_due [where next_at = next_at and fuel = max_occurrences and a = "cu_through c" and latest = None])
      (use sound w in blast)+
  then show ?thesis using de c(1) by (intro exI [of _ c]) simp
qed


lemma fired_append [simp]: "fired w i (rep @ new) = fired w i rep @ fired w i new"
  by (simp add: fired_def)

lemma unix_ms_mono: "a \<le> b \<Longrightarrow> unix_ms a \<le> unix_ms b"
  unfolding unix_ms_def by (rule zdiv_mono1) simp_all

lemma unix_ms_after:
  assumes "from_ms m < t" and "t mod 1000000000 = 0"
  shows "m < unix_ms t"
proof -
  obtain k where "t = 1000000000 * k" using assms(2) by (metis dvd_def mod_0_imp_dvd)
  then have "t = 1000000 * (1000 * k)" by simp
  then show ?thesis using assms(1) by (simp add: unix_ms_def from_ms_def)
qed

lemma get_cursor_mem: "get_cursor w i d = Some c \<Longrightarrow> c \<in> set (sd_cursors d) \<and> cursor_key c = (w, i)"
  by (auto simp: get_cursor_def dest: find_Some_mem)

lemma saved_closed_cursors:
  "c \<in> set (sd_cursors (saved_closed s now d)) \<Longrightarrow>
   (cursor_key c = (sp_workspace s, sp_id s) \<and> cr_through c = unix_ms now) \<or>
   (c \<in> set (sd_cursors d) \<and> cursor_key c \<noteq> (sp_workspace s, sp_id s))"
  by (auto simp: saved_closed_def save_cursor_def save_cursor_row_def sql_upsert_def sql_update_def cursor_key_def list_ex_iff
    split: if_splits)

lemma spent_mono: "spent t d rep \<Longrightarrow> t \<le> t' \<Longrightarrow> spent t' d rep"
  unfolding spent_def using unix_ms_mono [of t t'] by fastforce

lemma spent_fewer: "spent t d rep \<Longrightarrow> set (sd_cursors d') \<subseteq> set (sd_cursors d) \<Longrightarrow> spent t d' rep"
  by (fastforce simp: spent_def)

lemma spent_key:
  assumes "spent t d rep" and "r \<in> set (fired w i rep)"
  shows "ru_for r \<le> unix_ms t" and "c \<in> set (sd_cursors d) \<Longrightarrow> cursor_key c = (w, i) \<Longrightarrow> ru_for r \<le> cr_through c"
  using assms by (auto simp: spent_def)

lemma spentI:
  assumes "\<And>w i. sorted_wrt (<) (map ru_for (fired w i rep))"
    and "\<And>w i r. r \<in> set (fired w i rep) \<Longrightarrow> ru_for r \<le> unix_ms t"
    and "\<And>w i r c. \<lbrakk>r \<in> set (fired w i rep); c \<in> set (sd_cursors d); cursor_key c = (w, i)\<rbrakk> \<Longrightarrow> ru_for r \<le> cr_through c"
  shows "spent t d rep"
  using assms by (simp add: spent_def)

lemma spent_closed:
  assumes "spent now d rep"
  shows "spent now (saved_closed s now d) rep"
proof (rule spentI)
  fix w i r c
  assume r: "r \<in> set (fired w i rep)" and c: "c \<in> set (sd_cursors (saved_closed s now d))" "cursor_key c = (w, i)"
  from saved_closed_cursors [OF c(1)] show "ru_for r \<le> cr_through c"
    using spent_key [OF assms r] c(2) by auto
qed (use assms in \<open>auto simp: spent_def\<close>)

lemma spent_unfired:
  "spent t d rep \<Longrightarrow> ru_status r \<noteq> RunLaunched \<Longrightarrow> spent t d (rep @ [r])"
  by (simp add: spent_def) (simp add: fired_def)

lemma spent_fire:
  assumes "spent now d rep" and "get_cursor (sp_workspace s) (sp_id s) d = Some c" and "cr_through c < ru_for r"
    and "ru_for r \<le> unix_ms now" and "run_key r = (sp_workspace s, sp_id s)"
  shows "spent now (saved_closed s now d) (rep @ [r])"
proof (rule spentI)
  have one: "set (fired w i [r]) \<subseteq> {r}" "fired w i [r] = [] \<or> fired w i [r] = [r] \<and> (w, i) = run_key r" for w i
    by (auto simp: fired_def)
  have before: "ru_for x < ru_for r" if "x \<in> set (fired (sp_workspace s) (sp_id s) rep)" for x
    using spent_key(2) [OF assms(1) that] get_cursor_mem [OF assms(2)] assms(3) by force
  show "sorted_wrt (<) (map ru_for (fired w i (rep @ [r])))" for w i
    using one(2) [of w i] assms(1,5) before by (auto simp: sorted_wrt_append spent_def)
  show "ru_for x \<le> unix_ms now" if "x \<in> set (fired w i (rep @ [r]))" for w i x
    using that one(1) [of w i] assms(1,4) by (auto simp: spent_def)
  show "ru_for x \<le> cr_through k" if "x \<in> set (fired w i (rep @ [r]))" "k \<in> set (sd_cursors (saved_closed s now d))"
    "cursor_key k = (w, i)" for w i x k
  proof (cases "x \<in> set (fired w i rep)")
    case True
    then show ?thesis using spent_closed [OF assms(1), of s] spent_key(2) that(2,3) by blast
  next
    case False
    then have "x = r" "(w, i) = run_key r" using that(1) one(2) [of w i] by auto
    moreover have "cr_through k = unix_ms now"
      using that(3) calculation(2) assms(5) saved_closed_cursors [OF that(2)] by auto
    ultimately show ?thesis using assms(4) by simp
  qed
qed


lemma spent_cursors: "spent t d rep \<Longrightarrow> sd_cursors d' = sd_cursors d \<Longrightarrow> spent t d' rep"
  by (simp add: spent_def)

text \<open>One evaluation over any list to which it appends its decision's run or nothing.\<close>

lemma decides_spent:
  assumes "cron_sound (se_parse E)" and "recorded (ss_db st) d1" and "decides E s now (ss_db st) new"
    and "d' = saved_closed s now d1 \<or> d' = d1 \<and> (\<forall>r\<in>set new. ru_status r \<noteq> RunLaunched)"
    and "spent now (ss_db st) rep"
  shows "spent now d' (rep @ new)"
proof -
  have same: "sd_cursors d1 = sd_cursors (ss_db st)" using assms(2) by (auto simp: recorded_def dest!: insert_run_row)
  have sp: "spent now d1 rep" by (rule spent_cursors [OF assms(5) same])
  show ?thesis
  proof (cases "new = []")
    case True
    then show ?thesis using assms(4) sp by (auto intro: spent_closed)
  next
    case False
    then obtain cl de r where e: "evaluate (se_parse E) s (load_cursor (sp_workspace s) (sp_id s) (ss_db st)) now schedule_grace = (cl, Some de)"
      and r: "fits_decision s de now r" "new = [r]"
      using assms(3) by (auto simp: decides_def)
    from evaluate_due [OF assms(1) e] obtain k where k: "get_cursor (sp_workspace s) (sp_id s) d1 = Some k"
        "from_ms (cr_through k) < de_for de" "de_for de \<le> now" "de_for de mod 1000000000 = 0"
      using same by (auto simp: load_cursor_def get_cursor_def)
    have rf: "run_key r = (sp_workspace s, sp_id s)" "ru_for r = unix_ms (de_for de)" using r(1) by (simp_all add: fits_decision_def)
    have "spent now (saved_closed s now d1) (rep @ [r])"
      by (rule spent_fire [OF sp k(1)]) (use rf unix_ms_after [OF k(2,4)] unix_ms_mono [OF k(3)] in simp_all)
    moreover have "spent now d1 (rep @ [r])" if "ru_status r \<noteq> RunLaunched"
      by (rule spent_unfired [OF sp that])
    ultimately show ?thesis using assms(4) r(2) by auto
  qed
qed

lemma evaluate_spec_spent:
  assumes "cron_sound (se_parse E)" and "\<not> refused E OpSaveCursor" and "evaluate_spec E s now st = ((c, err), st')"
    and "spent now (ss_db st) (ss_reported st) \<and> spent now (ss_db st) (ss_chats st)"
  shows "spent now (ss_db st') (ss_reported st') \<and> spent now (ss_db st') (ss_chats st')"
proof -
  obtain d1 new chats where rec: "recorded (ss_db st) d1" and
    new: "decides E s now (ss_db st) new" "ss_reported st' = ss_reported st @ new"
    and chats: "decides E s now (ss_db st) chats" "ss_chats st' = ss_chats st @ chats"
    and db: "ss_db st' = saved_closed s now d1 \<or> ss_db st' = d1 \<and> chats = [] \<and> (\<forall>r\<in>set new. ru_status r \<noteq> RunLaunched)"
    using evaluate_spec_cases [OF assms(3)] assms(2) by blast
  show ?thesis unfolding new(2) chats(2)
    by (intro conjI decides_spent [OF assms(1) rec]) (use db new(1) chats(1) assms(4) in auto)
qed

lemma fired_manual: "fits_decision s de now r \<Longrightarrow> de_reason de = ReasonManual \<Longrightarrow> fired w i [r] = []"
  by (simp add: fired_def fits_decision_def)

lemma spent_manual:
  "spent t d rep \<Longrightarrow> fits_decision s de now r \<Longrightarrow> de_reason de = ReasonManual \<Longrightarrow> spent t d (rep @ [r])"
  by (simp add: spent_def fired_manual)

lemma execute_manual_spent:
  assumes "sched_execute E s de now st = ((run, launched, err), st')" and "de_reason de = ReasonManual"
    and "spent t (ss_db st) (ss_reported st) \<and> spent t (ss_db st) (ss_chats st)"
  shows "spent t (ss_db st') (ss_reported st') \<and> spent t (ss_db st') (ss_chats st')"
  using sched_execute_cases [OF assms(1)]
proof (rule disjE)
  assume "executed E s de now st run launched err st'"
  then obtain r where r: "fits_decision s de now r" "ss_chats st' = ss_chats st @ (if launched then [r] else [])"
    and fin: "ss_db st' = ss_db st \<and> ss_reported st' = ss_reported st \<or>
      (\<exists>r'. insert_run r (ss_db st) = (r', ss_db st') \<and> ss_reported st' = ss_reported st @ [r'])"
    unfolding executed_def by auto
  from fin have "sd_cursors (ss_db st') = sd_cursors (ss_db st)" by (auto dest!: insert_run_row)
  then have sp: "spent t (ss_db st') (ss_reported st)" "spent t (ss_db st') (ss_chats st)"
    using assms(3) spent_cursors by blast+
  from fin have "spent t (ss_db st') (ss_reported st')"
    using sp(1) spent_manual [OF _ _ assms(2)] fits_renumbered [OF r(1)] by metis
  moreover have "spent t (ss_db st') (ss_chats st')"
    using sp(2) spent_manual [OF sp(2) r(1) assms(2)] by (simp add: r(2))
  ultimately show ?thesis ..
qed (use assms(3) in simp)

lemma reach_spent:
  "sched_reach E t st \<Longrightarrow> cron_sound (se_parse E) \<Longrightarrow> \<not> refused E OpSaveCursor \<Longrightarrow>
   spent t (ss_db st) (ss_reported st) \<and> spent t (ss_db st) (ss_chats st)"
proof (induction rule: sched_reach.induct)
  case (sched_passed t st snap err st')
  let ?now = "se_now E (ss_world st)"
  have "spent ?now (ss_db st) (ss_reported st) \<and> spent ?now (ss_db st) (ss_chats st)"
    using spent_mono sched_passed by blast
  then show ?case
  proof (rule sched_pass_keeps [where I = "\<lambda>d rep chats. spent ?now d rep \<and> spent ?now d chats", OF sched_passed.hyps(3)])
    show "spent ?now (prune_cursors ws keep d) rep \<and> spent ?now (prune_cursors ws keep d) chats"
      if "spent ?now d rep \<and> spent ?now d chats" for ws keep d rep chats
      using that by (auto intro: spent_fewer simp: prune_cursors_def sql_delete_def)
  qed (rule evaluate_spec_spent [OF sched_passed.prems])
next
  case (sched_manual t st snap w i res st')
  have sp: "spent t (ss_db st) (ss_reported st) \<and> spent t (ss_db st) (ss_chats st)"
    by (rule sched_manual.IH [OF sched_manual.prems])
  from run_now_cases [OF sched_manual.hyps(2)] show ?case using execute_manual_spent [OF _ _ sp] sp by metis
next
  case (sched_removed t st w)
  have "spent t (ss_db st) (ss_reported st) \<and> spent t (ss_db st) (ss_chats st)"
    by (rule sched_removed.IH [OF sched_removed.prems])
  then show ?case by (auto intro: spent_fewer simp: delete_schedules_by_workspace_def sql_delete_def)
next
  case (sched_elapse t st w)
  then show ?case by simp
next
  case (sched_start t w)
  have "spent t empty_schedules []" by (rule spentI) (simp_all add: fired_def)
  then show ?case by simp
qed

text \<open>
  Claim C35: no occurrence starts two chats. As long as the clock does not go back between passes and
  the store does not itself refuse to save a cursor, and whatever quits, failures of launches, of
  templates, of chat checks and of every other store call, edited and deleted schedules, pruned
  cursors and manual runs come between, the chats a schedule started on its own, recorded or not, are
  for strictly increasing occurrences, and so are the runs it recorded as launched.
\<close>

theorem no_occurrence_twice:
  assumes "cron_sound (se_parse E)" and "sched_reach E t st" and "\<not> refused E OpSaveCursor"
  shows "sorted_wrt (<) (map ru_for (fired w i (ss_chats st))) \<and>
    sorted_wrt (<) (map ru_for (fired w i (ss_reported st)))"
  using reach_spent [OF assms(2,1,3)] by (simp add: spent_def)


section \<open>What the history forgets\<close>

lemma filter_take_keys:
  "distinct (map f xs) \<Longrightarrow> filter (\<lambda>x. f x \<in> f ` set (take n xs)) xs = take n xs"
proof (induction xs arbitrary: n)
  case (Cons x xs)
  show ?case
  proof (cases n)
    case (Suc m)
    have "filter (\<lambda>y. f y = f x \<or> f y \<in> f ` set (take m xs)) xs = filter (\<lambda>y. f y \<in> f ` set (take m xs)) xs"
      using Cons.prems by (intro filter_cong) (auto simp: image_iff)
    then show ?thesis using Cons Suc by simp
  qed simp
qed simp

lemma newest_pruned:
  assumes "unique_on ru_id rows"
  shows "newest_runs w i (prune_runs w i n rows) = take n (newest_runs w i rows)"
proof -
  let ?P = "\<lambda>r. ru_id r \<in> ru_id ` set (take n (newest_runs w i rows))"
  have "filter (\<lambda>r. run_key r = (w, i)) (prune_runs w i n rows) = filter ?P (filter (\<lambda>r. run_key r = (w, i)) rows)"
    by (simp add: prune_keeps conj_commute)
  then have "newest_runs w i (prune_runs w i n rows) = filter ?P (newest_runs w i rows)"
    unfolding newest_runs_def by (simp only: rev_filter [symmetric] filter_sort)
  also have "\<dots> = take n (newest_runs w i rows)"
    using filter_take_keys [of ru_id "newest_runs w i rows" n] unique_newest [OF assms] by (simp add: unique_on_def)
  finally show ?thesis .
qed

lemma newest_last:
  assumes "unique_on ru_id (rows @ [r])" and "run_key r = (w, i)"
    and "\<forall>x\<in>set (newest_runs w i rows). run_order x \<le> run_order r"
  shows "newest_runs w i (rows @ [r]) = r # newest_runs w i rows"
proof -
  let ?xs = "filter (\<lambda>x. run_key x = (w, i)) rows"
  have "sort_key run_order (?xs @ [r]) = sort_key run_order ?xs @ [r]"
  proof (rule properties_for_sort_key)
    show "filter (\<lambda>x. run_order k = run_order x) (sort_key run_order ?xs @ [r]) = filter (\<lambda>x. run_order k = run_order x) (?xs @ [r])" for k
      using sort_key_stable [of run_order "run_order k" ?xs] by (simp add: eq_commute)
    show "sorted (map run_order (sort_key run_order ?xs @ [r]))"
      using assms(3) by (auto simp: sorted_append newest_runs_def)
  qed simp
  then show ?thesis using assms(2) by (simp add: newest_runs_def)
qed

lemma newest_inserted:
  assumes "sched_ok d" and "run_key r = (w, i)" and "\<forall>x\<in>set (newest_runs w i (sd_runs d)). ru_started x \<le> ru_started r"
    and "insert_run r d = (r', d')"
  shows "newest_runs w i (sd_runs d') = take run_limit (r' # newest_runs w i (sd_runs d))"
proof -
  have r': "r' = r\<lparr>ru_id := sd_run_seq d + 1\<rparr>" and d': "sd_runs d' = prune_runs w i run_limit (sd_runs d @ [r'])"
    using assms(2,4) by (auto simp: insert_run_def Let_def run_key_def)
  have old: "\<forall>x\<in>set (sd_runs d). ru_id x \<le> sd_run_seq d" and u: "unique_on ru_id (sd_runs d)"
    using assms(1) by (simp_all add: sched_ok_def)
  have u': "unique_on ru_id (sd_runs d @ [r'])" using u old by (force simp: unique_on_insert r')
  have "newest_runs w i (sd_runs d @ [r']) = r' # newest_runs w i (sd_runs d)"
  proof (rule newest_last [OF u'])
    show "run_key r' = (w, i)" using assms(2) by (simp add: r' run_key_def)
    show "\<forall>x\<in>set (newest_runs w i (sd_runs d)). run_order x \<le> run_order r'"
      using assms(3) old by (force simp: newest_runs_set run_order_def r' less_eq_prod_def)
  qed
  then show ?thesis by (simp add: d' newest_pruned [OF u'])
qed

definition insert_all :: "run_row list \<Rightarrow> sched_db \<Rightarrow> sched_db" where
  "insert_all rs d = fold (\<lambda>r d. snd (insert_run r d)) rs d"

lemma newest_insert_all:
  assumes "sched_ok d"
  shows "\<lbrakk>\<forall>r\<in>set rs. run_key r = (w, i) \<and> ru_status r = RunSkipped; sorted (map ru_started rs);
      \<forall>r\<in>set rs. \<forall>x\<in>set (newest_runs w i (sd_runs d)). ru_started x \<le> ru_started r\<rbrakk> \<Longrightarrow>
    \<exists>new. length new = length rs \<and> (\<forall>r\<in>set new. ru_status r = RunSkipped) \<and>
      newest_runs w i (sd_runs (insert_all rs d)) = take run_limit (new @ newest_runs w i (sd_runs d))"
  using assms
proof (induction rs arbitrary: d)
  case Nil
  then show ?case by (simp add: insert_all_def sched_ok_def)
next
  case (Cons r rs)
  obtain r' d' where i: "insert_run r d = (r', d')" by fastforce
  have r': "r' = r\<lparr>ru_id := sd_run_seq d + 1\<rparr>" using insert_run_row [OF i] by simp
  have n: "newest_runs w i (sd_runs d') = take run_limit (r' # newest_runs w i (sd_runs d))"
    using Cons.prems by (intro newest_inserted [OF _ _ _ i]) simp_all
  have sub: "set (newest_runs w i (sd_runs d')) \<subseteq> insert r' (set (newest_runs w i (sd_runs d)))"
    unfolding n by (auto dest: in_set_takeD)
  have "\<exists>new. length new = length rs \<and> (\<forall>r\<in>set new. ru_status r = RunSkipped) \<and>
      newest_runs w i (sd_runs (insert_all rs d')) = take run_limit (new @ newest_runs w i (sd_runs d'))"
  proof (rule Cons.IH)
    show "\<forall>r\<in>set rs. \<forall>x\<in>set (newest_runs w i (sd_runs d')). ru_started x \<le> ru_started r"
      using sub Cons.prems(2,3) by (fastforce simp: r')
  qed (use Cons.prems insert_run_ok [OF _ i] in auto)
  then obtain new where new: "length new = length rs" "\<forall>r\<in>set new. ru_status r = RunSkipped"
    "newest_runs w i (sd_runs (insert_all rs d')) = take run_limit (new @ newest_runs w i (sd_runs d'))" by blast
  have "take run_limit (new @ newest_runs w i (sd_runs d')) = take run_limit ((new @ [r']) @ newest_runs w i (sd_runs d))"
    by (simp add: n min_def)
  moreover have "insert_all (r # rs) d = insert_all rs d'" using i by (simp add: insert_all_def)
  moreover have "ru_status r' = RunSkipped" using Cons.prems(1) by (simp add: r')
  ultimately show ?case using new by (intro exI [of _ "new @ [r']"]) auto
qed

text \<open>
  The history forgets the chat it waits for. A schedule whose chat is still open records
  one skipped run per occurrence; when 200 of them are recorded after the launched run, trimming the
  history has deleted that run, so there is no last launched run to check and the next occurrence
  starts a second chat beside the first, although an open chat is what makes a schedule skip.
\<close>

theorem long_chat_forgotten:
  assumes "sched_ok d" and "\<forall>r\<in>set rs. run_key r = (w, i) \<and> ru_status r = RunSkipped"
    and "sorted (map ru_started rs)" and "run_limit \<le> length rs"
    and "\<forall>r\<in>set rs. \<forall>x\<in>set (newest_runs w i (sd_runs d)). ru_started x \<le> ru_started r"
  shows "last_launched w i (insert_all rs d) = None \<and>
    check_live E (last_launched w i (insert_all rs d)) world = (Inr False, world)"
proof -
  obtain new where new: "length new = length rs" "\<forall>r\<in>set new. ru_status r = RunSkipped"
    "newest_runs w i (sd_runs (insert_all rs d)) = take run_limit (new @ newest_runs w i (sd_runs d))"
    using newest_insert_all [OF assms(1,2,3,5)] by blast
  then have "newest_runs w i (sd_runs (insert_all rs d)) = take run_limit new" using assms(4) by simp
  then have "filter (\<lambda>r. ru_status r = RunLaunched) (newest_runs w i (sd_runs (insert_all rs d))) = []"
    using new(2) by (auto simp: filter_empty_conv dest!: in_set_takeD)
  then show ?thesis by (simp add: last_launched_def check_live_def)
qed

end
