(* ===== verification/Schedule_Samples.thy ===== *)
theory Schedule_Samples
  imports Schedule_Reach Action_Samples
begin

text \<open>Concrete schedules at which the properties of the scheduler are applied.\<close>

definition minutely :: cron_next where
  "minutely t = Some ((t div 60000000000 + 1) * 60000000000)"

definition sample_parser :: cron_parser where
  "sample_parser expr = (if expr = ''* * * * *'' then Inr minutely else Inl ''expected exactly 5 fields'')"

definition sample_spec :: sched_spec where
  "sample_spec = \<lparr>sp_workspace = ''acme'', sp_id = ''standup'', sp_name = ''Standup'', sp_cron = ''* * * * *'',
     sp_prompt = ''go'', sp_disabled = False, sp_missed = []\<rparr>"

text \<open>The world is the clock and whether the application is quitting; launching a chat takes a second
  and is when the quit arrives.\<close>

definition sample_env :: "(int \<times> bool) sched_env" where
  "sample_env = \<lparr>se_parse = sample_parser, se_render = (\<lambda>p _. Inr p), se_stamp = (\<lambda>_. ''now''), se_workspace_name = None,
     se_cancelled = snd, se_fault = (\<lambda>_ _. None), se_pause = id, se_now = fst, se_live = (\<lambda>_ w. (Inr False, w)),
     se_launch = (\<lambda>_ (t, q). (Inr 7, (t + 1000000000, True)))\<rparr>"

definition sample_snap :: sched_snapshot where
  "sample_snap = \<lparr>sn_specs = [sample_spec], sn_workspaces = [''acme'']\<rparr>"

lemma successively_upt_step:
  "successively (\<lambda>a b. int b * 60000000000 + 1000000 \<le> int a * 60000000000 + 3599000000000) [m..<n]"
proof (induction "n - m" arbitrary: m)
  case (Suc k)
  show ?case
  proof (cases "Suc m < n")
    case True
    have "successively (\<lambda>a b. int b * 60000000000 + 1000000 \<le> int a * 60000000000 + 3599000000000) [Suc m..<n]"
      by (rule Suc.hyps(1)) (use Suc.hyps(2) in simp)
    then show ?thesis using True by (simp add: upt_rec [of m] upt_rec [of "Suc m"])
  next
    case False
    then have "[m..<n] = [m]" using Suc.hyps(2) by (simp add: upt_rec [of m])
    then show ?thesis by simp
  qed
qed simp

lemma minutely_laws:
  "minutely t = Some u \<Longrightarrow> t < u \<and> u mod 1000000000 = 0"
proof -
  assume "minutely t = Some u"
  then have u: "u = (t div 60000000000) * 60000000000 + 60000000000" by (simp add: minutely_def distrib_right)
  have t: "t = (t div 60000000000) * 60000000000 + t mod 60000000000" by simp
  have "t mod 60000000000 < 60000000000" by simp
  then have "t < u" using u t by linarith
  moreover have "u = ((t div 60000000000) * 60 + 60) * 1000000000" using u by simp
  then have "1000000000 dvd u" by simp
  ultimately show ?thesis by simp
qed

lemma sample_sound: "cron_sound sample_parser"
  by (auto simp: cron_sound_def sample_parser_def minutely_laws split: if_splits)

lemma parse_sample [simp]: "parse_cron sample_parser ''* * * * *'' = Inr minutely"
proof -
  have "trim_space ''* * * * *'' = ''* * * * *''" by code_simp
  then show ?thesis by (simp add: parse_cron_def sample_parser_def)
qed

lemma window_loop_numeral [simp]:
  "window_loop next_at now (numeral k) at latest n =
     (case next_at at of
        None \<Rightarrow> (latest, n)
      | Some u \<Rightarrow> if now < u then (latest, n) else window_loop next_at now (pred_numeral k) u (Some u) (n + 1))"
  by (simp add: numeral_eq_Suc)

lemmas sample_defs = sample_env_def sample_spec_def sample_snap_def empty_schedules_def

definition sample_start :: "(int \<times> bool) sched_state" where
  "sample_start = \<lparr>ss_db = empty_schedules, ss_world = (1000000000, False), ss_reported = [], ss_chats = []\<rparr>"

definition sample_first :: "(int \<times> bool) sched_state" where
  "sample_first = snd (sched_pass sample_env sample_snap sample_start)"

definition sample_second :: "(int \<times> bool) sched_state" where
  "sample_second = snd (sched_pass sample_env sample_snap (sample_first\<lparr>ss_world := (200000000000, False)\<rparr>))"

lemma sample_first_eq:
  "sample_first = \<lparr>ss_db = \<lparr>sd_cursors = [\<lparr>cr_workspace = ''acme'', cr_schedule = ''standup'', cr_through = 1000, cr_cron = ''* * * * *''\<rparr>],
     sd_runs = [], sd_run_seq = 0\<rparr>, ss_world = (1000000000, False), ss_reported = [], ss_chats = []\<rparr>"
  by code_simp

lemma sched_pass_reach:
  "sched_reach E t st \<Longrightarrow> t \<le> se_now E (ss_world st) \<Longrightarrow> sched_reach E (se_now E (ss_world st)) (snd (sched_pass E snap st))"
  by (metis sched_passed prod.collapse)

lemma sample_now [simp]: "se_now sample_env = fst"
  by (simp add: sample_env_def)

lemma sample_reach: "sched_reach sample_env 200000000000 sample_second"
proof -
  have "sched_reach sample_env 1000000000 sample_start" unfolding sample_start_def by (rule sched_start)
  from sched_pass_reach [OF this] have "sched_reach sample_env 1000000000 sample_first"
    by (simp add: sample_first_def) (simp add: sample_start_def)
  from sched_pass_reach [OF sched_elapse [OF this, of "(200000000000, False)"]] show ?thesis
    by (simp add: sample_second_def)
qed

text \<open>One evaluation at a later minute, where the scheduler fires.\<close>

lemmas run_defs = sched_pass_def pass_one_step evaluate_spec_def sched_execute_def attempt_def check_live_def
  load_cursor_def save_cursor_def save_cursor_row_def sql_upsert_def sql_update_def get_cursor_def cursor_key_def
  from_ms_def unix_ms_def insert_run_def prune_runs_def newest_runs_def run_key_def last_launched_def new_run_def
  chat_name_def display_name_def prompt_data_of_def stored_session_def sql_delete_def prune_cursors_def
  first_error_def store_error_def schedule_grace_def run_order_def run_limit_def

definition sample_run :: run_row where
  "sample_run = \<lparr>ru_id = 1, ru_workspace = ''acme'', ru_schedule = ''standup'', ru_name = ''Standup'', ru_for = 180000,
     ru_started = 200000, ru_reason = ReasonDue, ru_missed = 2, ru_status = RunLaunched, ru_session = Some 7,
     ru_prompt = ''go'', ru_error = []\<rparr>"

lemma sample_due:
  "evaluate sample_parser sample_spec (Some \<lparr>cu_workspace = ''acme'', cu_id = ''standup'', cu_through = 1000000000, cu_cron = ''* * * * *''\<rparr>)
     200000000000 late = (\<lparr>cu_workspace = ''acme'', cu_id = ''standup'', cu_through = 200000000000, cu_cron = ''* * * * *''\<rparr>,
     Some (if late < 20000000000 then \<lparr>de_for = 180000000000, de_reason = ReasonCatchUp, de_missed = 2, de_skip = False\<rparr>
           else \<lparr>de_for = 180000000000, de_reason = ReasonDue, de_missed = 2, de_skip = False\<rparr>))"
  by (simp add: evaluate_def sample_spec_def max_occurrences_def minutely_def)

lemma sample_env_simps [simp]:
  "se_parse sample_env = sample_parser" "se_render sample_env p q = Inr p" "se_stamp sample_env t = ''now''"
  "se_workspace_name sample_env = None" "se_cancelled sample_env = snd"
  "se_fault sample_env call v = None" "se_pause sample_env = id"
  "se_live sample_env i v = (Inr False, v)" "se_launch sample_env r v = (Inr 7, (fst v + 1000000000, True))"
  by (simp_all add: sample_env_def split: prod.split)

lemma sample_spec_simps [simp]:
  "sp_workspace sample_spec = ''acme''" "sp_id sample_spec = ''standup''" "sp_name sample_spec = ''Standup''"
  "sp_cron sample_spec = ''* * * * *''" "sp_prompt sample_spec = ''go''"
  by (simp_all add: sample_spec_def)

lemma sample_second_eq:
  "ss_reported sample_second = [sample_run]" "ss_chats sample_second = [sample_run\<lparr>ru_id := 0\<rparr>]"
  "sd_runs (ss_db sample_second) = [sample_run]"
  by (simp_all add: sample_second_def sample_first_eq sample_snap_def sample_due run_defs Let_def sample_run_def)

lemma history_bounded_witness:
  "length (list_runs ''acme'' ''standup'' 10 (ss_db sample_second)) \<le> 200 \<and>
   map ru_status (list_runs ''acme'' ''standup'' 10 (ss_db sample_second)) = [RunLaunched]"
  using history_bounded [OF sample_reach, of "''acme''" "''standup''" 10]
  by (simp add: list_runs_def newest_runs_def run_key_def sample_second_eq sample_run_def)

lemma sample_never_refused [simp]: "\<not> refused sample_env call"
  by (simp add: refused_def)

lemma no_occurrence_twice_witness:
  "(sorted_wrt (<) (map ru_for (fired ''acme'' ''standup'' (ss_chats sample_second))) \<and>
    sorted_wrt (<) (map ru_for (fired ''acme'' ''standup'' (ss_reported sample_second)))) \<and>
   map ru_for (fired ''acme'' ''standup'' (ss_chats sample_second)) = [180000]"
proof
  show "sorted_wrt (<) (map ru_for (fired ''acme'' ''standup'' (ss_chats sample_second))) \<and>
    sorted_wrt (<) (map ru_for (fired ''acme'' ''standup'' (ss_reported sample_second)))"
    by (rule no_occurrence_twice [OF _ sample_reach]) (simp_all add: sample_sound)
  show "map ru_for (fired ''acme'' ''standup'' (ss_chats sample_second)) = [180000]"
    by (simp add: sample_second_eq sample_run_def fired_def run_key_def)
qed

definition quit_start :: "((int \<times> bool) \<times> nat) sched_state" where
  "quit_start = \<lparr>ss_db = \<lparr>sd_cursors = [\<lparr>cr_workspace = ''acme'', cr_schedule = ''standup'', cr_through = 1000, cr_cron = ''* * * * *''\<rparr>],
     sd_runs = [], sd_run_seq = 0\<rparr>, ss_world = ((200000000000, False), 0), ss_reported = [], ss_chats = []\<rparr>"

definition quit_end :: "(sched_cursor \<times> string option) \<times> ((int \<times> bool) \<times> nat) sched_state" where
  "quit_end = evaluate_spec (counted sample_env) sample_spec 200000000000 quit_start"


text \<open>When the store itself refuses to save a cursor after a launch, the occurrence stays due and the
  next pass decides to run it again. A refused record alone does not: the cursor closes.\<close>

definition refusing_env :: "sched_call \<Rightarrow> (int \<times> bool) sched_env" where
  "refusing_env call = sample_env\<lparr>se_fault := (\<lambda>c _. if c = call then Some ''disk I/O error'' else None)\<rparr>"

definition refused_start :: "(int \<times> bool) sched_state" where
  "refused_start = \<lparr>ss_db = \<lparr>sd_cursors = [\<lparr>cr_workspace = ''acme'', cr_schedule = ''standup'', cr_through = 1000, cr_cron = ''* * * * *''\<rparr>],
     sd_runs = [], sd_run_seq = 0\<rparr>, ss_world = (200000000000, False), ss_reported = [], ss_chats = []\<rparr>"

definition refused_pass :: "sched_call \<Rightarrow> (int \<times> bool) sched_state" where
  "refused_pass call = snd (sched_pass (refusing_env call) sample_snap refused_start)"

definition still_due :: "sched_db \<Rightarrow> int option" where
  "still_due d = map_option de_for (snd (evaluate sample_parser sample_spec
     (load_cursor ''acme'' ''standup'' d) 200000000000 schedule_grace))"

lemma refused_cursor_stays_due:
  "map ru_for (ss_chats (refused_pass OpSaveCursor)) = [180000]"
  "still_due (ss_db (refused_pass OpSaveCursor)) = Some 180000000000"
  by (simp_all add: still_due_def refused_pass_def refusing_env_def refused_start_def sample_snap_def sample_due run_defs Let_def)

lemma refused_record_closes:
  "map ru_for (ss_chats (refused_pass OpInsertRun)) = [180000]" "ss_reported (refused_pass OpInsertRun) = []"
  "get_cursor ''acme'' ''standup'' (ss_db (refused_pass OpInsertRun)) = Some (closed_at sample_spec 200000000000)"
  by (simp_all add: refused_pass_def refusing_env_def refused_start_def sample_snap_def sample_due run_defs Let_def closed_at_def)

text \<open>An hourly \<open>@every\<close> schedule, evaluated every minute for a day.\<close>

definition every_hour :: cron_next where
  "every_hour t = Some (t - t mod 1000000000 + 3600000000000)"

definition every_parser :: cron_parser where
  "every_parser expr = Inr every_hour"

definition every_spec :: sched_spec where
  "every_spec = sample_spec\<lparr>sp_cron := ''@every 1h''\<rparr>"

lemma every_hour_never_fires:
  "decided (evaluations every_parser every_spec
     \<lparr>cu_workspace = ''acme'', cu_id = ''standup'', cu_through = 0, cu_cron = ''@every 1h''\<rparr>
     (map (\<lambda>n. int n * 60000000000) [1..<1440])) = []"
proof (rule counted_schedule_starves [where d = 3599000000000 and next_at = every_hour])
  have "trim_space ''@every 1h'' = ''@every 1h''" by code_simp
  then show "parse_cron every_parser (sp_cron every_spec) = Inr every_hour"
    by (simp add: parse_cron_def every_parser_def every_spec_def)
  show "t + 3599000000000 \<le> u" if "every_hour t = Some u" for t u
  proof -
    have "t mod 1000000000 < 1000000000" by simp
    then show ?thesis using that by (auto simp: every_hour_def)
  qed
  have "successively (\<lambda>a b. b + 1000000 \<le> a + 3599000000000) (map (\<lambda>n. int n * 60000000000) [m..<1440])" for m
    by (subst successively_map) (rule successively_upt_step)
  from this [of 0] show "successively (\<lambda>a b. b + 1000000 \<le> a + 3599000000000)
     (cu_through \<lparr>cu_workspace = ''acme'', cu_id = ''standup'', cu_through = 0, cu_cron = ''@every 1h''\<rparr> #
      map (\<lambda>n. int n * 60000000000) [1..<1440])"
    by (simp add: upt_rec [of 0])
qed

lemma minutely_occurrences: "occurrences minutely = {u. u mod 60000000000 = 0}"
proof -
  have "\<exists>t. minutely t = Some u" if "u mod 60000000000 = 0" for u
  proof (intro exI [of _ "u - 1"])
    obtain k where k: "u = 60000000000 * k" using \<open>u mod 60000000000 = 0\<close> by (metis dvd_def mod_0_imp_dvd)
    have "(60000000000 * k - 1) div 60000000000 = k - 1" 
    proof -
      have e: "60000000000 * k - 1 = 59999999999 + 60000000000 * (k - 1)" by simp
      show ?thesis unfolding e div_mult_self2 by simp
    qed
    then show "minutely (u - 1) = Some u" by (simp add: minutely_def k)
  qed
  then show ?thesis by (auto simp: occurrences_def minutely_def)
qed


lemma minutely_window: "window minutely 1000000000 310000000000 = {60000000000, 120000000000, 180000000000, 240000000000, 300000000000}"
proof (intro equalityI subsetI)
  fix u assume "u \<in> window minutely 1000000000 310000000000"
  then have u: "u mod 60000000000 = 0" "1000000000 < u" "u \<le> 310000000000"
    by (auto simp: window_def minutely_occurrences)
  then obtain k where k: "u = 60000000000 * k" by (metis dvd_def mod_0_imp_dvd)
  then have "0 < k" "k < 6" using u by auto
  then have "k \<in> {1, 2, 3, 4, 5}" by auto
  then show "u \<in> {60000000000, 120000000000, 180000000000, 240000000000, 300000000000}" using k by auto
qed (auto simp: window_def minutely_occurrences)

lemma minutely_cron: "cron_laws minutely lo hi"
  unfolding cron_laws_def
proof (intro conjI allI impI)
  fix t u assume "minutely t = Some u"
  from minutely_laws [OF this] show "t < u" "u mod 1000000000 = 0" by auto
next
  fix t u assume a: "u \<in> occurrences minutely \<and> lo \<le> t \<and> t < u \<and> u \<le> hi"
  then obtain k where k: "u = 60000000000 * k" by (auto simp: minutely_occurrences dvd_def dest!: mod_0_imp_dvd)
  have "t div 60000000000 < k" using a k by linarith
  then show "\<exists>v\<le>u. minutely t = Some v" using k by (simp add: minutely_def)
qed

definition sample_cursor :: sched_cursor where
  "sample_cursor = \<lparr>cu_workspace = ''acme'', cu_id = ''standup'', cu_through = 1000000000, cu_cron = ''* * * * *''\<rparr>"

lemma occurrences_accounted_witness:
  "(\<Sum>d\<leftarrow>decided (evaluations sample_parser sample_spec sample_cursor [200000000000, 310000000000]). de_missed d + 1) = 5 \<and>
   de_for (last (decided (evaluations sample_parser sample_spec sample_cursor [200000000000, 310000000000]))) = 300000000000"
proof -
  have off: "\<not> sp_disabled sample_spec" by (simp add: sample_spec_def)
  have ct: "cu_through sample_cursor = 1000000000" "cu_cron sample_cursor = sp_cron sample_spec"
    by (simp_all add: sample_cursor_def sample_spec_def)
  have small: "card (window minutely (cu_through sample_cursor) (last (cu_through sample_cursor # [200000000000, 310000000000]))) \<le> max_occurrences"
    by (simp add: ct(1) minutely_window max_occurrences_def)
  show ?thesis
    using occurrences_accounted [of sample_parser sample_spec minutely, OF _ minutely_cron ct(2) off _ small]
    by (simp add: ct(1) minutely_window)
qed

definition chat_launched :: run_row where
  "chat_launched = sample_run\<lparr>ru_id := 0, ru_started := 0\<rparr>"

definition chat_db :: sched_db where
  "chat_db = snd (insert_run chat_launched empty_schedules)"

definition still_running :: "run_row list" where
  "still_running = replicate 200 (sample_run\<lparr>ru_id := 0, ru_status := RunSkipped, ru_session := None\<rparr>)"

lemma chat_db_runs: "newest_runs ''acme'' ''standup'' (sd_runs chat_db) = [chat_launched\<lparr>ru_id := 1\<rparr>]"
  by (simp add: chat_db_def chat_launched_def run_defs empty_schedules_def sample_run_def Let_def)

lemma long_chat_forgotten_witness:
  "last_launched ''acme'' ''standup'' chat_db = Some (chat_launched\<lparr>ru_id := 1\<rparr>) \<and>
   last_launched ''acme'' ''standup'' (insert_all still_running chat_db) = None"
proof
  show "last_launched ''acme'' ''standup'' chat_db = Some (chat_launched\<lparr>ru_id := 1\<rparr>)"
    by (simp add: last_launched_def chat_db_runs) (simp add: chat_launched_def sample_run_def)
  have ok: "sched_ok chat_db"
    unfolding chat_db_def by (rule insert_run_ok [OF _ surjective_pairing])
      (simp add: sched_ok_def empty_schedules_def unique_on_def newest_runs_def)
  show "last_launched ''acme'' ''standup'' (insert_all still_running chat_db) = None"
    by (rule long_chat_forgotten [OF ok, THEN conjunct1])
      (auto simp: still_running_def chat_db_runs chat_launched_def sample_run_def run_key_def run_limit_def map_replicate sorted_replicate)
qed

end
