(* ===== verification/Retention.thy ===== *)
theory Retention
  imports Inbox_Laws Activity Commands
begin

text \<open>
  Retention (\<open>internal/app/data/queries/retention.go\<close> and the statements it runs) and the reset of all
  state (\<open>reset.go\<close>). A pass is one transaction of deletions; the clock is read three times in it,
  in nanoseconds, and the tables hold milliseconds. An \<open>ORDER BY\<close> with \<open>LIMIT -1 OFFSET n\<close> is what
  remains of the ordered rows after the first n. Beside it stands the purge of a deleted profile
  (\<open>flows_service.go\<close>), the other transaction of deletions across tables.
\<close>

section \<open>Policy\<close>

record retention_policy =
  rp_event_age :: int
  rp_event_topic :: int
  rp_event_snapshots :: int
  rp_node_runs :: int
  rp_commands :: int
  rp_activity :: int
  rp_jobs :: int
  rp_archived :: int
  rp_item_events :: int

definition default_retention_policy :: retention_policy where
  "default_retention_policy = \<lparr>rp_event_age = 0, rp_event_topic = 0, rp_event_snapshots = 3, rp_node_runs = 10000,
     rp_commands = 2000, rp_activity = 5000, rp_jobs = 2000, rp_archived = 90 * 24 * 3600 * 1000000000,
     rp_item_events = 500\<rparr>"

definition policy_error :: "retention_policy \<Rightarrow> string option" where
  "policy_error p =
     (if rp_event_age p < 0 then Some ''event log maximum age must not be negative''
      else if rp_event_topic p < 0 then Some ''event log per-topic limit must not be negative''
      else if rp_event_snapshots p < 0 then Some ''event log snapshots per-topic limit must not be negative''
      else if rp_node_runs p < 0 then Some ''node run retention limit must not be negative''
      else if rp_commands p < 0 then Some ''terminal output command retention limit must not be negative''
      else if rp_activity p < 0 then Some ''activity event retention limit must not be negative''
      else if rp_jobs p < 0 then Some ''job retention limit must not be negative''
      else if rp_archived p < 0 then Some ''archived item retention must not be negative''
      else if rp_item_events p < 0 then Some ''event per-item retention limit must not be negative''
      else None)"

section \<open>Statements\<close>

definition latest_snapshot :: "event_row list \<Rightarrow> event_row \<Rightarrow> bool" where
  "latest_snapshot evs r \<longleftrightarrow> er_snapshot r \<and>
     List.list_all (\<lambda>s. er_topic s = er_topic r \<and> er_snapshot s \<longrightarrow> er_offset s \<le> er_offset r) evs"

definition newer_count :: "('r \<Rightarrow> int) \<Rightarrow> ('r \<Rightarrow> bool) \<Rightarrow> 'r list \<Rightarrow> 'r \<Rightarrow> nat" where
  "newer_count i P rows r = length (filter (\<lambda>x. P x \<and> i r < i x) rows)"

definition delete_events_older :: "int \<Rightarrow> event_row list \<Rightarrow> event_row list" where
  "delete_events_older t evs = sql_delete (\<lambda>r. er_created r < t \<and> \<not> latest_snapshot evs r) evs"

definition delete_events_over :: "int \<Rightarrow> event_row list \<Rightarrow> event_row list" where
  "delete_events_over n evs =
     sql_delete (\<lambda>r. n \<le> int (newer_count er_offset (\<lambda>x. er_topic x = er_topic r) evs r) \<and> \<not> latest_snapshot evs r) evs"

definition delete_snapshots_over :: "int \<Rightarrow> event_row list \<Rightarrow> event_row list" where
  "delete_snapshots_over n evs =
     sql_delete (\<lambda>r. er_snapshot r \<and>
       n \<le> int (newer_count er_offset (\<lambda>x. er_topic x = er_topic r \<and> er_snapshot x) evs r)) evs"

definition prune_events :: "retention_policy \<Rightarrow> int \<Rightarrow> event_row list \<Rightarrow> event_row list" where
  "prune_events p now evs =
     (let evs1 = (if 0 < rp_event_age p then delete_events_older ((now - rp_event_age p) div 1000000) evs else evs);
          evs2 = (if 0 < rp_event_topic p then delete_events_over (rp_event_topic p) evs1 else evs1)
      in if 0 < rp_event_snapshots p then delete_snapshots_over (rp_event_snapshots p) evs2 else evs2)"

definition prune_newest :: "('r \<Rightarrow> int) \<Rightarrow> ('r \<Rightarrow> bool) \<Rightarrow> int \<Rightarrow> 'r list \<Rightarrow> 'r list" where
  "prune_newest i P n rows = sql_delete (\<lambda>r. i r \<in> i ` set (drop (nat n) (rev (sort_key i (filter P rows))))) rows"

definition prune_node_runs :: "int \<Rightarrow> node_run_row list \<Rightarrow> node_run_row list" where
  "prune_node_runs n rows =
     (let numbered = enumerate 0 rows;
          gone = map fst (drop (nat n) (rev (sort_key (\<lambda>(_, r). rr_ended r) numbered)))
      in map snd (filter (\<lambda>(k, _). k \<notin> set gone) numbered))"

definition delete_orphaned_heads :: "db \<Rightarrow> db" where
  "delete_orphaned_heads d = d\<lparr>db_heads := sql_delete (\<lambda>h. hd_key h \<notin> it_external ` set (db_items d)) (db_heads d)\<rparr>"

definition trim_item_events :: "int \<Rightarrow> inbox_event_row list \<Rightarrow> inbox_event_row list" where
  "trim_item_events n ies =
     sql_delete (\<lambda>e. n < int (newer_count ie_id (\<lambda>x. ie_item x = ie_item e) ies e) + 1) ies"

definition finished_command :: "command_row \<Rightarrow> bool" where
  "finished_command r \<longleftrightarrow> oc_status r \<in> {CmdDone, CmdFailed}"

definition finished_job :: "job_row \<Rightarrow> bool" where
  "finished_job r \<longleftrightarrow> jb_status r \<in> {JobDone, JobFailed}"

definition expired_archive :: "int \<Rightarrow> item_row \<Rightarrow> bool" where
  "expired_archive t r \<longleftrightarrow> (case it_archived r of None \<Rightarrow> False | Some a \<Rightarrow> a \<le> t)"

section \<open>A pass\<close>

definition prune :: "retention_policy \<Rightarrow> int \<Rightarrow> int \<Rightarrow> int \<Rightarrow> db \<Rightarrow> (string, db) result" where
  "prune p now1 now2 now3 d =
     (case policy_error p of
        Some e \<Rightarrow> Inl e
      | None \<Rightarrow>
          (let d1 = d\<lparr>db_events := prune_events p now1 (db_events d),
                      db_runs := prune_node_runs (rp_node_runs p) (db_runs d),
                      db_commands := prune_newest oc_id finished_command (rp_commands p) (db_commands d),
                      db_activity := prune_newest av_id (\<lambda>_. True) (rp_activity p) (db_activity d),
                      db_jobs := prune_newest jb_id finished_job (rp_jobs p) (db_jobs d)\<rparr>;
               d2 = delete_items (expired_archive ((now2 - rp_archived p) div 1000000)) d1;
               d3 = delete_orphaned_heads d2
           in Inr (d3\<lparr>db_inbox_events := trim_item_events (rp_item_events p) (db_inbox_events d3),
                      db_kv := node_kv_delete_expired (now3 div 1000000) (db_kv d3)\<rparr>)))"

section \<open>Reset\<close>

definition reset_tables :: "string list" where
  "reset_tables = [''inbox_event'', ''feed_membership_claim'', ''inbox_item'', ''event_log'', ''consumer_offset'',
     ''source_head'', ''node_kv'', ''output_command'', ''node_run'', ''activity_event'', ''job'', ''webhook_capture'',
     ''agent_workspace_session'', ''schedule_run'', ''schedule_cursor'']"

text \<open>Deleting every row of a table and its counter; items take their events and claims with them.\<close>

definition clear_table :: "string \<Rightarrow> db \<Rightarrow> db" where
  "clear_table t d =
     (if t = ''inbox_event'' then d\<lparr>db_inbox_events := [], db_inbox_event_seq := 0\<rparr>
      else if t = ''feed_membership_claim'' then d\<lparr>db_claims := []\<rparr>
      else if t = ''inbox_item'' then (delete_items (\<lambda>_. True) d)\<lparr>db_item_seq := 0\<rparr>
      else if t = ''event_log'' then d\<lparr>db_events := [], db_event_seq := 0\<rparr>
      else if t = ''consumer_offset'' then d\<lparr>db_offsets := []\<rparr>
      else if t = ''source_head'' then d\<lparr>db_heads := []\<rparr>
      else if t = ''node_kv'' then d\<lparr>db_kv := []\<rparr>
      else if t = ''output_command'' then d\<lparr>db_commands := [], db_command_seq := 0\<rparr>
      else if t = ''node_run'' then d\<lparr>db_runs := []\<rparr>
      else if t = ''activity_event'' then d\<lparr>db_activity := [], db_activity_seq := 0\<rparr>
      else if t = ''job'' then d\<lparr>db_jobs := [], db_job_seq := 0\<rparr>
      else if t = ''item_session'' then d\<lparr>db_sessions := []\<rparr>
      else d)"

definition reset_all_state :: "(db \<Rightarrow> ('e, db) result) option \<Rightarrow> db \<Rightarrow> ('e, db) result" where
  "reset_all_state reseed d =
     (let d' = fold clear_table reset_tables d
      in case reseed of None \<Rightarrow> Inr d' | Some seed \<Rightarrow> seed d')"

section \<open>Purging a profile\<close>

definition purge_profile :: "string \<Rightarrow> db \<Rightarrow> db" where
  "purge_profile profile d =
     (let prefix = ''source:'' @ profile @ ''/'';
          d1 = delete_items_by_profile profile d;
          d2 = claims_delete_by_profile profile d1;
          d3 = sessions_delete_by_profile profile d2;
          d4 = delete_by_topic_prefix prefix d3;
          d5 = delete_consumer_offset profile d4;
          d6 = head_delete_by_topic_prefix prefix d5
      in d6\<lparr>db_kv := node_kv_delete_by_flow profile (db_kv d6)\<rparr>)"

section \<open>Facts about the statements\<close>

lemma set_sql_delete [simp]: "set (sql_delete P rows) = {r \<in> set rows. \<not> P r}"
  by (auto simp: sql_delete_def)

lemma prune_newest_keeps:
  assumes "unique_on i rows" and "r \<in> set rows" and "\<not> P r"
  shows "r \<in> set (prune_newest i P n rows)"
proof -
  have "i r \<notin> i ` set (drop (nat n) (rev (sort_key i (filter P rows))))"
  proof
    assume "i r \<in> i ` set (drop (nat n) (rev (sort_key i (filter P rows))))"
    then obtain x where "i r = i x" "x \<in> set rows" "P x" by (auto dest: in_set_dropD)
    then show False using unique_on_eq [OF assms(1,2)] assms(3) by blast
  qed
  then show ?thesis using assms(2) by (simp add: prune_newest_def)
qed

lemma prune_newest_subset: "set (prune_newest i P n rows) \<subseteq> set rows"
  by (auto simp: prune_newest_def)

lemma prune_newest_bounds:
  assumes "unique_on i rows"
  shows "length (filter P (prune_newest i P n rows)) \<le> nat n"
proof -
  let ?o = "rev (sort_key i (filter P rows))"
  have sub: "set (filter P (prune_newest i P n rows)) \<subseteq> set (take (nat n) ?o)"
  proof
    fix r assume "r \<in> set (filter P (prune_newest i P n rows))"
    then have "r \<in> set ?o" "r \<notin> set (drop (nat n) ?o)" by (auto simp: prune_newest_def)
    then show "r \<in> set (take (nat n) ?o)" by (metis Un_iff append_take_drop_id set_append)
  qed
  have "distinct (filter P (prune_newest i P n rows))"
    using assms by (simp add: prune_newest_def sql_delete_def unique_on_def distinct_map)
  then have "length (filter P (prune_newest i P n rows)) = card (set (filter P (prune_newest i P n rows)))"
    by (metis distinct_card)
  also have "\<dots> \<le> card (set (take (nat n) ?o))" by (rule card_mono [OF _ sub]) simp
  also have "\<dots> \<le> length (take (nat n) ?o)" by (rule card_length)
  finally show ?thesis by simp
qed


lemma few_newer:
  fixes A :: "int set"
  assumes "finite A" and "B \<subseteq> A" and "\<And>b. b \<in> B \<Longrightarrow> card {a \<in> A. b < a} < n"
  shows "card B \<le> n"
proof (cases "B = {}")
  case False
  have fin: "finite B" using assms(1,2) by (rule rev_finite_subset)
  let ?m = "Min B"
  have m: "?m \<in> B" "\<And>b. b \<in> B \<Longrightarrow> ?m \<le> b" using fin False by auto
  have "B - {?m} \<subseteq> {a \<in> A. ?m < a}" using m assms(2) by force
  then have "card (B - {?m}) \<le> card {a \<in> A. ?m < a}" using assms(1) by (intro card_mono) auto
  also have "\<dots> < n" using m(1) by (rule assms(3))
  finally show ?thesis using m(1) fin by simp
qed simp

lemma newer_count_card:
  assumes "unique_on i rows"
  shows "newer_count i P rows r = card {a \<in> i ` {x \<in> set rows. P x}. i r < a}"
proof -
  have "distinct (map i (filter (\<lambda>x. P x \<and> i r < i x) rows))" using unique_on_filter [OF assms] by (simp add: unique_on_def)
  then have "newer_count i P rows r = card (i ` set (filter (\<lambda>x. P x \<and> i r < i x) rows))"
    unfolding newer_count_def using distinct_card by fastforce
  also have "i ` set (filter (\<lambda>x. P x \<and> i r < i x) rows) = {a \<in> i ` {x \<in> set rows. P x}. i r < a}" by auto
  finally show ?thesis .
qed

lemma few_newer_rows:
  assumes "unique_on i rows" and "\<And>r. r \<in> set rows \<Longrightarrow> P r \<Longrightarrow> Q r \<Longrightarrow> newer_count i P rows r < n"
  shows "length (filter (\<lambda>r. P r \<and> Q r) rows) \<le> n"
proof -
  have d: "distinct (map i (filter (\<lambda>r. P r \<and> Q r) rows))" using unique_on_filter [OF assms(1)] by (simp add: unique_on_def)
  have "length (filter (\<lambda>r. P r \<and> Q r) rows) = card (i ` {r \<in> set rows. P r \<and> Q r})"
    using distinct_card [OF d] by simp
  also have "\<dots> \<le> n"
  proof (rule few_newer)
    show "i ` {r \<in> set rows. P r \<and> Q r} \<subseteq> i ` {r \<in> set rows. P r}" by auto
    show "card {a \<in> i ` {x \<in> set rows. P x}. b < a} < n" if "b \<in> i ` {r \<in> set rows. P r \<and> Q r}" for b
      using that assms(2) newer_count_card [OF assms(1), of P] by auto
  qed simp
  finally show ?thesis .
qed

lemma enumerate_kept:
  "length (map snd (filter Q (enumerate k rows))) \<le> length rows" "set (map snd (filter Q (enumerate k rows))) \<subseteq> set rows"
  by (induction rows arbitrary: k) (auto intro: le_SucI)

lemma prune_node_runs_bounds: "length (prune_node_runs n rows) \<le> nat n"
proof -
  let ?num = "enumerate 0 rows"
  let ?o = "rev (sort_key (\<lambda>(_, r). rr_ended r) ?num)"
  have d: "distinct (map fst ?num)" by (simp add: map_fst_enumerate)
  have kept: "filter (\<lambda>(k, _). k \<notin> set (map fst (drop (nat n) ?o))) ?num = filter (\<lambda>p. fst p \<notin> fst ` set (drop (nat n) ?o)) ?num"
    by (simp only: set_map split_beta')
  have "set (filter (\<lambda>p. fst p \<notin> fst ` set (drop (nat n) ?o)) ?num) \<subseteq> set (take (nat n) ?o)"
  proof
    fix p assume "p \<in> set (filter (\<lambda>p. fst p \<notin> fst ` set (drop (nat n) ?o)) ?num)"
    then have "p \<in> set ?o" "fst p \<notin> fst ` set (drop (nat n) ?o)" by auto
    moreover from this(2) have "p \<notin> set (drop (nat n) ?o)" by (metis imageI)
    ultimately have "p \<in> set ?o" "p \<notin> set (drop (nat n) ?o)" by auto
    then show "p \<in> set (take (nat n) ?o)" by (metis Un_iff append_take_drop_id set_append)
  qed
  then have "card (set (filter (\<lambda>p. fst p \<notin> fst ` set (drop (nat n) ?o)) ?num)) \<le> card (set (take (nat n) ?o))"
    by (rule card_mono [rotated]) simp
  also have "\<dots> \<le> nat n" using card_length [of "take (nat n) ?o"] by simp
  finally have "length (filter (\<lambda>p. fst p \<notin> fst ` set (drop (nat n) ?o)) ?num) \<le> nat n"
    using d by (metis distinct_card distinct_filter distinct_map)
  then show ?thesis by (simp only: prune_node_runs_def Let_def kept length_map)
qed

section \<open>Events\<close>

lemma latest_snapshot_iff:
  "latest_snapshot evs r \<longleftrightarrow> er_snapshot r \<and>
     (\<forall>s\<in>set evs. er_topic s = er_topic r \<and> er_snapshot s \<longrightarrow> er_offset s \<le> er_offset r)"
  by (simp add: latest_snapshot_def list_all_iff)

lemma delete_events_latest:
  "latest_snapshot evs r \<Longrightarrow> r \<in> set evs \<Longrightarrow> r \<in> set (delete_events_older t evs)"
  "latest_snapshot evs r \<Longrightarrow> r \<in> set evs \<Longrightarrow> r \<in> set (delete_events_over n evs)"
  by (auto simp: delete_events_older_def delete_events_over_def)

lemma latest_snapshot_newer:
  "latest_snapshot evs r \<Longrightarrow> newer_count er_offset (\<lambda>x. er_topic x = er_topic r \<and> er_snapshot x) evs r = 0"
  by (fastforce simp: newer_count_def latest_snapshot_iff filter_empty_conv)

lemma delete_snapshots_latest:
  "latest_snapshot evs r \<Longrightarrow> r \<in> set evs \<Longrightarrow> 0 < n \<Longrightarrow> r \<in> set (delete_snapshots_over n evs)"
  by (simp add: delete_snapshots_over_def latest_snapshot_newer)

text \<open>Every bound keeps the newest snapshot of each topic, which stays the newest.\<close>

definition keeps_snapshots :: "event_row list \<Rightarrow> event_row list \<Rightarrow> bool" where
  "keeps_snapshots evs evs' \<longleftrightarrow> (\<exists>P. evs' = filter P evs) \<and> (\<forall>r\<in>set evs. latest_snapshot evs r \<longrightarrow> r \<in> set evs')"

lemma keeps_snapshots_refl: "keeps_snapshots evs evs"
  by (auto simp: keeps_snapshots_def intro: exI [of _ "\<lambda>_. True"])

lemma keeps_snapshots_trans:
  assumes "keeps_snapshots a b" and "keeps_snapshots b c"
  shows "keeps_snapshots a c"
proof -
  obtain P Q where PQ: "b = filter P a" "c = filter Q b" using assms by (auto simp: keeps_snapshots_def)
  have "r \<in> set c" if "r \<in> set a" "latest_snapshot a r" for r
  proof -
    have "r \<in> set b" using assms(1) that by (simp add: keeps_snapshots_def)
    moreover have "latest_snapshot b r" using that(2) by (simp add: latest_snapshot_iff PQ)
    ultimately show ?thesis using assms(2) by (simp add: keeps_snapshots_def)
  qed
  moreover have "c = filter (\<lambda>x. P x \<and> Q x) a" by (simp add: PQ conj_commute)
  ultimately show ?thesis unfolding keeps_snapshots_def by blast
qed

lemma prune_events_keeps: "keeps_snapshots evs (prune_events p now evs)"
proof -
  have del: "\<exists>P. sql_delete Q evs = filter P evs" for Q and evs :: "event_row list"
    unfolding sql_delete_def by blast
  have a: "keeps_snapshots evs (delete_events_older t evs)" and b: "keeps_snapshots evs (delete_events_over n evs)" for evs t n
    using delete_events_latest del unfolding keeps_snapshots_def delete_events_older_def delete_events_over_def by blast+
  have c: "keeps_snapshots evs (delete_snapshots_over n evs)" if "0 < n" for evs n
    using delete_snapshots_latest [OF _ _ that] del unfolding keeps_snapshots_def delete_snapshots_over_def by blast
  show ?thesis unfolding prune_events_def Let_def
    by (auto intro: keeps_snapshots_refl keeps_snapshots_trans [OF a] keeps_snapshots_trans [OF b] a b c
        keeps_snapshots_trans [OF keeps_snapshots_trans [OF a b] c])
qed


lemma newest_of_topic:
  assumes "r \<in> set evs" and "er_snapshot r"
  shows "\<exists>m\<in>set evs. latest_snapshot evs m \<and> er_topic m = er_topic r \<and> er_offset r \<le> er_offset m"
proof -
  let ?S = "{s \<in> set evs. er_topic s = er_topic r \<and> er_snapshot s}"
  have "finite (er_offset ` ?S)" "er_offset ` ?S \<noteq> {}" using assms by auto
  then obtain m where m: "m \<in> ?S" "er_offset m = Max (er_offset ` ?S)" by (metis (no_types, lifting) Max_in imageE)
  then have "\<forall>s\<in>?S. er_offset s \<le> er_offset m" using \<open>finite (er_offset ` ?S)\<close> by simp
  then show ?thesis using m(1) assms by (auto simp: latest_snapshot_iff)
qed

lemma kept_latest:
  assumes "keeps_snapshots evs evs'" and "r \<in> set evs"
  shows "r \<in> set evs' \<and> latest_snapshot evs' r \<longleftrightarrow> latest_snapshot evs r"
proof
  assume l: "latest_snapshot evs r"
  have "set evs' \<subseteq> set evs" using assms(1) by (auto simp: keeps_snapshots_def)
  then show "r \<in> set evs' \<and> latest_snapshot evs' r"
    using assms l by (auto simp: keeps_snapshots_def latest_snapshot_iff)
next
  assume l: "r \<in> set evs' \<and> latest_snapshot evs' r"
  show "latest_snapshot evs r" unfolding latest_snapshot_iff
  proof (intro conjI ballI impI)
    show "er_snapshot r" using l by (simp add: latest_snapshot_iff)
    fix s assume s: "s \<in> set evs" "er_topic s = er_topic r \<and> er_snapshot s"
    obtain m where m: "m \<in> set evs" "latest_snapshot evs m" "er_topic m = er_topic s" "er_offset s \<le> er_offset m"
      using newest_of_topic [OF s(1)] s(2) by blast
    then have "m \<in> set evs'" using assms(1) by (simp add: keeps_snapshots_def)
    then have "er_offset m \<le> er_offset r" using l m s(2) by (simp add: latest_snapshot_iff)
    then show "er_offset s \<le> er_offset r" using m(4) by simp
  qed
qed

lemma latest_rows_eq:
  assumes "\<forall>r\<in>set (db_events d). er_offset r \<le> through"
  shows "latest_snapshot_rows prefix through d =
    sort_key er_topic (filter (\<lambda>r. latest_snapshot (db_events d) r \<and> has_prefix prefix (er_topic r)) (db_events d))"
  unfolding latest_snapshot_rows_def Let_def
  by (intro arg_cong [where f = "sort_key er_topic"] filter_cong) (use assms in \<open>auto simp: latest_snapshot_iff\<close>)

lemma latest_rows_kept:
  assumes "keeps_snapshots (db_events d) (db_events d')" and "\<forall>r\<in>set (db_events d). er_offset r \<le> through"
  shows "latest_snapshot_rows prefix through d' = latest_snapshot_rows prefix through d"
proof -
  obtain P where P: "db_events d' = filter P (db_events d)" using assms(1) by (auto simp: keeps_snapshots_def)
  have "\<forall>r\<in>set (db_events d'). er_offset r \<le> through" using assms(2) by (simp add: P)
  note eqs = latest_rows_eq [OF assms(2)] latest_rows_eq [OF this]
  have "filter (\<lambda>r. latest_snapshot (db_events d') r \<and> has_prefix prefix (er_topic r)) (db_events d') =
      filter (\<lambda>r. latest_snapshot (db_events d) r \<and> has_prefix prefix (er_topic r)) (db_events d)"
    using kept_latest [OF assms(1)] unfolding P filter_filter by (intro filter_cong) auto
  then show ?thesis by (simp add: eqs)
qed

section \<open>What a pass does\<close>

lemma unique_filtered: "unique_on k (filter Q rows) \<Longrightarrow> unique_on k (filter Q (sql_delete P rows))"
  using unique_on_filter [of k "filter Q rows" "\<lambda>r. \<not> P r"] by (simp add: sql_delete_def conj_commute)

lemma prune_fields:
  assumes "prune p n1 n2 n3 d = Inr d'"
  shows "policy_error p = None" "db_events d' = prune_events p n1 (db_events d)" "db_event_seq d' = db_event_seq d"
    "db_offsets d' = db_offsets d" "db_runs d' = prune_node_runs (rp_node_runs p) (db_runs d)"
    "db_commands d' = prune_newest oc_id finished_command (rp_commands p) (db_commands d)" "db_command_seq d' = db_command_seq d"
    "db_activity d' = prune_newest av_id (\<lambda>_. True) (rp_activity p) (db_activity d)" "db_activity_seq d' = db_activity_seq d"
    "db_jobs d' = prune_newest jb_id finished_job (rp_jobs p) (db_jobs d)" "db_job_seq d' = db_job_seq d"
    "db_items d' = sql_delete (expired_archive ((n2 - rp_archived p) div 1000000)) (db_items d)" "db_item_seq d' = db_item_seq d"
    "db_claims d' = sql_delete (\<lambda>c. \<not> list_ex (\<lambda>r. it_id r = fc_item c) (db_items d')) (db_claims d)"
    "db_inbox_events d' = trim_item_events (rp_item_events p)
       (sql_delete (\<lambda>e. \<not> list_ex (\<lambda>r. it_id r = ie_item e) (db_items d')) (db_inbox_events d))"
    "db_inbox_event_seq d' = db_inbox_event_seq d"
    "db_heads d' = sql_delete (\<lambda>h. hd_key h \<notin> it_external ` set (db_items d')) (db_heads d)"
    "db_sessions d' = db_sessions d" "db_kv d' = node_kv_delete_expired (n3 div 1000000) (db_kv d)"
  using assms by (auto simp: prune_def Let_def delete_items_def delete_orphaned_heads_def split: option.splits)

lemma prune_node_runs_subset: "set (prune_node_runs n rows) \<subseteq> set rows"
  unfolding prune_node_runs_def Let_def by (auto simp: in_set_enumerate_eq intro: nth_mem)

lemma prune_newest_unique: "unique_on i rows \<Longrightarrow> unique_on i (prune_newest i P n rows)"
  unfolding prune_newest_def by (rule unique_on_delete)

lemma prune_newest_ids: "ids_ok i rows sq \<Longrightarrow> ids_ok i (prune_newest i P n rows) sq"
  using prune_newest_unique prune_newest_subset [of i P n rows] unfolding ids_ok_def by blast

lemma prune_ok [preserves]:
  assumes "db_ok d" and "prune p n1 n2 n3 d = Inr d'"
  shows "db_ok d'"
proof -
  note f = prune_fields [OF assms(2)]
  obtain Q where Q: "db_events d' = filter Q (db_events d)"
    using prune_events_keeps [of "db_events d" p n1] f(2) unfolding keeps_snapshots_def by metis
  have ev: "events_ok (db_events d') (db_event_seq d') (db_offsets d')"
    using assms(1) by (auto simp: db_ok_def events_ok_def Q f(3,4))
  have it: "items_ok (db_items d') (db_item_seq d')" using assms(1) by (auto simp: db_ok_def items_ok_def f(12,13))
  have "set (db_inbox_events d') \<subseteq> set (db_inbox_events d)" by (auto simp: f(15) trim_item_events_def)
  moreover have "unique_on ie_id (db_inbox_events d')"
    using assms(1) by (simp add: f(15) trim_item_events_def unique_on_delete db_ok_def inbox_events_ok_def)
  moreover have "unique_on event_key (filter (\<lambda>r. ie_occurrence r \<noteq> None) (db_inbox_events d'))"
    using assms(1) by (auto simp: f(15) trim_item_events_def db_ok_def inbox_events_ok_def intro!: unique_filtered)
  moreover have "ie_item ` set (db_inbox_events d') \<subseteq> it_id ` set (db_items d')"
    by (rule image_subsetI) (auto simp: f(15) trim_item_events_def list_ex_iff intro: rev_image_eqI)
  ultimately have ie: "inbox_events_ok (db_inbox_events d') (db_inbox_event_seq d') (db_items d')"
    using assms(1) unfolding db_ok_def inbox_events_ok_def f(16) by blast
  have "fc_item ` set (db_claims d') \<subseteq> it_id ` set (db_items d')"
    by (rule image_subsetI) (auto simp: f(14) list_ex_iff intro: rev_image_eqI)
  then have cl: "claims_ok (db_claims d') (db_items d')"
    using assms(1) unfolding db_ok_def claims_ok_def by (simp add: f(14) sql_delete_def)
  have co: "commands_ok (db_commands d') (db_command_seq d')"
    using assms(1) prune_newest_subset [of oc_id finished_command "rp_commands p" "db_commands d"]
      prune_newest_unique [of oc_id "db_commands d" finished_command "rp_commands p"]
    by (auto simp: db_ok_def commands_ok_def f(6,7) prune_newest_def intro!: unique_filtered)
  show ?thesis
    using assms(1) ev it ie cl co
    by (auto simp: prune_newest_ids db_ok_def f(8-11,17-19) heads_ok_def node_kv_delete_expired_def)
qed


section \<open>What a pass promises\<close>

lemma policy_nonneg:
  assumes "policy_error p = None"
  shows "0 \<le> rp_commands p" "0 \<le> rp_jobs p" "0 \<le> rp_activity p" "0 \<le> rp_node_runs p" "0 \<le> rp_item_events p"
  using assms by (auto simp: policy_error_def split: if_splits)

lemma trim_item_events_bounds:
  assumes "unique_on ie_id ies"
  shows "length (filter (\<lambda>e. ie_item e = i) (trim_item_events n ies)) \<le> nat n"
proof -
  let ?Q = "\<lambda>e. \<not> n < int (newer_count ie_id (\<lambda>x. ie_item x = ie_item e) ies e) + 1"
  have "length (filter (\<lambda>e. ie_item e = i \<and> ?Q e) ies) \<le> nat n"
    by (rule few_newer_rows [OF assms]) auto
  then show ?thesis by (simp add: trim_item_events_def sql_delete_def conj_commute)
qed

lemma delete_snapshots_bounds:
  assumes "unique_on er_offset evs"
  shows "length (filter (\<lambda>r. er_topic r = t \<and> er_snapshot r) (delete_snapshots_over n evs)) \<le> nat n"
proof -
  let ?P = "\<lambda>r. er_topic r = t \<and> er_snapshot r"
  let ?Q = "\<lambda>r. \<not> (er_snapshot r \<and> n \<le> int (newer_count er_offset (\<lambda>x. er_topic x = er_topic r \<and> er_snapshot x) evs r))"
  have "length (filter (\<lambda>r. ?P r \<and> ?Q r) evs) \<le> nat n"
    by (rule few_newer_rows [OF assms]) auto
  then show ?thesis by (simp add: delete_snapshots_over_def sql_delete_def conj_commute)
qed

lemma prune_events_snapshots:
  assumes "unique_on er_offset evs" and "0 < rp_event_snapshots p"
  shows "length (filter (\<lambda>r. er_topic r = t \<and> er_snapshot r) (prune_events p now evs)) \<le> nat (rp_event_snapshots p)"
  using assms by (simp add: prune_events_def Let_def delete_snapshots_bounds delete_events_older_def
      delete_events_over_def unique_on_delete)

text \<open>
  Claim C32: retention never changes what a replay rebuilds. Whatever the policy and however far
  behind the consumers are, a pass leaves the newest snapshot of every source, so replaying the
  snapshots up to the end of the log reads exactly the same messages, and the tail and every
  consumer's offset stay where they were.
\<close>

theorem retention_keeps_replay:
  assumes "prune p n1 n2 n3 d = Inr d'" and "\<forall>r\<in>set (db_events d). er_offset r \<le> through"
  shows "list_latest_snapshots K profile through d' = list_latest_snapshots K profile through d \<and>
    tail_offset d' = tail_offset d \<and> consumer_offset c d' = consumer_offset c d"
proof -
  have "keeps_snapshots (db_events d) (db_events d')" using prune_events_keeps by (simp add: prune_fields(2) [OF assms(1)])
  from latest_rows_kept [OF this assms(2)] show ?thesis
    by (simp add: list_latest_snapshots_def tail_offset_def consumer_offset_def prune_fields(3,4) [OF assms(1)])
qed

text \<open>
  Claim C33: retention never discards active work. A pass keeps the schema's constraints, every
  pending or running command, every live job, every item that is not archived with all its
  memberships, and every link of a session, and it invents no row of any table.
\<close>

theorem retention_keeps_work:
  assumes "db_ok d" and "prune p n1 n2 n3 d = Inr d'"
  shows "db_ok d' \<and>
    (\<forall>r\<in>set (db_commands d). \<not> finished_command r \<longrightarrow> r \<in> set (db_commands d')) \<and>
    (\<forall>r\<in>set (db_jobs d). \<not> finished_job r \<longrightarrow> r \<in> set (db_jobs d')) \<and>
    (\<forall>r\<in>set (db_items d). it_archived r = None \<longrightarrow> r \<in> set (db_items d') \<and>
       (\<forall>c\<in>set (db_claims d). fc_item c = it_id r \<longrightarrow> c \<in> set (db_claims d'))) \<and>
    db_sessions d' = db_sessions d \<and>
    set (db_commands d') \<subseteq> set (db_commands d) \<and> set (db_jobs d') \<subseteq> set (db_jobs d) \<and>
    set (db_items d') \<subseteq> set (db_items d) \<and> set (db_claims d') \<subseteq> set (db_claims d) \<and>
    set (db_events d') \<subseteq> set (db_events d) \<and> set (db_inbox_events d') \<subseteq> set (db_inbox_events d) \<and>
    set (db_activity d') \<subseteq> set (db_activity d) \<and> set (db_runs d') \<subseteq> set (db_runs d) \<and>
    set (db_heads d') \<subseteq> set (db_heads d) \<and> set (db_kv d') \<subseteq> set (db_kv d)"
proof (intro conjI ballI impI)
  note f = prune_fields [OF assms(2)]
  show "db_ok d'" using assms by (rule prune_ok)
  have u: "unique_on oc_id (db_commands d)" "unique_on jb_id (db_jobs d)"
    using assms(1) by (simp_all add: db_ok_def ids_ok_def commands_ok_def)
  show "r \<in> set (db_commands d')" if "r \<in> set (db_commands d)" "\<not> finished_command r" for r
    unfolding f(6) by (rule prune_newest_keeps [where P = finished_command, OF u(1) that])
  show "r \<in> set (db_jobs d')" if "r \<in> set (db_jobs d)" "\<not> finished_job r" for r
    unfolding f(10) by (rule prune_newest_keeps [where P = finished_job, OF u(2) that])
  have items: "r \<in> set (db_items d')" if "r \<in> set (db_items d)" "it_archived r = None" for r
    using that by (simp add: f(12) expired_archive_def)
  then show "r \<in> set (db_items d')" if "r \<in> set (db_items d)" "it_archived r = None" for r using that .
  show "c \<in> set (db_claims d')" if "r \<in> set (db_items d)" "it_archived r = None" "c \<in> set (db_claims d)" "fc_item c = it_id r" for r c
    using that items [OF that(1,2)] by (auto simp: f(14) list_ex_iff)
  show "db_sessions d' = db_sessions d" by (rule f(18))
  show "set (db_commands d') \<subseteq> set (db_commands d)" "set (db_jobs d') \<subseteq> set (db_jobs d)"
    unfolding f(6,10) by (rule prune_newest_subset)+
  show "set (db_activity d') \<subseteq> set (db_activity d)" unfolding f(8) by (rule prune_newest_subset)
  show "set (db_events d') \<subseteq> set (db_events d)"
    by (auto simp: f(2) prune_events_def delete_events_older_def delete_events_over_def delete_snapshots_over_def
        sql_delete_def Let_def split: if_splits)
  show "set (db_inbox_events d') \<subseteq> set (db_inbox_events d)" by (auto simp: f(15) trim_item_events_def sql_delete_def)
  show "set (db_runs d') \<subseteq> set (db_runs d)" unfolding f(5) by (rule prune_node_runs_subset)
  show "set (db_heads d') \<subseteq> set (db_heads d)" "set (db_kv d') \<subseteq> set (db_kv d)"
    by (auto simp: f(17,19) node_kv_delete_expired_def sql_delete_def)
qed (auto simp: prune_fields(12,14) [OF assms(2)])

text \<open>
  Claim C34: what a pass leaves is within the policy: finished commands and jobs, activity, node
  runs, the events of each item and, when the policy bounds them, the snapshots of each topic.
\<close>

theorem retention_bounds:
  assumes "db_ok d" and "prune p n1 n2 n3 d = Inr d'"
  shows "int (length (filter finished_command (db_commands d'))) \<le> rp_commands p \<and>
    int (length (filter finished_job (db_jobs d'))) \<le> rp_jobs p \<and>
    int (length (db_activity d')) \<le> rp_activity p \<and> int (length (db_runs d')) \<le> rp_node_runs p \<and>
    int (length (filter (\<lambda>e. ie_item e = i) (db_inbox_events d'))) \<le> rp_item_events p \<and>
    (0 < rp_event_snapshots p \<longrightarrow>
       int (length (filter (\<lambda>r. er_topic r = t \<and> er_snapshot r) (db_events d'))) \<le> rp_event_snapshots p)"
proof -
  note f = prune_fields [OF assms(2)]
  note pos = policy_nonneg [OF f(1)]
  have u: "unique_on oc_id (db_commands d)" "unique_on jb_id (db_jobs d)" "unique_on av_id (db_activity d)"
    "unique_on ie_id (db_inbox_events d)" "unique_on er_offset (db_events d)"
    using assms(1) by (simp_all add: db_ok_def ids_ok_def commands_ok_def inbox_events_ok_def events_ok_def)
  have "length (filter finished_command (db_commands d')) \<le> nat (rp_commands p)"
    "length (filter finished_job (db_jobs d')) \<le> nat (rp_jobs p)"
    "length (filter (\<lambda>_. True) (db_activity d')) \<le> nat (rp_activity p)"
    "length (db_runs d') \<le> nat (rp_node_runs p)"
    unfolding f(5,6,8,10) by (intro prune_newest_bounds u prune_node_runs_bounds)+
  moreover have "length (filter (\<lambda>e. ie_item e = i) (db_inbox_events d')) \<le> nat (rp_item_events p)"
    unfolding f(15) by (rule trim_item_events_bounds) (use u in auto)
  moreover have "length (filter (\<lambda>r. er_topic r = t \<and> er_snapshot r) (db_events d')) \<le> nat (rp_event_snapshots p)"
    if "0 < rp_event_snapshots p"
    unfolding f(2) by (rule prune_events_snapshots [OF u(5) that])
  ultimately show ?thesis using pos by auto
qed


text \<open>
  Resetting all state forgets everything but the sessions. The list of tables a reset
  clears does not name the table of item sessions, so whatever the database held, a reset gives an
  empty database that still links the old sessions to items, and an item ingested anew under an
  old identity is shown with the session of its predecessor.
\<close>

theorem reset_keeps_sessions:
  "reset_all_state None d = Inr (empty_db\<lparr>db_sessions := db_sessions d\<rparr>) \<and>
   session_list ref (case reset_all_state None d of Inr d' \<Rightarrow> d' | Inl _ \<Rightarrow> empty_db) = session_list ref d"
proof -
  have "fold clear_table reset_tables d = empty_db\<lparr>db_sessions := db_sessions d\<rparr>"
    by (simp add: reset_tables_def clear_table_def empty_db_def delete_items_def sql_delete_def)
  then show ?thesis by (simp add: reset_all_state_def session_list_def)
qed


section \<open>An archived item comes back\<close>

lemma no_item_unresolved:
  assumes "\<And>x. x \<in> set (db_items d) \<Longrightarrow> it_external x \<noteq> e"
  shows "resolve_scoped p k s e d = (None, d)"
proof -
  have "item_by_identity p k s' e d = None" for s'
    using assms by (auto simp: item_by_identity_def find_None_conv item_identity_def)
  then show ?thesis by (simp add: resolve_scoped_def)
qed

lemma first_seen_unread:
  assumes "ck_transition (cl None cur) \<noteq> Some EnteredTerminal" and "ck_attention (cl None cur) = Some AttentionActivity"
  shows "it_unread (ingest_row_of now wall cl profile policy cur None)"
    and "it_archived (ingest_row_of now wall cl profile policy cur None) = None"
  using assms by (auto simp: ingest_row_of_def Let_def ingested_row_def apply_transition_def triage_of_def
      complete_classification_def or_default_def split: option.splits)

text \<open>
  An item the user archived comes back as new. Take an item archived long enough ago, the
  only one with its external id, that its source still lists exactly as it was. Before a retention
  pass observing it again writes nothing; after the pass, which forgets the item and its source
  head, the same observation creates an item that is unread and not archived, even under the policy
  that keeps manual archives forever.
\<close>

theorem archived_item_returns:
  assumes "db_ok d" and "prune p n1 n2 n3 d = Inr d'" and "r \<in> set (db_items d)"
    and "expired_archive ((n2 - rp_archived p) div 1000000) r"
    and "\<forall>x\<in>set (db_items d). it_external x = it_external r \<longrightarrow> x = r"
    and "ob_external cur = it_external r" and "ob_external cur \<noteq> []" and "ob_payload cur \<noteq> []"
    and "head_payload topic (ob_external cur) d = Some (ob_payload cur)"
    and "ck_transition (cl None cur) \<noteq> Some EnteredTerminal" and "ck_attention (cl None cur) = Some AttentionActivity"
  shows "(\<exists>res. ingest_observation now wall (Some cl) profile topic PolicyNever cur d = Inr (res, d) \<and> \<not> ig_wrote res) \<and>
    (\<exists>res d'' item. ingest_observation now wall (Some cl) profile topic PolicyNever cur d' = Inr (res, d'') \<and> ig_wrote res \<and>
       item_by_identity profile (ob_kind cur) (ob_scope cur) (ob_external cur) d'' = Some item \<and>
       it_id item = ig_item res \<and> it_unread item \<and> it_archived item = None)"
proof
  show "\<exists>res. ingest_observation now wall (Some cl) profile topic PolicyNever cur d = Inr (res, d) \<and> \<not> ig_wrote res"
    using assms(7,9) by (simp add: ingest_observation_def)
  note f = prune_fields [OF assms(2)]
  have gone: "it_external x \<noteq> ob_external cur" if "x \<in> set (db_items d')" for x
    using that assms(4-6) by (auto simp: f(12))
  then have head: "head_payload topic (ob_external cur) d' \<noteq> Some (ob_payload cur)"
    by (auto simp: head_payload_def f(17) split: option.splits dest!: find_Some_mem) metis
  have res: "resolve_scoped profile (ob_kind cur) (ob_scope cur) (ob_external cur) d' = (None, d')"
    by (rule no_item_unresolved) (rule gone)
  obtain item d2 where up: "upsert_item (ingest_row_of now wall cl profile PolicyNever cur None) d' = (item, d2)"
    by fastforce
  note facts = upsert_item_result [OF up, simplified]
  obtain c d'' where run: "ingest_observation now wall (Some cl) profile topic PolicyNever cur d' =
      Inr (\<lparr>ig_item = it_id item, ig_revision = it_revision item, ig_class = Some c, ig_wrote = True,
            ig_offset = db_event_seq d' + 1\<rparr>, d'')" "db_ok d''" "db_items d'' = db_items d2"
    using ingest_writes [OF prune_ok [OF assms(1,2)] assms(7,8) head res up] by blast
  have "item_by_identity profile (ob_kind cur) (ob_scope cur) (ob_external cur) d'' = Some item"
    by (rule find_identity_eq [OF run(2)]) (use facts run(3) in auto)
  then show "\<exists>res d'' item. ingest_observation now wall (Some cl) profile topic PolicyNever cur d' = Inr (res, d'') \<and> ig_wrote res \<and>
       item_by_identity profile (ob_kind cur) (ob_scope cur) (ob_external cur) d'' = Some item \<and>
       it_id item = ig_item res \<and> it_unread item \<and> it_archived item = None"
    using run(1) facts first_seen_unread [of cl cur, OF assms(10,11)] by auto
qed

end
