(* ===== verification/Store_Reach.thy ===== *)
theory Store_Reach
  imports Retention Replay_Laws
begin

text \<open>
  Every operation of the stores, as one step relation on the database, and the schema as its type:
  whatever the application does from an empty database on, keys stay unique, references resolve and
  ids stay below their counters.
\<close>

section \<open>The operations\<close>

inductive store_step :: "db \<Rightarrow> db \<Rightarrow> bool" where
  st_append: "append t k p now d = Inr (off, d') \<Longrightarrow> store_step d d'"
| st_append_snapshot: "append_snapshot K t kind scope items now d = Inr (off, d') \<Longrightarrow> store_step d d'"
| st_append_observation: "append_observation t k p kind scope occ now d = Inr (off, d') \<Longrightarrow> store_step d d'"
| st_backfill: "store_step d (backfill_occurrence_key off occ d)"
| st_offset: "store_step d (commit_consumer_offset c n d)"
| st_forget_consumer: "store_step d (delete_consumer_offset c d)"
| st_forget_topic: "store_step d (delete_by_topic_prefix prefix d)"
| st_ingest: "ingest_observation now wall cl profile topic policy cur d = Inr (res, d') \<Longrightarrow> store_step d d'"
| st_unread: "set_unread i rv b d = Inr (r, d') \<Longrightarrow> store_step d d'"
| st_archive: "toggle_archived now i rv d = Inr (r, d') \<Longrightarrow> store_step d d'"
| st_ignore: "toggle_ignored now i rv d = Inr (r, d') \<Longrightarrow> store_step d d'"
| st_mark_read: "mark_read p f d = Inr (n, d') \<Longrightarrow> store_step d d'"
| st_synthesize: "create_synthesized J p k s e payload now d = Inr (r, d') \<Longrightarrow> store_step d d'"
| st_resolve: "resolve_scoped p k s e d = (r, d') \<Longrightarrow> store_step d d'"
| st_delete_items: "store_step d (delete_items_by_profile p d)"
| st_claim: "claim_upsert c d = Inr d' \<Longrightarrow> store_step d d'"
| st_unclaim: "store_step d (claims_delete P d)"
| st_head: "head_upsert t k p d = Inr d' \<Longrightarrow> store_step d d'"
| st_forget_head: "store_step d (head_delete t k d)"
| st_forget_heads: "store_step d (head_delete_by_topic_prefix prefix d)"
| st_link: "store_step d (session_link sid ref now d)"
| st_unlink: "store_step d (session_unlink sids d)"
| st_unlink_profile: "store_step d (sessions_delete_by_profile p d)"
| st_rescope: "store_step d (session_rescope p k e scope d)"
| st_kv_flow: "store_step d (d\<lparr>db_kv := node_kv_delete_by_flow flow (db_kv d)\<rparr>)"
| st_kv_nodes: "store_step d (d\<lparr>db_kv := node_kv_delete_except flow keep (db_kv d)\<rparr>)"
| st_purge: "store_step d (purge_profile p d)"
| st_node_run: "store_step d (node_run_insert nr ended d)"
| st_kv: "store_step d (d\<lparr>db_kv := apply_kv_mutations flow now ms (db_kv d)\<rparr>)"
| st_enqueue: "enqueue_command a k p c ref d = Inr d' \<Longrightarrow> store_step d d'"
| st_confirm: "confirm_command a k p ref now d = Inr (rb, d') \<Longrightarrow> store_step d d'"
| st_rerun: "rerun_command a k p ref now d = Inr (r, d') \<Longrightarrow> store_step d d'"
| st_done: "store_step d (mark_done i res out err d)"
| st_failed: "store_step d (mark_failed i e out err d)"
| st_retry: "store_step d (retry_command i e out err d)"
| st_recover: "store_step d (recover_interrupted now d)"
| st_job: "job_begin l a t now d = (i, d') \<Longrightarrow> store_step d d'"
| st_job_track: "job_track_start l a t now d = (i, d') \<Longrightarrow> store_step d d'"
| st_job_running: "store_step d (job_running i c now d)"
| st_job_status: "store_step d (job_set_status i s e now d)"
| st_activity: "store_step d (activity_record now ev d)"
| st_commit: "commit K now clock b d = Inr d' \<Longrightarrow> store_step d d'"
| st_replay: "activate_replay p tail claims feeds sources nodes d = Inr d' \<Longrightarrow> store_step d d'"
| st_prune: "prune pol n1 n2 n3 d = Inr d' \<Longrightarrow> store_step d d'"
| st_reset: "reset_all_state None d = (Inr d' :: (store_error, db) result) \<Longrightarrow> store_step d d'"

section \<open>Each keeps the schema\<close>

lemma event_deletes_ok:
  "db_ok d \<Longrightarrow> db_ok (delete_consumer_offset c d)" "db_ok d \<Longrightarrow> db_ok (delete_by_topic_prefix prefix d)"
  by (auto simp: delete_consumer_offset_def delete_by_topic_prefix_def db_ok_def events_ok_def)

lemma head_deletes_ok:
  "db_ok d \<Longrightarrow> db_ok (head_delete t k d)" "db_ok d \<Longrightarrow> db_ok (head_delete_by_topic_prefix prefix d)"
  by (auto simp: head_delete_def head_delete_by_topic_prefix_def db_ok_def heads_ok_def)

lemma session_delete_ok: "db_ok d \<Longrightarrow> db_ok (d\<lparr>db_sessions := sql_delete P (db_sessions d)\<rparr>)"
  by (simp add: db_ok_def sessions_ok_def unique_on_delete)

lemma session_deletes_ok:
  "db_ok d \<Longrightarrow> db_ok (session_unlink sids d)" "db_ok d \<Longrightarrow> db_ok (sessions_delete_by_profile p d)"
proof -
  show "db_ok d \<Longrightarrow> db_ok (session_unlink sids d)"
    unfolding session_unlink_def by (induction sids arbitrary: d) (simp_all add: session_delete_ok)
qed (simp add: sessions_delete_by_profile_def session_delete_ok)

lemma delete_items_ok:
  assumes "db_ok d"
  shows "db_ok (delete_items P d)"
proof -
  let ?its = "sql_delete P (db_items d)"
  have "ie_item ` set (sql_delete (\<lambda>e. \<not> list_ex (\<lambda>r. it_id r = ie_item e) ?its) (db_inbox_events d)) \<subseteq> it_id ` set ?its"
    by (rule image_subsetI) (auto simp: list_ex_iff intro: rev_image_eqI)
  moreover have "fc_item ` set (sql_delete (\<lambda>c. \<not> list_ex (\<lambda>r. it_id r = fc_item c) ?its) (db_claims d)) \<subseteq> it_id ` set ?its"
    by (rule image_subsetI) (auto simp: list_ex_iff intro: rev_image_eqI)
  ultimately show ?thesis using assms
    by (simp add: delete_items_def Let_def db_ok_def items_ok_def inbox_events_ok_def claims_ok_def unique_on_delete unique_filtered)
      (simp add: sql_delete_def)
qed

lemma ingest_ok:
  assumes "db_ok d" and "ingest_observation now wall cl profile topic policy cur d = Inr (res, d')"
  shows "db_ok d'"
proof -
  obtain c where cl: "cl = Some c" and ext: "ob_external cur \<noteq> []"
    using assms(2) by (auto simp: ingest_observation_def split: option.splits if_splits)
  show ?thesis
  proof (cases "head_payload topic (ob_external cur) d = Some (ob_payload cur)")
    case True
    then show ?thesis using assms cl ext by (simp add: ingest_observation_def)
  next
    case False
    have "ob_payload cur \<noteq> []"
      using assms(2) cl ext False
      by (auto simp: ingest_observation_def log_observation_def append_observation_def append_event_def Let_def split: prod.splits)
    moreover obtain prev d1 where res: "resolve_scoped profile (ob_kind cur) (ob_scope cur) (ob_external cur) d = (prev, d1)"
      by fastforce
    moreover obtain item d2 where up: "upsert_item (ingest_row_of now wall c profile policy cur prev) d1 = (item, d2)"
      by fastforce
    ultimately show ?thesis using ingest_writes [OF assms(1) ext _ False res up] assms(2) cl by fastforce
  qed
qed

lemma activate_claim_ok: "db_ok d \<Longrightarrow> activate_claim p c d = Inr d' \<Longrightarrow> db_ok d'"
  by (auto simp: activate_claim_def res_bind_Inr_conv split: if_splits intro: claim_upsert_ok)

lemma activate_replay_ok:
  assumes "db_ok d" and "activate_replay p tail claims feeds sources nodes d = Inr d'"
  shows "db_ok d'"
proof -
  have nr: "\<not> tail < 0" "\<not> tail_offset d < tail" using assms(2) by (simp_all add: activate_replay_def split: if_splits)
  obtain d1 where d1: "res_fold (activate_claim p) claims (claims_delete_unarchived p d) = Inr d1"
    using assms(2) nr by (cases "res_fold (activate_claim p) claims (claims_delete_unarchived p d)") (simp_all add: activate_replay_def)
  have d': "d' = (let d3 = commit_consumer_offset p tail (claims_delete_for_removed_sources p sources (claims_delete_for_feeds p feeds d1))
      in d3\<lparr>db_kv := (if nodes = [] then node_kv_delete_by_flow p (db_kv d3) else node_kv_delete_except p nodes (db_kv d3))\<rparr>)"
    using assms(2) nr by (simp add: activate_replay_def d1 Let_def)
  have ok1: "db_ok d1"
    by (rule res_fold_invariant [OF d1, where P = db_ok])
      (use assms(1) activate_claim_ok claim_deletes_ok(5) in blast)+
  let ?d = "commit_consumer_offset p tail (claims_delete_for_removed_sources p sources (claims_delete_for_feeds p feeds d1))"
  have "db_ok ?d" by (intro commit_consumer_offset_ok claim_deletes_ok ok1)
  then show ?thesis
    by (simp add: d' Let_def db_ok_def node_kv_delete_by_flow_def node_kv_delete_except_def unique_on_delete)
qed

lemma kv_step_ok: "db_ok d \<Longrightarrow> db_ok (d\<lparr>db_kv := apply_kv_mutations flow now ms (db_kv d)\<rparr>)"
  using apply_kv_mutations_unique by (simp add: db_ok_def)

lemma append_oks:
  "db_ok d \<Longrightarrow> append t k p now d = Inr (off, d') \<Longrightarrow> db_ok d'"
  "db_ok d \<Longrightarrow> append_snapshot K t kind scope items now d = Inr (off, d') \<Longrightarrow> db_ok d'"
  "db_ok d \<Longrightarrow> append_observation t k p kind scope occ now d = Inr (off, d') \<Longrightarrow> db_ok d'"
  by (auto simp: append_def append_snapshot_def append_observation_def split: option.splits intro: append_event_ok)

lemma claims_delete_ok: "db_ok d \<Longrightarrow> db_ok (claims_delete P d)"
  by (rule claims_ok_delete)

lemma job_track_ok: "db_ok d \<Longrightarrow> job_track_start l a t now d = (i, d') \<Longrightarrow> db_ok d'"
  by (auto simp: job_track_start_def split: prod.splits intro: job_ops_ok job_begin_ok)

lemma confirm_step_ok: "db_ok d \<Longrightarrow> confirm_command a k p ref now d = Inr (rb, d') \<Longrightarrow> db_ok d'"
  by (cases rb) (auto intro: confirm_ok)

lemma reset_ok: "db_ok d \<Longrightarrow> reset_all_state None d = (Inr d' :: (store_error, db) result) \<Longrightarrow> db_ok d'"
  by (auto simp: reset_all_state_def reset_tables_def clear_table_def delete_items_def sql_delete_def db_ok_def ok_defs)

lemma kv_deletes_ok:
  "db_ok d \<Longrightarrow> db_ok (d\<lparr>db_kv := node_kv_delete_by_flow flow (db_kv d)\<rparr>)"
  "db_ok d \<Longrightarrow> db_ok (d\<lparr>db_kv := node_kv_delete_except flow keep (db_kv d)\<rparr>)"
  by (simp_all add: db_ok_def node_kv_delete_by_flow_def node_kv_delete_except_def unique_on_delete)

lemma purge_profile_ok: "db_ok d \<Longrightarrow> db_ok (purge_profile p d)"
  by (simp add: purge_profile_def Let_def delete_items_by_profile_def claims_delete_by_profile_def
      kv_deletes_ok head_deletes_ok event_deletes_ok session_deletes_ok claims_delete_ok delete_items_ok)

lemmas store_oks = session_rescope_ok kv_deletes_ok purge_profile_ok append_oks backfill_ok commit_consumer_offset_ok event_deletes_ok ingest_ok set_unread_ok toggle_archived_ok
  toggle_ignored_ok mark_read_ok create_synthesized_ok resolve_scoped_ok claim_upsert_ok claims_delete_ok head_upsert_ok
  head_deletes_ok session_link_ok session_deletes_ok node_run_insert_ok kv_step_ok enqueue_ok confirm_step_ok rerun_ok
  command_updates_ok recover_ok job_begin_ok job_track_ok job_ops_ok activity_record_ok commit_ok activate_replay_ok prune_ok
  reset_ok

lemma store_step_ok: "store_step d d' \<Longrightarrow> db_ok d \<Longrightarrow> db_ok d'"
proof (induction rule: store_step.induct)
  case (st_delete_items d p)
  then show ?case by (simp add: delete_items_by_profile_def delete_items_ok)
qed (blast intro: store_oks)+

text \<open>
  Claim C31: the schema is the type of every reachable database. Whatever sequence of store
  operations runs from an empty database on, ingests, triage, claims, commits, replays, commands,
  jobs, activity, retention and resets among them, and whatever their arguments, the primary and
  unique keys stay unique, every event and membership refers to an item that exists, an item is
  archived exactly when someone archived it, and no id is above its table's counter.
\<close>

theorem schema_kept:
  assumes "store_step\<^sup>*\<^sup>* empty_db d"
  shows "db_ok d"
  using assms by (induction rule: rtranclp_induct) (auto intro: empty_db_ok store_step_ok)

end
