(* ===== verification/Retention_Samples.thy ===== *)
theory Retention_Samples
  imports Store_Reach Store_Samples
begin

text \<open>A full log, an archived item and finished work, at which the properties of retention are applied.\<close>

definition snap_event :: "int \<Rightarrow> event_row" where
  "snap_event n = sample_event\<lparr>er_offset := n, er_snapshot := True, er_payload := ''[]''\<rparr>"

definition old_item :: item_row where
  "old_item = sample_item\<lparr>it_archived := Some 9, it_actor := Some ActorManual\<rparr>"

definition work_command :: "int \<Rightarrow> command_status \<Rightarrow> command_row" where
  "work_command i st = \<lparr>oc_id = i, oc_action = ''notify'', oc_key = format_int i, oc_payload = ''P'', oc_status = st,
     oc_attempts = 0, oc_error = None, oc_result = None, oc_stdout = None, oc_stderr = None, oc_created = 1,
     oc_rerun = False, oc_ref = no_ref\<rparr>"

definition full_db :: db where
  "full_db = sample_db\<lparr>db_events := map snap_event [1, 2, 3, 4, 5], db_event_seq := 5, db_items := [old_item],
     db_commands := [work_command 1 CmdPending, work_command 2 CmdDone, work_command 3 CmdFailed], db_command_seq := 3\<rparr>"

lemma full_db_ok: "db_ok full_db"
  by (simp add: db_ok_def ok_defs full_db_def sample_db_def empty_db_def snap_event_def sample_event_def old_item_def
      sample_item_def work_command_def command_key_def unique_on_def archive_check_def item_identity_def) code_simp

definition tight_policy :: retention_policy where
  "tight_policy = default_retention_policy\<lparr>rp_commands := 1, rp_archived := 1000\<rparr>"

definition pruned_db :: db where
  "pruned_db = (case prune tight_policy 50000000 50000000 50000000 full_db of Inr d \<Rightarrow> d)"

lemma full_pruned: "prune tight_policy 50000000 50000000 50000000 full_db = Inr pruned_db"
proof -
  have "\<not> isl (prune tight_policy 50000000 50000000 50000000 full_db)" by code_simp
  then show ?thesis by (auto simp: pruned_db_def dest!: not_isl_Inr)
qed

lemma pruned_offsets: "map er_offset (db_events pruned_db) = [3, 4, 5]"
  by code_simp

theorem retention_keeps_replay_witness:
  "list_latest_snapshots sample_store ''inbox'' 5 pruned_db = list_latest_snapshots sample_store ''inbox'' 5 full_db \<and>
   length (db_events pruned_db) < length (db_events full_db)"
proof
  have "\<forall>r\<in>set (db_events full_db). er_offset r \<le> 5" by (simp add: full_db_def snap_event_def)
  from retention_keeps_replay [OF full_pruned this]
  show "list_latest_snapshots sample_store ''inbox'' 5 pruned_db = list_latest_snapshots sample_store ''inbox'' 5 full_db" by blast
  show "length (db_events pruned_db) < length (db_events full_db)" by code_simp
qed

theorem retention_keeps_work_witness:
  "work_command 1 CmdPending \<in> set (db_commands pruned_db) \<and> length (db_commands pruned_db) = 2"
proof
  have "work_command 1 CmdPending \<in> set (db_commands full_db)" "\<not> finished_command (work_command 1 CmdPending)"
    by (simp_all add: full_db_def work_command_def finished_command_def)
  then show "work_command 1 CmdPending \<in> set (db_commands pruned_db)"
    using retention_keeps_work [OF full_db_ok full_pruned] by blast
  show "length (db_commands pruned_db) = 2" by code_simp
qed

theorem retention_bounds_witness:
  "length (filter finished_command (db_commands pruned_db)) \<le> 1 \<and> length (filter finished_command (db_commands full_db)) = 2"
proof
  have "int (length (filter finished_command (db_commands pruned_db))) \<le> rp_commands tight_policy"
    using retention_bounds [OF full_db_ok full_pruned] by blast
  then show "length (filter finished_command (db_commands pruned_db)) \<le> 1" by (simp add: tight_policy_def)
  show "length (filter finished_command (db_commands full_db)) = 2" by code_simp
qed

theorem archived_item_returns_witness:
  "\<exists>res d'' item. ingest_observation 60 60 (Some sample_classifier) ''inbox'' sample_topic PolicyNever (sample_obs ''P'') pruned_db = Inr (res, d'') \<and>
     item_by_identity ''inbox'' ''github'' ''acct'' ''acme/x#1'' d'' = Some item \<and> it_unread item \<and> it_archived item = None"
proof -
  have r: "old_item \<in> set (db_items full_db)" "expired_archive ((50000000 - rp_archived tight_policy) div 1000000) old_item"
    "\<forall>x\<in>set (db_items full_db). it_external x = it_external old_item \<longrightarrow> x = old_item"
    by (simp_all add: full_db_def old_item_def expired_archive_def tight_policy_def)
  have o: "ob_external (sample_obs ''P'') = it_external old_item" "ob_external (sample_obs ''P'') \<noteq> []"
    "ob_payload (sample_obs ''P'') \<noteq> []" "head_payload sample_topic (ob_external (sample_obs ''P'')) full_db = Some (ob_payload (sample_obs ''P''))"
    by (simp_all add: sample_obs_def old_item_def sample_item_def head_payload_def full_db_def sample_db_def sample_topic_def)
  have c: "ck_transition (sample_classifier None (sample_obs ''P'')) \<noteq> Some EnteredTerminal"
    "ck_attention (sample_classifier None (sample_obs ''P'')) = Some AttentionActivity"
    by (simp_all add: sample_classifier_def sample_obs_def)
  show ?thesis
    using archived_item_returns [where cl = sample_classifier and cur = "sample_obs ''P''" and r = old_item and now = 60
        and wall = 60 and profile = "''inbox''" and topic = sample_topic, OF full_db_ok full_pruned r o c] by (auto simp: sample_obs_facts)
qed

theorem schema_kept_witness: "db_ok (case append sample_topic ''k'' ''P'' 3 sample_db of Inr (_, d) \<Rightarrow> d)"
proof -
  obtain res where r: "ingest_observation 5 6 (Some sample_classifier) ''inbox'' sample_topic PolicyUnset (sample_obs ''P'') empty_db =
     Inr (res, sample_db)" using sample_ingest by blast
  have "\<not> isl (append sample_topic ''k'' ''P'' 3 sample_db)" by (simp add: append_def append_event_def Let_def)
  then obtain off d where a: "append sample_topic ''k'' ''P'' 3 sample_db = Inr (off, d)" by (auto dest!: not_isl_Inr)
  have "store_step\<^sup>*\<^sup>* empty_db d" using st_ingest [OF r] st_append [OF a] by auto
  from schema_kept [OF this] show ?thesis by (simp add: a)
qed

end
