(* ===== verification/Ingest.thy ===== *)
theory Ingest
  imports Inbox_Laws Activity
begin

text \<open>
  The producer (\<open>internal/app/ingest/producer.go\<close>, \<open>resolver.go\<close>): on a tick every due source is
  drained, its messages ingested, what left it confirmed, and its snapshot appended. Sources drain
  concurrently, but each write holds the write slot, so a drain is a sequence of atomic steps and a
  tick is an interleaving of such sequences. A connector is a parameter: the messages it emits,
  which may depend on what each emit answered, and what it says of absent items. Clock readings
  are nanoseconds and come with the steps; the stores keep milliseconds.
\<close>

section \<open>Sources\<close>

datatype ingest_error = WrongTopic string string string | IngestStore store_error | SourceFailed string

datatype produce = Produced "ingest_error option" | Emit msg "ingest_error option \<Rightarrow> produce"

record verdict =
  vd_current :: "observation option"
  vd_terminal :: bool

record pull_instance =
  pi_type :: string
  pi_flow :: string
  pi_node :: string
  pi_profile :: string
  pi_kind :: string
  pi_scope :: string
  pi_policy :: resurface_policy
  pi_min_interval :: int
  pi_classifier :: "classifier option"
  pi_produce :: produce
  pi_absence :: "(observation list \<Rightarrow> (string, verdict) amap) option"

definition instance_id :: "pull_instance \<Rightarrow> string" where
  "instance_id i = pi_flow i @ ''/'' @ pi_node i"

definition instance_topic :: "pull_instance \<Rightarrow> string" where
  "instance_topic i = ''source:'' @ instance_id i"

definition generic_classifier :: classifier where
  "generic_classifier previous cur =
     (case previous of
        None \<Rightarrow> \<lparr>ck_kind = ''observed'', ck_transition = Some TransitionNone, ck_attention = Some AttentionActivity,
          ck_lifecycle = Some LifecycleUnknown, ck_state = [], ck_reason = [], ck_occurrence = [],
          ck_summary = ob_title cur, ck_detail = []\<rparr>
      | Some _ \<Rightarrow> \<lparr>ck_kind = ''updated'', ck_transition = Some TransitionNone, ck_attention = Some AttentionTrivial,
          ck_lifecycle = Some LifecycleUnknown, ck_state = [], ck_reason = [], ck_occurrence = [],
          ck_summary = ob_title cur, ck_detail = []\<rparr>)"

text \<open>A message without a title is titled by its key, one without a time happened now.\<close>

definition observation_from_msg :: "json_scanner \<Rightarrow> int \<Rightarrow> string \<Rightarrow> bytes \<Rightarrow> string \<Rightarrow> string \<Rightarrow> observation" where
  "observation_from_msg J now key payload kind scope =
     (case feed_fields J payload of
        (title, url, updated) \<Rightarrow>
          \<lparr>ob_external = key, ob_title = (if title = [] then key else title), ob_url = url, ob_kind = kind,
           ob_scope = scope, ob_observed = (if updated = 0 then now div 1000000 else updated), ob_payload = payload\<rparr>)"

section \<open>Resolving sources\<close>

text \<open>A node whose connector has no factory, or whose factory rejects its configuration, is skipped.\<close>

type_synonym source_factory = "string \<Rightarrow> string \<Rightarrow> resurface_policy \<Rightarrow> string option \<Rightarrow> (string, pull_instance) result"

definition build_source :: "(string, source_factory) amap \<Rightarrow> flow \<Rightarrow> node \<Rightarrow> (string, pull_instance) result" where
  "build_source factories f n =
     (case n_config n of
        Some (SourceConfig _ cfg) \<Rightarrow>
          (case map_of factories (n_type n) of
             None \<Rightarrow> Inl (''connector '' @ go_quote (n_type n) @ '' has no factory'')
           | Some new \<Rightarrow> new (f_id f) (n_id n) (f_resurface f) cfg)
      | _ \<Rightarrow> Inl ''node config is not a source config'')"

definition source_instances ::
  "(string \<Rightarrow> 'mode option) \<Rightarrow> 'mode \<Rightarrow> (string, source_factory) amap \<Rightarrow> flow list \<Rightarrow> pull_instance list" where
  "source_instances lookup mode factories flows =
     concat (map (\<lambda>f. List.map_filter (\<lambda>n.
         if n_disabled n \<or> lookup (n_type n) \<noteq> Some mode then None
         else (case build_source factories f n of Inl _ \<Rightarrow> None | Inr i \<Rightarrow> Some i)) (f_nodes f))
       (filter f_enabled flows))"

section \<open>State\<close>

record producer_state =
  ps_db :: db
  ps_last_run :: "(string, int) amap"
  ps_last_failure :: "(string, int) amap"
  ps_last_tick :: int

record drained =
  dr_appended :: nat
  dr_offset :: int

record producer_env =
  pe_codec :: store_codec
  pe_text :: "ingest_error \<Rightarrow> string"
  pe_recorder :: bool

definition failure_notice_interval :: int where
  "failure_notice_interval = 3600 * 1000000000"

definition record_failure :: "producer_env \<Rightarrow> string \<Rightarrow> ingest_error \<Rightarrow> int \<Rightarrow> producer_state \<Rightarrow> producer_state" where
  "record_failure E i cause now s =
     (if (case map_of (ps_last_failure s) i of None \<Rightarrow> False | Some t \<Rightarrow> now - t < failure_notice_interval) then s
      else s\<lparr>ps_last_failure := AList.update i now (ps_last_failure s),
             ps_db := (if pe_recorder E then activity_record (now div 1000000) (refresh_failed i (pe_text E cause)) (ps_db s)
                       else ps_db s)\<rparr>)"

definition clear_failure :: "string \<Rightarrow> producer_state \<Rightarrow> producer_state" where
  "clear_failure i s = s\<lparr>ps_last_failure := AList.delete i (ps_last_failure s)\<rparr>"

section \<open>A drain\<close>

text \<open>What is left of a drain: nothing, or a step that reads the clock and writes once.\<close>

datatype drain_task =
    Drained drained "ingest_error option"
  | DrainStep "int \<Rightarrow> producer_state \<Rightarrow> drain_task \<times> producer_state"

definition counted_row :: "ingest_result \<Rightarrow> drained \<Rightarrow> drained" where
  "counted_row res out =
     (if ig_wrote res then \<lparr>dr_appended = dr_appended out + 1, dr_offset = ig_offset res\<rparr> else out)"

definition source_classifier :: "pull_instance \<Rightarrow> classifier" where
  "source_classifier i = (case pi_classifier i of None \<Rightarrow> generic_classifier | Some c \<Rightarrow> c)"

definition source_policy :: "pull_instance \<Rightarrow> resurface_policy" where
  "source_policy i = (if pi_policy i = PolicyUnset then PolicyStateChanges else pi_policy i)"

definition ingest_from :: "pull_instance \<Rightarrow> observation \<Rightarrow> int \<Rightarrow> db \<Rightarrow> (store_error, ingest_result \<times> db) result" where
  "ingest_from i cur now d =
     ingest_observation (now div 1000000) (now div 1000000) (Some (source_classifier i)) (pi_profile i) (instance_topic i)
       (source_policy i) cur d"

definition drain_failed :: "producer_env \<Rightarrow> pull_instance \<Rightarrow> drained \<Rightarrow> ingest_error \<Rightarrow> drain_task" where
  "drain_failed E i out e = DrainStep (\<lambda>now s. (Drained out (Some e), record_failure E (instance_id i) e now s))"

definition append_drained :: "producer_env \<Rightarrow> pull_instance \<Rightarrow> snapshot_item list \<Rightarrow> drained \<Rightarrow> drain_task" where
  "append_drained E i items out = DrainStep (\<lambda>now s.
     case append_snapshot (pe_codec E) (instance_topic i) (pi_kind i) (pi_scope i) (Some items) (now div 1000000) (ps_db s) of
       Inl e \<Rightarrow> (drain_failed E i out (IngestStore e), s)
     | Inr (off, d) \<Rightarrow>
         (DrainStep (\<lambda>_ s. (Drained \<lparr>dr_appended = dr_appended out + 1, dr_offset = off\<rparr> None, clear_failure (instance_id i) s)),
          s\<lparr>ps_db := d\<rparr>))"

primrec ingest_verdicts ::
  "pull_instance \<Rightarrow> (string, verdict) amap \<Rightarrow> (drained \<Rightarrow> drain_task) \<Rightarrow> observation list \<Rightarrow> drained \<Rightarrow> drain_task" where
  "ingest_verdicts i vs k [] out = k out"
| "ingest_verdicts i vs k (prev # prevs) out =
     (case map_of vs (ob_external prev) of
        None \<Rightarrow> ingest_verdicts i vs k prevs out
      | Some v \<Rightarrow>
          (case vd_current v of
             None \<Rightarrow> ingest_verdicts i vs k prevs out
           | Some cur \<Rightarrow> DrainStep (\<lambda>now s.
               case ingest_from i cur now (ps_db s) of
                 Inl _ \<Rightarrow> (ingest_verdicts i vs k prevs out, s)
               | Inr (res, d) \<Rightarrow>
                   (if vd_terminal v
                    then DrainStep (\<lambda>_ s. (ingest_verdicts i vs k prevs (counted_row res out),
                           s\<lparr>ps_db := head_delete (instance_topic i) (ob_external prev) (ps_db s)\<rparr>))
                    else ingest_verdicts i vs k prevs (counted_row res out),
                    s\<lparr>ps_db := d\<rparr>))))"

primrec read_heads ::
  "producer_env \<Rightarrow> pull_instance \<Rightarrow> (observation list \<Rightarrow> drain_task) \<Rightarrow> string list \<Rightarrow> observation list \<Rightarrow> drain_task" where
  "read_heads E i k [] prevs = k prevs"
| "read_heads E i k (key # keys) prevs = DrainStep (\<lambda>now s.
     (case head_payload (instance_topic i) key (ps_db s) of
        None \<Rightarrow> read_heads E i k keys prevs
      | Some p \<Rightarrow> read_heads E i k keys
          (prevs @ [observation_from_msg (sk_scan (pe_codec E)) now key p (pi_kind i) (pi_scope i)]), s))"

definition confirm_absent ::
  "producer_env \<Rightarrow> pull_instance \<Rightarrow> string list \<Rightarrow> (drained \<Rightarrow> drain_task) \<Rightarrow> drained \<Rightarrow> drain_task" where
  "confirm_absent E i observed k out =
     (case pi_absence i of
        None \<Rightarrow> k out
      | Some confirm \<Rightarrow> DrainStep (\<lambda>now s.
          (read_heads E i (\<lambda>prevs. if prevs = [] then k out else ingest_verdicts i (confirm prevs) k prevs out)
             (filter (\<lambda>key. key \<notin> set observed) (list_active_keys (instance_topic i) (pi_profile i) (pi_kind i) (pi_scope i) (ps_db s)))
             [], s)))"

primrec produce_task ::
  "producer_env \<Rightarrow> pull_instance \<Rightarrow> produce \<Rightarrow> snapshot_item list \<Rightarrow> string list \<Rightarrow> drained \<Rightarrow> drain_task" where
  "produce_task E i (Produced err) items observed out =
     (case err of
        Some e \<Rightarrow> drain_failed E i out e
      | None \<Rightarrow> confirm_absent E i observed (append_drained E i items) out)"
| "produce_task E i (Emit m answer) items observed out =
     (if m_topic m \<noteq> instance_topic i
      then produce_task E i (answer (Some (WrongTopic (instance_id i) (m_topic m) (instance_topic i)))) items observed out
      else let items' = items @ [\<lparr>si_key = m_key m, si_payload = m_payload m\<rparr>]
      in if m_key m = [] then produce_task E i (answer None) items' observed out
      else DrainStep (\<lambda>now s.
        let kind = (if m_source_kind m \<noteq> [] then m_source_kind m else pi_kind i);
            cur = observation_from_msg (sk_scan (pe_codec E)) now (m_key m) (m_payload m) kind (pi_scope i)
        in case ingest_from i cur now (ps_db s) of
             Inl e \<Rightarrow> (produce_task E i (answer (Some (IngestStore e))) items' (observed @ [m_key m]) out, s)
           | Inr (res, d) \<Rightarrow> (produce_task E i (answer None) items' (observed @ [m_key m]) (counted_row res out), s\<lparr>ps_db := d\<rparr>)))"

definition drain_source :: "producer_env \<Rightarrow> pull_instance \<Rightarrow> drain_task" where
  "drain_source E i = produce_task E i (pi_produce i) [] [] \<lparr>dr_appended = 0, dr_offset = 0\<rparr>"

section \<open>A tick\<close>

definition prune_schedule :: "pull_instance list \<Rightarrow> producer_state \<Rightarrow> producer_state" where
  "prune_schedule insts s =
     s\<lparr>ps_last_run := filter (\<lambda>(i, _). i \<in> instance_id ` set insts) (ps_last_run s),
       ps_last_failure := filter (\<lambda>(i, _). i \<in> instance_id ` set insts) (ps_last_failure s)\<rparr>"

definition claim_source_run :: "pull_instance \<Rightarrow> int \<Rightarrow> producer_state \<Rightarrow> bool \<times> producer_state" where
  "claim_source_run i now s =
     (if pi_min_interval i \<le> 0 then (True, s)
      else if (case map_of (ps_last_run s) (instance_id i) of None \<Rightarrow> False | Some t \<Rightarrow> now - t < pi_min_interval i)
      then (False, s)
      else (True, s\<lparr>ps_last_run := AList.update (instance_id i) now (ps_last_run s)\<rparr>))"

fun due_sources :: "bool \<Rightarrow> (pull_instance \<times> int) list \<Rightarrow> producer_state \<Rightarrow> pull_instance list \<times> producer_state" where
  "due_sources forced [] s = ([], s)"
| "due_sources forced ((i, now) # rest) s =
     (if forced then (case due_sources forced rest s of (due, s') \<Rightarrow> (i # due, s'))
      else case claim_source_run i now s of
             (runs, s1) \<Rightarrow> (case due_sources forced rest s1 of (due, s') \<Rightarrow> (if runs then i # due else due, s')))"

text \<open>A schedule says whose step is next and when; a drain that is over, or that does not exist, has no step.\<close>

fun run_drains :: "(nat \<times> int) list \<Rightarrow> drain_task list \<Rightarrow> producer_state \<Rightarrow> drain_task list \<times> producer_state" where
  "run_drains [] ts s = (ts, s)"
| "run_drains ((n, now) # sched) ts s =
     (if n < length ts
      then (case ts ! n of
              Drained _ _ \<Rightarrow> run_drains sched ts s
            | DrainStep f \<Rightarrow> (case f now s of (t', s') \<Rightarrow> run_drains sched (ts[n := t']) s'))
      else run_drains sched ts s)"

record tick_summary =
  tk_sources :: nat
  tk_appended :: nat
  tk_failed :: nat

definition completed :: "drain_task \<Rightarrow> drained option" where
  "completed t = (case t of Drained out None \<Rightarrow> Some out | _ \<Rightarrow> None)"

definition summarize :: "nat \<Rightarrow> drain_task list \<Rightarrow> tick_summary \<times> int" where
  "summarize sources ts =
     (let done = List.map_filter completed ts
      in (\<lparr>tk_sources = sources, tk_appended = sum_list (map dr_appended done), tk_failed = length ts - length done\<rparr>,
          fold max (map dr_offset done) 0))"

text \<open>The offset the notifier is told, if it is told one.\<close>

definition ingest_tick ::
  "producer_env \<Rightarrow> bool \<Rightarrow> (pull_instance \<times> int) list \<Rightarrow> (nat \<times> int) list \<Rightarrow> int \<Rightarrow> producer_state \<Rightarrow>
   (tick_summary \<times> int option) \<times> producer_state" where
  "ingest_tick E forced insts sched finished s =
     (case due_sources forced insts (prune_schedule (map fst insts) s) of
        (due, s1) \<Rightarrow>
          (case run_drains sched (map (drain_source E) due) s1 of
             (ts, s2) \<Rightarrow>
               (case summarize (length insts) ts of
                  (sm, newest) \<Rightarrow> ((sm, if 0 < tk_appended sm then Some newest else None), s2\<lparr>ps_last_tick := finished\<rparr>))))"

end
