(* ===== verification/Ingest_Laws.thy ===== *)
theory Ingest_Laws
  imports Ingest Store_Reach
begin

text \<open>
  What a tick guarantees under every interleaving of its drains: the schema, authoritative
  snapshots, books that balance, and the rows nobody is told of.
\<close>

section \<open>Interleavings\<close>

text \<open>A task all of whose steps, taken where \<open>P\<close> holds, keep \<open>P\<close> and are related by \<open>G\<close>.\<close>

inductive safe_task ::
  "(producer_state \<Rightarrow> bool) \<Rightarrow> (producer_state \<Rightarrow> producer_state \<Rightarrow> bool) \<Rightarrow> drain_task \<Rightarrow> bool" for P G where
  safe_drained: "safe_task P G (Drained out err)"
| safe_step: "(\<And>now s. P s \<Longrightarrow> P (snd (f now s)) \<and> G s (snd (f now s)) \<and> safe_task P G (fst (f now s))) \<Longrightarrow>
    safe_task P G (DrainStep f)"

inductive_cases safe_step_cases [elim]: "safe_task P G (DrainStep f)"

lemma safe_stepI:
  assumes "\<And>now s. P s \<Longrightarrow> case f now s of (t, s') \<Rightarrow> P s' \<and> G s s' \<and> safe_task P G t"
  shows "safe_task P G (DrainStep f)"
proof (rule safe_step)
  fix now s assume "P s"
  from assms [OF this, of now] show "P (snd (f now s)) \<and> G s (snd (f now s)) \<and> safe_task P G (fst (f now s))"
    by (cases "f now s") simp
qed

lemma run_drains_step:
  "n < length ts \<Longrightarrow> ts ! n = DrainStep f \<Longrightarrow>
   run_drains ((n, now) # sched) ts s = run_drains sched (ts[n := fst (f now s)]) (snd (f now s))"
  by (simp add: case_prod_beta)

lemma run_drains_idle:
  "\<not> n < length ts \<or> (\<exists>out err. ts ! n = Drained out err) \<Longrightarrow> run_drains ((n, now) # sched) ts s = run_drains sched ts s"
  by auto

text \<open>Invariants of a whole interleaving from invariants of its steps.\<close>

lemma run_drains_induct:
  assumes "run_drains sched ts s = (ts', s')" and "I ts s"
    and "\<And>ts s n f now. I ts s \<Longrightarrow> n < length ts \<Longrightarrow> ts ! n = DrainStep f \<Longrightarrow> I (ts[n := fst (f now s)]) (snd (f now s))"
  shows "I ts' s'"
  using assms(1,2)
proof (induction sched arbitrary: ts s)
  case (Cons e sched)
  obtain n now where e: "e = (n, now)" by fastforce
  show ?case
  proof (cases "n < length ts \<and> (\<exists>f. ts ! n = DrainStep f)")
    case True
    then obtain f where "n < length ts" "ts ! n = DrainStep f" by blast
    then show ?thesis using Cons assms(3) by (simp add: e run_drains_step del: run_drains.simps(2))
  next
    case False
    then have "\<not> n < length ts \<or> (\<exists>out err. ts ! n = Drained out err)" by (metis drain_task.exhaust)
    then show ?thesis using Cons by (simp add: e run_drains_idle del: run_drains.simps(2))
  qed
qed simp

lemma run_drains_safe:
  assumes "run_drains sched ts s = (ts', s')" and "\<forall>t\<in>set ts. safe_task P G t" and "P s"
  shows "P s'"
proof -
  have "(\<forall>t\<in>set ts'. safe_task P G t) \<and> P s'"
  proof (rule run_drains_induct [OF assms(1), where I = "\<lambda>ts s. (\<forall>t\<in>set ts. safe_task P G t) \<and> P s"])
    fix ts s n f now
    assume a: "(\<forall>t\<in>set ts. safe_task P G t) \<and> P s" "n < length ts" "ts ! n = DrainStep f"
    then have "safe_task P G (DrainStep f)" by (metis nth_mem)
    then have "P (snd (f now s)) \<and> safe_task P G (fst (f now s))" using a(1) by blast
    then show "(\<forall>t\<in>set (ts[n := fst (f now s)]). safe_task P G t) \<and> P (snd (f now s))"
      using a(1) set_update_subset_insert [of ts n] by blast
  qed (use assms in simp)
  then show ?thesis by simp
qed

section \<open>The steps of a drain\<close>

lemma log_observation_rows:
  assumes "\<forall>x\<in>set (db_events d). er_offset x \<le> db_event_seq d" and "log_observation topic cur occ now d = Inr (off, d')"
  shows "\<exists>r. er_topic r = topic \<and> er_offset r = db_event_seq d + 1 \<and> \<not> er_snapshot r \<and> off = db_event_seq d + 1 \<and>
    db_events d' = db_events d @ [r] \<and> db_event_seq d' = db_event_seq d + 1"
proof -
  have old: "er_offset x \<noteq> db_event_seq d + 1" if "x \<in> set (db_events d)" for x
    using assms(1) that by force
  have keep: "map (\<lambda>r. if er_offset r = db_event_seq d + 1 then f r else r) (db_events d) = db_events d" for f
    by (rule map_idI) (simp add: old)
  show ?thesis
    using assms(2)
    by (auto simp: log_observation_def append_observation_def append_event_def Let_def head_upsert_def
        backfill_occurrence_key_def sql_update_def keep res_bind_Inr_conv split: if_splits)
qed

lemma ingest_rows:
  assumes "db_ok d" and "ingest_observation now wall cl profile topic policy cur d = Inr (res, d')"
  shows "(\<not> ig_wrote res \<and> d' = d) \<or>
    (ig_wrote res \<and> ig_offset res = db_event_seq d + 1 \<and> db_event_seq d' = db_event_seq d + 1 \<and>
     (\<exists>r. er_topic r = topic \<and> er_offset r = db_event_seq d + 1 \<and> \<not> er_snapshot r \<and> db_events d' = db_events d @ [r]))"
proof -
  obtain c where cl: "cl = Some c" and ext: "ob_external cur \<noteq> []"
    using assms(2) by (auto simp: ingest_observation_def split: option.splits if_splits)
  show ?thesis
  proof (cases "head_payload topic (ob_external cur) d = Some (ob_payload cur)")
    case True
    then show ?thesis using assms(2) cl ext by (auto simp: ingest_observation_def)
  next
    case False
    obtain prev d1 where res: "resolve_scoped profile (ob_kind cur) (ob_scope cur) (ob_external cur) d = (prev, d1)"
      by fastforce
    let ?c = "complete_classification (c (map_option observation_of prev) cur)"
    obtain item d2 where up: "upsert_item (ingest_row_of now wall c profile policy cur prev) d1 = (item, d2)"
      by fastforce
    obtain off where log: "log_observation topic cur (ck_occurrence ?c) now (note_transition (it_id item) ?c now d2) = Inr (off, d')"
      and r: "ig_wrote res" "ig_offset res = off"
      using assms(2) cl ext False res up
      by (auto simp: ingest_observation_def ingest_row_of_def Let_def res_bind_Inr_conv)
    note frame1 = resolve_frame [OF res]
    note frame2 = upsert_item_result(7-9) [OF up]
    have ev: "db_events (note_transition (it_id item) ?c now d2) = db_events d"
      "db_event_seq (note_transition (it_id item) ?c now d2) = db_event_seq d"
      using frame1 frame2 by (simp_all add: note_transition_def)
    have "\<forall>x\<in>set (db_events d). er_offset x \<le> db_event_seq d" using assms(1) by (simp add: db_ok_def events_ok_def)
    then show ?thesis using log_observation_rows [OF _ log] r by (auto simp: ev)
  qed
qed

section \<open>Every step is safe\<close>

text \<open>What a drain guarantees at each step: the schema, and the rows of any topic but its own.\<close>

definition state_ok :: "producer_state \<Rightarrow> bool" where
  "state_ok s \<longleftrightarrow> db_ok (ps_db s)"

definition topic_rows :: "string \<Rightarrow> producer_state \<Rightarrow> event_row list" where
  "topic_rows t s = filter (\<lambda>r. er_topic r = t) (db_events (ps_db s))"

definition spares :: "string \<Rightarrow> producer_state \<Rightarrow> producer_state \<Rightarrow> bool" where
  "spares t s s' \<longleftrightarrow> topic_rows t s' = topic_rows t s"

lemma spares_refl [simp]: "spares t s s"
  by (simp add: spares_def)

lemma activity_record_log [simp]:
  "db_events (activity_record now e d) = db_events d" "db_event_seq (activity_record now e d) = db_event_seq d"
  by (auto simp: activity_record_def activity_append_def Let_def split: sum.split prod.split if_splits)

lemma record_failure_log [simp]:
  "db_events (ps_db (record_failure E i e now s)) = db_events (ps_db s)"
  "db_event_seq (ps_db (record_failure E i e now s)) = db_event_seq (ps_db s)"
  by (auto simp: record_failure_def)

lemma record_failure_ok: "state_ok s \<Longrightarrow> state_ok (record_failure E i e now s)"
  by (simp add: record_failure_def state_ok_def activity_record_ok)

lemma clear_failure_db [simp]: "ps_db (clear_failure i s) = ps_db s"
  by (simp add: clear_failure_def)

lemma head_delete_log [simp]:
  "db_events (head_delete t k d) = db_events d" "db_event_seq (head_delete t k d) = db_event_seq d"
  by (simp_all add: head_delete_def)

lemma append_snapshot_row:
  assumes "append_snapshot K topic kind scope items now d = Inr (off, d')"
  shows "off = db_event_seq d + 1 \<and> db_event_seq d' = db_event_seq d + 1 \<and>
    (\<exists>r p. sk_enc_snapshot K items = Some p \<and> er_topic r = topic \<and> er_offset r = off \<and> er_snapshot r \<and> er_payload r = p \<and>
       db_events d' = db_events d @ [r])"
  using assms by (auto simp: append_snapshot_def append_event_def Let_def split: option.splits if_splits)

lemma ingest_from_step:
  assumes "state_ok s" and "ingest_from i cur now (ps_db s) = Inr (res, d)" and "instance_topic i \<noteq> t"
  shows "state_ok (s\<lparr>ps_db := d\<rparr>) \<and> spares t s (s\<lparr>ps_db := d\<rparr>)"
  using ingest_ok [OF _ assms(2) [unfolded ingest_from_def]] ingest_rows [OF _ assms(2) [unfolded ingest_from_def]] assms(1,3)
  by (auto simp: state_ok_def spares_def topic_rows_def)

lemma drain_failed_safe: "safe_task state_ok (spares t) (drain_failed E i out e)"
  unfolding drain_failed_def
  by (rule safe_stepI) (auto simp: record_failure_ok spares_def topic_rows_def intro: safe_drained)

lemma append_drained_safe:
  assumes "instance_topic i \<noteq> t"
  shows "safe_task state_ok (spares t) (append_drained E i items out)"
  unfolding append_drained_def
proof (rule safe_stepI)
  fix now s assume ok: "state_ok s"
  show "case (case append_snapshot (pe_codec E) (instance_topic i) (pi_kind i) (pi_scope i) (Some items) (now div 1000000) (ps_db s) of
       Inl e \<Rightarrow> (drain_failed E i out (IngestStore e), s)
     | Inr (off, d) \<Rightarrow>
         (DrainStep (\<lambda>_ s. (Drained \<lparr>dr_appended = dr_appended out + 1, dr_offset = off\<rparr> None, clear_failure (instance_id i) s)),
          s\<lparr>ps_db := d\<rparr>)) of (t', s') \<Rightarrow> state_ok s' \<and> spares t s s' \<and> safe_task state_ok (spares t) t'"
  proof (cases "append_snapshot (pe_codec E) (instance_topic i) (pi_kind i) (pi_scope i) (Some items) (now div 1000000) (ps_db s)")
    case (Inl e)
    then show ?thesis using ok by (simp add: drain_failed_safe)
  next
    case (Inr p)
    obtain off d where p: "p = (off, d)" by fastforce
    have "db_ok d" using append_oks(2) ok Inr p by (simp add: state_ok_def)
    moreover have "spares t s (s\<lparr>ps_db := d\<rparr>)"
      using append_snapshot_row Inr p assms by (fastforce simp: spares_def topic_rows_def)
    moreover have "safe_task state_ok (spares t) (DrainStep (\<lambda>_ s. (Drained out' None, clear_failure (instance_id i) s)))" for out'
      by (rule safe_stepI) (auto simp: state_ok_def spares_def topic_rows_def intro: safe_drained)
    ultimately show ?thesis using Inr p by (simp add: state_ok_def)
  qed
qed

lemma ingest_verdicts_safe:
  assumes "instance_topic i \<noteq> t" and "\<And>out. safe_task state_ok (spares t) (k out)"
  shows "safe_task state_ok (spares t) (ingest_verdicts i vs k prevs out)"
proof (induction prevs arbitrary: out)
  case (Cons prev prevs)
  have evict: "safe_task state_ok (spares t) (DrainStep (\<lambda>_ s. (ingest_verdicts i vs k prevs out,
      s\<lparr>ps_db := head_delete (instance_topic i) (ob_external prev) (ps_db s)\<rparr>)))" for out
    by (rule safe_stepI) (auto simp: state_ok_def head_deletes_ok spares_def topic_rows_def Cons)
  have "safe_task state_ok (spares t) (DrainStep (\<lambda>now s.
      case ingest_from i cur now (ps_db s) of
        Inl _ \<Rightarrow> (ingest_verdicts i vs k prevs out, s)
      | Inr (res, d) \<Rightarrow>
          (if vd_terminal v
           then DrainStep (\<lambda>_ s. (ingest_verdicts i vs k prevs (counted_row res out),
                  s\<lparr>ps_db := head_delete (instance_topic i) (ob_external prev) (ps_db s)\<rparr>))
           else ingest_verdicts i vs k prevs (counted_row res out), s\<lparr>ps_db := d\<rparr>)))" for cur v
    by (rule safe_stepI)
      (use ingest_from_step [OF _ _ assms(1)] evict Cons in \<open>auto split: sum.split prod.split\<close>)
  then show ?case using Cons by (auto split: option.split)
qed (simp add: assms(2))

lemma read_heads_safe:
  assumes "\<And>prevs. safe_task state_ok (spares t) (k prevs)"
  shows "safe_task state_ok (spares t) (read_heads E i k keys prevs)"
proof (induction keys arbitrary: prevs)
  case (Cons key keys)
  show ?case unfolding read_heads.simps
    by (rule safe_stepI) (auto simp: Cons split: option.split)
qed (simp add: assms)

lemma confirm_absent_safe:
  assumes "instance_topic i \<noteq> t" and "\<And>out. safe_task state_ok (spares t) (k out)"
  shows "safe_task state_ok (spares t) (confirm_absent E i observed k out)"
proof (cases "pi_absence i")
  case (Some confirm)
  have "safe_task state_ok (spares t) (read_heads E i
      (\<lambda>prevs. if prevs = [] then k out else ingest_verdicts i (confirm prevs) k prevs out) keys [])" for keys
    by (rule read_heads_safe) (simp add: assms ingest_verdicts_safe)
  then show ?thesis unfolding confirm_absent_def Some option.case
    by (intro safe_stepI) simp
qed (simp add: confirm_absent_def assms)

lemma produce_task_safe:
  assumes "instance_topic i \<noteq> t"
  shows "safe_task state_ok (spares t) (produce_task E i p items observed out)"
proof (induction p arbitrary: items observed out)
  case (Produced err)
  then show ?case
    by (auto simp: drain_failed_safe confirm_absent_safe append_drained_safe assms split: option.split)
next
  case (Emit m answer)
  have IH: "safe_task state_ok (spares t) (produce_task E i (answer a) items observed out)" for a items observed out
    using Emit.IH by blast
  have "safe_task state_ok (spares t) (DrainStep (\<lambda>now s.
      let kind = (if m_source_kind m \<noteq> [] then m_source_kind m else pi_kind i);
          cur = observation_from_msg (sk_scan (pe_codec E)) now (m_key m) (m_payload m) kind (pi_scope i)
      in case ingest_from i cur now (ps_db s) of
           Inl e \<Rightarrow> (produce_task E i (answer (Some (IngestStore e))) items' (observed @ [m_key m]) out, s)
         | Inr (res, d) \<Rightarrow> (produce_task E i (answer None) items' (observed @ [m_key m]) (counted_row res out), s\<lparr>ps_db := d\<rparr>)))" for items'
    by (rule safe_stepI)
      (use ingest_from_step [OF _ _ assms] IH in \<open>auto simp: Let_def split: sum.split prod.split\<close>)
  then show ?case using IH by (simp add: Let_def)
qed

lemma drain_source_safe: "instance_topic i \<noteq> t \<Longrightarrow> safe_task state_ok (spares t) (drain_source E i)"
  by (simp add: drain_source_def produce_task_safe)


section \<open>Authoritative snapshots\<close>

text \<open>A connector that emits a list of messages and gives up when one is refused, as connectors do.\<close>

primrec emit_all :: "msg list \<Rightarrow> ingest_error option \<Rightarrow> produce" where
  "emit_all [] err = Produced err"
| "emit_all (m # ms) err = Emit m (\<lambda>refused. case refused of None \<Rightarrow> emit_all ms err | Some e \<Rightarrow> Produced (Some e))"

definition emitted_items :: "msg list \<Rightarrow> snapshot_item list" where
  "emitted_items ms = map (\<lambda>m. \<lparr>si_key = m_key m, si_payload = m_payload m\<rparr>) ms"

text \<open>A task on its way to append the given items, or to fail.\<close>

inductive on_way :: "producer_env \<Rightarrow> pull_instance \<Rightarrow> snapshot_item list \<Rightarrow> drain_task \<Rightarrow> bool" for E i items where
  on_way_over: "on_way E i items (Drained out (Some e))"
| on_way_append: "on_way E i items (append_drained E i items out)"
| on_way_step: "(\<And>now s. on_way E i items (fst (f now s))) \<Longrightarrow> on_way E i items (DrainStep f)"

lemma on_way_stepI:
  "(\<And>now s. case f now s of (t, s') \<Rightarrow> on_way E i items t) \<Longrightarrow> on_way E i items (DrainStep f)"
proof (rule on_way_step)
  fix now s assume "\<And>now s. case f now s of (t, s') \<Rightarrow> on_way E i items t"
  from this [of now s] show "on_way E i items (fst (f now s))" by (cases "f now s") simp
qed

lemma drain_failed_on_way: "on_way E i items (drain_failed E i out e)"
  unfolding drain_failed_def by (rule on_way_stepI) (auto intro: on_way_over)

lemma ingest_verdicts_on_way:
  assumes "\<And>out. on_way E i items (k out)"
  shows "on_way E i items (ingest_verdicts i vs k prevs out)"
proof (induction prevs arbitrary: out)
  case (Cons prev prevs)
  have evict: "on_way E i items (DrainStep (\<lambda>_ s. (ingest_verdicts i vs k prevs out,
      s\<lparr>ps_db := head_delete (instance_topic i) (ob_external prev) (ps_db s)\<rparr>)))" for out
    by (rule on_way_stepI) (simp add: Cons)
  have "on_way E i items (DrainStep (\<lambda>now s.
      case ingest_from i cur now (ps_db s) of
        Inl _ \<Rightarrow> (ingest_verdicts i vs k prevs out, s)
      | Inr (res, d) \<Rightarrow>
          (if vd_terminal v
           then DrainStep (\<lambda>_ s. (ingest_verdicts i vs k prevs (counted_row res out),
                  s\<lparr>ps_db := head_delete (instance_topic i) (ob_external prev) (ps_db s)\<rparr>))
           else ingest_verdicts i vs k prevs (counted_row res out), s\<lparr>ps_db := d\<rparr>)))" for cur v
    by (rule on_way_stepI) (use evict Cons in \<open>auto split: sum.split prod.split\<close>)
  then show ?case using Cons by (auto split: option.split)
qed (simp add: assms)

lemma read_heads_on_way:
  assumes "\<And>prevs. on_way E i items (k prevs)"
  shows "on_way E i items (read_heads E i k keys prevs)"
proof (induction keys arbitrary: prevs)
  case (Cons key keys)
  show ?case unfolding read_heads.simps
    by (rule on_way_stepI) (auto simp: Cons split: option.split)
qed (simp add: assms)

lemma confirm_absent_on_way:
  assumes "\<And>out. on_way E i items (k out)"
  shows "on_way E i items (confirm_absent E i observed k out)"
proof (cases "pi_absence i")
  case (Some confirm)
  have "on_way E i items (read_heads E i
      (\<lambda>prevs. if prevs = [] then k out else ingest_verdicts i (confirm prevs) k prevs out) keys [])" for keys
    by (rule read_heads_on_way) (simp add: assms ingest_verdicts_on_way)
  then show ?thesis unfolding confirm_absent_def Some option.case by (intro on_way_stepI) simp
qed (simp add: confirm_absent_def assms)

lemma produce_on_way:
  assumes "\<forall>m\<in>set ms. m_topic m = instance_topic i"
  shows "items = before @ emitted_items ms \<Longrightarrow> on_way E i items (produce_task E i (emit_all ms err) before observed out)"
  using assms
proof (induction ms arbitrary: before observed out)
  case Nil
  then show ?case
    by (auto simp: emitted_items_def drain_failed_on_way confirm_absent_on_way on_way_append split: option.split)
next
  case (Cons m ms)
  let ?item = "\<lparr>si_key = m_key m, si_payload = m_payload m\<rparr>"
  have IH: "on_way E i items (produce_task E i (emit_all ms err) (before @ [?item]) observed out)" for observed out
    by (rule Cons.IH) (use Cons.prems in \<open>simp_all add: emitted_items_def\<close>)
  have fail: "on_way E i items (produce_task E i (Produced (Some e)) its observed out)" for e its observed out
    by (simp add: drain_failed_on_way)
  have "on_way E i items (DrainStep (\<lambda>now s.
      let kind = (if m_source_kind m \<noteq> [] then m_source_kind m else pi_kind i);
          cur = observation_from_msg (sk_scan (pe_codec E)) now (m_key m) (m_payload m) kind (pi_scope i)
      in case ingest_from i cur now (ps_db s) of
           Inl e \<Rightarrow> (produce_task E i (Produced (Some (IngestStore e))) (before @ [?item]) (observed @ [m_key m]) out, s)
         | Inr (res, d) \<Rightarrow> (produce_task E i (emit_all ms err) (before @ [?item]) (observed @ [m_key m]) (counted_row res out), s\<lparr>ps_db := d\<rparr>)))"
    by (rule on_way_stepI) (use IH fail in \<open>auto simp: Let_def simp del: produce_task.simps split: sum.split prod.split\<close>)
  then show ?case using IH Cons.prems(2) 
    by (cases "m_key m = []") (simp_all add: Let_def cong: sum.case_cong prod.case_cong)
qed

text \<open>The newest row of the topic is the snapshot of the items, at the offset the drain reports.\<close>

definition snapshot_last :: "producer_env \<Rightarrow> pull_instance \<Rightarrow> snapshot_item list \<Rightarrow> drained \<Rightarrow> producer_state \<Rightarrow> bool" where
  "snapshot_last E i items out s \<longleftrightarrow>
     (\<exists>rows r. topic_rows (instance_topic i) s = rows @ [r] \<and> er_snapshot r \<and> er_offset r = dr_offset out \<and>
        sk_enc_snapshot (pe_codec E) (Some items) = Some (er_payload r) \<and>
        List.list_all (\<lambda>x. er_offset x < er_offset r) rows)"

definition drain_progress :: "producer_env \<Rightarrow> pull_instance \<Rightarrow> snapshot_item list \<Rightarrow> drain_task \<Rightarrow> producer_state \<Rightarrow> bool" where
  "drain_progress E i items t s \<longleftrightarrow> on_way E i items t \<or>
     (\<exists>out. t = Drained out None \<and> snapshot_last E i items out s) \<or>
     (\<exists>out. t = DrainStep (\<lambda>_ s. (Drained out None, clear_failure (instance_id i) s)) \<and> snapshot_last E i items out s)"

lemma snapshot_last_cong: "topic_rows (instance_topic i) s' = topic_rows (instance_topic i) s \<Longrightarrow>
  snapshot_last E i items out s' = snapshot_last E i items out s"
  by (simp add: snapshot_last_def)

lemma progress_others: "spares (instance_topic i) s s' \<Longrightarrow> drain_progress E i items t s \<Longrightarrow> drain_progress E i items t s'"
proof -
  assume sp: "spares (instance_topic i) s s'" and "drain_progress E i items t s"
  moreover have "snapshot_last E i items out s' = snapshot_last E i items out s" for out
    by (rule snapshot_last_cong) (rule sp [unfolded spares_def])
  ultimately show ?thesis by (simp add: drain_progress_def)
qed

lemma appended_last:
  assumes "state_ok s" and "append_snapshot (pe_codec E) (instance_topic i) kind scope (Some items) now (ps_db s) = Inr (off, d)"
  shows "snapshot_last E i items \<lparr>dr_appended = n, dr_offset = off\<rparr> (s\<lparr>ps_db := d\<rparr>)"
proof -
  obtain r where r: "sk_enc_snapshot (pe_codec E) (Some items) = Some (er_payload r)" "er_topic r = instance_topic i"
    "er_offset r = off" "er_snapshot r" "db_events d = db_events (ps_db s) @ [r]" "off = db_event_seq (ps_db s) + 1"
    using append_snapshot_row [OF assms(2)] by blast
  have "er_offset x < off" if "x \<in> set (topic_rows (instance_topic i) s)" for x
    using that assms(1) r(6) by (force simp: topic_rows_def state_ok_def db_ok_def events_ok_def)
  then show ?thesis using r by (simp add: snapshot_last_def topic_rows_def list_all_iff)
qed

lemma progress_own:
  assumes "drain_progress E i items (DrainStep f) s" and "state_ok s"
  shows "drain_progress E i items (fst (f now s)) (snd (f now s))"
proof -
  consider "on_way E i items (DrainStep f)"
    | out where "DrainStep f = DrainStep (\<lambda>_ s. (Drained out None, clear_failure (instance_id i) s))" "snapshot_last E i items out s"
    using assms(1) by (auto simp: drain_progress_def)
  then show ?thesis
  proof cases
  case 1
  then show "drain_progress E i items (fst (f now s)) (snd (f now s))"
  proof cases
    case (on_way_append out)
    then have f: "f = (\<lambda>now s.
        case append_snapshot (pe_codec E) (instance_topic i) (pi_kind i) (pi_scope i) (Some items) (now div 1000000) (ps_db s) of
          Inl e \<Rightarrow> (drain_failed E i out (IngestStore e), s)
        | Inr (off, d) \<Rightarrow>
            (DrainStep (\<lambda>_ s. (Drained \<lparr>dr_appended = dr_appended out + 1, dr_offset = off\<rparr> None, clear_failure (instance_id i) s)),
             s\<lparr>ps_db := d\<rparr>))" by (simp add: append_drained_def)
    show ?thesis
    proof (cases "append_snapshot (pe_codec E) (instance_topic i) (pi_kind i) (pi_scope i) (Some items) (now div 1000000) (ps_db s)")
      case (Inl e)
      then show ?thesis by (simp add: f drain_progress_def drain_failed_on_way)
    next
      case (Inr p)
      obtain off d where p: "p = (off, d)" by fastforce
      show ?thesis using appended_last [OF assms(2) Inr [unfolded p]] by (auto simp: f Inr p drain_progress_def)
    qed
  next
    case on_way_step
    then show ?thesis by (simp add: drain_progress_def)
  qed
next
  case (2 out)
  then show "drain_progress E i items (fst (f now s)) (snd (f now s))"
    by (simp add: drain_progress_def snapshot_last_def topic_rows_def)
qed
qed


lemma own_safe: "safe_task state_ok (spares []) (drain_source E i)"
  by (rule drain_source_safe) (simp add: instance_topic_def)

lemma completed_snapshot:
  assumes "db_ok (ps_db s)" and "distinct (map instance_topic due)" and "n < length due"
    and "pi_produce (due ! n) = emit_all ms err" and "\<forall>m\<in>set ms. m_topic m = instance_topic (due ! n)"
    and "run_drains sched (map (drain_source E) due) s = (ts, s')" and "completed (ts ! n) = Some out"
  shows "db_ok (ps_db s') \<and> snapshot_last E (due ! n) (emitted_items ms) out s'"
proof -
  let ?i = "due ! n" and ?items = "emitted_items ms"
  let ?I = "\<lambda>ts s. state_ok s \<and> length ts = length due \<and> safe_task state_ok (spares []) (ts ! n) \<and>
    (\<forall>k<length due. k \<noteq> n \<longrightarrow> safe_task state_ok (spares (instance_topic ?i)) (ts ! k)) \<and> drain_progress E ?i ?items (ts ! n) s"
  have "?I ts s'"
  proof (rule run_drains_induct [OF assms(6), where I = ?I])
    have "on_way E ?i ?items (drain_source E ?i)"
      unfolding drain_source_def assms(4) by (rule produce_on_way) (use assms(5) in simp_all)
    moreover have "safe_task state_ok (spares (instance_topic ?i)) (drain_source E (due ! k))" if "k < length due" "k \<noteq> n" for k
      by (rule drain_source_safe) (use that assms(2,3) nth_eq_iff_index_eq [OF assms(2), of k n] in auto)
    ultimately show "?I (map (drain_source E) due) s"
      using assms(1,3) own_safe by (simp add: state_ok_def drain_progress_def)
  next
    fix ts s k f now
    assume I: "?I ts s" and k: "k < length ts" "ts ! k = DrainStep f"
    show "?I (ts[k := fst (f now s)]) (snd (f now s))"
    proof (cases "k = n")
      case True
      have step: "safe_task state_ok (spares []) (DrainStep f)" "drain_progress E ?i ?items (DrainStep f) s" using I k True by simp_all
      then have "state_ok (snd (f now s))" "safe_task state_ok (spares []) (fst (f now s))" using I by blast+
      moreover have "drain_progress E ?i ?items (fst (f now s)) (snd (f now s))"
        by (rule progress_own [OF step(2)]) (use I in blast)
      ultimately show ?thesis using I k True by simp
    next
      case False
      have step: "safe_task state_ok (spares (instance_topic ?i)) (DrainStep f)" using I k False by metis
      then have st: "state_ok (snd (f now s))" "spares (instance_topic ?i) s (snd (f now s))"
          "safe_task state_ok (spares (instance_topic ?i)) (fst (f now s))" using I by blast+
      have "drain_progress E ?i ?items (ts ! n) (snd (f now s))" by (rule progress_others [OF st(2)]) (use I in blast)
      then show ?thesis using I k False st by (simp add: nth_list_update)
    qed
  qed
  moreover have "ts ! n = Drained out None"
    using assms(7) by (auto simp: completed_def split: drain_task.splits option.splits)
  ultimately show ?thesis
    by (auto simp: state_ok_def drain_progress_def append_drained_def elim: on_way.cases)
qed

text \<open>
  Claim C26: a completed source's snapshot is authoritative. However the drains of a tick are
  interleaved, when a source that emits the given messages completes without an error, then at the
  end of the tick the newest row of its topic is a snapshot of exactly those messages, at the
  offset the drain reports, and the schema holds.
\<close>

theorem snapshot_authoritative:
  assumes "db_ok (ps_db s)" and "distinct (map instance_topic due)" and "n < length due"
    and "pi_produce (due ! n) = emit_all ms err" and "\<forall>m\<in>set ms. m_topic m = instance_topic (due ! n)"
    and "run_drains sched (map (drain_source E) due) s = (ts, s')" and "completed (ts ! n) = Some out"
  shows "db_ok (ps_db s') \<and> snapshot_last E (due ! n) (emitted_items ms) out s'"
  by (rule completed_snapshot [OF assms])

section \<open>The books\<close>

text \<open>A task that has appended the given number of rows, and counts each row it appends.\<close>

inductive counting :: "nat \<Rightarrow> drain_task \<Rightarrow> bool" where
  counting_over: "counting (dr_appended out) (Drained out err)"
| counting_step: "(\<And>now s. state_ok s \<Longrightarrow> \<exists>k. counting (n + k) (fst (f now s)) \<and>
    db_event_seq (ps_db (snd (f now s))) = db_event_seq (ps_db s) + int k) \<Longrightarrow> counting n (DrainStep f)"

inductive_cases counting_step_cases [elim]: "counting n (DrainStep f)"
inductive_cases counting_over_cases [elim]: "counting n (Drained out err)"

lemma counting_stepI:
  assumes "\<And>now s. state_ok s \<Longrightarrow> case f now s of (t, s') \<Rightarrow>
    (counting n t \<and> db_event_seq (ps_db s') = db_event_seq (ps_db s)) \<or>
    (counting (Suc n) t \<and> db_event_seq (ps_db s') = db_event_seq (ps_db s) + 1)"
  shows "counting n (DrainStep f)"
proof (rule counting_step)
  fix now s assume "state_ok s"
  from assms [OF this, of now]
  have "(counting n (fst (f now s)) \<and> db_event_seq (ps_db (snd (f now s))) = db_event_seq (ps_db s)) \<or>
    (counting (Suc n) (fst (f now s)) \<and> db_event_seq (ps_db (snd (f now s))) = db_event_seq (ps_db s) + 1)"
    by (cases "f now s") simp
  then show "\<exists>k. counting (n + k) (fst (f now s)) \<and> db_event_seq (ps_db (snd (f now s))) = db_event_seq (ps_db s) + int k"
    by (elim disjE) (rule exI [of _ 0], simp, rule exI [of _ 1], simp)
qed

lemma drain_failed_counting: "dr_appended out = n \<Longrightarrow> counting n (drain_failed E i out e)"
  unfolding drain_failed_def by (rule counting_stepI) (auto intro: counting_over)

lemma append_drained_counting:
  assumes "dr_appended out = n"
  shows "counting n (append_drained E i items out)"
  unfolding append_drained_def
proof (rule counting_stepI)
  fix now s assume "state_ok s"
  have last: "counting (Suc n) (DrainStep (\<lambda>_ s. (Drained \<lparr>dr_appended = dr_appended out + 1, dr_offset = off\<rparr> None, clear_failure (instance_id i) s)))" for off
    by (rule counting_stepI) (use counting_over [of "\<lparr>dr_appended = dr_appended out + 1, dr_offset = off\<rparr>"] assms in auto)
  show "case (case append_snapshot (pe_codec E) (instance_topic i) (pi_kind i) (pi_scope i) (Some items) (now div 1000000) (ps_db s) of
       Inl e \<Rightarrow> (drain_failed E i out (IngestStore e), s)
     | Inr (off, d) \<Rightarrow>
         (DrainStep (\<lambda>_ s. (Drained \<lparr>dr_appended = dr_appended out + 1, dr_offset = off\<rparr> None, clear_failure (instance_id i) s)),
          s\<lparr>ps_db := d\<rparr>)) of (t, s') \<Rightarrow> (counting n t \<and> db_event_seq (ps_db s') = db_event_seq (ps_db s)) \<or>
    (counting (Suc n) t \<and> db_event_seq (ps_db s') = db_event_seq (ps_db s) + 1)"
    using last append_snapshot_row drain_failed_counting [OF assms]
    by (cases "append_snapshot (pe_codec E) (instance_topic i) (pi_kind i) (pi_scope i) (Some items) (now div 1000000) (ps_db s)")
      fastforce+
qed


lemma ingest_from_counts:
  assumes "state_ok s" and "ingest_from i cur now (ps_db s) = Inr (res, d)"
  shows "(dr_appended (counted_row res out) = dr_appended out \<and> db_event_seq d = db_event_seq (ps_db s)) \<or>
    (dr_appended (counted_row res out) = Suc (dr_appended out) \<and> db_event_seq d = db_event_seq (ps_db s) + 1)"
  using ingest_rows [OF _ assms(2) [unfolded ingest_from_def]] assms(1) by (auto simp: state_ok_def counted_row_def)

lemma ingest_verdicts_counting:
  assumes "\<And>out. counting (dr_appended out) (k out)"
  shows "counting (dr_appended out) (ingest_verdicts i vs k prevs out)"
proof (induction prevs arbitrary: out)
  case (Cons prev prevs)
  have evict: "counting (dr_appended out) (DrainStep (\<lambda>_ s. (ingest_verdicts i vs k prevs out,
      s\<lparr>ps_db := head_delete (instance_topic i) (ob_external prev) (ps_db s)\<rparr>)))" for out
    by (rule counting_stepI) (simp add: Cons)
  have "counting (dr_appended out) (DrainStep (\<lambda>now s.
      case ingest_from i cur now (ps_db s) of
        Inl _ \<Rightarrow> (ingest_verdicts i vs k prevs out, s)
      | Inr (res, d) \<Rightarrow>
          (if vd_terminal v
           then DrainStep (\<lambda>_ s. (ingest_verdicts i vs k prevs (counted_row res out),
                  s\<lparr>ps_db := head_delete (instance_topic i) (ob_external prev) (ps_db s)\<rparr>))
           else ingest_verdicts i vs k prevs (counted_row res out), s\<lparr>ps_db := d\<rparr>)))" for cur v
  proof (rule counting_stepI)
    fix now s assume ok: "state_ok s"
    show "case (case ingest_from i cur now (ps_db s) of
        Inl _ \<Rightarrow> (ingest_verdicts i vs k prevs out, s)
      | Inr (res, d) \<Rightarrow>
          (if vd_terminal v
           then DrainStep (\<lambda>_ s. (ingest_verdicts i vs k prevs (counted_row res out),
                  s\<lparr>ps_db := head_delete (instance_topic i) (ob_external prev) (ps_db s)\<rparr>))
           else ingest_verdicts i vs k prevs (counted_row res out), s\<lparr>ps_db := d\<rparr>)) of (t, s') \<Rightarrow>
        (counting (dr_appended out) t \<and> db_event_seq (ps_db s') = db_event_seq (ps_db s)) \<or>
        (counting (Suc (dr_appended out)) t \<and> db_event_seq (ps_db s') = db_event_seq (ps_db s) + 1)"
    proof (cases "ingest_from i cur now (ps_db s)")
      case (Inl e)
      then show ?thesis by (simp add: Cons)
    next
      case (Inr p)
      obtain res d where p: "p = (res, d)" by fastforce
      show ?thesis
        using ingest_from_counts [OF ok Inr [unfolded p], of out] evict [of "counted_row res out"] Cons [of "counted_row res out"]
        by (auto simp: Inr p)
    qed
  qed
  then show ?case using Cons by (auto split: option.split)
qed (simp add: assms)

lemma read_heads_counting:
  assumes "\<And>prevs. counting n (k prevs)"
  shows "counting n (read_heads E i k keys prevs)"
proof (induction keys arbitrary: prevs)
  case (Cons key keys)
  show ?case unfolding read_heads.simps
    by (rule counting_stepI) (auto simp: Cons split: option.split)
qed (simp add: assms)

lemma confirm_absent_counting:
  assumes "\<And>out. counting (dr_appended out) (k out)"
  shows "counting (dr_appended out) (confirm_absent E i observed k out)"
proof (cases "pi_absence i")
  case (Some confirm)
  have "counting (dr_appended out) (read_heads E i
      (\<lambda>prevs. if prevs = [] then k out else ingest_verdicts i (confirm prevs) k prevs out) keys [])" for keys
    by (rule read_heads_counting) (simp add: assms ingest_verdicts_counting)
  then show ?thesis unfolding confirm_absent_def Some option.case by (intro counting_stepI) simp
qed (simp add: confirm_absent_def assms)

lemma produce_counting: "counting (dr_appended out) (produce_task E i p items observed out)"
proof (induction p arbitrary: items observed out)
  case (Produced err)
  then show ?case
    by (auto simp: drain_failed_counting confirm_absent_counting append_drained_counting split: option.split)
next
  case (Emit m answer)
  have IH: "counting (dr_appended out) (produce_task E i (answer a) items observed out)" for a items observed out
    using Emit.IH by blast
  have "counting (dr_appended out) (DrainStep (\<lambda>now s.
      case ingest_from i (cur now) now (ps_db s) of
        Inl e \<Rightarrow> (produce_task E i (answer (Some (IngestStore e))) items' obs out, s)
      | Inr (res, d) \<Rightarrow> (produce_task E i (answer None) items' obs (counted_row res out), s\<lparr>ps_db := d\<rparr>)))" for items' obs cur
  proof (rule counting_stepI)
    fix now s assume ok: "state_ok s"
    show "case (case ingest_from i (cur now) now (ps_db s) of
        Inl e \<Rightarrow> (produce_task E i (answer (Some (IngestStore e))) items' obs out, s)
      | Inr (res, d) \<Rightarrow> (produce_task E i (answer None) items' obs (counted_row res out), s\<lparr>ps_db := d\<rparr>)) of (t, s') \<Rightarrow>
        (counting (dr_appended out) t \<and> db_event_seq (ps_db s') = db_event_seq (ps_db s)) \<or>
        (counting (Suc (dr_appended out)) t \<and> db_event_seq (ps_db s') = db_event_seq (ps_db s) + 1)"
    proof (cases "ingest_from i (cur now) now (ps_db s)")
      case (Inl e)
      then show ?thesis by (simp add: IH)
    next
      case (Inr p)
      obtain res d where p: "p = (res, d)" by fastforce
      show ?thesis
        using ingest_from_counts [OF ok Inr [unfolded p], of out] IH [of "counted_row res out" None items' obs]
        by (auto simp: Inr p)
    qed
  qed
  then show ?case using IH by (simp add: Let_def)
qed

lemma drain_source_counting: "counting 0 (drain_source E i)"
  using produce_counting [of "\<lparr>dr_appended = 0, dr_offset = 0\<rparr>"] by (simp add: drain_source_def)

definition drained_rows :: "drain_task \<Rightarrow> nat" where
  "drained_rows t = (case t of Drained out _ \<Rightarrow> dr_appended out | DrainStep _ \<Rightarrow> 0)"

definition over :: "drain_task \<Rightarrow> bool" where
  "over t \<longleftrightarrow> (case t of Drained _ _ \<Rightarrow> True | DrainStep _ \<Rightarrow> False)"

lemma drains_counted:
  assumes "state_ok s" and "run_drains sched (map (drain_source E) due) s = (ts, s')"
  shows "\<exists>ns. list_all2 counting ns ts \<and> db_event_seq (ps_db s') = db_event_seq (ps_db s) + int (sum_list ns)"
proof -
  let ?I = "\<lambda>ts s'. state_ok s' \<and> (\<forall>t\<in>set ts. safe_task state_ok (spares []) t) \<and>
    (\<exists>ns. list_all2 counting ns ts \<and> db_event_seq (ps_db s') = db_event_seq (ps_db s) + int (sum_list ns))"
  have "?I ts s'"
  proof (rule run_drains_induct [OF assms(2), where I = ?I])
    have "list_all2 counting (replicate (length due) 0) (map (drain_source E) due)"
      by (simp add: list_all2_conv_all_nth drain_source_counting)
    then show "?I (map (drain_source E) due) s"
      using assms(1) own_safe by (auto intro!: exI [of _ "replicate (length due) 0"] simp: sum_list_replicate)
  next
    fix ts s1 k f now
    assume I: "?I ts s1" and k: "k < length ts" "ts ! k = DrainStep f"
    from I obtain ns where ns: "list_all2 counting ns ts" "db_event_seq (ps_db s1) = db_event_seq (ps_db s) + int (sum_list ns)" by blast
    have len: "length ns = length ts" and kn: "k < length ns" using ns(1) k(1) by (auto dest: list_all2_lengthD)
    have "counting (ns ! k) (DrainStep f)" using list_all2_nthD2 [OF ns(1) k(1)] k(2) by simp
    then obtain m where m: "counting (ns ! k + m) (fst (f now s1))"
      "db_event_seq (ps_db (snd (f now s1))) = db_event_seq (ps_db s1) + int m" using I by blast
    have "safe_task state_ok (spares []) (DrainStep f)" using I k by (metis nth_mem)
    then have st: "state_ok (snd (f now s1))" "safe_task state_ok (spares []) (fst (f now s1))" using I by blast+
    have "list_all2 counting (ns[k := ns ! k + m]) (ts[k := fst (f now s1)])" by (rule list_all2_update_cong [OF ns(1) m(1)])
    moreover have "sum_list (ns[k := ns ! k + m]) = sum_list ns + m"
      using kn by (simp add: sum_list_update member_le_sum_list)
    ultimately show "?I (ts[k := fst (f now s1)]) (snd (f now s1))"
      using I st ns(2) m(2) set_update_subset_insert [of ts k "fst (f now s1)"] by (auto intro!: exI [of _ "ns[k := ns ! k + m]"])
  qed
  then show ?thesis by blast
qed

text \<open>
  The books of a tick balance. However the drains are interleaved, once all of them are
  over the log has grown by exactly the rows the drains counted, and the summary's count of
  appended rows is that growth less the rows of the sources that failed.
\<close>

theorem tick_books:
  assumes "db_ok (ps_db s)" and "run_drains sched (map (drain_source E) due) s = (ts, s')" and "List.list_all over ts"
  shows "tail_offset (ps_db s') = tail_offset (ps_db s) + int (sum_list (map drained_rows ts)) \<and>
    tk_appended (fst (summarize n ts)) + sum_list (map drained_rows (filter (\<lambda>t. completed t = None) ts)) =
      sum_list (map drained_rows ts) \<and>
    tk_failed (fst (summarize n ts)) = length (filter (\<lambda>t. completed t = None) ts)"
proof -
  obtain ns where ns: "list_all2 counting ns ts" "db_event_seq (ps_db s') = db_event_seq (ps_db s) + int (sum_list ns)"
    using drains_counted [OF _ assms(2)] assms(1) by (auto simp: state_ok_def)
  have "ns = map drained_rows ts"
    using ns(1) assms(3)
    by (induction rule: list_all2_induct) (auto simp: over_def drained_rows_def split: drain_task.splits)
  moreover have "sum_list (map dr_appended (List.map_filter completed ts)) + sum_list (map drained_rows (filter (\<lambda>t. completed t = None) ts)) =
      sum_list (map drained_rows ts)"
    by (induction ts) (auto simp: List.map_filter_simps completed_def drained_rows_def split: drain_task.splits option.splits)
  moreover have "length ts - length (List.map_filter completed ts) = length (filter (\<lambda>t. completed t = None) ts)"
  proof -
    have "length (List.map_filter completed ts) + length (filter (\<lambda>t. completed t = None) ts) = length ts"
      by (induction ts) (auto simp: List.map_filter_simps split: option.splits)
    then show ?thesis by simp
  qed
  ultimately show ?thesis using ns(2) by (simp add: summarize_def Let_def tail_offset_def)
qed


section \<open>What nobody is told of\<close>

lemma ingest_fresh:
  assumes "db_ok d" and "ob_external cur \<noteq> []" and "ob_payload cur \<noteq> []"
    and "head_payload topic (ob_external cur) d \<noteq> Some (ob_payload cur)"
  shows "\<exists>res d'. ingest_observation now wall (Some cl) profile topic policy cur d = Inr (res, d') \<and> ig_wrote res \<and>
    db_event_seq d' = db_event_seq d + 1"
proof -
  obtain prev d1 where res: "resolve_scoped profile (ob_kind cur) (ob_scope cur) (ob_external cur) d = (prev, d1)" by fastforce
  obtain item d2 where up: "upsert_item (ingest_row_of now wall cl profile policy cur prev) d1 = (item, d2)" by fastforce
  show ?thesis using ingest_writes [OF assms res up] by auto
qed

lemma observation_from_msg_fields [simp]:
  "ob_external (observation_from_msg J now key payload kind scope) = key"
  "ob_payload (observation_from_msg J now key payload kind scope) = payload"
  by (simp_all add: observation_from_msg_def split: prod.split)

text \<open>
  Claim C30: rows of a source that fails wake nobody. In a forced tick of one source that emits a new
  item and then fails, the item's row is in the log, but the tick counts no appended row and does not
  notify the engine, so the row waits for the next append of another source.
\<close>

theorem failed_source_unannounced:
  assumes "db_ok (ps_db s)" and "pi_produce i = emit_all [m] (Some e)" and "m_topic m = instance_topic i"
    and "m_key m \<noteq> []" and "m_payload m \<noteq> []" and "head_payload (instance_topic i) (m_key m) (ps_db s) \<noteq> Some (m_payload m)"
  shows "\<exists>s'. ingest_tick E True [(i, t)] [(0, t0), (0, t1)] finished s =
      ((\<lparr>tk_sources = 1, tk_appended = 0, tk_failed = 1\<rparr>, None), s') \<and>
    tail_offset (ps_db s') = tail_offset (ps_db s) + 1"
proof -
  let ?s1 = "prune_schedule [i] s"
  let ?cur = "observation_from_msg (sk_scan (pe_codec E)) t0 (m_key m) (m_payload m)
    (if m_source_kind m \<noteq> [] then m_source_kind m else pi_kind i) (pi_scope i)"
  have db: "ps_db ?s1 = ps_db s" by (simp add: prune_schedule_def)
  obtain res d where step: "ingest_from i ?cur t0 (ps_db s) = Inr (res, d)" "ig_wrote res" "db_event_seq d = db_event_seq (ps_db s) + 1"
    using ingest_fresh [of "ps_db s" ?cur "instance_topic i" "t0 div 1000000" "t0 div 1000000" "source_classifier i"
        "pi_profile i" "source_policy i"] assms(1,4-6) unfolding ingest_from_def by auto
  define out where "out = counted_row res \<lparr>dr_appended = 0, dr_offset = 0\<rparr>"
  have run: "run_drains [(0, t0), (0, t1)] [drain_source E i] ?s1 =
      ([Drained out (Some e)], record_failure E (instance_id i) e t1 (?s1\<lparr>ps_db := d\<rparr>))"
    using assms(3,4) step(1)
    by (simp add: drain_source_def assms(2) Let_def db drain_failed_def out_def)
  then have "ingest_tick E True [(i, t)] [(0, t0), (0, t1)] finished s =
      ((\<lparr>tk_sources = 1, tk_appended = 0, tk_failed = 1\<rparr>, None),
       (record_failure E (instance_id i) e t1 (?s1\<lparr>ps_db := d\<rparr>))\<lparr>ps_last_tick := finished\<rparr>)"
    by (simp add: ingest_tick_def summarize_def completed_def Let_def List.map_filter_simps del: run_drains.simps)
  then show ?thesis using step(3) by (simp add: tail_offset_def)
qed

text \<open>A source whose items have not changed adds only its snapshot.\<close>

lemma steady_source:
  assumes "\<forall>m\<in>set ms. m_topic m = instance_topic i \<and> m_key m \<noteq> [] \<and>
      head_payload (instance_topic i) (m_key m) (ps_db s) = Some (m_payload m)"
    and "pi_absence i = None" and "length clock = length ms"
  shows "run_drains (map (Pair 0) clock) [produce_task E i (emit_all ms None) items observed out] s =
    ([append_drained E i (items @ emitted_items ms) out], s)"
  using assms(1,3)
proof (induction ms arbitrary: clock items observed)
  case Nil
  then show ?case by (simp add: emitted_items_def confirm_absent_def assms(2))
next
  case (Cons m ms)
  then obtain t clock' where clock: "clock = t # clock'" by (cases clock) auto
  let ?cur = "observation_from_msg (sk_scan (pe_codec E)) t (m_key m) (m_payload m)
    (if m_source_kind m \<noteq> [] then m_source_kind m else pi_kind i) (pi_scope i)"
  have step: "ingest_from i ?cur t (ps_db s) =
      Inr (\<lparr>ig_item = 0, ig_revision = 0, ig_class = None, ig_wrote = False, ig_offset = 0\<rparr>, ps_db s)"
    using Cons.prems(1) by (simp add: ingest_from_def ingest_observation_def)
  have "run_drains (map (Pair 0) clock') [produce_task E i (emit_all ms None) (items @ [\<lparr>si_key = m_key m, si_payload = m_payload m\<rparr>])
      (observed @ [m_key m]) out] s =
    ([append_drained E i ((items @ [\<lparr>si_key = m_key m, si_payload = m_payload m\<rparr>]) @ emitted_items ms) out], s)"
    using Cons.IH [of clock' "items @ [\<lparr>si_key = m_key m, si_payload = m_payload m\<rparr>]" "observed @ [m_key m]"] Cons.prems clock by simp
  then show ?case
    using Cons.prems(1) step by (simp add: clock Let_def counted_row_def emitted_items_def)
qed

end
