(* ===== verification/Ingest_Samples.thy ===== *)
theory Ingest_Samples
  imports Ingest_Laws Store_Samples
begin

text \<open>Two sources on one tick, and one that fails, at which the properties of the producer are applied.\<close>

definition sample_producer :: producer_env where
  "sample_producer = \<lparr>pe_codec = sample_store, pe_text = (\<lambda>_. ''offline''), pe_recorder = True\<rparr>"

definition sample_message :: "string \<Rightarrow> string \<Rightarrow> string \<Rightarrow> msg" where
  "sample_message t k p = empty_msg\<lparr>m_topic := t, m_key := k, m_payload := p\<rparr>"

definition sample_source :: "string \<Rightarrow> msg list \<Rightarrow> ingest_error option \<Rightarrow> pull_instance" where
  "sample_source n ms err = \<lparr>pi_type = ''sources.exec'', pi_flow = ''inbox'', pi_node = n, pi_profile = ''inbox'', pi_kind = ''exec'',
     pi_scope = [], pi_policy = PolicyUnset, pi_min_interval = 0, pi_classifier = None, pi_produce = emit_all ms err,
     pi_absence = None\<rparr>"

definition topic_a :: string where "topic_a = ''source:inbox/a''"
definition topic_b :: string where "topic_b = ''source:inbox/b''"

definition messages_a :: "msg list" where
  "messages_a = [sample_message topic_a ''k1'' ''P'', sample_message topic_a ''k2'' ''Q'']"

definition source_a :: pull_instance where
  "source_a = sample_source ''a'' messages_a None"

definition source_b :: pull_instance where
  "source_b = sample_source ''b'' [sample_message topic_b ''k9'' ''R''] (Some (SourceFailed ''offline''))"

definition start_state :: producer_state where
  "start_state = \<lparr>ps_db = empty_db, ps_last_run = [], ps_last_failure = [], ps_last_tick = 0\<rparr>"

definition sample_interleaving :: "(nat \<times> int) list" where
  "sample_interleaving = [(0, 1), (1, 2), (0, 3), (0, 4), (1, 5), (0, 6)]"

definition both_drained :: "drain_task list \<times> producer_state" where
  "both_drained = run_drains sample_interleaving (map (drain_source sample_producer) [source_a, source_b]) start_state"

lemma both_completed: "map completed (fst both_drained) = [Some \<lparr>dr_appended = 3, dr_offset = 4\<rparr>, None]"
  by code_simp

lemma both_over: "List.list_all over (fst both_drained) \<and> map drained_rows (fst both_drained) = [3, 1]"
  by code_simp

lemma start_ok: "db_ok (ps_db start_state)"
  by (simp add: start_state_def empty_db_ok)

lemma both_run: "run_drains sample_interleaving (map (drain_source sample_producer) [source_a, source_b]) start_state =
    (fst both_drained, snd both_drained)"
  by (simp add: both_drained_def)

lemma distinct_topics: "distinct (map instance_topic [source_a, source_b])"
  by code_simp

lemma source_a_produces: "pi_produce source_a = emit_all messages_a None"
  by (simp add: source_a_def sample_source_def)

lemma messages_a_topics: "\<forall>m\<in>set messages_a. m_topic m = instance_topic source_a"
  by code_simp

lemma snapshot_authoritative_witness:
  "snapshot_last sample_producer source_a (emitted_items messages_a) \<lparr>dr_appended = 3, dr_offset = 4\<rparr> (snd both_drained)"
proof -
  have "completed (fst both_drained ! 0) = Some \<lparr>dr_appended = 3, dr_offset = 4\<rparr>"
    using both_completed by (cases "fst both_drained") simp_all
  then show ?thesis
    using snapshot_authoritative [OF start_ok distinct_topics, of 0 messages_a None sample_interleaving sample_producer
        "fst both_drained" "snd both_drained" "\<lparr>dr_appended = 3, dr_offset = 4\<rparr>"]
      both_run source_a_produces messages_a_topics by simp
qed

lemma tick_books_witness:
  "tail_offset (ps_db (snd both_drained)) = 4 \<and> tk_failed (fst (summarize 2 (fst both_drained))) = 1"
proof -
  have "tail_offset (ps_db start_state) = 0" by code_simp
  moreover have "length (filter (\<lambda>t. completed t = None) (fst both_drained)) = 1"
    using both_completed by (auto simp: map_eq_Cons_conv)
  ultimately show ?thesis
    using tick_books [OF start_ok both_run, of 2] both_over by simp
qed

lemma failed_source_unannounced_witness:
  "\<exists>s'. ingest_tick sample_producer True [(source_b, 5)] [(0, 1), (0, 2)] 3 start_state =
      ((\<lparr>tk_sources = 1, tk_appended = 0, tk_failed = 1\<rparr>, None), s') \<and> tail_offset (ps_db s') = 1"
proof -
  have m: "m_topic (sample_message topic_b ''k9'' ''R'') = instance_topic source_b" by code_simp
  have h: "head_payload (instance_topic source_b) (m_key (sample_message topic_b ''k9'' ''R'')) (ps_db start_state) \<noteq>
      Some (m_payload (sample_message topic_b ''k9'' ''R''))" by code_simp
  have t: "tail_offset (ps_db start_state) = 0" by code_simp
  have p: "pi_produce source_b = emit_all [sample_message topic_b ''k9'' ''R''] (Some (SourceFailed ''offline''))"
    by (simp add: source_b_def sample_source_def)
  show ?thesis
    using failed_source_unannounced [OF start_ok p m _ _ h, of sample_producer 5 1 2 3] t by (simp add: sample_message_def)
qed

end
