(* ===== verification/Engine_Loop.thy ===== *)
theory Engine_Loop
  imports Replay_Laws Retention
begin

text \<open>
  The engine's goroutine (\<open>runtime/engine.go\<close>: \<open>Start\<close>, \<open>Wake\<close>, \<open>Reload\<close>, \<open>loop\<close>, \<open>drain\<close>, \<open>Stop\<close>).
  \<open>wake\<close> and \<open>reload\<close> are channels of capacity one, so each is a flag that a second request leaves
  set. The loop is a state machine whose steps are the choice of a ready channel, the check of the
  context before a page, one page, and the end of a pass; between any two of them the other
  goroutines may write to the database, purge a profile, request a wake or a reload, or cancel the
  context. The order in which Go ranges over the runners, the flow set a reload reads, clocks, the
  choice among ready channels and the store calls that are refused are the environment's; the store
  (\<open>database/sql\<close>) refuses every call, a commit included, whose context is cancelled.
\<close>

datatype loop_phase = Waiting | Draining "string list" bool | Paging string "string list" bool | LoopEnded

record 's loop_state =
  lo_runners :: "'s runners"
  lo_pool :: nat
  lo_db :: db
  lo_wake :: bool
  lo_reload :: bool
  lo_done :: bool
  lo_phase :: loop_phase
  lo_published :: nat

section \<open>Requests\<close>

definition engine_wake :: "'s loop_state \<Rightarrow> 's loop_state" where
  "engine_wake s = s\<lparr>lo_wake := True\<rparr>"

definition engine_reload :: "'s loop_state \<Rightarrow> 's loop_state" where
  "engine_reload s = s\<lparr>lo_reload := True\<rparr>"

definition engine_cancel :: "'s loop_state \<Rightarrow> 's loop_state" where
  "engine_cancel s = s\<lparr>lo_done := True\<rparr>"

section \<open>The loop\<close>

text \<open>\<open>Start\<close> installs before it returns; the loop begins waiting.\<close>

definition engine_start :: "'s engine_env \<Rightarrow> int \<Rightarrow> string list \<Rightarrow> flow list \<Rightarrow> nat \<Rightarrow> db \<Rightarrow> 's loop_state" where
  "engine_start E now order fs pool d =
     (case install E now order fs [] pool d of
        (_, rs, pool', d') \<Rightarrow>
          \<lparr>lo_runners = rs, lo_pool = pool', lo_db = d', lo_wake = False, lo_reload = False, lo_done = False,
           lo_phase = Waiting, lo_published = 0\<rparr>)"

definition take_wake :: "string list \<Rightarrow> 's loop_state \<Rightarrow> 's loop_state" where
  "take_wake order s = s\<lparr>lo_wake := False, lo_phase := Draining order False\<rparr>"

text \<open>
  \<open>refused\<close> are the flows whose installation the store refuses at one of its calls: the last-good
  runner stays, and the replay, one transaction, leaves the database alone. Runners of removed flows
  are dropped without the store.
\<close>

definition reinstall :: "'s engine_env \<Rightarrow> int \<Rightarrow> string set \<Rightarrow> string list \<Rightarrow> flow list \<Rightarrow> 's loop_state \<Rightarrow> 's loop_state" where
  "reinstall E now refused inst fs s =
     (case install E now (filter (\<lambda>i. i \<notin> refused) inst) fs (lo_runners s) (lo_pool s) (lo_db s) of
        (_, rs, pool, d) \<Rightarrow> s\<lparr>lo_runners := rs, lo_pool := pool, lo_db := d\<rparr>)"

definition take_reload ::
  "'s engine_env \<Rightarrow> int \<Rightarrow> string set \<Rightarrow> string list \<Rightarrow> flow list \<Rightarrow> string list \<Rightarrow> 's loop_state \<Rightarrow> 's loop_state" where
  "take_reload E now refused inst fs order s =
     (reinstall E now refused inst fs s)\<lparr>lo_reload := False, lo_phase := Draining order False\<rparr>"

definition end_pass :: "bool \<Rightarrow> 's loop_state \<Rightarrow> 's loop_state" where
  "end_pass committed s = s\<lparr>lo_phase := Waiting, lo_published := lo_published s + (if committed then 1 else 0)\<rparr>"

text \<open>
  Before every page of the flow at the head of the order, \<open>drain\<close> looks at the context: cancelled, it
  returns at once, without publishing what the pass committed so far.
\<close>

definition check_step :: "string \<Rightarrow> string list \<Rightarrow> bool \<Rightarrow> 's loop_state \<Rightarrow> 's loop_state" where
  "check_step fid order committed s =
     (if lo_done s then s\<lparr>lo_phase := Waiting\<rparr>
      else case map_of (lo_runners s) fid of
             None \<Rightarrow> s\<lparr>lo_phase := Draining order committed\<rparr>
           | Some _ \<Rightarrow> s\<lparr>lo_phase := Paging fid order committed\<rparr>)"

text \<open>
  The page in flight, and the store call of it that is refused, if one is: the read leaves
  everything as it was, the commit, one transaction, leaves the database, while what the run did
  to the script instances stays.
\<close>

datatype page_fate = Served | ReadRefused store_error | CommitRefused store_error

definition pump_fate ::
  "'s engine_env \<Rightarrow> page_fate \<Rightarrow> int \<Rightarrow> string \<Rightarrow> 's runner \<Rightarrow> nat \<Rightarrow> db \<Rightarrow> pump_result \<times> 's runner \<times> nat \<times> db" where
  "pump_fate E fate now fid r pool d =
     (case fate of
        Served \<Rightarrow> pump E now fid r pool d
      | ReadRefused e \<Rightarrow> (PumpFailed (LogFailed e), r, pool, d)
      | CommitRefused e \<Rightarrow>
          (case pump E now fid r pool d of
             (PumpDid, r', pool', _) \<Rightarrow> (PumpFailed (CommitFailed e), r', pool', d)
           | out \<Rightarrow> out))"

text \<open>The result says whether the page failed, which leaves the flow to the next pass.\<close>

definition page_step ::
  "'s engine_env \<Rightarrow> page_fate \<Rightarrow> int \<Rightarrow> string \<Rightarrow> string list \<Rightarrow> bool \<Rightarrow> 's loop_state \<Rightarrow> bool \<times> 's loop_state" where
  "page_step E fate now fid order committed s =
     (case map_of (lo_runners s) fid of
        None \<Rightarrow> (False, s\<lparr>lo_phase := Draining order committed\<rparr>)
      | Some r \<Rightarrow>
          (case pump_fate E fate now fid r (lo_pool s) (lo_db s) of
             (res, r', pool, d) \<Rightarrow>
               (case res of PumpFailed _ \<Rightarrow> True | _ \<Rightarrow> False,
                s\<lparr>lo_runners := AList.update fid r' (lo_runners s), lo_pool := pool, lo_db := d,
                  lo_phase := (if res = PumpDid then Draining (fid # order) True else Draining order committed)\<rparr>)))"

section \<open>Steps\<close>

text \<open>
  A range over the map of runners visits each once. The ghosts record up to which offset the log had
  been announced by a wake, which flows' pages failed since the pass began, and which profiles were
  purged since then.
\<close>

definition ranges_over :: "string list \<Rightarrow> 's loop_state \<Rightarrow> bool" where
  "ranges_over order s \<longleftrightarrow> distinct order \<and> set order = fst ` set (lo_runners s)"

record loop_ghost =
  gh_announced :: int
  gh_failed :: "string set"
  gh_purged :: "string set"

definition begin_pass :: "loop_ghost \<Rightarrow> loop_ghost" where
  "begin_pass g = g\<lparr>gh_failed := {}, gh_purged := {}\<rparr>"

inductive loop_step :: "'s engine_env \<Rightarrow> 's loop_state \<times> loop_ghost \<Rightarrow> 's loop_state \<times> loop_ghost \<Rightarrow> bool" for E where
  loop_end: "lo_phase s = Waiting \<Longrightarrow> lo_done s \<Longrightarrow> loop_step E (s, g) (s\<lparr>lo_phase := LoopEnded\<rparr>, g)"
| loop_wake: "lo_phase s = Waiting \<Longrightarrow> lo_wake s \<Longrightarrow> ranges_over order s \<Longrightarrow>
    loop_step E (s, g) (take_wake order s, begin_pass g)"
| loop_reload: "lo_phase s = Waiting \<Longrightarrow> lo_reload s \<Longrightarrow>
    distinct inst \<Longrightarrow> set inst = fst ` set (enabled_flows fs) \<Longrightarrow> (lo_done s \<Longrightarrow> set inst \<subseteq> refused) \<Longrightarrow>
    ranges_over order (reinstall E now refused inst fs s) \<Longrightarrow>
    loop_step E (s, g) (take_reload E now refused inst fs order s, begin_pass g)"
| loop_drained: "lo_phase s = Draining [] committed \<Longrightarrow> loop_step E (s, g) (end_pass committed s, g)"
| loop_check: "lo_phase s = Draining (fid # order) committed \<Longrightarrow> loop_step E (s, g) (check_step fid order committed s, g)"
| loop_page: "lo_phase s = Paging fid order committed \<Longrightarrow> (lo_done s \<Longrightarrow> fate \<noteq> Served) \<Longrightarrow>
    page_step E fate now fid order committed s = (failed, s') \<Longrightarrow>
    loop_step E (s, g) (s', if failed then g\<lparr>gh_failed := insert fid (gh_failed g)\<rparr> else g)"

text \<open>
  What the other goroutines may do to the database while the engine runs: they keep the schema and
  make no row of the past unread, but for the purge of a deleted profile, which forgets how far its
  flow had read while that flow may still be in service, until a reload drops it.
\<close>

definition keeps_read :: "db \<Rightarrow> db \<Rightarrow> bool" where
  "keeps_read d d' \<longleftrightarrow> db_event_seq d \<le> db_event_seq d' \<and>
     (\<forall>c. \<forall>x\<in>set (db_events d'). er_offset x \<le> db_event_seq d \<longrightarrow> consumer_offset c d' < er_offset x \<longrightarrow>
        (\<exists>y\<in>set (db_events d). er_offset y = er_offset x \<and> consumer_offset c d < er_offset y))"

inductive env_step :: "'s loop_state \<times> loop_ghost \<Rightarrow> 's loop_state \<times> loop_ghost \<Rightarrow> bool" where
  env_wake: "env_step (s, g) (engine_wake s, g\<lparr>gh_announced := tail_offset (lo_db s)\<rparr>)"
| env_reload: "env_step (s, g) (engine_reload s, g)"
| env_cancel: "env_step (s, g) (engine_cancel s, g)"
| env_write: "db_ok d' \<Longrightarrow> small_log d' \<Longrightarrow> keeps_read (lo_db s) d' \<Longrightarrow> env_step (s, g) (s\<lparr>lo_db := d'\<rparr>, g)"
| env_purge: "env_step (s, g) (s\<lparr>lo_db := purge_profile p (lo_db s)\<rparr>, g\<lparr>gh_purged := insert p (gh_purged g)\<rparr>)"

inductive_cases loop_step_cases [elim]: "loop_step E (s, g) (s', g')"
inductive_cases env_step_cases [elim]: "env_step (s, g) (s', g')"

definition engine_step :: "'s engine_env \<Rightarrow> 's loop_state \<times> loop_ghost \<Rightarrow> 's loop_state \<times> loop_ghost \<Rightarrow> bool" where
  "engine_step E a b \<longleftrightarrow> loop_step E a b \<or> env_step a b"

end
