(* ===== verification/Engine_Loop_Laws.thy ===== *)
theory Engine_Loop_Laws
  imports Engine_Loop Ingest_Laws
begin

text \<open>
  What the engine's loop guarantees whatever the other goroutines do between its steps: every row
  that was announced is routed once the loop waits again, and a cancelled loop ends soon and, as the
  store refuses its context, commits nothing more, the page in flight included. The other goroutines enter as the contract \<open>log_writer\<close>,
  which the producer, snapshots, retention and the writers beside the log satisfy.
\<close>

section \<open>Writers beside the engine\<close>

locale log_writer =
  fixes W :: "db \<Rightarrow> db \<Rightarrow> bool"
  assumes writer_ok: "db_ok d \<Longrightarrow> W d d' \<Longrightarrow> db_ok d'"
    and writer_offsets: "db_ok d \<Longrightarrow> W d d' \<Longrightarrow> db_offsets d' = db_offsets d"
    and writer_seq: "db_ok d \<Longrightarrow> W d d' \<Longrightarrow> db_event_seq d \<le> db_event_seq d'"
    and writer_past: "db_ok d \<Longrightarrow> W d d' \<Longrightarrow> x \<in> set (db_events d') \<Longrightarrow> er_offset x \<le> db_event_seq d \<Longrightarrow> x \<in> set (db_events d)"
begin

lemma writer_keeps_read: "db_ok d \<Longrightarrow> W d d' \<Longrightarrow> keeps_read d d'"
  using writer_seq writer_past consumer_offset_cong [OF writer_offsets]
  by (fastforce simp: keeps_read_def)

lemma writer_step: "db_ok (lo_db s) \<Longrightarrow> W (lo_db s) d' \<Longrightarrow> small_log d' \<Longrightarrow> env_step (s, g) (s\<lparr>lo_db := d'\<rparr>, g)"
  by (blast intro: env_write writer_ok writer_keeps_read)

end

text \<open>A writer that leaves the log alone.\<close>

locale quiet_writer =
  fixes Q :: "db \<Rightarrow> db \<Rightarrow> bool"
  assumes quiet_ok: "db_ok d \<Longrightarrow> Q d d' \<Longrightarrow> db_ok d'"
    and quiet_log: "Q d d' \<Longrightarrow> db_events d' = db_events d \<and> db_event_seq d' = db_event_seq d \<and> db_offsets d' = db_offsets d"

sublocale quiet_writer \<subseteq> log_writer Q
  by unfold_locales (use quiet_ok quiet_log in auto)

lemma log_observation_offsets:
  "log_observation topic cur occ now d = Inr (off, d') \<Longrightarrow> db_offsets d' = db_offsets d"
  by (auto simp: log_observation_def append_observation_def append_event_def Let_def head_upsert_def
      backfill_occurrence_key_def res_bind_Inr_conv split: if_splits)

lemma upsert_offsets: "upsert_item r d = (r', d') \<Longrightarrow> db_offsets d' = db_offsets d"
  by (auto simp: upsert_item_def Let_def split: option.splits)

lemma ingest_offsets:
  assumes "db_ok d" and "ingest_observation now wall cl profile topic policy cur d = Inr (res, d')"
  shows "db_offsets d' = db_offsets d"
proof -
  obtain c where cl: "cl = Some c" and ext: "ob_external cur \<noteq> []"
    using assms(2) by (auto simp: ingest_observation_def split: option.splits if_splits)
  show ?thesis
  proof (cases "head_payload topic (ob_external cur) d = Some (ob_payload cur)")
    case True
    then show ?thesis using assms(2) cl ext by (auto simp: ingest_observation_def)
  next
    case False
    obtain prev d1 where res: "resolve_scoped profile (ob_kind cur) (ob_scope cur) (ob_external cur) d = (prev, d1)"
      by fastforce
    let ?c = "complete_classification (c (map_option observation_of prev) cur)"
    obtain item d2 where up: "upsert_item (ingest_row_of now wall c profile policy cur prev) d1 = (item, d2)"
      by fastforce
    obtain off where log: "log_observation topic cur (ck_occurrence ?c) now (note_transition (it_id item) ?c now d2) = Inr (off, d')"
      using assms(2) cl ext False res up by (auto simp: ingest_observation_def ingest_row_of_def Let_def res_bind_Inr_conv)
    have "db_offsets (note_transition (it_id item) ?c now d2) = db_offsets d"
      using resolve_frame [OF res] upsert_offsets [OF up] by (simp add: note_transition_def insert_inbox_event_def Let_def)
    then show ?thesis using log_observation_offsets [OF log] by simp
  qed
qed

definition ingests :: "db \<Rightarrow> db \<Rightarrow> bool" where
  "ingests d d' \<longleftrightarrow> (\<exists>now wall cl profile topic policy cur res. ingest_observation now wall cl profile topic policy cur d = Inr (res, d'))"

definition appends_snapshot :: "db \<Rightarrow> db \<Rightarrow> bool" where
  "appends_snapshot d d' \<longleftrightarrow> (\<exists>K topic kind scope items now off. append_snapshot K topic kind scope items now d = Inr (off, d'))"

definition prunes :: "db \<Rightarrow> db \<Rightarrow> bool" where
  "prunes d d' \<longleftrightarrow> (\<exists>p n1 n2 n3. prune p n1 n2 n3 d = Inr d')"

definition triages :: "db \<Rightarrow> db \<Rightarrow> bool" where
  "triages d d' \<longleftrightarrow> (\<exists>i rv b r. set_unread i rv b d = Inr (r, d')) \<or> (\<exists>now i rv r. toggle_archived now i rv d = Inr (r, d')) \<or>
     (\<exists>now i rv r. toggle_ignored now i rv d = Inr (r, d')) \<or> (\<exists>p f n. mark_read p f d = Inr (n, d'))"

interpretation producer_writes: log_writer ingests
proof
  fix d d' and x :: event_row assume ok: "db_ok d" and "ingests d d'"
  then obtain now wall cl profile topic policy cur res
    where i: "ingest_observation now wall cl profile topic policy cur d = Inr (res, d')" by (auto simp: ingests_def)
  show "db_ok d'" by (rule ingest_ok [OF ok i])
  show "db_offsets d' = db_offsets d" by (rule ingest_offsets [OF ok i])
  show "db_event_seq d \<le> db_event_seq d'" using ingest_rows [OF ok i] by auto
  show "x \<in> set (db_events d') \<Longrightarrow> er_offset x \<le> db_event_seq d \<Longrightarrow> x \<in> set (db_events d)" using ingest_rows [OF ok i] by auto
qed

interpretation snapshot_writes: log_writer appends_snapshot
proof
  fix d d' and x :: event_row assume ok: "db_ok d" and "appends_snapshot d d'"
  then obtain K topic kind scope items now off where a: "append_snapshot K topic kind scope items now d = Inr (off, d')"
    by (auto simp: appends_snapshot_def)
  show "db_ok d'" using append_oks(2) [OF ok a] .
  show "db_offsets d' = db_offsets d"
    using a by (auto simp: append_snapshot_def append_event_def Let_def split: option.splits if_splits)
  show "db_event_seq d \<le> db_event_seq d'" using append_snapshot_row [OF a] by auto
  show "x \<in> set (db_events d') \<Longrightarrow> er_offset x \<le> db_event_seq d \<Longrightarrow> x \<in> set (db_events d)" using append_snapshot_row [OF a] by auto
qed

lemma prune_events_subset: "set (prune_events p now evs) \<subseteq> set evs"
  by (auto simp: prune_events_def delete_events_older_def delete_events_over_def delete_snapshots_over_def sql_delete_def Let_def
      split: if_splits)

interpretation retention_writes: log_writer prunes
proof
  fix d d' and x :: event_row assume ok: "db_ok d" and "prunes d d'"
  then obtain p n1 n2 n3 where a: "prune p n1 n2 n3 d = Inr d'" by (auto simp: prunes_def)
  note f = prune_fields [OF a]
  show "db_ok d'" by (rule prune_ok [OF ok a])
  show "db_offsets d' = db_offsets d" "db_event_seq d \<le> db_event_seq d'" using f by simp_all
  show "x \<in> set (db_events d') \<Longrightarrow> er_offset x \<le> db_event_seq d \<Longrightarrow> x \<in> set (db_events d)"
    using f(2) prune_events_subset by auto
qed

interpretation triage_writes: quiet_writer triages
proof
  fix d d' assume "db_ok d" "triages d d'"
  then show "db_ok d'"
    by (auto simp: triages_def intro: set_unread_ok toggle_archived_ok toggle_ignored_ok mark_read_ok)
next
  fix d d' assume "triages d d'"
  then show "db_events d' = db_events d \<and> db_event_seq d' = db_event_seq d \<and> db_offsets d' = db_offsets d"
    by (auto simp: triages_def set_unread_def toggle_archived_def toggle_ignored_def mark_read_def guarded_update_def Let_def
        res_bind_Inr_conv split: if_splits option.splits prod.splits)
qed


section \<open>The invariant\<close>

definition caught_up :: "int \<Rightarrow> string \<Rightarrow> db \<Rightarrow> bool" where
  "caught_up n fid d \<longleftrightarrow> (\<forall>x\<in>set (db_events d). er_offset x \<le> n \<longrightarrow> er_offset x \<le> consumer_offset fid d)"

definition pending :: "'s loop_state \<Rightarrow> string set" where
  "pending s = (case lo_phase s of Draining order _ \<Rightarrow> set order | Paging fid order _ \<Rightarrow> insert fid (set order) | _ \<Rightarrow> {})"

definition runners_ready :: "'s runners \<Rightarrow> db \<Rightarrow> bool" where
  "runners_ready rs d \<longleftrightarrow> db_ok d \<and> small_log d \<and> (\<forall>fid r. map_of rs fid = Some r \<longrightarrow> drainable fid r d)"

definition loop_ok :: "'s loop_state \<times> loop_ghost \<Rightarrow> bool" where
  "loop_ok a \<longleftrightarrow> (case a of (s, g) \<Rightarrow>
     runners_ready (lo_runners s) (lo_db s) \<and> gh_announced g \<le> db_event_seq (lo_db s) \<and>
     (\<not> lo_done s \<longrightarrow> \<not> lo_wake s \<longrightarrow>
        (\<forall>fid r. map_of (lo_runners s) fid = Some r \<longrightarrow> fid \<notin> gh_failed g \<union> gh_purged g \<longrightarrow> fid \<notin> pending s \<longrightarrow>
           caught_up (gh_announced g) fid (lo_db s))))"

lemma caught_up_write: "keeps_read d d' \<Longrightarrow> n \<le> db_event_seq d \<Longrightarrow> caught_up n fid d \<Longrightarrow> caught_up n fid d'"
  unfolding caught_up_def keeps_read_def by (metis linorder_not_less order_trans)

lemma ready_write: "runners_ready rs d \<Longrightarrow> db_ok d' \<Longrightarrow> small_log d' \<Longrightarrow> runners_ready rs d'"
  by (auto simp: runners_ready_def drainable_def)

text \<open>A purge takes rows away and forgets one consumer.\<close>

lemma offset_forgotten: "consumer_offset c (delete_consumer_offset p d) = (if c = p then 0 else consumer_offset c d)"
proof -
  have "map_of (sql_delete (\<lambda>r. fst r = p) xs) c = (if c = p then None else map_of xs c)" for xs :: "(string \<times> int) list"
    by (induction xs) (auto simp: sql_delete_def)
  then show ?thesis by (simp add: consumer_offset_def delete_consumer_offset_def)
qed

lemma purge_log:
  "db_event_seq (purge_profile p d) = db_event_seq d" "set (db_events (purge_profile p d)) \<subseteq> set (db_events d)"
  "c \<noteq> p \<Longrightarrow> consumer_offset c (purge_profile p d) = consumer_offset c d"
proof -
  let ?d4 = "delete_by_topic_prefix (''source:'' @ p @ ''/'') (sessions_delete_by_profile p
      (claims_delete_by_profile p (delete_items_by_profile p d)))"
  have frame: "db_offsets ?d4 = db_offsets d" "db_event_seq ?d4 = db_event_seq d" "set (db_events ?d4) \<subseteq> set (db_events d)"
    by (auto simp: delete_by_topic_prefix_def sessions_delete_by_profile_def claims_delete_by_profile_def claims_delete_def
        delete_items_by_profile_def delete_items_def Let_def)
  have tail: "db_offsets (purge_profile p d) = db_offsets (delete_consumer_offset p ?d4)"
    "db_event_seq (purge_profile p d) = db_event_seq ?d4" "db_events (purge_profile p d) = db_events ?d4"
    by (simp_all add: purge_profile_def Let_def head_delete_by_topic_prefix_def delete_consumer_offset_def)
  show "db_event_seq (purge_profile p d) = db_event_seq d" "set (db_events (purge_profile p d)) \<subseteq> set (db_events d)"
    using tail frame by simp_all
  show "consumer_offset c (purge_profile p d) = consumer_offset c d" if "c \<noteq> p"
    using consumer_offset_cong [OF tail(1), of c] consumer_offset_cong [OF frame(1), of c] that
    by (simp add: offset_forgotten)
qed

lemma caught_up_purge: "caught_up n fid d \<Longrightarrow> fid \<noteq> p \<Longrightarrow> caught_up n fid (purge_profile p d)"
  unfolding caught_up_def using purge_log(2,3) by fastforce

lemma env_keeps: "env_step a b \<Longrightarrow> loop_ok a \<Longrightarrow> loop_ok b"
proof (induction rule: env_step.induct)
  case (env_write d' s g)
  then have "gh_announced g \<le> db_event_seq (lo_db s)" "db_event_seq (lo_db s) \<le> db_event_seq d'"
    by (simp_all add: loop_ok_def keeps_read_def)
  moreover have "runners_ready (lo_runners s) d'" using env_write ready_write by (auto simp: loop_ok_def)
  ultimately show ?case using env_write caught_up_write
    by (auto simp: loop_ok_def pending_def split: loop_phase.splits)
next
  case (env_purge s g p)
  have R: "runners_ready (lo_runners s) (lo_db s)" using env_purge.prems by (simp add: loop_ok_def)
  have "small_log (purge_profile p (lo_db s))" using R unfolding small_log_def purge_log(1) by (simp add: runners_ready_def small_log_def)
  moreover have "db_ok (purge_profile p (lo_db s))" by (rule purge_profile_ok) (use R in \<open>simp add: runners_ready_def\<close>)
  ultimately have "runners_ready (lo_runners s) (purge_profile p (lo_db s))" using ready_write [OF R] by simp
  moreover have "caught_up n fid (purge_profile p (lo_db s))" if "caught_up n fid (lo_db s)" "fid \<noteq> p" for n fid
    by (rule caught_up_purge [OF that])
  moreover have "pending (s\<lparr>lo_db := d\<rparr>) = pending s" for d by (simp add: pending_def)
  ultimately show ?case using env_purge by (simp add: loop_ok_def purge_log(1))
qed (auto simp: loop_ok_def engine_wake_def engine_reload_def engine_cancel_def tail_offset_def pending_def)

lemma drainable_other: "drainable fid r d \<Longrightarrow> db_ok d' \<Longrightarrow> small_log d' \<Longrightarrow> drainable fid r d'"
  by (simp add: drainable_def)

lemma pump_ready:
  assumes "runners_ready rs d" and "map_of rs fid = Some r" and "pump E now fid r pool d = (res, r', pool', d')"
  shows "runners_ready (AList.update fid r' rs) d' \<and> db_event_seq d' = db_event_seq d \<and>
    (\<forall>c n. c \<noteq> fid \<longrightarrow> caught_up n c d \<longrightarrow> caught_up n c d')"
proof -
  have D: "drainable fid r d" using assms by (simp add: runners_ready_def)
  note p = pump_drainable [OF D assms(3)]
  have seq: "db_event_seq d' = db_event_seq d"
  proof (cases "res = PumpDid")
    case True
    from pump_did [OF D assms(3) [unfolded True]] obtain b where "commit (en_store E) now now b d = Inr d'" by blast
    then show ?thesis by (rule commit_log(2))
  qed (use p(5) in simp)
  have ok: "db_ok d'" "small_log d'" using p(1) by (simp_all add: drainable_def)
  have "drainable c q d'" if "map_of (AList.update fid r' rs) c = Some q" for c q
  proof (cases "c = fid")
    case False
    then have "drainable c q d" using that assms(1) by (simp add: update_conv runners_ready_def)
    then show ?thesis using ok by (rule drainable_other)
  qed (use that p(1) in \<open>simp add: update_conv\<close>)
  then show ?thesis using ok seq p(2,3) by (auto simp: runners_ready_def caught_up_def)
qed

lemma pump_caught_up:
  assumes "runners_ready rs d" and "map_of rs fid = Some r" and "pump E now fid r pool d = (PumpIdle, r', pool', d')"
    and "0 < en_page E"
  shows "caught_up n fid d'"
proof -
  have D: "drainable fid r d" using assms by (simp add: runners_ready_def)
  have "d' = d" using pump_drainable(5) [OF D assms(3)] by simp
  then show ?thesis using pump_idle [OF D assms(3,4)] by (simp add: caught_up_def)
qed

text \<open>A page that is refused at one of its calls is a page that failed.\<close>

lemma pump_fate_cases:
  assumes "pump_fate E fate now fid r pool d = (res, r', pool', d')" and "runners_ready rs d" and "map_of rs fid = Some r"
  shows "pump E now fid r pool d = (res, r', pool', d') \<or> d' = d \<and> drainable fid r' d \<and> (\<exists>e. res = PumpFailed e)"
proof -
  have D: "drainable fid r d" using assms(2,3) by (simp add: runners_ready_def)
  obtain res1 r1 pool1 d1 where p: "pump E now fid r pool d = (res1, r1, pool1, d1)" by (metis prod_cases4)
  have D1: "drainable fid r1 d"
  proof -
    have "drainable fid r1 d1" by (rule pump_drainable(1) [OF D p])
    then show ?thesis using D by (simp add: drainable_def)
  qed
  show ?thesis using assms(1) p D D1
    by (cases fate; cases res1) (auto simp: pump_fate_def)
qed

lemma pump_fate_ready:
  assumes "runners_ready rs d" and "map_of rs fid = Some r" and "pump_fate E fate now fid r pool d = (res, r', pool', d')"
  shows "runners_ready (AList.update fid r' rs) d' \<and> db_event_seq d' = db_event_seq d \<and>
    (\<forall>c n. c \<noteq> fid \<longrightarrow> caught_up n c d \<longrightarrow> caught_up n c d')"
  using pump_fate_cases [OF assms(3,1,2)]
proof (elim disjE conjE)
  assume "pump E now fid r pool d = (res, r', pool', d')"
  then show ?thesis by (rule pump_ready [OF assms(1,2)])
next
  assume "d' = d" "drainable fid r' d"
  then show ?thesis using assms(1) by (auto simp: runners_ready_def update_conv)
qed

lemma check_step_ok:
  assumes "loop_ok (s, g)" and "lo_phase s = Draining (fid # order) c"
  shows "loop_ok (check_step fid order c s, g)"
proof (cases "lo_done s \<or> map_of (lo_runners s) fid \<noteq> None")
  case True
  then show ?thesis using assms by (auto simp: loop_ok_def pending_def check_step_def)
next
  case False
  then have "q \<noteq> fid" if "map_of (lo_runners s) q = Some r" for q r using that by auto
  then show ?thesis using assms False by (fastforce simp: loop_ok_def pending_def check_step_def)
qed

lemma page_step_ok:
  assumes "loop_ok (s, g)" and "lo_phase s = Paging fid order c" and "page_step E fate now fid order c s = (failed, s')"
    and "0 < en_page E"
  shows "loop_ok (s', if failed then g\<lparr>gh_failed := insert fid (gh_failed g)\<rparr> else g)"
proof (cases "map_of (lo_runners s) fid")
  case None
  then have "\<not> failed" and s': "s' = s\<lparr>lo_phase := Draining order c\<rparr>"
    using assms(3) by (auto simp: page_step_def)
  moreover have "q \<noteq> fid" if "map_of (lo_runners s) q = Some r" for q r using that None by auto
  ultimately show ?thesis using assms(1,2) by (fastforce simp: loop_ok_def pending_def)
next
  case r: (Some r)
  obtain res r' pool d where p: "pump_fate E fate now fid r (lo_pool s) (lo_db s) = (res, r', pool, d)" by (metis prod_cases4)
  have ready: "runners_ready (lo_runners s) (lo_db s)" using assms(1) by (simp add: loop_ok_def)
  note P = pump_fate_ready [OF ready r p]
  have s': "s' = s\<lparr>lo_runners := AList.update fid r' (lo_runners s), lo_pool := pool, lo_db := d,
      lo_phase := (if res = PumpDid then Draining (fid # order) True else Draining order c)\<rparr>"
    and failed: "failed \<longleftrightarrow> (\<exists>e. res = PumpFailed e)"
    using assms(3) r p by (auto simp: page_step_def split: pump_result.splits)
  have idle: "res = PumpIdle \<Longrightarrow> caught_up n fid d" for n
    using pump_caught_up [OF ready r _ assms(4)] pump_fate_cases [OF p ready r] by auto
  have cu: "caught_up (gh_announced g) c d" if "\<not> lo_done s" "\<not> lo_wake s" "map_of (lo_runners s) c = Some q"
      "c \<notin> gh_failed g \<union> gh_purged g" "c \<notin> set order" "c \<noteq> fid" for c q
    using that assms(1,2) P by (simp add: loop_ok_def pending_def)
  show ?thesis
    using P assms(1) idle cu failed unfolding s'
    by (cases res) (auto simp: loop_ok_def pending_def update_conv split: if_splits)
qed

lemma install_flow_ready:
  assumes "runners_ready rs d" and "install_flow E now f rs pool d = (err, rs', pool', d')"
  shows "runners_ready rs' d' \<and> db_event_seq d' = db_event_seq d"
proof (cases err)
  case (Some e)
  then show ?thesis using assms install_flow_step [of d E now f rs pool err rs' pool' d'] by (simp add: runners_ready_def)
next
  case None
  have ok: "db_ok d" "small_log d" using assms(1) by (simp_all add: runners_ready_def)
  obtain r' claims where r': "rs' = AList.update (f_id f) r' rs" "rn_flow r' = f" "can_run (rn_graph r') (rn_procs r')"
    "db_ok d'" "replayed f claims d d'"
    using install_flow_step [OF ok(1) assms(2)] None by auto
  then have seq: "db_event_seq d' = db_event_seq d" by (simp add: replayed_def)
  then have small: "small_log d'" using ok(2) by (simp add: small_log_def)
  have "drainable c q d'" if "map_of rs' c = Some q" for c q
  proof (cases "c = f_id f")
    case False
    then have "drainable c q d" using that assms(1) r'(1) by (simp add: update_conv runners_ready_def)
    then show ?thesis using r'(4) small by (rule drainable_other)
  qed (use that r' small in \<open>simp add: update_conv drainable_def\<close>)
  then show ?thesis using seq small r'(4) by (simp add: runners_ready_def)
qed

lemma install_all_ready:
  "runners_ready rs d \<Longrightarrow> install_all E now fs rs pool d = (errs, rs', pool', d') \<Longrightarrow>
   runners_ready rs' d' \<and> db_event_seq d' = db_event_seq d"
proof (induction fs arbitrary: rs pool d errs rs' pool' d')
  case (Cons f fs)
  obtain err rs1 pool1 d1 where i: "install_flow E now f rs pool d = (err, rs1, pool1, d1)" by (metis prod_cases4)
  obtain errs1 rs2 pool2 d2 where a: "install_all E now fs rs1 pool1 d1 = (errs1, rs2, pool2, d2)" by (metis prod_cases4)
  have "runners_ready rs1 d1" "db_event_seq d1 = db_event_seq d" using install_flow_ready [OF Cons.prems(1) i] by simp_all
  then show ?case using Cons.IH [OF _ a] Cons.prems(2) i a by simp
qed simp

lemma drop_removed_lookup: "map_of (drop_removed en rs) i = (if map_of en i = None then None else map_of rs i)"
  by (induction rs) (auto simp: drop_removed_def)

lemma drop_removed_ready: "runners_ready rs d \<Longrightarrow> runners_ready (drop_removed en rs) d"
  by (auto simp: runners_ready_def drop_removed_lookup split: if_splits)

lemma reinstall_ready:
  assumes "runners_ready (lo_runners s) (lo_db s)"
  shows "runners_ready (lo_runners (reinstall E now refused inst fs s)) (lo_db (reinstall E now refused inst fs s)) \<and>
    db_event_seq (lo_db (reinstall E now refused inst fs s)) = db_event_seq (lo_db s) \<and>
    lo_done (reinstall E now refused inst fs s) = lo_done s \<and> lo_wake (reinstall E now refused inst fs s) = lo_wake s"
proof -
  obtain errs rs pool d where i: "install E now (filter (\<lambda>i. i \<notin> refused) inst) fs (lo_runners s) (lo_pool s) (lo_db s) =
      (errs, rs, pool, d)" by (metis prod_cases4)
  then have "runners_ready rs d \<and> db_event_seq d = db_event_seq (lo_db s)"
    using install_all_ready [OF drop_removed_ready [OF assms]] by (simp add: install_def Let_def)
  then show ?thesis using i by (simp add: reinstall_def)
qed

lemma ranged: "ranges_over order s \<Longrightarrow> map_of (lo_runners s) fid = Some r \<Longrightarrow> fid \<in> set order"
  by (auto simp: ranges_over_def dest: map_of_SomeD intro: rev_image_eqI)

lemma loop_keeps:
  assumes "loop_step E a b" and "loop_ok a" and "0 < en_page E"
  shows "loop_ok b"
  using assms(1,2)
proof (induction rule: loop_step.induct)
  case (loop_wake s order g)
  then show ?case using ranged [of order s] by (auto simp: loop_ok_def take_wake_def pending_def begin_pass_def)
next
  case (loop_reload s inst fs refused order now g)
  have ready: "runners_ready (lo_runners s) (lo_db s)" using loop_reload.prems by (simp add: loop_ok_def)
  have "fid \<in> set order" if "map_of (lo_runners (reinstall E now refused inst fs s)) fid = Some r" for fid r
    using ranged [OF loop_reload.hyps(6) that] .
  then show ?case using loop_reload.prems reinstall_ready [OF ready, of E now refused inst fs]
    by (auto simp: loop_ok_def take_reload_def pending_def begin_pass_def)
next
  case (loop_check s fid order committed g)
  then show ?case using check_step_ok by blast
next
  case (loop_page s fid order committed fate now failed s' g)
  then show ?case using page_step_ok [OF _ _ _ assms(3)] by blast
qed (auto simp: loop_ok_def end_pass_def pending_def)

lemma engine_keeps: "engine_step E a b \<Longrightarrow> loop_ok a \<Longrightarrow> 0 < en_page E \<Longrightarrow> loop_ok b"
  unfolding engine_step_def by (blast intro: loop_keeps env_keeps)

lemma start_loop_ok:
  assumes "db_ok d" and "small_log d"
  shows "loop_ok (engine_start E now order fs pool d, \<lparr>gh_announced = 0, gh_failed = {}, gh_purged = {}\<rparr>)"
proof -
  obtain errs rs pool' d' where i: "install E now order fs [] pool d = (errs, rs, pool', d')" by (metis prod_cases4)
  have "runners_ready [] d" using assms by (simp add: runners_ready_def)
  then have R: "runners_ready rs d'" using i install_all_ready by (fastforce simp: install_def Let_def drop_removed_def)
  then have ok: "events_ok (db_events d') (db_event_seq d') (db_offsets d')" by (simp add: runners_ready_def db_ok_def)
  then have "caught_up 0 fid d'" for fid by (force simp: caught_up_def events_ok_def)
  then show ?thesis using R ok i by (simp add: engine_start_def loop_ok_def events_ok_def)
qed

text \<open>
  Claim C15: no announced row stays unrouted. Whatever the producer, triage, retention, purges of
  deleted profiles and the other goroutines do between any two steps of the engine, whenever wakes and
  reloads arrive and whichever pages and installations fail, when the loop is back waiting with no
  wake latched, every flow in service has read every row the log held at the last wake, but for flows
  whose page failed in the last pass and flows whose profile was purged, and with it what they had
  read, since that pass began.
\<close>

theorem announced_rows_routed:
  assumes "db_ok d" and "small_log d" and "0 < en_page E"
    and "(engine_step E)\<^sup>*\<^sup>* (engine_start E now order fs pool d, \<lparr>gh_announced = 0, gh_failed = {}, gh_purged = {}\<rparr>) (s, g)"
    and "lo_phase s = Waiting" and "\<not> lo_wake s" and "\<not> lo_done s"
    and "map_of (lo_runners s) fid = Some r" and "fid \<notin> gh_failed g \<union> gh_purged g"
    and "x \<in> set (db_events (lo_db s))" and "er_offset x \<le> gh_announced g"
  shows "er_offset x \<le> consumer_offset fid (lo_db s)"
proof -
  have "loop_ok (s, g)"
    using assms(4) by (induction rule: rtranclp_induct) (use start_loop_ok [OF assms(1,2)] engine_keeps assms(3) in blast)+
  then show ?thesis using assms(5-11) by (simp add: loop_ok_def pending_def caught_up_def)
qed


section \<open>Stopping\<close>

text \<open>How many steps a cancelled loop has left at most.\<close>

definition loop_work :: "'s loop_state \<Rightarrow> nat" where
  "loop_work s =
     (let w = 1 + ((if lo_wake s then 1 else 0) + (if lo_reload s then 1 else 0)) * (length (lo_runners s) + 2)
      in case lo_phase s of LoopEnded \<Rightarrow> 0 | Waiting \<Rightarrow> w | Draining order _ \<Rightarrow> length order + 1 + w
         | Paging _ order _ \<Rightarrow> length order + 2 + w)"

lemma ranges_short: "ranges_over order s \<Longrightarrow> length order \<le> length (lo_runners s)"
  using card_image_le [of "set (lo_runners s)" fst] card_length [of "lo_runners s"]
  by (simp add: ranges_over_def distinct_card flip: distinct_card [of order])

text \<open>Every store call of a cancelled loop is refused, so neither a page nor an installation writes.\<close>

lemma refused_reinstall:
  assumes "set inst \<subseteq> refused"
  shows "reinstall E now refused inst fs s = s\<lparr>lo_runners := drop_removed (enabled_flows fs) (lo_runners s)\<rparr>"
proof -
  have "filter (\<lambda>i. i \<notin> refused) inst = []" using assms by (auto simp: filter_empty_conv)
  then show ?thesis by (simp add: reinstall_def install_def)
qed

lemma refused_pump:
  assumes "fate \<noteq> Served" and "pump_fate E fate now fid r pool d = (res, r', pool', d')"
  shows "d' = d \<and> res \<noteq> PumpDid"
proof -
  obtain res1 r1 pool1 d1 where p: "pump E now fid r pool d = (res1, r1, pool1, d1)" by (metis prod_cases4)
  have "res1 \<noteq> PumpDid \<Longrightarrow> d1 = d"
    using p by (auto simp: pump_def split: sum.splits if_splits prod.splits)
  then show ?thesis using assms p by (cases fate; cases res1) (auto simp: pump_fate_def)
qed

lemma refused_page:
  assumes "fate \<noteq> Served" and "page_step E fate now fid order c s = (failed, s')"
  shows "lo_db s' = lo_db s \<and> lo_phase s' = Draining order c \<and> length (lo_runners s') = length (lo_runners s) \<and>
    lo_wake s' = lo_wake s \<and> lo_reload s' = lo_reload s \<and> lo_done s' = lo_done s"
proof (cases "map_of (lo_runners s) fid")
  case r: (Some r)
  obtain res r' pool d where p: "pump_fate E fate now fid r (lo_pool s) (lo_db s) = (res, r', pool, d)" by (metis prod_cases4)
  have len: "length (AList.update fid r' rs) = length rs" if "map_of rs fid = Some r" for rs :: "'a runners"
    using that by (induction rs) (auto split: if_splits)
  show ?thesis using refused_pump [OF assms(1) p] assms(2) r p len [OF r] by (auto simp: page_step_def)
qed (use assms(2) in \<open>auto simp: page_step_def\<close>)

lemma cancelled_step:
  assumes "loop_step E a b" and "lo_done (fst a)"
  shows "lo_done (fst b) \<and> lo_db (fst b) = lo_db (fst a) \<and> loop_work (fst b) < loop_work (fst a)"
  using assms
proof (induction rule: loop_step.induct)
  case (loop_wake s order g)
  then show ?case using ranges_short [of order s] by (auto simp: take_wake_def loop_work_def Let_def)
next
  case (loop_reload s inst fs refused order now g)
  then have r: "reinstall E now refused inst fs s = s\<lparr>lo_runners := drop_removed (enabled_flows fs) (lo_runners s)\<rparr>"
    by (intro refused_reinstall) simp
  have "length order \<le> length (drop_removed (enabled_flows fs) (lo_runners s))" 
    using ranges_short [OF loop_reload.hyps(6)] by (simp add: r)
  moreover have "length (drop_removed (enabled_flows fs) (lo_runners s)) \<le> length (lo_runners s)"
    by (simp add: drop_removed_def)
  ultimately show ?case using loop_reload by (auto simp: take_reload_def r loop_work_def Let_def)
next
  case (loop_page s fid order committed fate now failed s' g)
  then show ?case using refused_page [OF _ loop_page.hyps(3)] by (auto simp: loop_work_def Let_def)
qed (auto simp: end_pass_def check_step_def loop_work_def Let_def)

text \<open>
  Claim C16: a cancelled engine stops. Once the context is cancelled, the loop takes at most as many
  steps as its latches and its runners allow, whichever ready channel it picks, and it can always
  take one until it has ended, so the wait in \<open>Stop\<close> returns. As the store refuses every call on the
  cancelled context, none of these steps writes to the database: not a reload, and not the page that
  was in flight when the context was cancelled either, whose rows stay unread.
\<close>

theorem cancelled_loop_ends:
  assumes "lo_done s" and "(loop_step E ^^ n) (s, g) (s', g')"
  shows "n \<le> loop_work s \<and> lo_db s' = lo_db s \<and> (lo_phase s' = LoopEnded \<or> (\<exists>b. loop_step E (s', g') b))"
proof -
  have "lo_done s' \<and> lo_db s' = lo_db s \<and> n + loop_work s' \<le> loop_work s"
    using assms(2)
  proof (induction n arbitrary: s' g')
    case (Suc n)
    then obtain t h where "(loop_step E ^^ n) (s, g) (t, h)" "loop_step E (t, h) (s', g')" by auto
    then show ?case using Suc.IH [of t h] cancelled_step [of E "(t, h)" "(s', g')"] by fastforce
  qed (use assms(1) in simp)
  moreover have "lo_phase s' = LoopEnded \<or> (\<exists>b. loop_step E (s', g') b)" if "lo_done s'"
  proof (cases "lo_phase s'")
    case (Draining order c)
    then show ?thesis by (cases order) (use loop_drained loop_check in blast)+
  next
    case (Paging fid order c)
    obtain failed t where "page_step E (ReadRefused StaleRevision) 0 fid order c s' = (failed, t)" by fastforce
    then show ?thesis using loop_page [OF Paging, of "ReadRefused StaleRevision" E 0 failed t g'] by blast
  qed (use loop_end that in blast)+
  ultimately show ?thesis by simp
qed

end
