(* ===== verification/Engine_Loop_Samples.thy ===== *)
theory Engine_Loop_Samples
  imports Engine_Loop_Laws Store_Samples
begin

text \<open>A pass of the engine over one new row, at which the properties of its loop are applied.\<close>

definition loop_started :: "nat loop_state" where
  "loop_started = engine_start sample_env 7 [''inbox''] [sample_flow] 32 empty_db"

definition loop_woken :: "nat loop_state" where
  "loop_woken = engine_wake (loop_started\<lparr>lo_db := sample_db\<rparr>)"

definition loop_draining :: "nat loop_state" where
  "loop_draining = take_wake [''inbox''] loop_woken"

definition loop_paged :: "bool \<times> nat loop_state" where
  "loop_paged = page_step sample_env Served 7 ''inbox'' [] False (check_step ''inbox'' [] False loop_draining)"

definition loop_idled :: "bool \<times> nat loop_state" where
  "loop_idled = page_step sample_env Served 7 ''inbox'' [] True (check_step ''inbox'' [] True (snd loop_paged))"

definition loop_waiting :: "nat loop_state" where
  "loop_waiting = end_pass True (snd loop_idled)"

lemma loop_started_facts: "map fst (lo_runners loop_started) = [''inbox'']" "lo_phase loop_started = Waiting"
    "db_event_seq (lo_db loop_started) = 0" "\<not> lo_done loop_started"
  by code_simp+

lemma loop_draining_facts: "lo_phase loop_draining = Draining [''inbox''] False" "lo_phase loop_woken = Waiting" "lo_wake loop_woken"
    "tail_offset (lo_db loop_woken) = 1" "map fst (lo_runners loop_woken) = [''inbox'']"
  using loop_started_facts
  by (simp_all add: loop_draining_def take_wake_def loop_woken_def engine_wake_def tail_offset_def sample_db_def)

lemma loop_paged_facts: "\<not> fst loop_paged" "lo_phase (snd loop_paged) = Draining [''inbox''] True"
    "lo_phase (check_step ''inbox'' [] False loop_draining) = Paging ''inbox'' [] False"
    "\<not> lo_done (check_step ''inbox'' [] False loop_draining)"
  by code_simp+

lemma loop_idled_facts: "\<not> fst loop_idled" "lo_phase (snd loop_idled) = Draining [] True"
    "lo_phase (check_step ''inbox'' [] True (snd loop_paged)) = Paging ''inbox'' [] True"
    "\<not> lo_done (check_step ''inbox'' [] True (snd loop_paged))"
  by code_simp+

lemma loop_waiting_facts: "lo_phase loop_waiting = Waiting" "\<not> lo_wake loop_waiting" "\<not> lo_done loop_waiting"
    "map fst (lo_runners loop_waiting) = [''inbox'']" "map er_offset (db_events (lo_db loop_waiting)) = [1]" "lo_published loop_waiting = 1"
  by code_simp+


definition loop_start_ghost :: loop_ghost where
  "loop_start_ghost = \<lparr>gh_announced = 0, gh_failed = {}, gh_purged = {}\<rparr>"

definition loop_pass_ghost :: loop_ghost where
  "loop_pass_ghost = \<lparr>gh_announced = 1, gh_failed = {}, gh_purged = {}\<rparr>"

lemma loop_pass: "(engine_step sample_env)\<^sup>*\<^sup>* (loop_started, loop_start_ghost) (loop_waiting, loop_pass_ghost)"
proof -
  have "keeps_read (lo_db loop_started) sample_db"
    using loop_started_facts(3) by (simp add: keeps_read_def sample_db_def sample_event_def)
  then have "env_step (loop_started, loop_start_ghost) (loop_started\<lparr>lo_db := sample_db\<rparr>, loop_start_ghost)"
    by (intro env_write sample_db_ok sample_db_small)
  moreover have "env_step (loop_started\<lparr>lo_db := sample_db\<rparr>, loop_start_ghost) (loop_woken, loop_pass_ghost)"
    using env_wake [of "loop_started\<lparr>lo_db := sample_db\<rparr>" loop_start_ghost] loop_draining_facts(4)
    by (simp add: loop_woken_def loop_start_ghost_def loop_pass_ghost_def engine_wake_def)
  moreover have "loop_step sample_env (loop_woken, loop_pass_ghost) (loop_draining, loop_pass_ghost)"
  proof -
    have "ranges_over [''inbox''] loop_woken" using loop_draining_facts(5) by (simp add: ranges_over_def flip: set_map)
    then show ?thesis using loop_wake [of loop_woken "[''inbox'']" sample_env loop_pass_ghost] loop_draining_facts(2,3)
      by (simp add: loop_draining_def loop_pass_ghost_def begin_pass_def)
  qed
  moreover have "loop_step sample_env (loop_draining, loop_pass_ghost) (check_step ''inbox'' [] False loop_draining, loop_pass_ghost)"
    by (rule loop_check [OF loop_draining_facts(1)])
  moreover have "loop_step sample_env (check_step ''inbox'' [] False loop_draining, loop_pass_ghost) (snd loop_paged, loop_pass_ghost)"
    using loop_page [OF loop_paged_facts(3), of Served sample_env 7 "fst loop_paged" "snd loop_paged" loop_pass_ghost]
      loop_paged_facts(1,4) by (simp add: loop_paged_def)
  moreover have "loop_step sample_env (snd loop_paged, loop_pass_ghost) (check_step ''inbox'' [] True (snd loop_paged), loop_pass_ghost)"
    by (rule loop_check [OF loop_paged_facts(2)])
  moreover have "loop_step sample_env (check_step ''inbox'' [] True (snd loop_paged), loop_pass_ghost) (snd loop_idled, loop_pass_ghost)"
    using loop_page [OF loop_idled_facts(3), of Served sample_env 7 "fst loop_idled" "snd loop_idled" loop_pass_ghost]
      loop_idled_facts(1,4) by (simp add: loop_idled_def)
  moreover have "loop_step sample_env (snd loop_idled, loop_pass_ghost) (loop_waiting, loop_pass_ghost)"
    using loop_drained [OF loop_idled_facts(2), of sample_env loop_pass_ghost] by (simp add: loop_waiting_def)
  ultimately have "engine_step sample_env (loop_started, loop_start_ghost) (loop_started\<lparr>lo_db := sample_db\<rparr>, loop_start_ghost)"
    "engine_step sample_env (loop_started\<lparr>lo_db := sample_db\<rparr>, loop_start_ghost) (loop_woken, loop_pass_ghost)"
    "engine_step sample_env (loop_woken, loop_pass_ghost) (loop_draining, loop_pass_ghost)"
    "engine_step sample_env (loop_draining, loop_pass_ghost) (check_step ''inbox'' [] False loop_draining, loop_pass_ghost)"
    "engine_step sample_env (check_step ''inbox'' [] False loop_draining, loop_pass_ghost) (snd loop_paged, loop_pass_ghost)"
    "engine_step sample_env (snd loop_paged, loop_pass_ghost) (check_step ''inbox'' [] True (snd loop_paged), loop_pass_ghost)"
    "engine_step sample_env (check_step ''inbox'' [] True (snd loop_paged), loop_pass_ghost) (snd loop_idled, loop_pass_ghost)"
    "engine_step sample_env (snd loop_idled, loop_pass_ghost) (loop_waiting, loop_pass_ghost)"
    by (simp_all add: engine_step_def)
  then show ?thesis by (meson converse_rtranclp_into_rtranclp rtranclp.rtrancl_refl)
qed

lemma announced_rows_routed_witness:
  "(engine_step sample_env)\<^sup>*\<^sup>* (loop_started, loop_start_ghost) (loop_waiting, loop_pass_ghost) \<and>
   db_events (lo_db loop_waiting) \<noteq> [] \<and> 1 \<le> consumer_offset ''inbox'' (lo_db loop_waiting)"
proof -
  obtain x where x: "db_events (lo_db loop_waiting) = [x]" "er_offset x = 1" using loop_waiting_facts(5) by auto
  obtain r where r: "map_of (lo_runners loop_waiting) ''inbox'' = Some r" using loop_waiting_facts(4) by (auto simp: map_eq_Cons_conv)
  have small: "small_log (empty_db :: db)" "0 < en_page sample_env" by (simp_all add: small_log_def empty_db_def sample_env_def)
  have "er_offset x \<le> consumer_offset ''inbox'' (lo_db loop_waiting)"
    by (rule announced_rows_routed [OF empty_db_ok small loop_pass [unfolded loop_started_def loop_start_ghost_def]
        loop_waiting_facts(1-3) r])
      (simp_all add: loop_pass_ghost_def x)
  then show ?thesis using loop_pass x by simp
qed

text \<open>A page in flight when the engine is cancelled: its commit is refused, and the pass returns.\<close>

definition loop_cancelled :: "nat loop_state" where
  "loop_cancelled = engine_cancel (check_step ''inbox'' [] False loop_draining)"

definition loop_refused :: "bool \<times> nat loop_state" where
  "loop_refused = page_step sample_env (CommitRefused StaleRevision) 7 ''inbox'' [] False loop_cancelled"

lemma loop_refused_facts: "fst loop_refused" "lo_phase loop_cancelled = Paging ''inbox'' [] False" "lo_done loop_cancelled"
    "consumer_offset ''inbox'' (lo_db loop_cancelled) = 0"
  by code_simp+

lemma cancelled_loop_ends_witness:
  "1 \<le> loop_work loop_cancelled \<and> lo_db (snd loop_refused) = lo_db loop_cancelled \<and>
   consumer_offset ''inbox'' (lo_db (snd loop_refused)) = 0"
proof -
  have "loop_step sample_env (loop_cancelled, loop_pass_ghost) (snd loop_refused, loop_pass_ghost\<lparr>gh_failed := {''inbox''}\<rparr>)"
    using loop_page [OF loop_refused_facts(2), of "CommitRefused StaleRevision" sample_env 7 "fst loop_refused" "snd loop_refused" loop_pass_ghost]
      loop_refused_facts(1) by (simp add: loop_refused_def loop_pass_ghost_def)
  then have "(loop_step sample_env ^^ 1) (loop_cancelled, loop_pass_ghost)
      (snd loop_refused, loop_pass_ghost\<lparr>gh_failed := {''inbox''}\<rparr>)" by (simp only: relpowp_1)
  from cancelled_loop_ends [OF loop_refused_facts(3) this] show ?thesis using loop_refused_facts(4) by simp
qed

end
