(* ===== verification/Classifiers.thy ===== *)
theory Classifiers
  imports Inbox_Laws
begin

text \<open>
  What an observation means (\<open>sources/canonical/canonical.go\<close>, \<open>github/classify.go\<close>,
  \<open>gitea/classify.go\<close>, \<open>grafana/alerts.go\<close>, \<open>grafana/irmalerts.go\<close>, \<open>posthog/alerts.go\<close>,
  \<open>posthog/errors.go\<close>): each connector reads a state off the payload and says whether an item was
  finished, reopened or merely updated. The scanner of \<open>encoding/json\<close> and its encoder of maps are
  arguments. \<open>title_case\<close> is only called on terminal states, which are ASCII.
\<close>

type_synonym json_encoder = "json \<Rightarrow> bytes"

definition title_case :: "string \<Rightarrow> string" where
  "title_case s = (case s of [] \<Rightarrow> ''State changed'' | c # cs \<Rightarrow> to_upper_char c # cs)"

definition blank_classification :: classification where
  "blank_classification = \<lparr>ck_kind = ''updated'', ck_transition = Some TransitionNone, ck_attention = Some AttentionActivity,
     ck_lifecycle = Some LifecycleActive, ck_state = [], ck_reason = [], ck_occurrence = [], ck_summary = [], ck_detail = []\<rparr>"

section \<open>The canonical contract\<close>

definition terminal_state :: string where "terminal_state = ''resolved''"

definition canonical_state :: "json_scanner \<Rightarrow> bytes \<Rightarrow> string" where
  "canonical_state J payload = (case canonical_fields J payload of (_, _, s) \<Rightarrow> to_lower (trim_space s))"

definition canonical_terminal :: "string \<Rightarrow> bool" where
  "canonical_terminal s \<longleftrightarrow> s \<in> {''resolved'', ''closed'', ''done''}"

text \<open>
  The rewrite decodes into a map, so a repeated member keeps its last value and the encoder writes
  the keys in order. A payload that is \<open>null\<close> decodes to a nil map, whose assignment panics.
\<close>

datatype rewritten = Rewritten bytes | RewritePanic

definition set_member :: "string \<Rightarrow> json \<Rightarrow> (string \<times> json) list \<Rightarrow> (string \<times> json) list" where
  "set_member name v ms =
     (let m = AList.update name v (fold (\<lambda>(k, w). AList.update k w) ms [])
      in map (\<lambda>k. (k, the (map_of m k))) (amap_keys m))"

definition with_state :: "json_scanner \<Rightarrow> json_encoder \<Rightarrow> bytes \<Rightarrow> string \<Rightarrow> rewritten" where
  "with_state J enc payload state =
     (case J payload of
        Some (JObj ms) \<Rightarrow> Rewritten (enc (JObj (set_member ''state'' (JStr state) ms)))
      | Some JNull \<Rightarrow> RewritePanic
      | _ \<Rightarrow> Rewritten payload)"

definition observed_key :: "observation \<Rightarrow> string" where
  "observed_key cur = ob_external cur @ ''@'' @ format_int (ob_observed cur)"

definition canonical_classifier :: "json_scanner \<Rightarrow> classifier" where
  "canonical_classifier J previous cur =
     (let state = canonical_state J (ob_payload cur);
          cur_terminal = canonical_terminal state;
          out = blank_classification\<lparr>ck_lifecycle := Some (if cur_terminal then LifecycleTerminal else LifecycleActive),
            ck_state := state, ck_occurrence := observed_key cur, ck_summary := ob_title cur\<rparr>
      in case previous of
           None \<Rightarrow> out\<lparr>ck_kind := ''received''\<rparr>
         | Some p \<Rightarrow>
             let prev_terminal = canonical_terminal (canonical_state J (ob_payload p))
             in if \<not> prev_terminal \<and> cur_terminal
                then out\<lparr>ck_kind := state, ck_summary := title_case state, ck_transition := Some EnteredTerminal, ck_reason := state\<rparr>
                else if prev_terminal \<and> \<not> cur_terminal
                then out\<lparr>ck_kind := ''reopened'', ck_summary := ''Reopened'', ck_transition := Some LeftTerminal\<rparr>
                else out)"

section \<open>GitHub\<close>

record forge_payload =
  fg_state :: string
  fg_reason :: string
  fg_origin :: string
  fg_updated :: int
  fg_labels :: "string list option"

text \<open>The labels of a payload that does not give an array are a nil slice, which encodes as \<open>null\<close>.\<close>

fun set_label_slice :: "json \<Rightarrow> string list option \<Rightarrow> string list option" where
  "set_label_slice (JArr vs) old = Some (map (\<lambda>v. set_str v []) vs)"
| "set_label_slice JNull old = None"
| "set_label_slice _ old = old"

definition decode_forge :: "json_scanner \<Rightarrow> bytes \<Rightarrow> forge_payload" where
  "decode_forge J payload =
     (let j = J payload
      in \<lparr>fg_state = to_lower (str_field j ''state''), fg_reason = str_field j ''reason'', fg_origin = str_field j ''origin'',
          fg_updated = int_field j ''updatedAt'', fg_labels = struct_field ''labels'' set_label_slice (obj_members j) None\<rparr>)"

definition slice_items :: "string list option \<Rightarrow> string list" where
  "slice_items ls = (case ls of None \<Rightarrow> [] | Some xs \<Rightarrow> xs)"

definition slice_json :: "string list option \<Rightarrow> json" where
  "slice_json ls = (case ls of None \<Rightarrow> JNull | Some xs \<Rightarrow> JArr (map JStr xs))"

definition forge_terminal :: "string \<Rightarrow> bool" where
  "forge_terminal s \<longleftrightarrow> s = ''closed'' \<or> s = ''merged''"

definition forge_lifecycle :: "string \<Rightarrow> lifecycle" where
  "forge_lifecycle s = (if forge_terminal s then LifecycleTerminal else if s = ''open'' then LifecycleActive else LifecycleUnknown)"

definition same_labels :: "string list \<Rightarrow> string list \<Rightarrow> bool" where
  "same_labels xs ys \<longleftrightarrow>
     length xs = length ys \<and>
     snd (fold (\<lambda>v (m, same). let n = m v - 1 in (m(v := n), same \<and> 0 \<le> n)) ys ((\<lambda>v. int (count_list xs v)), True))"

definition label_change_summary :: "string list \<Rightarrow> string list \<Rightarrow> string" where
  "label_change_summary before after =
     (let added = filter (\<lambda>l. l \<notin> set before) after; removed = filter (\<lambda>l. l \<notin> set after) before
      in if added \<noteq> [] \<and> removed = [] then ''Labels added: '' @ join '', '' added
         else if removed \<noteq> [] \<and> added = [] then ''Labels removed: '' @ join '', '' removed
         else ''Labels changed'')"

definition github_summaries :: "(string, string) amap" where
  "github_summaries =
     [(''approval_requested'', ''Approval requested''), (''assign'', ''Assigned on GitHub''),
      (''author'', ''New activity from the author''), (''ci_activity'', ''CI status changed''),
      (''comment'', ''New comment activity''), (''mention'', ''Mentioned on GitHub''),
      (''review_requested'', ''Review requested''), (''state_change'', ''State changed on GitHub''),
      (''subscribed'', ''New subscribed activity''), (''team_mention'', ''Team mentioned on GitHub'')]"

definition github_activity :: "string \<Rightarrow> classification \<Rightarrow> classification" where
  "github_activity reason out =
     out\<lparr>ck_kind := (if reason = [] then ''updated'' else reason),
         ck_summary := (case map_of github_summaries reason of None \<Rightarrow> ''Updated on GitHub'' | Some s \<Rightarrow> s),
         ck_attention := Some AttentionActivity\<rparr>"

definition github_occurrence :: "string \<Rightarrow> forge_payload \<Rightarrow> string" where
  "github_occurrence i p = i @ '':'' @ fg_state p @ '':'' @ format_int (fg_updated p) @ '':'' @ fg_reason p"

definition previous_members :: "forge_payload option \<Rightarrow> (string \<times> json) list" where
  "previous_members prev =
     (case prev of None \<Rightarrow> [] | Some p \<Rightarrow> [(''previousLabels'', slice_json (fg_labels p)), (''previousState'', JStr (fg_state p))])"

definition github_detail :: "json_encoder \<Rightarrow> forge_payload option \<Rightarrow> forge_payload \<Rightarrow> bytes" where
  "github_detail enc prev cur =
     enc (JObj ([(''labels'', slice_json (fg_labels cur))] @ previous_members prev @
       [(''reason'', JStr (fg_reason cur)), (''state'', JStr (fg_state cur)), (''updatedAt'', JNum (format_int (fg_updated cur)))]))"

definition forge_blank :: "forge_payload \<Rightarrow> classification" where
  "forge_blank cur = blank_classification\<lparr>ck_attention := Some AttentionTrivial, ck_lifecycle := Some (forge_lifecycle (fg_state cur)),
     ck_state := fg_state cur\<rparr>"

definition entered_terminal :: "string \<Rightarrow> classification \<Rightarrow> classification" where
  "entered_terminal state out = out\<lparr>ck_kind := state, ck_summary := title_case state, ck_transition := Some EnteredTerminal,
     ck_attention := Some AttentionActivity, ck_reason := state\<rparr>"

definition reopened :: "classification \<Rightarrow> classification" where
  "reopened out = out\<lparr>ck_kind := ''reopened'', ck_summary := ''Reopened'', ck_transition := Some LeftTerminal,
     ck_attention := Some AttentionActivity\<rparr>"

definition relabelled :: "string list \<Rightarrow> string list \<Rightarrow> classification \<Rightarrow> classification" where
  "relabelled before after out = out\<lparr>ck_kind := ''labels'', ck_summary := label_change_summary before after,
     ck_attention := Some AttentionActivity\<rparr>"

definition noteworthy :: "classification \<Rightarrow> bool" where
  "noteworthy out \<longleftrightarrow> ck_attention out = Some AttentionActivity \<or> ck_transition out \<noteq> Some TransitionNone"

definition github_classifier :: "json_scanner \<Rightarrow> json_encoder \<Rightarrow> classifier" where
  "github_classifier J enc previous current =
     (let cur = decode_forge J (ob_payload current);
          stamp = (\<lambda>prev out. out\<lparr>ck_occurrence := github_occurrence (ob_external current) cur, ck_detail := github_detail enc prev cur\<rparr>)
      in case previous of
           None \<Rightarrow> stamp None ((forge_blank cur)\<lparr>ck_attention := Some AttentionActivity, ck_kind := ''observed'',
             ck_summary := ''Added to workspace''\<rparr>)
         | Some p \<Rightarrow>
             let prev = decode_forge J (ob_payload p);
                 was = forge_terminal (fg_state prev); is = forge_terminal (fg_state cur);
                 out = (if \<not> was \<and> is then entered_terminal (fg_state cur) (forge_blank cur)
                   else if was \<and> \<not> is \<and> fg_state cur = ''open'' then reopened (forge_blank cur)
                   else if fg_updated prev < fg_updated cur \<and> fg_reason cur \<noteq> [] then github_activity (fg_reason cur) (forge_blank cur)
                   else if \<not> same_labels (slice_items (fg_labels cur)) (slice_items (fg_labels prev))
                   then relabelled (slice_items (fg_labels prev)) (slice_items (fg_labels cur)) (forge_blank cur)
                   else if fg_updated prev < fg_updated cur then github_activity (fg_reason cur) (forge_blank cur)
                   else forge_blank cur)
             in if noteworthy out then stamp (Some prev) out else out)"

section \<open>Gitea\<close>

definition gitea_occurrence :: "string \<Rightarrow> forge_payload \<Rightarrow> string" where
  "gitea_occurrence i p = i @ '':'' @ fg_state p @ '':'' @ format_int (fg_updated p)"

definition gitea_detail :: "json_encoder \<Rightarrow> forge_payload option \<Rightarrow> forge_payload \<Rightarrow> bytes" where
  "gitea_detail enc prev cur =
     enc (JObj ([(''labels'', slice_json (fg_labels cur)), (''origin'', JStr (fg_origin cur))] @ previous_members prev @
       [(''state'', JStr (fg_state cur)), (''updatedAt'', JNum (format_int (fg_updated cur)))]))"

definition gitea_classifier :: "json_scanner \<Rightarrow> json_encoder \<Rightarrow> classifier" where
  "gitea_classifier J enc previous current =
     (let cur = decode_forge J (ob_payload current);
          stamp = (\<lambda>prev out. out\<lparr>ck_occurrence := gitea_occurrence (ob_external current) cur, ck_detail := gitea_detail enc prev cur\<rparr>)
      in case previous of
           None \<Rightarrow> stamp None ((forge_blank cur)\<lparr>ck_attention := Some AttentionActivity, ck_kind := ''observed'',
             ck_summary := ''Added to workspace''\<rparr>)
         | Some p \<Rightarrow>
             let prev = decode_forge J (ob_payload p);
                 was = forge_terminal (fg_state prev); is = forge_terminal (fg_state cur);
                 out = (if \<not> was \<and> is then entered_terminal (fg_state cur) (forge_blank cur)
                   else if was \<and> \<not> is \<and> fg_state cur = ''open'' then reopened (forge_blank cur)
                   else if fg_origin prev = fg_origin cur \<and> \<not> same_labels (slice_items (fg_labels prev)) (slice_items (fg_labels cur))
                   then relabelled (slice_items (fg_labels prev)) (slice_items (fg_labels cur)) (forge_blank cur)
                   else if fg_updated prev < fg_updated cur
                   then (forge_blank cur)\<lparr>ck_kind := ''updated'', ck_summary := ''Updated on Gitea'', ck_attention := Some AttentionActivity\<rparr>
                   else forge_blank cur)
             in if noteworthy out then stamp (Some prev) out else out)"

section \<open>Grafana\<close>

definition state_firing :: string where "state_firing = ''firing''"
definition state_resolved :: string where "state_resolved = ''resolved''"
definition state_acknowledged :: string where "state_acknowledged = ''acknowledged''"
definition state_silenced :: string where "state_silenced = ''silenced''"

definition trivial_update :: "classification \<Rightarrow> classification" where
  "trivial_update out = out\<lparr>ck_kind := ''updated'', ck_attention := Some AttentionTrivial\<rparr>"

definition stamped :: "observation \<Rightarrow> string \<Rightarrow> bool \<Rightarrow> classification" where
  "stamped cur state terminal = blank_classification\<lparr>ck_lifecycle := Some (if terminal then LifecycleTerminal else LifecycleActive),
     ck_state := state, ck_occurrence := observed_key cur, ck_summary := ob_title cur\<rparr>"

definition grafana_classifier :: "json_scanner \<Rightarrow> classifier" where
  "grafana_classifier J previous cur =
     (let state = canonical_state J (ob_payload cur);
          out = (stamped cur state (state = state_resolved))\<lparr>ck_kind := state_firing\<rparr>
      in case previous of
           None \<Rightarrow> out
         | Some p \<Rightarrow>
             let prev = canonical_state J (ob_payload p)
             in if prev \<noteq> state_resolved \<and> state = state_resolved
                then out\<lparr>ck_kind := state_resolved, ck_summary := ''Resolved'', ck_transition := Some EnteredTerminal, ck_reason := state_resolved\<rparr>
                else if prev = state_resolved \<and> state \<noteq> state_resolved
                then out\<lparr>ck_summary := ''Firing again'', ck_transition := Some LeftTerminal\<rparr>
                else trivial_update out)"

definition alert_group_summary :: "string \<Rightarrow> string" where
  "alert_group_summary state =
     (if state = state_acknowledged then ''Acknowledged'' else if state = state_silenced then ''Silenced''
      else if state = state_firing then ''Firing'' else ''State changed'')"

definition irm_classifier :: "json_scanner \<Rightarrow> classifier" where
  "irm_classifier J previous cur =
     (let state = canonical_state J (ob_payload cur);
          out = (stamped cur state (state = state_resolved))\<lparr>ck_kind := state\<rparr>
      in case previous of
           None \<Rightarrow> out
         | Some p \<Rightarrow>
             let prev = canonical_state J (ob_payload p)
             in if prev \<noteq> state_resolved \<and> state = state_resolved
                then out\<lparr>ck_summary := ''Resolved'', ck_transition := Some EnteredTerminal, ck_reason := state_resolved\<rparr>
                else if prev = state_resolved \<and> state \<noteq> state_resolved
                then out\<lparr>ck_summary := ''Firing again'', ck_transition := Some LeftTerminal\<rparr>
                else if prev \<noteq> state then out\<lparr>ck_summary := alert_group_summary state\<rparr>
                else trivial_update out)"

section \<open>PostHog\<close>

definition alert_state :: "string \<Rightarrow> string" where
  "alert_state state =
     (let s = map (\<lambda>c. if c = CHR '' '' \<or> c = CHR ''-'' then CHR ''_'' else c) (to_lower (trim_space state))
      in if s = [] then ''not_firing'' else s)"

definition alert_state_of :: "json_scanner \<Rightarrow> bytes \<Rightarrow> string" where
  "alert_state_of J payload = (case canonical_fields J payload of (_, _, s) \<Rightarrow> alert_state s)"

definition posthog_alert_classifier :: "json_scanner \<Rightarrow> classifier" where
  "posthog_alert_classifier J previous cur =
     (let state = alert_state_of J (ob_payload cur);
          out = (stamped cur state (state \<noteq> state_firing))\<lparr>ck_kind := state\<rparr>
      in case previous of
           None \<Rightarrow> out
         | Some p \<Rightarrow>
             let prev = alert_state_of J (ob_payload p)
             in if prev = state_firing \<and> state \<noteq> state_firing
                then out\<lparr>ck_summary := ''Resolved'', ck_transition := Some EnteredTerminal, ck_reason := state\<rparr>
                else if prev \<noteq> state_firing \<and> state = state_firing
                then out\<lparr>ck_summary := ''Firing'', ck_transition := Some LeftTerminal\<rparr>
                else trivial_update out)"

definition issue_terminal :: "string \<Rightarrow> bool" where
  "issue_terminal s \<longleftrightarrow> s \<in> {''resolved'', ''suppressed'', ''archived''}"

text \<open>The last occurrence as the payload gives it, when every \<open>lastSeen\<close> in it is text.\<close>

fun json_text :: "json \<Rightarrow> bool" where
  "json_text (JStr _) = True"
| "json_text JNull = True"
| "json_text _ = False"

definition occurrence_stamp :: "json_scanner \<Rightarrow> observation \<Rightarrow> string" where
  "occurrence_stamp J obs =
     (let ms = obj_members (J (ob_payload obs)); stamp = trim_space (struct_field ''lastSeen'' set_str ms [])
      in if List.list_all (\<lambda>(k, v). to_lower k = ''lastseen'' \<longrightarrow> json_text v) ms \<and> stamp \<noteq> [] then stamp
         else format_int (ob_observed obs))"

definition posthog_error_classifier :: "json_scanner \<Rightarrow> classifier" where
  "posthog_error_classifier J previous cur =
     (let state = canonical_state J (ob_payload cur);
          out = (stamped cur state (issue_terminal state))\<lparr>ck_kind := ''issue'',
            ck_occurrence := ob_external cur @ ''@'' @ occurrence_stamp J cur\<rparr>
      in case previous of
           None \<Rightarrow> out\<lparr>ck_kind := ''new''\<rparr>
         | Some p \<Rightarrow>
             let prev = canonical_state J (ob_payload p)
             in if \<not> issue_terminal prev \<and> issue_terminal state
                then out\<lparr>ck_kind := state, ck_summary := ''Resolved'', ck_transition := Some EnteredTerminal, ck_reason := state\<rparr>
                else if issue_terminal prev \<and> \<not> issue_terminal state
                then out\<lparr>ck_kind := ''regressed'', ck_summary := ''Regressed'', ck_transition := Some LeftTerminal\<rparr>
                else if occurrence_stamp J cur \<noteq> occurrence_stamp J p then out\<lparr>ck_kind := ''occurred''\<rparr>
                else trivial_update out)"

section \<open>What left an authoritative snapshot\<close>

text \<open>
  Absence in the exec source and in both Grafana sources: the snapshot is the complete current set,
  so each item that left it is resolved.
\<close>

datatype absence_verdicts = Verdicts "(string \<times> observation) list" | VerdictPanic

definition resolve_absent :: "json_scanner \<Rightarrow> json_encoder \<Rightarrow> string \<Rightarrow> observation list \<Rightarrow> absence_verdicts" where
  "resolve_absent J enc state previous =
     fold (\<lambda>prev acc.
       case acc of VerdictPanic \<Rightarrow> VerdictPanic
       | Verdicts vs \<Rightarrow>
           (case with_state J enc (ob_payload prev) state of
              RewritePanic \<Rightarrow> VerdictPanic
            | Rewritten p \<Rightarrow> Verdicts (AList.update (ob_external prev) (prev\<lparr>ob_payload := p\<rparr>) vs))) previous (Verdicts [])"

end
