(* ===== verification/Classifier_Laws.thy ===== *)
theory Classifier_Laws
  imports Classifiers Retention Ingest Dispatch_Laws "HOL-Library.Multiset"
begin

text \<open>
  What the connectors' classifiers make of the inbox. A classifier that reports entering and
  leaving terminal states is the contract \<open>lifecycle_classifier\<close>; for every one of them the inbox's
  archive follows the state of the item as a small automaton does, whatever the resurface policy.
\<close>

section \<open>The automaton\<close>

record lifecycle_state =
  ls_archived :: bool
  ls_payload :: bytes

definition life_step :: "(bytes \<Rightarrow> bool) \<Rightarrow> (bytes \<Rightarrow> bool) \<Rightarrow> bytes \<Rightarrow> lifecycle_state option \<Rightarrow> lifecycle_state option" where
  "life_step terminal active p st =
     (case st of
        None \<Rightarrow> Some \<lparr>ls_archived = False, ls_payload = p\<rparr>
      | Some l \<Rightarrow> Some \<lparr>ls_archived = (if \<not> terminal (ls_payload l) \<and> terminal p then True
            else if terminal (ls_payload l) \<and> \<not> terminal p \<and> active p then False else ls_archived l), ls_payload = p\<rparr>)"

definition life_run :: "(bytes \<Rightarrow> bool) \<Rightarrow> (bytes \<Rightarrow> bool) \<Rightarrow> bytes list \<Rightarrow> lifecycle_state option \<Rightarrow> lifecycle_state option" where
  "life_run terminal active ps st = fold (life_step terminal active) ps st"

definition observe_all ::
  "classifier \<Rightarrow> string \<Rightarrow> string \<Rightarrow> resurface_policy \<Rightarrow> (int \<times> observation) list \<Rightarrow> db \<Rightarrow> (store_error, db) result" where
  "observe_all cl profile topic policy obs d =
     res_fold (\<lambda>(now, cur) d. res_bind (ingest_observation now now (Some cl) profile topic policy cur d) (\<lambda>(_, d'). Inr d')) obs d"

section \<open>One observation\<close>

lemma ingest_item:
  assumes ok: "db_ok d" and ne: "ob_external cur \<noteq> []" "ob_payload cur \<noteq> []"
    and res: "resolve_scoped profile (ob_kind cur) (ob_scope cur) (ob_external cur) d = (prev, d)"
    and new: "head_payload topic (ob_external cur) d \<noteq> Some (ob_payload cur)"
  shows "\<exists>r d' item. ingest_observation now wall (Some cl) profile topic policy cur d = Inr (r, d') \<and> db_ok d' \<and>
    item_by_identity profile (ob_kind cur) (ob_scope cur) (ob_external cur) d' = Some item \<and> it_payload item = ob_payload cur \<and>
    head_payload topic (ob_external cur) d' = Some (ob_payload cur) \<and>
    (let tg = apply_transition wall (triage_of prev) (complete_classification (cl (map_option observation_of prev) cur)) (effective_policy policy)
     in it_archived item = tg_archived tg \<and> it_actor item = tg_actor tg)"
proof -
  obtain item d2 where up: "upsert_item (ingest_row_of now wall cl profile policy cur prev) d = (item, d2)" by fastforce
  obtain r d' where i: "ingest_observation now wall (Some cl) profile topic policy cur d = Inr (r, d')" "db_ok d'"
      "db_items d' = db_items d2" "head_payload topic (ob_external cur) d' = Some (ob_payload cur)"
    using ingest_writes [OF ok ne new res up] by blast
  note facts = upsert_item_result [OF up]
  have "item_by_identity profile (ob_kind cur) (ob_scope cur) (ob_external cur) d' = Some item"
    by (rule find_identity_eq [OF i(2)])
      (use facts(1,2) i(3) in \<open>auto simp: ingest_row_of_def Let_def ingested_row_def item_identity_def\<close>)
  moreover have "it_payload item = ob_payload cur"
    using facts(3) by (simp add: ingest_row_of_def Let_def ingested_row_def)
  ultimately show ?thesis
    using i facts(5,6) by (auto simp: ingest_row_of_def Let_def ingested_row_def effective_policy_def)
qed

section \<open>The contract\<close>

locale lifecycle_classifier =
  fixes cl :: classifier and terminal active :: "bytes \<Rightarrow> bool"
  assumes first: "ck_transition (cl None cur) = Some TransitionNone"
    and later: "ck_transition (cl (Some p) cur) = Some
      (if \<not> terminal (ob_payload p) \<and> terminal (ob_payload cur) then EnteredTerminal
       else if terminal (ob_payload p) \<and> \<not> terminal (ob_payload cur) \<and> active (ob_payload cur) then LeftTerminal
       else TransitionNone)"
begin

definition tracks :: "string \<Rightarrow> string \<Rightarrow> string \<Rightarrow> string \<Rightarrow> string \<Rightarrow> db \<Rightarrow> lifecycle_state \<Rightarrow> bool" where
  "tracks profile topic kind scope key d l \<longleftrightarrow> db_ok d \<and> head_payload topic key d = Some (ls_payload l) \<and>
     (\<exists>item. item_by_identity profile kind scope key d = Some item \<and> it_payload item = ls_payload l \<and>
        (it_archived item \<noteq> None) = ls_archived l \<and> it_actor item \<noteq> Some ActorManual)"

lemma first_tracked:
  assumes "db_ok d" and "\<forall>x\<in>set (db_items d). it_external x \<noteq> ob_external cur" and "head_payload topic (ob_external cur) d = None"
    and "ob_external cur \<noteq> []" and "ob_payload cur \<noteq> []"
  shows "\<exists>r d'. ingest_observation now now (Some cl) profile topic policy cur d = Inr (r, d') \<and>
    tracks profile topic (ob_kind cur) (ob_scope cur) (ob_external cur) d' \<lparr>ls_archived = False, ls_payload = ob_payload cur\<rparr>"
proof -
  have res: "resolve_scoped profile (ob_kind cur) (ob_scope cur) (ob_external cur) d = (None, d)"
    using assms(2) by (intro no_item_unresolved) auto
  have "ck_transition (complete_classification (cl None cur)) = Some TransitionNone"
    using first by (simp add: complete_classification_def or_default_def)
  then show ?thesis
    using ingest_item [OF assms(1,4,5) res, where topic = topic and now = now and wall = now and cl = cl and policy = policy] assms(3)
    by (auto simp: tracks_def Let_def triage_of_def apply_transition_def)
qed

lemma next_tracked:
  assumes t: "tracks profile topic (ob_kind cur) (ob_scope cur) (ob_external cur) d l" and ne: "ob_external cur \<noteq> []" "ob_payload cur \<noteq> []"
  shows "\<exists>r d'. ingest_observation now now (Some cl) profile topic policy cur d = Inr (r, d') \<and>
    tracks profile topic (ob_kind cur) (ob_scope cur) (ob_external cur) d' (the (life_step terminal active (ob_payload cur) (Some l)))"
proof (cases "ls_payload l = ob_payload cur")
  case True
  then show ?thesis using t ne by (auto simp: tracks_def ingest_observation_def life_step_def)
next
  case False
  obtain item where item: "item_by_identity profile (ob_kind cur) (ob_scope cur) (ob_external cur) d = Some item"
      "it_payload item = ls_payload l" "(it_archived item \<noteq> None) = ls_archived l" "it_actor item \<noteq> Some ActorManual"
    using t by (auto simp: tracks_def)
  have ok: "db_ok d" and head: "head_payload topic (ob_external cur) d \<noteq> Some (ob_payload cur)"
    using t False by (auto simp: tracks_def)
  have res: "resolve_scoped profile (ob_kind cur) (ob_scope cur) (ob_external cur) d = (Some item, d)"
    using item(1) by (simp add: resolve_scoped_def)
  have tr: "ck_transition (complete_classification (cl (Some (observation_of item)) cur)) = Some
      (if \<not> terminal (ls_payload l) \<and> terminal (ob_payload cur) then EnteredTerminal
       else if terminal (ls_payload l) \<and> \<not> terminal (ob_payload cur) \<and> active (ob_payload cur) then LeftTerminal
       else TransitionNone)"
    using later by (simp add: complete_classification_def or_default_def observation_of_def item(2))
  have check: "archive_check item" using items_archive_check [OF ok] find_item_mem [OF item(1)] by blast
  obtain r d' item' where i: "ingest_observation now now (Some cl) profile topic policy cur d = Inr (r, d')" "db_ok d'"
      "item_by_identity profile (ob_kind cur) (ob_scope cur) (ob_external cur) d' = Some item'" "it_payload item' = ob_payload cur"
      "head_payload topic (ob_external cur) d' = Some (ob_payload cur)"
    and tg: "it_archived item' = tg_archived (apply_transition now (triage_of (Some item))
        (complete_classification (cl (Some (observation_of item)) cur)) (effective_policy policy))"
      "it_actor item' = tg_actor (apply_transition now (triage_of (Some item))
        (complete_classification (cl (Some (observation_of item)) cur)) (effective_policy policy))"
    using ingest_item [OF ok ne res head, where now = now and wall = now and cl = cl and policy = policy] by (auto simp: Let_def)
  have "(it_archived item' \<noteq> None) = ls_archived (the (life_step terminal active (ob_payload cur) (Some l)))"
    "it_actor item' \<noteq> Some ActorManual"
    unfolding tg using item(3,4) check tr
    by (auto simp: apply_transition_def Let_def life_step_def triage_of_def archive_check_def split: if_splits)
  then show ?thesis using i by (auto simp: tracks_def life_step_def)
qed

lemma rest_tracked:
  assumes "tracks profile topic kind scope key d l" and "key \<noteq> []"
    and "\<forall>(now, o')\<in>set obs. ob_kind o' = kind \<and> ob_scope o' = scope \<and> ob_external o' = key \<and> ob_payload o' \<noteq> []"
  shows "\<exists>d'. observe_all cl profile topic policy obs d = Inr d' \<and>
    tracks profile topic kind scope key d' (the (life_run terminal active (map (ob_payload \<circ> snd) obs) (Some l)))"
  using assms(1,3)
proof (induction obs arbitrary: d l)
  case (Cons e obs)
  obtain now cur where e: "e = (now, cur)" by fastforce
  from Cons.prems e have cur: "ob_kind cur = kind" "ob_scope cur = scope" "ob_external cur = key" "ob_payload cur \<noteq> []" by auto
  obtain r d' where i: "ingest_observation now now (Some cl) profile topic policy cur d = Inr (r, d')"
      "tracks profile topic kind scope key d' (the (life_step terminal active (ob_payload cur) (Some l)))"
    using next_tracked [of profile topic cur d l now policy] Cons.prems(1) assms(2) cur by auto
  obtain l' where l': "life_step terminal active (ob_payload cur) (Some l) = Some l'" by (auto simp: life_step_def)
  have "\<exists>d''. observe_all cl profile topic policy obs d' = Inr d'' \<and>
      tracks profile topic kind scope key d'' (the (life_run terminal active (map (ob_payload \<circ> snd) obs) (Some l')))"
    using Cons.IH [of d' l'] i(2) Cons.prems(2) by (simp add: l' comp_def)
  then show ?case using i(1) by (auto simp: observe_all_def e life_run_def l' comp_def)
qed (simp add: observe_all_def life_run_def)

lemma history_tracked:
  assumes "db_ok d" and "\<forall>x\<in>set (db_items d). it_external x \<noteq> key" and "head_payload topic key d = None" and "key \<noteq> []" and "obs \<noteq> []"
    and "\<forall>(now, o')\<in>set obs. ob_kind o' = kind \<and> ob_scope o' = scope \<and> ob_external o' = key \<and> ob_payload o' \<noteq> []"
  shows "\<exists>d' item l. observe_all cl profile topic policy obs d = Inr d' \<and> item_by_identity profile kind scope key d' = Some item \<and>
    life_run terminal active (map (ob_payload \<circ> snd) obs) None = Some l \<and>
    it_payload item = ls_payload l \<and> (it_archived item \<noteq> None) = ls_archived l"
proof -
  obtain now cur rest where obs: "obs = (now, cur) # rest" using assms(5) by (metis list.exhaust prod.exhaust)
  with assms(6) have cur: "ob_kind cur = kind" "ob_scope cur = scope" "ob_external cur = key" "ob_payload cur \<noteq> []" by auto
  obtain r d1 where i: "ingest_observation now now (Some cl) profile topic policy cur d = Inr (r, d1)"
      "tracks profile topic kind scope key d1 \<lparr>ls_archived = False, ls_payload = ob_payload cur\<rparr>"
    using first_tracked [of d cur topic now profile policy] assms(1-4) cur by auto
  have "\<forall>(now, o')\<in>set rest. ob_kind o' = kind \<and> ob_scope o' = scope \<and> ob_external o' = key \<and> ob_payload o' \<noteq> []"
    using assms(6) obs by simp
  from rest_tracked [OF i(2) assms(4) this, of policy]
  obtain d' where d': "observe_all cl profile topic policy rest d1 = Inr d'"
    "tracks profile topic kind scope key d'
       (the (life_run terminal active (map (ob_payload \<circ> snd) rest) (Some \<lparr>ls_archived = False, ls_payload = ob_payload cur\<rparr>)))"
    by blast
  have keep: "\<exists>l'. fold (life_step terminal active) ps (Some l) = Some l'" for ps l
    by (induction ps arbitrary: l) (auto simp: life_step_def)
  then obtain l where l: "life_run terminal active (map (ob_payload \<circ> snd) rest) (Some \<lparr>ls_archived = False, ls_payload = ob_payload cur\<rparr>) = Some l"
    unfolding life_run_def by blast
  then have "life_run terminal active (map (ob_payload \<circ> snd) obs) None = Some l" by (simp add: obs life_run_def life_step_def)
  moreover have "observe_all cl profile topic policy obs d = Inr d'" using i(1) d'(1) by (simp add: obs observe_all_def)
  ultimately show ?thesis using d'(2) by (auto simp: l tracks_def)
qed

end

section \<open>The classifiers of the connectors\<close>

definition forge_done :: "json_scanner \<Rightarrow> bytes \<Rightarrow> bool" where
  "forge_done J p \<longleftrightarrow> forge_terminal (fg_state (decode_forge J p))"

definition forge_open :: "json_scanner \<Rightarrow> bytes \<Rightarrow> bool" where
  "forge_open J p \<longleftrightarrow> fg_state (decode_forge J p) = ''open''"

lemmas forge_defs = Let_def blank_classification_def forge_blank_def entered_terminal_def reopened_def relabelled_def noteworthy_def
  github_activity_def forge_done_def forge_open_def

interpretation github_life: lifecycle_classifier "github_classifier J enc" "forge_done J" "forge_open J" for J enc
  by unfold_locales (simp_all add: github_classifier_def forge_defs)

interpretation gitea_life: lifecycle_classifier "gitea_classifier J enc" "forge_done J" "forge_open J" for J enc
  by unfold_locales (simp_all add: gitea_classifier_def forge_defs)

lemmas stamped_defs = Let_def blank_classification_def stamped_def trivial_update_def

interpretation canonical_life: lifecycle_classifier "canonical_classifier J" "\<lambda>p. canonical_terminal (canonical_state J p)" "\<lambda>_. True" for J
  by unfold_locales (simp_all add: canonical_classifier_def stamped_defs)

interpretation grafana_life: lifecycle_classifier "grafana_classifier J" "\<lambda>p. canonical_state J p = state_resolved" "\<lambda>_. True" for J
  by unfold_locales (simp_all add: grafana_classifier_def stamped_defs)

interpretation irm_life: lifecycle_classifier "irm_classifier J" "\<lambda>p. canonical_state J p = state_resolved" "\<lambda>_. True" for J
  by unfold_locales (simp_all add: irm_classifier_def stamped_defs)

interpretation posthog_alert_life: lifecycle_classifier "posthog_alert_classifier J" "\<lambda>p. alert_state_of J p \<noteq> state_firing" "\<lambda>_. True" for J
  by unfold_locales (simp_all add: posthog_alert_classifier_def stamped_defs)

interpretation posthog_error_life: lifecycle_classifier "posthog_error_classifier J" "\<lambda>p. issue_terminal (canonical_state J p)" "\<lambda>_. True" for J
  by unfold_locales (simp_all add: posthog_error_classifier_def stamped_defs)

text \<open>
  Claim C29: the archive follows the forge. Take any history of observations of one GitHub item that
  the inbox did not know, and any resurface policy. Ingesting it always succeeds, and the item is
  archived exactly when the automaton that archives on entering closed or merged and brings back
  only on open says so: an item closed when first seen stays, and one that leaves closed for a
  state the code does not know stays archived.
\<close>

theorem github_archive_follows_state:
  assumes "db_ok d" and "\<forall>x\<in>set (db_items d). it_external x \<noteq> key" and "head_payload topic key d = None" and "key \<noteq> []" and "obs \<noteq> []"
    and "\<forall>(now, o')\<in>set obs. ob_kind o' = kind \<and> ob_scope o' = scope \<and> ob_external o' = key \<and> ob_payload o' \<noteq> []"
  shows "\<exists>d' item l. observe_all (github_classifier J enc) profile topic policy obs d = Inr d' \<and>
    item_by_identity profile kind scope key d' = Some item \<and>
    life_run (forge_done J) (forge_open J) (map (ob_payload \<circ> snd) obs) None = Some l \<and>
    it_payload item = ls_payload l \<and> (it_archived item \<noteq> None) = ls_archived l"
  by (rule github_life.history_tracked [OF assms])

text \<open>Where every state that is not terminal is active, the automaton has a closed form.\<close>

lemma life_run_closed:
  assumes "ps \<noteq> []"
  shows "life_run terminal (\<lambda>_. True) ps None =
    Some \<lparr>ls_archived = (terminal (last ps) \<and> (\<exists>p\<in>set (butlast ps). \<not> terminal p)), ls_payload = last ps\<rparr>"
  using assms
proof (induction ps rule: rev_induct)
  case (snoc p ps)
  show ?case
  proof (cases "ps = []")
    case False
    then have "life_run terminal (\<lambda>_. True) (ps @ [p]) None = life_step terminal (\<lambda>_. True) p
        (Some \<lparr>ls_archived = (terminal (last ps) \<and> (\<exists>p\<in>set (butlast ps). \<not> terminal p)), ls_payload = last ps\<rparr>)"
      using snoc.IH by (simp add: life_run_def)
    moreover have "(\<exists>q\<in>set ps. \<not> terminal q) \<longleftrightarrow> (\<exists>q\<in>set (butlast ps). \<not> terminal q) \<or> \<not> terminal (last ps)"
      using False append_butlast_last_id [of ps] by (metis in_set_butlastD last_in_set set_append Un_iff list.set_intros(1) in_set_conv_decomp_last insert_iff list.simps(15) empty_iff empty_set)
    ultimately show ?thesis by (auto simp: life_step_def)
  qed (simp add: life_run_def life_step_def)
qed simp

text \<open>
  Claim C28: an item of the canonical contract that nobody triages is archived exactly when it is
  finished and was once seen unfinished. Take any history of observations of one item that the inbox
  did not know, with no triage in between. However often the item was reopened, only the last state
  and whether any earlier one was active decide, and the resurface policy, which concerns archives
  made by hand, plays no part.
\<close>

theorem canonical_archived_iff:
  assumes "db_ok d" and "\<forall>x\<in>set (db_items d). it_external x \<noteq> key" and "head_payload topic key d = None" and "key \<noteq> []" and "obs \<noteq> []"
    and "\<forall>(now, o')\<in>set obs. ob_kind o' = kind \<and> ob_scope o' = scope \<and> ob_external o' = key \<and> ob_payload o' \<noteq> []"
  shows "\<exists>d' item. observe_all (canonical_classifier J) profile topic policy obs d = Inr d' \<and>
    item_by_identity profile kind scope key d' = Some item \<and>
    (it_archived item \<noteq> None \<longleftrightarrow> canonical_terminal (canonical_state J (ob_payload (snd (last obs)))) \<and>
       (\<exists>e\<in>set (butlast obs). \<not> canonical_terminal (canonical_state J (ob_payload (snd e)))))"
proof -
  obtain d' item l where h: "observe_all (canonical_classifier J) profile topic policy obs d = Inr d'"
      "item_by_identity profile kind scope key d' = Some item"
      "life_run (\<lambda>p. canonical_terminal (canonical_state J p)) (\<lambda>_. True) (map (ob_payload \<circ> snd) obs) None = Some l"
      "(it_archived item \<noteq> None) = ls_archived l"
    using canonical_life.history_tracked [OF assms, where policy = policy and J = J and profile = profile] by blast
  have "ls_archived l = ls_archived (the (life_run (\<lambda>p. canonical_terminal (canonical_state J p)) (\<lambda>_. True) (map (ob_payload \<circ> snd) obs) None))"
    using h(3) by simp
  also have "\<dots> \<longleftrightarrow> canonical_terminal (canonical_state J (ob_payload (snd (last obs)))) \<and>
      (\<exists>e\<in>set (butlast obs). \<not> canonical_terminal (canonical_state J (ob_payload (snd e))))"
    using assms(5) by (simp add: life_run_closed last_map flip: map_butlast)
  finally have "ls_archived l \<longleftrightarrow> canonical_terminal (canonical_state J (ob_payload (snd (last obs)))) \<and>
      (\<exists>e\<in>set (butlast obs). \<not> canonical_terminal (canonical_state J (ob_payload (snd e))))" .
  then show ?thesis using h by blast
qed


section \<open>Labels\<close>

text \<open>
  The comparison of label lists counts them down one by one; it says exactly whether they are the
  same multiset.
\<close>

lemma count_down:
  "snd (fold (\<lambda>v (m, same). let n = m v - 1 in (m(v := n), same \<and> 0 \<le> n)) ys (m, b)) \<longleftrightarrow>
   b \<and> (\<forall>v\<in>set ys. int (count_list ys v) \<le> m v)"
proof (induction ys arbitrary: m b)
  case (Cons y ys)
  let ?f = "\<lambda>v (m, same). let n = m v - 1 in (m(v := n), same \<and> 0 \<le> n)"
  have "snd (fold ?f (y # ys) (m, b)) \<longleftrightarrow> snd (fold ?f ys (m(y := m y - 1), b \<and> 0 \<le> m y - 1))"
    by (simp add: Let_def)
  also have "\<dots> \<longleftrightarrow> (b \<and> 0 \<le> m y - 1) \<and> (\<forall>v\<in>set ys. int (count_list ys v) \<le> (m(y := m y - 1)) v)" by (rule Cons.IH)
  also have "\<dots> \<longleftrightarrow> b \<and> (\<forall>v\<in>set (y # ys). int (count_list (y # ys) v) \<le> m v)"
    by (cases "y \<in> set ys") (auto simp: count_list_0_iff)
  finally show ?case .
qed simp

text \<open>
  Two label lists are the same for the classifiers exactly when they are permutations of
  each other.
\<close>

theorem same_labels_iff: "same_labels xs ys \<longleftrightarrow> mset xs = mset ys"
proof -
  have sub: "(\<forall>v\<in>set ys. count_list ys v \<le> count_list xs v) \<longleftrightarrow> mset ys \<subseteq># mset xs"
    by (auto simp: subseteq_mset_def count_mset_0_iff count_mset [symmetric]) (metis count_mset_0_iff count_mset le0)
  have "same_labels xs ys \<longleftrightarrow> size (mset xs) = size (mset ys) \<and> mset ys \<subseteq># mset xs"
    unfolding same_labels_def count_down using sub by simp
  moreover have "mset ys \<subseteq># mset xs \<Longrightarrow> size (mset xs) = size (mset ys) \<Longrightarrow> mset xs = mset ys"
    using mset_subset_size [of "mset ys" "mset xs"] by (auto simp: subset_mset.le_less)
  ultimately show ?thesis by (metis size_mset subset_mset.order_refl)
qed


section \<open>Resolving what left\<close>

lemma fold_updates: "map_of (fold (\<lambda>(k, w). AList.update k w) ms acc) n =
    (case map_of (rev ms) n of None \<Rightarrow> map_of acc n | Some v \<Rightarrow> Some v)"
  by (induction ms arbitrary: acc) (auto simp: update_conv map_add_def split: option.splits)

lemma set_member_field:
  "raw_field (set_member name v ms) n = (if n = name then Some v else raw_field ms n)"
proof -
  let ?m = "AList.update name v (fold (\<lambda>(k, w). AList.update k w) ms [])"
  have m: "map_of ?m n = (if n = name then Some v else map_of (rev ms) n)"
    by (simp add: update_conv fold_updates split: option.split)
  have "raw_field (set_member name v ms) n = (if n \<in> set (amap_keys ?m) then Some (the (map_of ?m n)) else None)"
    by (simp add: raw_field_def set_member_def Let_def rev_map map_of_map_restrict restrict_map_def)
  also have "\<dots> = map_of ?m n" by (simp only: set_amap_keys flip: dom_map_of_conv_image_fst) (auto simp: domIff)
  finally show ?thesis unfolding m by (simp add: raw_field_def)
qed

text \<open>
  Resolving an item keeps the item. Rewriting the state of a payload that is an object
  gives an object whose state reads as the one written and all of whose other members read as
  before, provided what the encoder wrote reads back; so an absent item is archived as resolved with
  its title, its link and whatever else a later node looks at.
\<close>

theorem with_state_keeps:
  assumes "J p = Some (JObj ms)"
    and "J (enc (JObj (set_member ''state'' (JStr s) ms))) = Some (JObj (set_member ''state'' (JStr s) ms))"
  shows "\<exists>q. with_state J enc p s = Rewritten q \<and> canonical_state J q = to_lower (trim_space s) \<and>
      (\<forall>n. n = ''state'' \<or> raw_field (obj_members (J q)) n = raw_field (obj_members (J p)) n)"
proof -
  let ?q = "enc (JObj (set_member ''state'' (JStr s) ms))"
  have J: "obj_members (J ?q) = set_member ''state'' (JStr s) ms" using assms(2) by (simp add: obj_members_def)
  have "canonical_state J ?q = to_lower (trim_space (trim_space s))"
    by (simp add: canonical_state_def canonical_fields_def Let_def J set_member_field canonical_str_def)
  then have "canonical_state J ?q = to_lower (trim_space s)" by (simp add: trim_space_idem)
  moreover have "obj_members (J p) = ms" using assms(1) by (simp add: obj_members_def)
  ultimately show ?thesis using assms(1) by (auto simp: with_state_def J set_member_field)
qed

text \<open>
  A resolution can reuse its item's occurrence key. When a payload carries its own \<open>updatedAt\<close>, the
  observation that resolves the absent item has the key of the observation that was made of the
  same payload while the item was listed, although the item has changed; a queued action is kept
  once per key, so an action the first observation fired is not fired by the resolution.
\<close>

lemma resolution_reuses_key:
  assumes "int_field (J p) ''updatedAt'' \<noteq> 0" and "o1 = observation_from_msg J t1 key p kind scope" and "o2 = observation_from_msg J t2 key p kind scope"
  shows "ck_occurrence (canonical_classifier J before o1) =
    ck_occurrence (canonical_classifier J (Some prev) (o2\<lparr>ob_payload := q\<rparr>))"
  using assms by (cases before) (simp_all add: canonical_classifier_def stamped_defs observed_key_def observation_from_msg_def feed_fields_def)

end
