(* ===== verification/Exec_Source.thy ===== *)
theory Exec_Source
  imports Classifier_Laws
begin

text \<open>
  The command source (\<open>sources/exec\<close>): a command's standard output is the complete set of its items.
  The process is a parameter, given as the chunks it writes and how it ended; so are the scanners of
  \<open>encoding/json\<close>, one of them cutting an array into its raw entries. What fails, fails before the
  first item is emitted.
\<close>

section \<open>Output\<close>

definition max_stdout :: nat where "max_stdout = 1048576"
definition max_stderr_excerpt :: nat where "max_stderr_excerpt = 2048"

record capped_writer =
  cw_buf :: bytes
  cw_max :: nat
  cw_overflowed :: bool

definition capped :: "nat \<Rightarrow> capped_writer" where
  "capped n = \<lparr>cw_buf = [], cw_max = n, cw_overflowed = False\<rparr>"

definition capped_write :: "bytes \<Rightarrow> capped_writer \<Rightarrow> capped_writer" where
  "capped_write p w =
     (if length (cw_buf w) < cw_max w
      then let remaining = cw_max w - length (cw_buf w)
           in if remaining < length p
              then w\<lparr>cw_overflowed := True, cw_buf := cw_buf w @ take remaining p\<rparr>
              else w\<lparr>cw_buf := cw_buf w @ p\<rparr>
      else if 0 < length p then w\<lparr>cw_overflowed := True\<rparr> else w)"

datatype process_end = ExitedZero | ProcessFailed string

record process_run =
  px_stdout :: "bytes list"
  px_stderr :: "bytes list"
  px_end :: process_end
  px_cancelled :: bool
  px_deadline :: bool

datatype exec_error =
    HomeUnknown string
  | StdoutTooLong
  | RunCancelled
  | RunTimedOut string
  | CommandFailed string string
  | PrintedNothing
  | NotAnArray string
  | InvalidJson
  | NotAnObject nat string
  | MissingId nat
  | SharedId nat nat string

definition stderr_suffix :: "capped_writer \<Rightarrow> string" where
  "stderr_suffix w = (let t = trim_space (cw_buf w) in if t = [] then [] else '': '' @ t)"

text \<open>A leading tilde is the home directory, whose lookup may fail.\<close>

definition expand_home :: "(string, string) result \<Rightarrow> (string \<Rightarrow> string \<Rightarrow> string) \<Rightarrow> string \<Rightarrow> (exec_error, string) result" where
  "expand_home home path_join dir =
     (if dir \<noteq> ''~'' \<and> \<not> has_prefix ''~/'' dir then Inr dir
      else case home of Inl e \<Rightarrow> Inl (HomeUnknown e) | Inr h \<Rightarrow> Inr (path_join h (drop 1 dir)))"

definition exec_run :: "(exec_error, string) result \<Rightarrow> (string \<Rightarrow> process_run) \<Rightarrow> (exec_error, bytes) result" where
  "exec_run dir command =
     res_bind dir (\<lambda>d.
       let p = command d;
           out = fold capped_write (px_stdout p) (capped max_stdout);
           err = fold capped_write (px_stderr p) (capped max_stderr_excerpt)
       in if cw_overflowed out then Inl StdoutTooLong
          else case px_end p of
                 ExitedZero \<Rightarrow> Inr (cw_buf out)
               | ProcessFailed e \<Rightarrow>
                   if px_cancelled p then Inl RunCancelled
                   else if px_deadline p then Inl (RunTimedOut (stderr_suffix err))
                   else Inl (CommandFailed e (stderr_suffix err)))"

section \<open>The snapshot\<close>

definition describe_json :: "bytes \<Rightarrow> string" where
  "describe_json fragment =
     (case fragment of
        [] \<Rightarrow> ''empty''
      | c # _ \<Rightarrow>
          if c = CHR ''{'' then ''a single object'' else if c = CHR ''['' then ''an array''
          else if c = CHR 0x22 then ''a string'' else if c = CHR ''n'' then ''null''
          else if c = CHR ''t'' \<or> c = CHR ''f'' then ''a boolean'' else ''a number or unquoted text'')"

record exec_item =
  xi_key :: string
  xi_payload :: bytes

definition entry_id :: "json_scanner \<Rightarrow> bytes \<Rightarrow> string" where
  "entry_id J entry = fst (canonical_fields J entry)"

fun decode_exec_entries :: "json_scanner \<Rightarrow> nat \<Rightarrow> (string, nat) amap \<Rightarrow> bytes list \<Rightarrow> (exec_error, exec_item list) result" where
  "decode_exec_entries J i seen [] = Inr []"
| "decode_exec_entries J i seen (raw # rest) =
     (let entry = trim_space raw
      in if entry = [] \<or> hd entry \<noteq> CHR ''{'' then Inl (NotAnObject i (describe_json entry))
         else if entry_id J entry = [] then Inl (MissingId i)
         else case map_of seen (entry_id J entry) of
                Some k \<Rightarrow> Inl (SharedId k i (entry_id J entry))
              | None \<Rightarrow>
                  res_bind (decode_exec_entries J (Suc i) ((entry_id J entry, i) # seen) rest)
                    (\<lambda>items. Inr (\<lparr>xi_key = entry_id J entry, xi_payload = entry\<rparr> # items)))"

definition decode_snapshot :: "(bytes \<Rightarrow> bytes list option) \<Rightarrow> json_scanner \<Rightarrow> bytes \<Rightarrow> (exec_error, exec_item list) result" where
  "decode_snapshot R J stdout =
     (let trimmed = trim_space stdout
      in if trimmed = [] then Inl PrintedNothing
         else if hd trimmed \<noteq> CHR ''['' then Inl (NotAnArray (describe_json trimmed))
         else case R trimmed of None \<Rightarrow> Inl InvalidJson | Some raw \<Rightarrow> decode_exec_entries J 0 [] raw)"

section \<open>Produce\<close>

definition exec_msg :: "string \<Rightarrow> exec_item \<Rightarrow> msg" where
  "exec_msg topic x = empty_msg\<lparr>m_key := xi_key x, m_topic := topic, m_source_kind := ''exec'', m_payload := xi_payload x\<rparr>"

primrec emit_items :: "string \<Rightarrow> exec_item list \<Rightarrow> produce" where
  "emit_items topic [] = Produced None"
| "emit_items topic (x # xs) =
     Emit (exec_msg topic x) (\<lambda>refused. case refused of None \<Rightarrow> emit_items topic xs | Some e \<Rightarrow> Produced (Some e))"

definition exec_produce ::
  "(exec_error \<Rightarrow> string) \<Rightarrow> (bytes \<Rightarrow> bytes list option) \<Rightarrow> json_scanner \<Rightarrow> string \<Rightarrow> (exec_error, bytes) result \<Rightarrow> produce" where
  "exec_produce say R J topic out =
     (case res_bind out (decode_snapshot R J) of
        Inl e \<Rightarrow> Produced (Some (SourceFailed (say e)))
      | Inr items \<Rightarrow> emit_items topic items)"

text \<open>A command node's instance: scoped by the node, classified canonically, absence resolved.\<close>

definition exec_absence :: "json_scanner \<Rightarrow> json_encoder \<Rightarrow> observation list \<Rightarrow> (string, verdict) amap" where
  "exec_absence J enc prevs =
     (case resolve_absent J enc terminal_state prevs of
        VerdictPanic \<Rightarrow> []
      | Verdicts vs \<Rightarrow> map (\<lambda>(k, cur). (k, \<lparr>vd_current = Some cur, vd_terminal = True\<rparr>)) vs)"

definition exec_instance ::
  "(exec_error \<Rightarrow> string) \<Rightarrow> (bytes \<Rightarrow> bytes list option) \<Rightarrow> json_scanner \<Rightarrow> json_encoder \<Rightarrow> string \<Rightarrow> string \<Rightarrow> resurface_policy \<Rightarrow> int \<Rightarrow>
   (exec_error, bytes) result \<Rightarrow> pull_instance" where
  "exec_instance say R J enc flow node policy interval out =
     \<lparr>pi_type = ''sources.exec'', pi_flow = flow, pi_node = node, pi_profile = flow, pi_kind = ''exec'', pi_scope = node,
      pi_policy = policy, pi_min_interval = interval, pi_classifier = Some (canonical_classifier J),
      pi_produce = exec_produce say R J (''source:'' @ flow @ ''/'' @ node) out, pi_absence = Some (exec_absence J enc)\<rparr>"

end
