(* ===== verification/Exec_Laws.thy ===== *)
theory Exec_Laws
  imports Exec_Source Ingest_Laws
begin

text \<open>
  What the command source guarantees: output is kept up to its cap and never silently cut, a run is
  accepted exactly when it prints an array of identified objects and then none is dropped, and a
  completed drain leaves the printed items as the authoritative snapshot.
\<close>

section \<open>Capped output\<close>

lemma capped_write_step:
  assumes "length (cw_buf w) \<le> cw_max w"
  shows "cw_buf (capped_write p w) = take (cw_max w) (cw_buf w @ p)" and "cw_max (capped_write p w) = cw_max w"
    and "cw_overflowed (capped_write p w) \<longleftrightarrow> cw_overflowed w \<or> cw_max w < length (cw_buf w) + length p"
  using assms by (auto simp: capped_write_def Let_def)

lemma capped_writes:
  assumes "length (cw_buf w) \<le> cw_max w"
  shows "cw_buf (fold capped_write ps w) = take (cw_max w) (cw_buf w @ concat ps) \<and>
    (cw_overflowed (fold capped_write ps w) \<longleftrightarrow> cw_overflowed w \<or> cw_max w < length (cw_buf w) + length (concat ps))"
  using assms
proof (induction ps arbitrary: w)
  case (Cons p ps)
  note step = capped_write_step [OF Cons.prems, of p]
  have "length (cw_buf (capped_write p w)) \<le> cw_max (capped_write p w)" by (simp add: step(1,2))
  from Cons.IH [OF this] show ?case
    unfolding fold_Cons comp_apply step by (auto simp: take_append min_def)
qed simp

lemma exec_run_output:
  "exec_run dir command = Inr out \<longleftrightarrow> (\<exists>d. dir = Inr d \<and> px_end (command d) = ExitedZero \<and>
     length (concat (px_stdout (command d))) \<le> max_stdout \<and> out = concat (px_stdout (command d)))"
  using capped_writes [of "capped max_stdout"]
  by (cases dir) (auto simp: exec_run_def Let_def capped_def split: process_end.split)

section \<open>Decoding\<close>

definition entry_ok :: "json_scanner \<Rightarrow> bytes \<Rightarrow> bool" where
  "entry_ok J raw \<longleftrightarrow> (\<exists>cs. trim_space raw = CHR ''{'' # cs) \<and> entry_id J (trim_space raw) \<noteq> []"

definition entry_item :: "json_scanner \<Rightarrow> bytes \<Rightarrow> exec_item" where
  "entry_item J raw = \<lparr>xi_key = entry_id J (trim_space raw), xi_payload = trim_space raw\<rparr>"

lemma decode_exec_entries_exact:
  "decode_exec_entries J i seen raws = Inr items \<longleftrightarrow>
     (\<forall>r\<in>set raws. entry_ok J r) \<and> distinct (map (entry_id J \<circ> trim_space) raws) \<and>
     fst ` set seen \<inter> (entry_id J \<circ> trim_space) ` set raws = {} \<and> items = map (entry_item J) raws"
proof (induction raws arbitrary: i seen items)
  case (Cons r raws)
  show ?case
  proof (cases "entry_ok J r \<and> map_of seen (entry_id J (trim_space r)) = None")
    case True
    then obtain cs where r: "trim_space r = CHR ''{'' # cs" "entry_id J (trim_space r) \<noteq> []" by (auto simp: entry_ok_def)
    have new: "entry_id J (trim_space r) \<notin> fst ` set seen" using True by (simp add: map_of_eq_None_iff)
    have "decode_exec_entries J i seen (r # raws) = Inr items \<longleftrightarrow>
        (\<exists>rest. decode_exec_entries J (Suc i) ((entry_id J (trim_space r), i) # seen) raws = Inr rest \<and> items = entry_item J r # rest)"
      using True r by (auto simp: Let_def res_bind_Inr_conv entry_item_def)
    then show ?thesis using True new unfolding Cons.IH by (auto simp: comp_def)
  next
    case False
    then have "decode_exec_entries J i seen (r # raws) \<noteq> Inr items"
      by (auto simp: entry_ok_def Let_def neq_Nil_conv split: option.splits)
    moreover have "\<not> (entry_ok J r \<and> entry_id J (trim_space r) \<notin> fst ` set seen)"
      using False by (simp add: map_of_eq_None_iff)
    ultimately show ?thesis by (auto simp: comp_def)
  qed
qed auto

text \<open>
  A command's output is accepted whole or not at all. The decoding succeeds exactly when
  the output is a JSON array all of whose entries are objects with an id, no two the same, and then
  it yields every entry, in order, under its id; it never yields a smaller snapshot than the command
  printed.
\<close>

theorem decode_snapshot_strict:
  "decode_snapshot R J out = Inr items \<longleftrightarrow>
     (\<exists>cs raws. trim_space out = CHR ''['' # cs \<and> R (trim_space out) = Some raws \<and> (\<forall>r\<in>set raws. entry_ok J r) \<and>
        distinct (map (entry_id J \<circ> trim_space) raws) \<and> items = map (entry_item J) raws)"
  by (cases "trim_space out") (auto simp: decode_snapshot_def Let_def decode_exec_entries_exact split: option.splits if_splits)

section \<open>The drain of a command\<close>

lemma emit_items_all: "emit_items topic xs = emit_all (map (exec_msg topic) xs) None"
  by (induction xs) (simp_all add: fun_eq_iff split: option.split)

lemma exec_produce_all:
  "\<exists>ms err. exec_produce say R J topic out = emit_all ms err \<and> (\<forall>m\<in>set ms. m_topic m = topic) \<and>
    (err = None \<longrightarrow> (\<exists>items. res_bind out (decode_snapshot R J) = Inr items \<and> ms = map (exec_msg topic) items)) \<and>
    (err \<noteq> None \<longrightarrow> ms = [])"
proof (cases "res_bind out (decode_snapshot R J)")
  case (Inl e)
  then have "exec_produce say R J topic out = emit_all [] (Some (SourceFailed (say e)))" by (simp add: exec_produce_def)
  then show ?thesis by fastforce
next
  case (Inr items)
  then have "exec_produce say R J topic out = emit_all (map (exec_msg topic) items) None"
    by (simp add: exec_produce_def emit_items_all)
  then show ?thesis using Inr by (fastforce simp: exec_msg_def)
qed


lemma failed_never_completes:
  assumes "run_drains sched ts s = (ts', s')" and "n < length ts" and "ts ! n = drain_failed E i out e"
  shows "completed (ts' ! n) = None"
proof -
  let ?I = "\<lambda>ts s. n < length ts \<and> (ts ! n = drain_failed E i out e \<or> ts ! n = Drained out (Some e))"
  have "?I ts' s'"
  proof (rule run_drains_induct [OF assms(1), where I = ?I])
    show "?I ts s" using assms(2,3) by simp
    fix ts s k f now assume "?I ts s" "k < length ts" "ts ! k = DrainStep f"
    then show "?I (ts[k := fst (f now s)]) (snd (f now s))"
      by (cases "k = n") (auto simp: drain_failed_def)
  qed
  then show ?thesis by (auto simp: completed_def drain_failed_def)
qed

text \<open>
  Claim C27: a completed drain of a command leaves exactly what it printed. However the drains of a
  tick interleave, if the drain of a command's node completes, then the command exited with zero
  and printed no more than the cap, its output is an array of identified objects, and the newest
  row of its topic is a snapshot with one item per entry, no more and no fewer; so what is resolved
  as absent is what the command no longer lists.
\<close>

theorem exec_snapshot_exact:
  assumes "db_ok (ps_db s)" and "distinct (map instance_topic due)" and "n < length due"
    and "due ! n = exec_instance say R J enc flow node policy interval (exec_run dir command)"
    and "run_drains sched (map (drain_source E) due) s = (ts, s')" and "completed (ts ! n) = Some out"
  shows "\<exists>d items. dir = Inr d \<and> px_end (command d) = ExitedZero \<and> length (concat (px_stdout (command d))) \<le> max_stdout \<and>
    decode_snapshot R J (concat (px_stdout (command d))) = Inr items \<and>
    snapshot_last E (due ! n) (map (\<lambda>x. \<lparr>si_key = xi_key x, si_payload = xi_payload x\<rparr>) items) out s'"
proof -
  let ?topic = "instance_topic (due ! n)"
  have topic: "''source:'' @ flow @ ''/'' @ node = ?topic"
    by (simp add: assms(4) exec_instance_def instance_topic_def instance_id_def)
  obtain ms err where p: "pi_produce (due ! n) = emit_all ms err" "\<forall>m\<in>set ms. m_topic m = ?topic"
      "err = None \<Longrightarrow> \<exists>items. res_bind (exec_run dir command) (decode_snapshot R J) = Inr items \<and> ms = map (exec_msg ?topic) items"
      "err \<noteq> None \<Longrightarrow> ms = []"
  proof -
    have "pi_produce (due ! n) = exec_produce say R J ?topic (exec_run dir command)"
      unfolding topic [symmetric] by (simp add: assms(4) exec_instance_def)
    then show ?thesis
      using exec_produce_all [of say R J ?topic "exec_run dir command"] that by (elim exE conjE) metis
  qed
  have "err = None"
  proof (rule ccontr)
    assume "err \<noteq> None"
    then obtain e where "err = Some e" "ms = []" using p(4) by auto
    then have "map (drain_source E) due ! n = drain_failed E (due ! n) \<lparr>dr_appended = 0, dr_offset = 0\<rparr> e"
      using assms(3) p(1) by (simp add: drain_source_def)
    then have "completed (ts ! n) = None" using failed_never_completes [OF assms(5)] assms(3) by simp
    then show False using assms(6) by simp
  qed
  then obtain items where items: "res_bind (exec_run dir command) (decode_snapshot R J) = Inr items" "ms = map (exec_msg ?topic) items"
    using p(3) by blast
  have "emitted_items ms = map (\<lambda>x. \<lparr>si_key = xi_key x, si_payload = xi_payload x\<rparr>) items"
    by (simp add: items(2) emitted_items_def exec_msg_def)
  moreover have "snapshot_last E (due ! n) (emitted_items ms) out s'"
    using completed_snapshot [OF assms(1-3) p(1,2) assms(5,6)] by simp
  ultimately show ?thesis using items(1) by (auto simp: res_bind_Inr_conv exec_run_output)
qed

text \<open>Resolving never panics for what the command printed, whose entries are objects.\<close>

lemma resolve_absent_total:
  assumes "\<forall>o'\<in>set prevs. J (ob_payload o') \<noteq> Some JNull"
  shows "resolve_absent J enc state prevs \<noteq> VerdictPanic"
proof -
  have "fold (\<lambda>prev acc. case acc of VerdictPanic \<Rightarrow> VerdictPanic
       | Verdicts vs \<Rightarrow> (case with_state J enc (ob_payload prev) state of
              RewritePanic \<Rightarrow> VerdictPanic
            | Rewritten p \<Rightarrow> Verdicts (AList.update (ob_external prev) (prev\<lparr>ob_payload := p\<rparr>) vs))) prevs (Verdicts vs) \<noteq> VerdictPanic" for vs
    using assms
    by (induction prevs arbitrary: vs) (auto simp: with_state_def split: option.split json.split)
  then show ?thesis by (simp add: resolve_absent_def)
qed

end
