(* ===== verification/Classifier_Samples.thy ===== *)
theory Classifier_Samples
  imports Exec_Laws Ingest_Samples
begin

text \<open>Histories of single items and a command's run, at which the properties of the classifiers and of the command source are applied.\<close>

definition small_scanner :: json_scanner where
  "small_scanner = map_of
     [(''open'', JObj [(''state'', JStr ''open''), (''title'', JStr ''T'')]),
      (''shut'', JObj [(''state'', JStr ''Closed''), (''title'', JStr ''T'')]),
      (''odd'', JObj [(''state'', JStr ''draft'')]),
      (''gone'', JObj [(''state'', JStr ''resolved''), (''title'', JStr ''T'')]),
      (''{k}'', JObj [(''id'', JStr ''k'')]), (''{l}'', JObj [(''id'', JNum ''7'')])]"

definition item_seen :: "string \<Rightarrow> observation" where
  "item_seen p = \<lparr>ob_external = ''acme/x#1'', ob_title = ''T'', ob_url = [], ob_kind = ''github'', ob_scope = ''acct'',
     ob_observed = 3, ob_payload = p\<rparr>"

definition item_history :: "(int \<times> observation) list" where
  "item_history = [(1, item_seen ''open''), (2, item_seen ''shut''), (3, item_seen ''odd'')]"

lemma history_facts:
  "\<forall>x\<in>set (db_items empty_db). it_external x \<noteq> ''acme/x#1''" "head_payload topic ''acme/x#1'' empty_db = None"
  "\<forall>(now, o')\<in>set item_history. ob_kind o' = ''github'' \<and> ob_scope o' = ''acct'' \<and> ob_external o' = ''acme/x#1'' \<and> ob_payload o' \<noteq> []"
  "\<forall>(now, o')\<in>set (butlast item_history). ob_kind o' = ''github'' \<and> ob_scope o' = ''acct'' \<and> ob_external o' = ''acme/x#1'' \<and> ob_payload o' \<noteq> []"
  by (simp_all add: empty_db_def head_payload_def item_history_def item_seen_def)

lemma github_archive_follows_state_witness:
  "\<exists>d' item. observe_all (github_classifier small_scanner (\<lambda>_. ''d'')) ''inbox'' ''t'' PolicyNever item_history empty_db = Inr d' \<and>
    item_by_identity ''inbox'' ''github'' ''acct'' ''acme/x#1'' d' = Some item \<and> it_archived item \<noteq> None"
proof -
  have "''acme/x#1'' \<noteq> []" "item_history \<noteq> []" by (simp_all add: item_history_def)
  from github_archive_follows_state [OF empty_db_ok history_facts(1,2) this history_facts(3), where policy = PolicyNever
      and profile = "''inbox''" and J = small_scanner and enc = "\<lambda>_. ''d''"]
  obtain d' item l where h: "observe_all (github_classifier small_scanner (\<lambda>_. ''d'')) ''inbox'' ''t'' PolicyNever item_history empty_db = Inr d'"
    "item_by_identity ''inbox'' ''github'' ''acct'' ''acme/x#1'' d' = Some item"
    "life_run (forge_done small_scanner) (forge_open small_scanner) (map (ob_payload \<circ> snd) item_history) None = Some l"
    "(it_archived item \<noteq> None) = ls_archived l" by blast
  have "life_run (forge_done small_scanner) (forge_open small_scanner) (map (ob_payload \<circ> snd) item_history) None =
      Some \<lparr>ls_archived = True, ls_payload = ''odd''\<rparr>" by code_simp
  then show ?thesis using h by auto
qed

lemma canonical_archived_iff_witness:
  "\<exists>d' item. observe_all (canonical_classifier small_scanner) ''inbox'' ''t'' PolicyAll (butlast item_history) empty_db = Inr d' \<and>
    item_by_identity ''inbox'' ''github'' ''acct'' ''acme/x#1'' d' = Some item \<and> it_archived item \<noteq> None"
proof -
  have ne: "''acme/x#1'' \<noteq> []" "butlast item_history \<noteq> []" by (simp_all add: item_history_def)
  have states: "canonical_state small_scanner ''shut'' = ''closed''" "canonical_state small_scanner ''open'' = ''open''" by code_simp+
  have last: "ob_payload (snd (last (butlast item_history))) = ''shut''"
    and early: "(1, item_seen ''open'') \<in> set (butlast (butlast item_history))"
    by (simp add: item_history_def item_seen_def, simp add: item_history_def)
  from canonical_archived_iff [OF empty_db_ok history_facts(1,2) ne history_facts(4), where policy = PolicyAll
      and profile = "''inbox''" and J = small_scanner and topic = "''t''"]
  obtain d' item where h: "observe_all (canonical_classifier small_scanner) ''inbox'' ''t'' PolicyAll (butlast item_history) empty_db = Inr d'"
    "item_by_identity ''inbox'' ''github'' ''acct'' ''acme/x#1'' d' = Some item"
    "it_archived item \<noteq> None \<longleftrightarrow> canonical_terminal (canonical_state small_scanner (ob_payload (snd (last (butlast item_history))))) \<and>
       (\<exists>e\<in>set (butlast (butlast item_history)). \<not> canonical_terminal (canonical_state small_scanner (ob_payload (snd e))))"
    by (elim exE conjE) (rule that; assumption)
  have "canonical_terminal (canonical_state small_scanner (ob_payload (snd (last (butlast item_history)))))"
    unfolding last states by (simp add: canonical_terminal_def)
  moreover have "\<exists>e\<in>set (butlast (butlast item_history)). \<not> canonical_terminal (canonical_state small_scanner (ob_payload (snd e)))"
  proof (rule bexI [OF _ early])
    have "ob_payload (snd (1 :: int, item_seen ''open'')) = ''open''" by (simp add: item_seen_def)
    then show "\<not> canonical_terminal (canonical_state small_scanner (ob_payload (snd (1 :: int, item_seen ''open''))))"
      unfolding canonical_terminal_def by (simp only: states) simp
  qed
  ultimately show ?thesis using h by blast
qed

lemma with_state_keeps_witness:
  "\<exists>q. with_state small_scanner (\<lambda>_. ''gone'') ''open'' ''resolved'' = Rewritten q \<and> canonical_state small_scanner q = ''resolved'' \<and>
    raw_field (obj_members (small_scanner q)) ''title'' = Some (JStr ''T'')"
proof -
  have m: "set_member ''state'' (JStr ''resolved'') [(''state'', JStr ''open''), (''title'', JStr ''T'')] =
      [(''state'', JStr ''resolved''), (''title'', JStr ''T'')]" by code_simp
  have low: "to_lower (trim_space ''resolved'') = ''resolved''" by code_simp
  have opened: "small_scanner ''open'' = Some (JObj [(''state'', JStr ''open''), (''title'', JStr ''T'')])"
    and gone: "small_scanner ''gone'' = Some (JObj [(''state'', JStr ''resolved''), (''title'', JStr ''T'')])" by code_simp+
  have enc: "small_scanner ((\<lambda>_. ''gone'') (JObj (set_member ''state'' (JStr ''resolved'') [(''state'', JStr ''open''), (''title'', JStr ''T'')]))) =
      Some (JObj (set_member ''state'' (JStr ''resolved'') [(''state'', JStr ''open''), (''title'', JStr ''T'')]))"
    by (simp only: m gone)
  have title: "raw_field (obj_members (small_scanner ''open'')) ''title'' = Some (JStr ''T'')" by code_simp
  from with_state_keeps [where enc = "\<lambda>_. ''gone''", OF opened enc] obtain q where
      q: "with_state small_scanner (\<lambda>_. ''gone'') ''open'' ''resolved'' = Rewritten q" "canonical_state small_scanner q = ''resolved''"
      "\<forall>n. n = ''state'' \<or> raw_field (obj_members (small_scanner q)) n = raw_field (obj_members (small_scanner ''open'')) n"
    unfolding low by (elim exE conjE) (rule that; assumption)
  have "raw_field (obj_members (small_scanner q)) ''title'' = Some (JStr ''T'')"
    using spec [OF q(3), of "''title''"] title by simp
  then show ?thesis using q(1,2) by blast
qed

definition small_array :: "bytes \<Rightarrow> bytes list option" where
  "small_array = map_of [(''[a]'', [''{k}'', '' {l}''])]"

lemma decode_snapshot_strict_witness:
  "decode_snapshot small_array small_scanner '' [a]'' =
     Inr [\<lparr>xi_key = ''k'', xi_payload = ''{k}''\<rparr>, \<lparr>xi_key = ''7'', xi_payload = ''{l}''\<rparr>]"
proof -
  have "trim_space '' [a]'' = ''[a]''" "small_array ''[a]'' = Some [''{k}'', '' {l}'']" "trim_space '' {l}'' = ''{l}''"
    "trim_space ''{k}'' = ''{k}''" "entry_id small_scanner ''{k}'' = ''k''" "entry_id small_scanner ''{l}'' = ''7''" by code_simp+
  then show ?thesis by (subst decode_snapshot_strict) (simp add: entry_ok_def entry_item_def)
qed

definition sample_command :: "string \<Rightarrow> process_run" where
  "sample_command d = \<lparr>px_stdout = ['' ['', ''a]''], px_stderr = [], px_end = ExitedZero, px_cancelled = False, px_deadline = False\<rparr>"

definition sample_exec :: pull_instance where
  "sample_exec = exec_instance (\<lambda>_. ''bad'') small_array small_scanner (\<lambda>_. ''gone'') ''inbox'' ''cmd'' PolicyUnset 0
     (exec_run (Inr ''/'') sample_command)"

definition printed_exec :: pull_instance where
  "printed_exec = exec_instance (\<lambda>_. ''bad'') small_array small_scanner (\<lambda>_. ''gone'') ''inbox'' ''cmd'' PolicyUnset 0 (Inr '' [a]'')"

lemma sample_exec_printed: "sample_exec = printed_exec"
proof -
  have "exec_run (Inr ''/'') sample_command = Inr '' [a]''"
    unfolding exec_run_output by (simp add: sample_command_def max_stdout_def)
  then show ?thesis by (simp add: sample_exec_def printed_exec_def)
qed

definition exec_drained :: "drain_task list \<times> producer_state" where
  "exec_drained = run_drains (replicate 6 (0, 1)) (map (drain_source sample_producer) [printed_exec]) start_state"

lemma exec_completed: "map completed (fst exec_drained) = [Some \<lparr>dr_appended = 3, dr_offset = 3\<rparr>]"
  by code_simp

lemma exec_snapshot_exact_witness:
  "\<exists>items. decode_snapshot small_array small_scanner '' [a]'' = Inr items \<and>
    snapshot_last sample_producer sample_exec (map (\<lambda>x. \<lparr>si_key = xi_key x, si_payload = xi_payload x\<rparr>) items)
      \<lparr>dr_appended = 3, dr_offset = 3\<rparr> (snd exec_drained)"
proof -
  have run: "run_drains (replicate 6 (0, 1)) (map (drain_source sample_producer) [sample_exec]) start_state = (fst exec_drained, snd exec_drained)"
    by (simp add: exec_drained_def sample_exec_printed)
  have c: "completed (fst exec_drained ! 0) = Some \<lparr>dr_appended = 3, dr_offset = 3\<rparr>"
    using exec_completed by (cases "fst exec_drained") simp_all
  have d: "distinct (map instance_topic [sample_exec])" "0 < length [sample_exec]" by simp_all
  have e: "[sample_exec] ! 0 = exec_instance (\<lambda>_. ''bad'') small_array small_scanner (\<lambda>_. ''gone'') ''inbox'' ''cmd'' PolicyUnset 0
      (exec_run (Inr ''/'') sample_command)" by (simp add: sample_exec_def)
  have o: "concat (px_stdout (sample_command ''/'')) = '' [a]''" by (simp add: sample_command_def)
  from exec_snapshot_exact [OF start_ok d e run c] show ?thesis by (auto simp: o)
qed

end
