(* ===== verification/Spec2Isabelle.thy ===== *)
theory Spec2Isabelle
  imports Action_Samples Schedule_Samples Retention_Samples Ingest_Samples Engine_Loop_Samples Classifier_Samples
begin

text \<open>
  A verification library of Hive Desktop's core: the flow language and its runtime, the stores on
  SQLite, the engine that moves the event log through flows, the producer that fills the log, the
  worker that runs actions, scheduled chats and retention. Paths below are under \<open>src/internal/app\<close>.

  \<^bold>\<open>How the program works.\<close> A source node of a flow names a connector. On every tick the producer
  drains the due sources: each observed item goes through \<open>IngestObservation\<close>, which files it in
  the inbox and appends a row to the event log, and a completed source appends its snapshot. The
  engine reads the log page by page for every installed flow, runs the flow's graph over the page
  and commits what the run produced, together with the consumer's offset, in one transaction: feed
  memberships, queued commands, key-value writes of scripts and node runs. Installing a flow first
  replays the newest snapshots to rebuild its memberships. The output worker executes queued
  commands with retries; the detail pane executes actions explicitly and from drafts. Beside that
  run the scheduler of workspace chats and the retention pass.

  \<^bold>\<open>What models what.\<close>

  \<^item> \<open>Prelude\<close>, \<open>Strconv\<close>, \<open>Json\<close>, \<open>Sql\<close>: byte strings with the functions of \<open>strings\<close> the code
    calls, results, decimal numbers with their 64-bit bounds, what is read off JSON payloads, and
    SQL on row lists in rowid order (LIKE, GLOB, ORDER BY, LIMIT, update, delete).
  \<^item> \<open>Flow\<close>, \<open>Validate\<close>, \<open>Graph\<close>: \<open>flow/flow.go\<close>, \<open>nodes_*.go\<close>, \<open>validate.go\<close>, \<open>refs.go\<close>,
    \<open>slug.go\<close> and \<open>runtime/graph.go\<close>. Lemmas: what validation accepts, that the depth-first
    search for cycles always answers and is exact, that Kahn's algorithm orders exactly the
    acyclic flows, so an accepted flow executes.
  \<^item> \<open>Models\<close>, \<open>Kv\<close>, \<open>Github_Filter\<close>, \<open>Script\<close>, \<open>Run\<close>: \<open>data/models/pipeline.go\<close>,
    \<open>runtime/kv.go\<close>, \<open>filter.go\<close>, \<open>script.go\<close>, \<open>nodes.go\<close>, \<open>run.go\<close>, \<open>dryrun.go\<close> and
    \<open>store_node_kv.go\<close>. \<open>Run_Props\<close> and \<open>Run_Modes\<close> show that nothing on a wire is lost, that the
    counters of a run balance, that replays are inert and dry runs are faithful. The locales
    \<open>durable_kv\<close> and \<open>kv_writer\<close> state what a run relies on of a key-value store; the table, the
    dry run's seed and the empty store are their interpretations.
  \<^item> \<open>Database\<close>, \<open>Event_Log\<close>, \<open>Claims\<close>, \<open>Inbox\<close>, \<open>Commands\<close>, \<open>Commit\<close>, \<open>Activity\<close>: the tables of
    \<open>data/queries/migrations\<close> as one record of row lists, and the stores of \<open>data/stores\<close> over
    them. \<open>Inbox_Props\<close>, \<open>Inbox_Laws\<close>, \<open>Command_Laws\<close>, \<open>Commit_Laws\<close> show what each transaction
    does on every branch. \<open>Store_Reach\<close> collects all writes in one step relation and shows the
    schema to be the type of every reachable database.
  \<^item> \<open>Engine\<close>, with \<open>Engine_Laws\<close> and \<open>Replay_Laws\<close>: \<open>runtime/engine.go\<close>. A pump consumes the next
    interval of the log once, a drain ends, an installation recomputes memberships, and a flow that
    cannot be installed keeps its last good runner. \<open>Engine_Loop\<close> is the goroutine as a step relation
    interleaved with the other writers, which enter through the locales \<open>log_writer\<close> and
    \<open>quiet_writer\<close> that the producer, snapshots, retention and triage interpret, and with the purge
    of deleted profiles: announced rows are routed, and a cancelled loop ends and commits nothing
    more, since the store refuses its context.
  \<^item> \<open>Ingest\<close> with \<open>Ingest_Laws\<close>: \<open>ingest/producer.go\<close> and \<open>resolver.go\<close>. A drain is a tree of atomic
    steps and a tick an interleaving of them, so the laws hold for every order in which the
    goroutines get the write slot.
  \<^item> \<open>Classifiers\<close>, \<open>Exec_Source\<close> with \<open>Classifier_Laws\<close>, \<open>Exec_Laws\<close>: \<open>sources/canonical\<close>, the classifiers
    of the connectors and \<open>sources/exec\<close>. The locale \<open>lifecycle_classifier\<close> is the contract of a
    classifier, interpreted on all seven; under it the inbox's archive refines a small automaton.
    A command's output is accepted whole or not at all.
  \<^item> \<open>Actions\<close>, \<open>Dispatch\<close>, \<open>Session_Draft\<close>, \<open>Worker\<close> and their laws: \<open>actions/\<close>, \<open>dispatch/\<close>. Inputs
    resolve as declared, executors bound what they keep, the queue drains within the attempts left
    (the locale \<open>draining\<close>, interpreted on the worker's queue), and an explicit run settles unless
    the store refuses to mark it, which recovery then does. \<open>Worker_Inv\<close> is the reachability relation
    of the queue by single transactions, after any of which the application may stop.
  \<^item> \<open>Schedule\<close> with \<open>Schedule_Laws\<close>, \<open>Schedule_Safety\<close>, \<open>Schedule_Reach\<close>: \<open>schedule/\<close>,
    \<open>schedule_adapters.go\<close> and \<open>store_schedule.go\<close>. Every occurrence of a five-field
    expression is fired or counted as missed once, quitting loses no chat that was started, and what
    a store that refuses calls of its own does lose is said.
  \<^item> \<open>Retention\<close>: \<open>data/queries/retention.go\<close>, the statements it runs, \<open>reset.go\<close>, and the purge of
    a profile in \<open>flows_service.go\<close>.
  \<^item> \<open>Samples\<close>, \<open>Store_Samples\<close>, \<open>Action_Samples\<close>, \<open>Schedule_Samples\<close>, \<open>Retention_Samples\<close>,
    \<open>Ingest_Samples\<close>, \<open>Engine_Loop_Samples\<close>, \<open>Classifier_Samples\<close>: concrete flows, databases and hosts at which the properties are applied.

  \<^bold>\<open>Conventions.\<close> A Go string is a list of bytes and the literals are ASCII; a nil slice and an
  empty one are told apart only where the code does. A Go map is an association list where its
  order is lost and the code sorts or looks up, and an argument order where the code ranges over
  it. A method that returns an error is a function into \<open>error + value\<close>; a transaction is
  a function on the whole database whose error discards every write. Ids are \<open>AUTOINCREMENT\<close>: the
  counters are part of the database and never go back. A payload that is empty is \<open>NULL\<close> to SQLite,
  which the columns with \<open>NOT NULL\<close> refuse. 64-bit integers are integers with their bounds written
  where the code parses or compares them; they are counters, offsets and times and do not come
  near the bounds elsewhere.

  \<^bold>\<open>Fuel and bounds.\<close> The cycle search is given fuel, and one more than the number of
  nodes is shown to be enough, so it always answers. A drain is given one more than its backlog, which is
  shown to suffice. The scheduler's walk is bounded by the code's own 100000 occurrences, the run
  history by 200 rows, attempts of a command by five; these are the code's constants.

  \<^bold>\<open>Parameters.\<close> What is not under \<open>src/\<close> is an argument: the JavaScript engine as the tree of calls
  it makes on its host, the JSON scanner and encoder, the cron library as a successor function,
  templates, connectors as trees of the messages they emit, subprocesses, the clipboard, the hive
  core's launcher, and every clock. Theorems that rely on one of them name the hypothesis, and its
  witness gives a concrete instance. Which store calls fail is an oracle where the code's answer to a
  failure matters (the scheduler, explicit runs, the engine's loop); a call on a cancelled context
  always fails, as \<open>database/sql\<close> documents. Elsewhere only the errors of the statements themselves
  are modelled.

  \<^bold>\<open>Not modelled.\<close> Goroutines as such: what they interleave is modelled as sequences of atomic
  steps where the interleaving matters (drains, the engine's loop, the queue, the scheduler), tickers
  are not. Logging, tracing and event publication. Network and
  process clients of the connectors, tmux and pseudo terminals, agent workspaces' files, the YAML
  documents of flows and actions with their watchers, settings, secrets and the keychain, the web
  listener and the desktop shell: their substance is I/O whose other side is not in the
  repository. The hive core is a vendored copy of another program. Each is listed, with its
  reason, among the components of the manifest.
\<close>

end
